(* ===== verification/Heimdall_Prelude.thy ===== *)
theory Heimdall_Prelude
  imports Complex_Main "HOL-Library.Multiset" "HOL-Library.List_Lexorder" "HOL-Library.Char_ord"
    "HOL-Library.Product_Lexorder" "HOL-Library.Sublist"
begin

text \<open>
  What the components share: the two lemma collections of the development, Go's decimal
  integer formatting (\<open>strconv.Itoa\<close>), Go's stable sort (\<open>sort.SliceStable\<close>) with its
  permutation, order and stability laws, and the signed 64-bit wrap-around of a Go integer.

  A Go \<open>string\<close> is a list of bytes, here \<^typ>\<open>string\<close>; Go compares strings byte by byte, a
  proper prefix first, which is the order of List_Lexorder over Char_ord.  A \<open>time.Time\<close> is
  the number of nanoseconds since Go's zero time, so that \<open>t.IsZero()\<close> is \<open>t = 0\<close>; a
  \<open>time.Duration\<close> is a number of nanoseconds.
\<close>

named_theorems model_simps \<open>unfolding equations of the model's non-recursive operations\<close>
named_theorems frame_simps \<open>what an operation leaves unchanged\<close>

type_synonym gotime = int
type_synonym duration = int

section \<open>Integers of fixed width\<close>

text \<open>The value a signed 64-bit Go integer holds after an operation whose exact result is \<open>x\<close>.\<close>

definition wrap64 :: "int \<Rightarrow> int" where
  "wrap64 x = (x + 2 ^ 63) mod 2 ^ 64 - 2 ^ 63"

lemma wrap64_id: "- (2 ^ 63) \<le> x \<Longrightarrow> x < 2 ^ 63 \<Longrightarrow> wrap64 x = x"
  by (simp add: wrap64_def)

lemma wrap64_range: "- (2 ^ 63) \<le> wrap64 x \<and> wrap64 x < 2 ^ 63"
  using pos_mod_bound [of "2 ^ 64" "x + 2 ^ 63"] pos_mod_sign [of "2 ^ 64" "x + 2 ^ 63"]
  by (simp add: wrap64_def)

text \<open>\<open>time.Time.Sub\<close> saturates at the bounds of a \<open>Duration\<close>.\<close>

definition time_sub :: "gotime \<Rightarrow> gotime \<Rightarrow> duration" where
  "time_sub a b = max (- (2 ^ 63)) (min (2 ^ 63 - 1) (a - b))"

section \<open>Decimal formatting\<close>

definition digit_char :: "nat \<Rightarrow> char" where
  "digit_char d = char_of (48 + d)"

fun show_nat :: "nat \<Rightarrow> string" where
  "show_nat n = (if n < 10 then [digit_char n] else show_nat (n div 10) @ [digit_char (n mod 10)])"

declare show_nat.simps [simp del]

definition itoa :: "int \<Rightarrow> string" where
  "itoa n = (if n < 0 then CHR ''-'' # show_nat (nat (- n)) else show_nat (nat n))"

definition undigit :: "char \<Rightarrow> nat" where
  "undigit c = of_char c - 48"

definition read_nat :: "string \<Rightarrow> nat" where
  "read_nat s = foldl (\<lambda>acc c. 10 * acc + undigit c) 0 s"

lemma undigit_digit_char [simp]: "d < 10 \<Longrightarrow> undigit (digit_char d) = d"
  by (simp add: undigit_def digit_char_def)

lemma read_show_nat [simp]: "read_nat (show_nat n) = n"
proof (induction n rule: show_nat.induct)
  case (1 n)
  show ?case
  proof (cases "n < 10")
    case True
    then show ?thesis by (simp add: show_nat.simps [of n] read_nat_def)
  next
    case False
    with 1 have "read_nat (show_nat (n div 10)) = n div 10" by simp
    with False show ?thesis
      by (simp add: show_nat.simps [of n] read_nat_def)
  qed
qed

lemma show_nat_nonempty [simp]: "show_nat n \<noteq> []"
  by (subst show_nat.simps) simp

lemma show_nat_digits: "c \<in> set (show_nat n) \<Longrightarrow> \<exists>d < 10. c = digit_char d"
proof (induction n rule: show_nat.induct)
  case (1 n)
  show ?case
  proof (cases "n < 10")
    case True
    with "1.prems" show ?thesis by (auto simp: show_nat.simps [of n])
  next
    case False
    with "1.prems" have "c \<in> set (show_nat (n div 10)) \<or> c = digit_char (n mod 10)"
      by (auto simp: show_nat.simps [of n])
    then show ?thesis
    proof
      assume "c \<in> set (show_nat (n div 10))"
      with "1.IH" False show ?thesis by blast
    next
      assume "c = digit_char (n mod 10)"
      moreover have "n mod 10 < 10" by simp
      ultimately show ?thesis by blast
    qed
  qed
qed

lemma digit_char_code: "d < 10 \<Longrightarrow> of_char (digit_char d) = (48 + d :: nat)"
  by (simp add: digit_char_def)

lemma digit_char_neq:
  assumes "d < 10" and "of_char c < (48 :: nat) \<or> of_char c > (57 :: nat)"
  shows "digit_char d \<noteq> c"
  using assms digit_char_code [of d] by auto

lemma show_nat_no_char:
  assumes "of_char c < (48 :: nat) \<or> of_char c > (57 :: nat)"
  shows "c \<notin> set (show_nat n)"
  using assms digit_char_neq by (blast dest: show_nat_digits)

lemma show_nat_inject [simp]: "show_nat m = show_nat n \<longleftrightarrow> m = n"
  by (metis read_show_nat)

lemma itoa_inject [simp]: "itoa m = itoa n \<longleftrightarrow> m = n"
proof -
  have minus: "CHR ''-'' \<notin> set (show_nat k)" for k
    by (rule show_nat_no_char) simp
  then have "CHR ''-'' # s \<noteq> show_nat k" for s k
    by (metis list.set_intros(1))
  then show ?thesis
    by (auto simp: itoa_def not_less eq_nat_nat_iff) (metis)+
qed

section \<open>Stable sorting\<close>

text \<open>
  \<open>sort.SliceStable(xs, lt)\<close> returns the elements of \<open>xs\<close> ordered by \<open>lt\<close>, equal elements in
  their original order.  For a strict weak order \<open>lt\<close> there is exactly one such list; it is
  computed here by insertion from the right.
\<close>

fun insert_by :: "('a \<Rightarrow> 'a \<Rightarrow> bool) \<Rightarrow> 'a \<Rightarrow> 'a list \<Rightarrow> 'a list" where
  "insert_by lt x [] = [x]"
| "insert_by lt x (y # ys) = (if lt y x then y # insert_by lt x ys else x # y # ys)"

fun slice_stable :: "('a \<Rightarrow> 'a \<Rightarrow> bool) \<Rightarrow> 'a list \<Rightarrow> 'a list" where
  "slice_stable lt [] = []"
| "slice_stable lt (x # xs) = insert_by lt x (slice_stable lt xs)"

lemma mset_insert_by [simp]: "mset (insert_by lt x ys) = add_mset x (mset ys)"
  by (induction ys) auto

lemma mset_slice_stable [simp]: "mset (slice_stable lt xs) = mset xs"
  by (induction xs) auto

lemma set_slice_stable [simp]: "set (slice_stable lt xs) = set xs"
  by (metis mset_slice_stable set_mset_mset)

lemma length_slice_stable [simp]: "length (slice_stable lt xs) = length xs"
  by (metis mset_slice_stable size_mset)

lemma distinct_slice_stable [simp]: "distinct (slice_stable lt xs) \<longleftrightarrow> distinct xs"
  by (metis mset_eq_imp_distinct_iff mset_slice_stable)

lemma slice_stable_eq_Nil [simp]: "slice_stable lt xs = [] \<longleftrightarrow> xs = []"
  by (metis length_0_conv length_slice_stable)

lemma filter_insert_by:
  assumes "\<And>y. y \<in> set ys \<Longrightarrow> P y \<Longrightarrow> P x \<Longrightarrow> \<not> lt y x"
  shows "filter P (insert_by lt x ys) = filter P (x # ys)"
  using assms by (induction ys) (auto split: if_splits)

text \<open>Stability: a set of mutually unordered elements keeps its original order.\<close>

lemma slice_stable_stable:
  assumes "\<And>x y. x \<in> set xs \<Longrightarrow> y \<in> set xs \<Longrightarrow> P x \<Longrightarrow> P y \<Longrightarrow> \<not> lt x y"
  shows "filter P (slice_stable lt xs) = filter P xs"
  using assms
proof (induction xs)
  case (Cons x xs)
  have "filter P (insert_by lt x (slice_stable lt xs)) = filter P (x # slice_stable lt xs)"
    by (rule filter_insert_by) (use Cons.prems in auto)
  with Cons show ?case by simp
qed simp

locale strict_weak_order =
  fixes lt :: "'a \<Rightarrow> 'a \<Rightarrow> bool"
  assumes asym: "lt a b \<Longrightarrow> \<not> lt b a"
    and neg_trans: "\<not> lt a b \<Longrightarrow> \<not> lt b c \<Longrightarrow> \<not> lt a c"
begin

lemma sorted_insert_by:
  "sorted_wrt (\<lambda>a b. \<not> lt b a) ys \<Longrightarrow> sorted_wrt (\<lambda>a b. \<not> lt b a) (insert_by lt x ys)"
proof (induction ys)
  case (Cons y ys)
  have in_set: "set (insert_by lt x ys) = insert x (set ys)"
    by (metis mset_insert_by set_mset_add_mset_insert set_mset_mset)
  have sorted_tl: "sorted_wrt (\<lambda>a b. \<not> lt b a) ys" and hd: "\<And>z. z \<in> set ys \<Longrightarrow> \<not> lt z y"
    using Cons.prems by simp_all
  show ?case
  proof (cases "lt y x")
    case True
    then show ?thesis using Cons.IH sorted_tl hd asym by (simp add: in_set)
  next
    case False
    then have "\<not> lt z x" if "z \<in> set ys" for z
      using neg_trans hd that by blast
    with False show ?thesis using Cons.prems by simp
  qed
qed simp

lemma sorted_slice_stable: "sorted_wrt (\<lambda>a b. \<not> lt b a) (slice_stable lt xs)"
  by (induction xs) (simp_all add: sorted_insert_by)

end

text \<open>A comparison by a key of a linear order is a strict weak order.\<close>

interpretation key_order: strict_weak_order "\<lambda>a b. key a < key b"
  for key :: "'a \<Rightarrow> 'k :: linorder"
  by unfold_locales auto

lemma sorted_slice_stable_key:
  fixes key :: "'a \<Rightarrow> 'k :: linorder"
  assumes "\<And>a b. lt a b \<longleftrightarrow> key a < key b"
  shows "sorted (map key (slice_stable lt xs))"
proof -
  have "lt = (\<lambda>a b. key a < key b)" using assms by blast
  then show ?thesis
    using key_order.sorted_slice_stable [of key xs] by (simp add: sorted_wrt_map not_less)
qed

text \<open>A list sorted by \<open>lt\<close> already is left alone.\<close>

lemma insert_by_front: "(\<And>y. y \<in> set ys \<Longrightarrow> \<not> lt y x) \<Longrightarrow> insert_by lt x ys = x # ys"
  by (cases ys) auto

lemma slice_stable_idem: "sorted_wrt (\<lambda>a b. \<not> lt b a) xs \<Longrightarrow> slice_stable lt xs = xs"
  by (induction xs) (auto simp: insert_by_front)

section \<open>Lists\<close>

text \<open>A separator that occurs in neither of two heads, or in neither of two tails, splits the text.\<close>

lemma sep_inject:
  assumes "a \<notin> set x" "a \<notin> set y"
  shows "x @ a # p = y @ a # q \<longleftrightarrow> x = y \<and> p = q"
  using assms
proof (induction x arbitrary: y)
  case Nil
  then show ?case by (cases y) auto
next
  case (Cons b x)
  then show ?case by (cases y) auto
qed

lemma sep_inject_last:
  assumes "a \<notin> set x" "a \<notin> set y"
  shows "p @ a # x = q @ a # y \<longleftrightarrow> p = q \<and> x = y"
proof -
  have "p @ a # x = q @ a # y \<longleftrightarrow> rev (p @ a # x) = rev (q @ a # y)" by (simp only: rev_is_rev_conv)
  also have "\<dots> \<longleftrightarrow> rev x @ a # rev p = rev y @ a # rev q" by simp
  finally show ?thesis using sep_inject [of a "rev x" "rev y" "rev p" "rev q"] assms by auto
qed

lemma sum_list_take_le: "k \<le> length xs \<Longrightarrow> sum_list (take k xs) \<le> sum_list (xs :: nat list)"
  by (metis append_take_drop_id le_add1 sum_list_append)

end
