(* ===== verification/Domain_Errors.thy ===== *)
theory Domain_Errors
  imports Heimdall_Prelude "HOL-Library.AList"
begin

text \<open>
  The error values of \<open>internal/domain/errors.go\<close>: the failure scope, \<open>DomainError\<close> with its
  construction options, and the normalisation of an arbitrary Go error through
  \<open>errors.As\<close>.  A Go error is either a \<^emph>\<open>domain\<close> error or a foreign one, which shows its text
  and what its \<open>Unwrap\<close> gives.
\<close>

text \<open>Identifier types of \<open>internal/domain/ids.go\<close>; all are Go strings, the empty one is "none".\<close>

type_synonym provider_id = string
type_synonym credential_id = string
type_synonym client_id = string
type_synonym combo_id = string
type_synonym request_id = string
type_synonym model_id = string

datatype err_scope = ScopeRequest | ScopeCredential | ScopeProvider

primrec err_scope_string :: "err_scope \<Rightarrow> string" where
  "err_scope_string ScopeRequest = ''request''"
| "err_scope_string ScopeCredential = ''credential''"
| "err_scope_string ScopeProvider = ''provider''"

datatype domain_error =
  DomainError (de_code: string) (de_params: "(string \<times> string) list") (de_http_status: int)
    (de_retryable: bool) (de_scope: err_scope) (de_retry_after: duration)
    (de_cause: "go_error option")
and go_error =
  Dom domain_error
| Foreign string "go_error list"

text \<open>\<open>Error()\<close>: the code, followed by the cause's text when there is a cause.\<close>

primrec error_string :: "domain_error \<Rightarrow> string"
  and go_error_string :: "go_error \<Rightarrow> string" where
  "error_string (DomainError code ps st rt sc ra cause) =
     (case map_option go_error_string cause of
        Some c \<Rightarrow> code @ '': '' @ c
      | None \<Rightarrow> code)"
| "go_error_string (Dom d) = error_string d"
| "go_error_string (Foreign msg ws) = msg"

definition Unwrap :: "domain_error \<Rightarrow> go_error option" where
  "Unwrap e = de_cause e"

section \<open>Construction\<close>

type_synonym error_option = "domain_error \<Rightarrow> domain_error"

fun set_params :: "(string \<times> string) list \<Rightarrow> (string \<times> string) list \<Rightarrow> (string \<times> string) list" where
  "set_params [] old = old"
| "set_params ((k, v) # kvs) old = set_params kvs (AList.update k v old)"

primrec WithParams :: "(string \<times> string) list \<Rightarrow> error_option" where
  "WithParams kvs (DomainError c ps st rt sc ra ca) = DomainError c (set_params kvs ps) st rt sc ra ca"

primrec WithHTTPStatus :: "int \<Rightarrow> error_option" where
  "WithHTTPStatus s (DomainError c ps st rt sc ra ca) = DomainError c ps s rt sc ra ca"

primrec Retry :: error_option where
  "Retry (DomainError c ps st rt sc ra ca) = DomainError c ps st True sc ra ca"

primrec WithScope :: "err_scope \<Rightarrow> error_option" where
  "WithScope s (DomainError c ps st rt sc ra ca) = DomainError c ps st rt s ra ca"

primrec WithRetryAfter :: "duration \<Rightarrow> error_option" where
  "WithRetryAfter d (DomainError c ps st rt sc ra ca) = DomainError c ps st rt sc d ca"

primrec WithCause :: "go_error \<Rightarrow> error_option" where
  "WithCause e (DomainError c ps st rt sc ra ca) = DomainError c ps st rt sc ra (Some e)"

definition New :: "string \<Rightarrow> error_option list \<Rightarrow> domain_error" where
  "New code opts = foldl (\<lambda>e opt. opt e) (DomainError code [] 500 False ScopeRequest 0 None) opts"

lemmas new_simps = New_def WithHTTPStatus.simps WithScope.simps WithParams.simps Retry.simps
  WithRetryAfter.simps WithCause.simps

section \<open>Classification of an arbitrary error\<close>

text \<open>\<open>errors.As(err, &de)\<close> with a \<open>*DomainError\<close> target: the first domain error met when the
  error tree is walked from the root, children in order.\<close>

fun errors_as :: "go_error \<Rightarrow> domain_error option"
  and errors_as_any :: "go_error list \<Rightarrow> domain_error option" where
  "errors_as (Dom d) = Some d"
| "errors_as (Foreign msg ws) = errors_as_any ws"
| "errors_as_any [] = None"
| "errors_as_any (w # ws) = (case errors_as w of Some d \<Rightarrow> Some d | None \<Rightarrow> errors_as_any ws)"

text \<open>The i18n codes the modelled components produce (\<open>internal/domain/codes.go\<close>).\<close>

definition CodeInternal :: string where "CodeInternal = ''error.internal''"
definition CodeInvalidRequest :: string where "CodeInvalidRequest = ''error.invalid_request''"
definition CodeNotFound :: string where "CodeNotFound = ''error.not_found''"
definition CodeUpstreamTimeout :: string where "CodeUpstreamTimeout = ''error.upstream_timeout''"
definition CodeRouteInvalidCombo :: string where "CodeRouteInvalidCombo = ''route.invalid_combo''"
definition CodeRouteCyclicCombo :: string where "CodeRouteCyclicCombo = ''route.cyclic_combo''"
definition CodeRouteDepthExceeded :: string where "CodeRouteDepthExceeded = ''route.depth_exceeded''"
definition CodeRouteFanoutExceeded :: string where "CodeRouteFanoutExceeded = ''route.fanout_exceeded''"
definition CodeRouteUnknownProvider :: string where "CodeRouteUnknownProvider = ''route.unknown_provider''"
definition CodeRouteNoCandidate :: string where "CodeRouteNoCandidate = ''route.no_candidate''"
definition CodeRouteUnknownModel :: string where "CodeRouteUnknownModel = ''route.unknown_model''"
definition CodeRouteFusionSelfJudge :: string where "CodeRouteFusionSelfJudge = ''route.fusion_self_judge''"
definition CodeRouteFusionAllFailed :: string where "CodeRouteFusionAllFailed = ''route.fusion_all_failed''"
definition CodeQuotaExhausted :: string where "CodeQuotaExhausted = ''quota.exhausted''"
definition CodeQuotaCostCap :: string where "CodeQuotaCostCap = ''quota.cost_cap''"
definition CodeDispatchNoAttempts :: string where "CodeDispatchNoAttempts = ''dispatch.no_attempts''"
definition CodeDispatchExhausted :: string where "CodeDispatchExhausted = ''dispatch.exhausted''"
definition CodeDispatchMaxRounds :: string where "CodeDispatchMaxRounds = ''dispatch.max_rounds''"

lemmas code_defs = CodeInternal_def CodeNotFound_def CodeUpstreamTimeout_def
  CodeRouteInvalidCombo_def CodeRouteCyclicCombo_def CodeRouteDepthExceeded_def
  CodeRouteFanoutExceeded_def CodeRouteUnknownProvider_def CodeRouteNoCandidate_def
  CodeRouteUnknownModel_def CodeRouteFusionSelfJudge_def CodeRouteFusionAllFailed_def
  CodeQuotaExhausted_def CodeQuotaCostCap_def CodeDispatchNoAttempts_def
  CodeDispatchExhausted_def CodeDispatchMaxRounds_def

text \<open>\<open>asDomain\<close> of the dispatcher: a foreign error is an internal one, blamed on the request.\<close>

definition as_domain :: "go_error \<Rightarrow> domain_error" where
  "as_domain err = (case errors_as err of
      Some d \<Rightarrow> d
    | None \<Rightarrow> New CodeInternal [WithHTTPStatus 500, WithScope ScopeRequest, WithCause err])"

lemma as_domain_Dom [simp]: "as_domain (Dom d) = d"
  by (simp add: as_domain_def)

lemma as_domain_foreign:
  "errors_as err = None \<Longrightarrow>
   de_scope (as_domain err) = ScopeRequest \<and> \<not> de_retryable (as_domain err) \<and>
   de_retry_after (as_domain err) = 0 \<and> de_code (as_domain err) = CodeInternal"
  by (simp add: as_domain_def new_simps)

end
