(* ===== verification/Go_Float.thy ===== *)
theory Go_Float
  imports Heimdall_Prelude "HOL-Library.Log_Nat"
begin

text \<open>
  Go's \<open>float64\<close>.  A finite value is the rational it stands for, and an arithmetic operation is
  the exact operation followed by \<open>fl\<close>, IEEE rounding to nearest, ties to even, on a 53-bit
  significand.  The exponent is not bounded: the amounts computed with here (token counts,
  fractions in [0,1], durations) are far from overflow and from the subnormal range.
\<close>

type_synonym float64 = rat

text \<open>The exponent of the binade of a positive rational: the \<open>e\<close> with \<open>2^e \<le> x < 2^(e+1)\<close>.\<close>

definition ilog2 :: "rat \<Rightarrow> int" where
  "ilog2 x = (let (p, q) = quotient_of x;
                  d = int (floorlog 2 (nat p)) - int (floorlog 2 (nat q))
              in if 2 powi d \<le> x then d else d - 1)"

definition round_even :: "rat \<Rightarrow> int" where
  "round_even x = (let f = \<lfloor>x\<rfloor>; r = x - of_int f in
     if r < 1/2 then f else if r > 1/2 then f + 1 else if even f then f else f + 1)"

definition fl :: "rat \<Rightarrow> float64" where
  "fl x = (if x = 0 then 0
           else let u = 2 powi (ilog2 \<bar>x\<bar> - 52)
                in sgn x * (of_int (round_even (\<bar>x\<bar> / u)) * u))"

text \<open>\<open>float64(n)\<close> of an integer, and the conversion back, which truncates towards zero.\<close>

definition float_of_int :: "int \<Rightarrow> float64" where
  "float_of_int n = fl (of_int n)"

definition trunc :: "float64 \<Rightarrow> int" where
  "trunc x = (if 0 \<le> x then \<lfloor>x\<rfloor> else \<lceil>x\<rceil>)"

section \<open>The binade of a rational\<close>

lemma floorlog_bounds:
  assumes "0 < n"
  shows "2 ^ (floorlog 2 n - 1) \<le> n" "n < 2 ^ floorlog 2 n" "0 < floorlog 2 n"
proof -
  show "0 < floorlog 2 n"
    using assms by (simp add: floorlog_def)
  then show "2 ^ (floorlog 2 n - 1) \<le> n" "n < 2 ^ floorlog 2 n"
    using floorlog_bounds [of n 2] assms by simp_all
qed

lemma ilog2_bounds:
  assumes "0 < x"
  shows "2 powi (ilog2 x) \<le> x" "x < 2 powi (ilog2 x + 1)"
proof -
  obtain p q where pq: "quotient_of x = (p, q)" by (cases "quotient_of x")
  have x: "x = of_int p / of_int q" and q: "0 < q"
    using quotient_of_div [OF pq] quotient_of_denom_pos [OF pq] by simp_all
  with assms have p: "0 < p" by (simp add: zero_less_divide_iff)
  define a b where "a = floorlog 2 (nat p)" and "b = floorlog 2 (nat q)"
  have np: "0 < nat p" and nq: "0 < nat q" using p q by simp_all
  have P1: "2 ^ (a - 1) \<le> p" and P2: "p < 2 ^ a" and a: "0 < a"
    using floorlog_bounds [OF np] p unfolding a_def by (simp_all add: le_nat_iff nat_less_iff)
  have Q1: "2 ^ (b - 1) \<le> q" and Q2: "q < 2 ^ b" and b: "0 < b"
    using floorlog_bounds [OF nq] q unfolding b_def by (simp_all add: le_nat_iff nat_less_iff)
  have rp1: "(2::rat) ^ (a - 1) \<le> of_int p" and rp2: "of_int p < (2::rat) ^ a"
    using P1 P2 of_int_le_iff [of "2 ^ (a - 1)" p, where 'a = rat]
      of_int_less_iff [of p "2 ^ a", where 'a = rat] by simp_all
  have rq1: "(2::rat) ^ (b - 1) \<le> of_int q" and rq2: "of_int q < (2::rat) ^ b"
    using Q1 Q2 of_int_le_iff [of "2 ^ (b - 1)" q, where 'a = rat]
      of_int_less_iff [of q "2 ^ b", where 'a = rat] by simp_all
  have qpos: "(0::rat) < of_int q" using q by simp
  have "x < 2 ^ a / 2 ^ (b - 1)"
    unfolding x using rp2 rq1 p qpos by (intro frac_less) simp_all
  also have "\<dots> = 2 powi (int a - int b + 1)"
    using b by (simp add: power_int_diff power_int_add flip: power_int_of_nat)
  finally have up: "x < 2 powi (int a - int b + 1)" .
  have "2 powi (int a - int b - 1) = 2 ^ (a - 1) / (2::rat) ^ b"
    using a by (simp add: power_int_diff flip: power_int_of_nat)
  also have "\<dots> \<le> x"
    unfolding x using rp1 rq2 qpos p by (intro frac_le) simp_all
  finally have lo: "2 powi (int a - int b - 1) \<le> x" .
  show "2 powi (ilog2 x) \<le> x" "x < 2 powi (ilog2 x + 1)"
    using up lo by (auto simp: ilog2_def pq a_def b_def Let_def)
qed

lemma ilog2_less:
  assumes "0 < x" "x < 2 powi e"
  shows "ilog2 x < e"
proof (rule ccontr)
  assume "\<not> ilog2 x < e"
  then have "(2::rat) powi e \<le> 2 powi (ilog2 x)" by (intro power_int_increasing) simp_all
  with ilog2_bounds(1) [OF assms(1)] assms(2) show False by simp
qed

lemma ilog2_ge:
  assumes "2 powi e \<le> x"
  shows "e \<le> ilog2 x"
proof (rule ccontr)
  assume "\<not> e \<le> ilog2 x"
  then have "(2::rat) powi (ilog2 x + 1) \<le> 2 powi e" by (intro power_int_increasing) simp_all
  moreover have "0 < x" using assms by (rule order.strict_trans2 [rotated]) simp
  ultimately show False using ilog2_bounds(2) [of x] assms by simp
qed

lemma ilog2_mono: "0 < x \<Longrightarrow> x \<le> y \<Longrightarrow> ilog2 x \<le> ilog2 y"
  by (rule ilog2_ge) (use ilog2_bounds(1) in force)

section \<open>Rounding to an integer\<close>

lemma round_even_cases: "round_even x = \<lfloor>x\<rfloor> \<or> round_even x = \<lfloor>x\<rfloor> + 1"
  by (auto simp: round_even_def Let_def)

lemma round_even_of_int [simp]: "round_even (of_int n) = n"
  by (simp add: round_even_def Let_def)

lemma round_even_0 [simp]: "round_even 0 = 0"
  by (simp add: round_even_def Let_def)

lemma round_even_mono:
  assumes "x \<le> y"
  shows "round_even x \<le> round_even y"
proof (cases "\<lfloor>x\<rfloor> = \<lfloor>y\<rfloor>")
  case True
  with assms show ?thesis by (auto simp: round_even_def Let_def)
next
  case False
  then have "\<lfloor>x\<rfloor> + 1 \<le> \<lfloor>y\<rfloor>" using floor_mono [OF assms] by simp
  then show ?thesis using round_even_cases [of x] round_even_cases [of y] by auto
qed

lemma round_even_le: "x \<le> of_int n \<Longrightarrow> round_even x \<le> n"
  using round_even_mono [of x "of_int n"] by simp

lemma round_even_ge: "of_int n \<le> x \<Longrightarrow> n \<le> round_even x"
  using round_even_mono [of "of_int n" x] by simp

section \<open>Rounding to a float64\<close>

abbreviation ulp :: "rat \<Rightarrow> rat" where
  "ulp x \<equiv> 2 powi (ilog2 x - 52)"

lemma ulp_pos [simp]: "0 < (2 :: rat) powi e"
  by simp

lemma fl_0 [simp]: "fl 0 = 0"
  by (simp add: fl_def)

lemma fl_pos: "0 < x \<Longrightarrow> fl x = of_int (round_even (x / ulp x)) * ulp x"
  by (simp add: fl_def Let_def)

lemma fl_minus: "fl (- x) = - fl x"
  by (simp add: fl_def Let_def sgn_minus)

lemma scaled_bounds:
  assumes "0 < x"
  shows "2 ^ 52 \<le> x / ulp x" "x / ulp x < 2 ^ 53"
proof -
  have e: "(2::rat) powi (ilog2 x) = 2 ^ 52 * ulp x" "(2::rat) powi (ilog2 x + 1) = 2 ^ 53 * ulp x"
    by (simp_all add: power_int_diff power_int_add)
  show "2 ^ 52 \<le> x / ulp x" "x / ulp x < 2 ^ 53"
    using ilog2_bounds [OF assms] unfolding e by (simp_all add: field_simps)
qed

lemma fl_binade:
  assumes "0 < x"
  shows "2 powi (ilog2 x) \<le> fl x" "fl x \<le> 2 powi (ilog2 x + 1)"
proof -
  have e: "(2::rat) powi (ilog2 x) = of_int (2 ^ 52) * ulp x"
    "(2::rat) powi (ilog2 x + 1) = of_int (2 ^ 53) * ulp x"
    by (simp_all add: power_int_diff power_int_add)
  have "2 ^ 52 \<le> round_even (x / ulp x)"
    by (rule round_even_ge) (use scaled_bounds(1) [OF assms] in simp)
  then have "(of_int (2 ^ 52) :: rat) \<le> of_int (round_even (x / ulp x))" by (simp only: of_int_le_iff)
  then show "2 powi (ilog2 x) \<le> fl x"
    unfolding fl_pos [OF assms] e by (rule mult_right_mono) simp
  have "round_even (x / ulp x) \<le> 2 ^ 53"
    by (rule round_even_le) (use scaled_bounds(2) [OF assms] in simp)
  then have "(of_int (round_even (x / ulp x)) :: rat) \<le> of_int (2 ^ 53)" by (simp only: of_int_le_iff)
  then show "fl x \<le> 2 powi (ilog2 x + 1)"
    unfolding fl_pos [OF assms] e by (rule mult_right_mono) simp
qed

lemma fl_pos_mono:
  assumes "0 < x" "x \<le> y"
  shows "fl x \<le> fl y"
proof -
  have y: "0 < y" using assms by simp
  consider "ilog2 x = ilog2 y" | "ilog2 x + 1 \<le> ilog2 y"
    using ilog2_mono [OF assms] by linarith
  then show ?thesis
  proof cases
    case 1
    have "round_even (x / ulp x) \<le> round_even (y / ulp x)"
      by (rule round_even_mono) (simp add: divide_right_mono assms(2))
    then have "(of_int (round_even (x / ulp x)) :: rat) \<le> of_int (round_even (y / ulp x))"
      by (simp only: of_int_le_iff)
    then show ?thesis
      unfolding fl_pos [OF assms(1)] fl_pos [OF y] 1 [symmetric] by (rule mult_right_mono) simp
  next
    case 2
    then have "(2::rat) powi (ilog2 x + 1) \<le> 2 powi (ilog2 y)" by (intro power_int_increasing) simp_all
    with fl_binade(2) [OF assms(1)] fl_binade(1) [OF y] show ?thesis by linarith
  qed
qed

lemma fl_pos_pos: "0 < x \<Longrightarrow> 0 < fl x"
  using fl_binade(1) [of x] by (meson order.strict_trans2 ulp_pos)

lemma fl_nonneg: "0 \<le> x \<Longrightarrow> 0 \<le> fl x"
  using fl_pos_pos [of x] by (cases "x = 0") auto

theorem fl_mono: "x \<le> y \<Longrightarrow> fl x \<le> fl y"
proof -
  assume le: "x \<le> y"
  consider "0 < x" | "x \<le> 0" "0 \<le> y" | "y < 0" by linarith
  then show ?thesis
  proof cases
    case 1
    then show ?thesis using le by (rule fl_pos_mono)
  next
    case 2
    have "fl x \<le> 0" using fl_nonneg [of "- x"] 2 by (simp add: fl_minus)
    with fl_nonneg [of y] 2 show ?thesis by simp
  next
    case 3
    then have "fl (- y) \<le> fl (- x)" using le by (intro fl_pos_mono) simp_all
    then show ?thesis by (simp add: fl_minus)
  qed
qed

text \<open>Integers of at most 53 bits are represented exactly.\<close>

lemma fl_of_int_pos:
  assumes "0 < n" "n \<le> 2 ^ 53"
  shows "fl (of_int n) = of_int n"
proof -
  let ?x = "of_int n :: rat"
  have x: "0 < ?x" using assms by simp
  have "ilog2 ?x < 54"
    by (rule ilog2_less [OF x]) (use assms(2) in \<open>simp add: of_int_less_iff [of n "2 ^ 54", where 'a = rat, simplified]\<close>)
  moreover have "0 \<le> ilog2 ?x" by (rule ilog2_ge) (use assms in simp)
  ultimately consider "ilog2 ?x \<le> 52" "0 \<le> ilog2 ?x" | "ilog2 ?x = 53" by linarith
  then have "\<exists>m. ?x / ulp ?x = of_int m"
  proof cases
    case 1
    then have "?x / ulp ?x = of_int (n * 2 ^ nat (52 - ilog2 ?x))"
      by (simp add: power_int_diff power_int_def field_simps flip: power_add)
    then show ?thesis by blast
  next
    case 2
    then have "2 ^ 53 \<le> ?x" using ilog2_bounds(1) [OF x] by simp
    then have "n = 2 ^ 53" using assms(2)
      of_int_le_iff [of "2 ^ 53" n, where 'a = rat] by simp
    with 2 have "?x / ulp ?x = of_int (2 ^ 52)" by simp
    then show ?thesis by blast
  qed
  then obtain m where m: "?x / ulp ?x = of_int m" by blast
  have u0: "ulp ?x \<noteq> 0" by simp
  have "fl ?x = of_int m * ulp ?x" unfolding fl_pos [OF x] m by simp
  also have "\<dots> = ?x" using m u0 by (simp add: divide_eq_eq)
  finally show ?thesis .
qed

lemma fl_of_int [simp]:
  assumes "\<bar>n\<bar> \<le> 2 ^ 53"
  shows "fl (of_int n) = of_int n"
proof -
  consider "0 < n" | "n = 0" | "0 < - n" by linarith
  then show ?thesis
  proof cases
    case 1
    then show ?thesis using assms by (simp add: fl_of_int_pos)
  next
    case 2
    then show ?thesis by simp
  next
    case 3
    then have "fl (of_int (- n)) = of_int (- n)" using assms by (intro fl_of_int_pos) simp_all
    then show ?thesis by (simp add: fl_minus)
  qed
qed

lemma fl_1 [simp]: "fl 1 = 1"
  using fl_of_int [of 1] by simp

lemma fl_le_1: "x \<le> 1 \<Longrightarrow> fl x \<le> 1"
  using fl_mono [of x 1] by simp

lemma fl_le_0_iff: "fl x \<le> 0 \<longleftrightarrow> x \<le> 0"
  using fl_pos_pos [of x] fl_mono [of x 0] by (cases "0 < x") auto

end
