(* ===== verification/Contracts.thy ===== *)
theory Contracts
  imports Domain_Errors Go_Float "HOL-Library.Word"
begin

text \<open>
  The frozen contracts of \<open>internal/contracts\<close> the core components talk through: modality and
  capability bit sets and authentication modes (\<open>identity.go\<close>), strategy names, candidates and
  route plans (\<open>router.go\<close>), attempt outcomes and usage (\<open>dispatcher.go\<close>), breaker keys and
  states (\<open>breaker.go\<close>), quota windows (\<open>quota.go\<close>).
\<close>

unbundle bit_operations_syntax

section \<open>Authentication modes\<close>

text \<open>A byte with three named values; \<open>AuthOther\<close> is any other.\<close>

datatype auth_mode = AuthNone | AuthAPIKey | AuthOAuth | AuthOther nat

primrec auth_mode_string :: "auth_mode \<Rightarrow> string" where
  "auth_mode_string AuthNone = ''none''"
| "auth_mode_string AuthAPIKey = ''api_key''"
| "auth_mode_string AuthOAuth = ''oauth''"
| "auth_mode_string (AuthOther n) = ''unknown''"

definition ParseAuthMode :: "string \<Rightarrow> auth_mode \<times> bool" where
  "ParseAuthMode s =
     (if s = ''none'' then (AuthNone, True)
      else if s = ''api_key'' then (AuthAPIKey, True)
      else if s = ''oauth'' then (AuthOAuth, True)
      else (AuthNone, False))"

lemma ParseAuthMode_accepts:
  "ParseAuthMode s = (m, True) \<longleftrightarrow> s = auth_mode_string m \<and> m \<in> {AuthNone, AuthAPIKey, AuthOAuth}"
  by (cases m) (auto simp: ParseAuthMode_def)

section \<open>Bit sets\<close>

datatype modality = ModalityText | ModalityImage | ModalityAudio | ModalityVideo | ModalityEmbedding

primrec modality_bit :: "modality \<Rightarrow> nat" where
  "modality_bit ModalityText = 0"
| "modality_bit ModalityImage = 1"
| "modality_bit ModalityAudio = 2"
| "modality_bit ModalityVideo = 3"
| "modality_bit ModalityEmbedding = 4"

primrec modality_string :: "modality \<Rightarrow> string" where
  "modality_string ModalityText = ''text''"
| "modality_string ModalityImage = ''image''"
| "modality_string ModalityAudio = ''audio''"
| "modality_string ModalityVideo = ''video''"
| "modality_string ModalityEmbedding = ''embedding''"

definition all_modalities :: "modality list" where
  "all_modalities = [ModalityText, ModalityImage, ModalityAudio, ModalityVideo, ModalityEmbedding]"

type_synonym modality_set = "16 word"
type_synonym capabilities = "64 word"

fun ModalitySet_Add :: "modality_set \<Rightarrow> modality list \<Rightarrow> modality_set" where
  "ModalitySet_Add s [] = s"
| "ModalitySet_Add s (m # ms) = ModalitySet_Add (s OR push_bit (modality_bit m) 1) ms"

definition ModalitySet_Has :: "modality_set \<Rightarrow> modality \<Rightarrow> bool" where
  "ModalitySet_Has s m \<longleftrightarrow> s AND push_bit (modality_bit m) 1 \<noteq> 0"

fun join :: "string \<Rightarrow> string list \<Rightarrow> string" where
  "join sep [] = ''''"
| "join sep [x] = x"
| "join sep (x # y # xs) = x @ sep @ join sep (y # xs)"

definition ModalitySet_String :: "modality_set \<Rightarrow> string" where
  "ModalitySet_String s =
     (if s = 0 then ''none''
      else join '','' (map modality_string (filter (ModalitySet_Has s) all_modalities)))"

definition Capabilities_Has :: "capabilities \<Rightarrow> capabilities \<Rightarrow> bool" where
  "Capabilities_Has c want \<longleftrightarrow> c AND want = want"

fun Capabilities_Add :: "capabilities \<Rightarrow> capabilities list \<Rightarrow> capabilities" where
  "Capabilities_Add c [] = c"
| "Capabilities_Add c (x # xs) = Capabilities_Add (c OR x) xs"

lemma ModalitySet_Has_bit: "ModalitySet_Has s m \<longleftrightarrow> bit s (modality_bit m)"
proof
  assume "ModalitySet_Has s m"
  then have "\<exists>n. bit (s AND push_bit (modality_bit m) 1) n"
    by (auto simp: ModalitySet_Has_def bit_eq_iff)
  then show "bit s (modality_bit m)"
    by (auto simp: bit_simps)
next
  assume "bit s (modality_bit m)"
  then have "bit (s AND push_bit (modality_bit m) 1) (modality_bit m)"
    by (auto simp: bit_simps possible_bit_word dest: bit_imp_le_length)
  then show "ModalitySet_Has s m"
    by (auto simp: ModalitySet_Has_def)
qed

lemma modality_bit_inject: "modality_bit m = modality_bit m' \<longleftrightarrow> m = m'"
  by (cases m; cases m') simp_all

lemma modality_bit_less: "modality_bit m < 16"
  by (cases m) simp_all

lemma ModalitySet_Has_Add: "ModalitySet_Has (ModalitySet_Add s ms) m \<longleftrightarrow> ModalitySet_Has s m \<or> m \<in> set ms"
  by (induction ms arbitrary: s)
    (auto simp: ModalitySet_Has_bit bit_simps modality_bit_inject modality_bit_less)

lemma Capabilities_Has_iff:
  "Capabilities_Has c want \<longleftrightarrow> (\<forall>n. bit want n \<longrightarrow> bit c n)"
proof
  assume "Capabilities_Has c want"
  then have "bit (c AND want) n = bit want n" for n by (simp add: Capabilities_Has_def)
  then show "\<forall>n. bit want n \<longrightarrow> bit c n" by (auto simp: bit_simps)
next
  assume "\<forall>n. bit want n \<longrightarrow> bit c n"
  then show "Capabilities_Has c want"
    unfolding Capabilities_Has_def by (intro bit_eqI) (auto simp: bit_simps)
qed

section \<open>Routing\<close>

text \<open>A strategy kind is a Go string; the closed set is \<open>allStrategies\<close>.\<close>

type_synonym strategy_kind = string

definition StrategyPriority :: strategy_kind where "StrategyPriority = ''priority''"
definition StrategyFallback :: strategy_kind where "StrategyFallback = ''fallback''"
definition StrategyRoundRobin :: strategy_kind where "StrategyRoundRobin = ''round-robin''"
definition StrategyWeighted :: strategy_kind where "StrategyWeighted = ''weighted''"
definition StrategyFillFirst :: strategy_kind where "StrategyFillFirst = ''fill-first''"
definition StrategyCost :: strategy_kind where "StrategyCost = ''cost''"
definition StrategyP2C :: strategy_kind where "StrategyP2C = ''p2c''"
definition StrategyFusion :: strategy_kind where "StrategyFusion = ''fusion''"
definition StrategyPipeline :: strategy_kind where "StrategyPipeline = ''pipeline''"
definition StrategyAuto :: strategy_kind where "StrategyAuto = ''auto''"

lemmas strategy_defs = StrategyPriority_def StrategyFallback_def StrategyRoundRobin_def
  StrategyWeighted_def StrategyFillFirst_def StrategyCost_def StrategyP2C_def
  StrategyFusion_def StrategyPipeline_def StrategyAuto_def

definition all_strategies :: "strategy_kind list" where
  "all_strategies = [StrategyPriority, StrategyFallback, StrategyRoundRobin, StrategyWeighted,
     StrategyFillFirst, StrategyCost, StrategyP2C, StrategyFusion, StrategyPipeline, StrategyAuto]"

definition strategy_string :: "strategy_kind \<Rightarrow> string" where
  "strategy_string s = (case find (\<lambda>k. k = s) all_strategies of Some k \<Rightarrow> k | None \<Rightarrow> '''')"

definition ParseStrategyKind :: "string \<Rightarrow> strategy_kind option" where
  "ParseStrategyKind s = find (\<lambda>k. k = s) all_strategies"

lemma find_eq: "find (\<lambda>k. k = s) xs = (if s \<in> set xs then Some s else None)"
  by (induction xs) auto

lemma ParseStrategyKind_iff: "ParseStrategyKind s = (if s \<in> set all_strategies then Some s else None)"
  by (simp add: ParseStrategyKind_def find_eq)

text \<open>A score is finite or \<open>math.Inf(1)\<close>.\<close>

datatype score = Fin float64 | PosInf

record candidate =
  cand_provider :: provider_id
  cand_model :: model_id
  cand_credential :: credential_id
  cand_score :: score
  cand_reason :: string

definition mk_candidate :: "provider_id \<Rightarrow> model_id \<Rightarrow> candidate" where
  "mk_candidate p m = \<lparr>cand_provider = p, cand_model = m, cand_credential = '''',
     cand_score = Fin 0, cand_reason = ''''\<rparr>"

record request =
  req_id :: request_id
  req_model :: model_id
  req_combo :: combo_id
  req_modalities :: modality_set
  req_capabilities :: capabilities
  req_headers :: "(string \<times> string list) list"

text \<open>A route plan; a panel is its anonymised label with the plan of the branch.\<close>

datatype route_plan = RoutePlan
  (plan_combo: combo_id)
  (plan_attempts: "candidate list")
  (plan_max_rounds: int)
  (plan_strategy: strategy_kind)
  (plan_panels: "(string \<times> route_plan) list")
  (plan_judge: "route_plan option")
  (plan_chain: "route_plan list")

definition linear_plan :: "candidate list \<Rightarrow> int \<Rightarrow> route_plan" where
  "linear_plan cs n = RoutePlan '''' cs n '''' [] None []"

section \<open>Attempts\<close>

datatype attempt_outcome = OutcomeSuccess | OutcomeClientError | OutcomeCredentialError
  | OutcomeProviderError | OutcomeTransient

definition outcome_is_terminal :: "attempt_outcome \<Rightarrow> bool" where
  "outcome_is_terminal o' \<longleftrightarrow> o' = OutcomeClientError"

record usage =
  u_attempt_key :: string
  u_provider :: provider_id
  u_credential :: credential_id
  u_model :: model_id
  u_tokens :: int
  u_input_tokens :: int
  u_output_tokens :: int
  u_requests :: int
  u_cost_micros :: int
  u_aborted :: bool

section \<open>Breaker keys and states\<close>

datatype breaker_scope = BreakerProvider | BreakerCredential | BreakerModel

record breaker_key =
  bk_scope :: breaker_scope
  bk_provider :: string
  bk_credential :: string
  bk_model :: string

definition KeyFor :: "candidate \<Rightarrow> breaker_scope \<Rightarrow> breaker_key" where
  "KeyFor c scope =
     (let k = \<lparr>bk_scope = scope, bk_provider = cand_provider c, bk_credential = '''', bk_model = ''''\<rparr>
      in case scope of
           BreakerCredential \<Rightarrow> k\<lparr>bk_credential := cand_credential c\<rparr>
         | BreakerModel \<Rightarrow> k\<lparr>bk_model := cand_model c\<rparr>
         | BreakerProvider \<Rightarrow> k)"

lemma bk_scope_KeyFor [simp]: "bk_scope (KeyFor c s) = s"
  by (cases s) (simp_all add: KeyFor_def)

lemma KeyFor_eq_iff [simp]: "KeyFor c s = KeyFor c' s' \<longleftrightarrow> s = s' \<and> cand_provider c = cand_provider c' \<and>
    (s = BreakerCredential \<longrightarrow> cand_credential c = cand_credential c') \<and>
    (s = BreakerModel \<longrightarrow> cand_model c = cand_model c')"
  by (cases s; cases s') (auto simp: KeyFor_def)

datatype breaker_state = BreakerClosed | BreakerOpen | BreakerHalfOpen | BreakerTerminal

section \<open>Quota\<close>

datatype window_kind = WindowShort | WindowLong | WindowCost

datatype quota_source = SourceLocalCounter | SourceRetryHint | SourceHeader

record quota_window =
  qw_kind :: window_kind
  qw_limit :: float64
  qw_used :: float64
  qw_remaining :: float64
  qw_resets_at :: gotime
  qw_source :: quota_source
  qw_updated_at :: gotime

record quota_state =
  qs_credential :: credential_id
  qs_windows :: "quota_window list"
  qs_terminal_code :: string

record skip =
  sk_candidate :: candidate
  sk_reason :: string
  sk_code :: string

end
