(* ===== verification/Combos.thy ===== *)
theory Combos
  imports Contracts
begin

text \<open>
  The named routing combos of \<open>internal/combos\<close>: the step and combo records, the shape check
  \<open>Validate\<close>, the save-time graph check \<open>ValidateGraph\<close> with its three-colour depth-first search,
  the schema gate \<open>Upgrade\<close>, and the capability fit and ordering of \<open>capability.go\<close>.  A Go map
  of combos is an association list read by \<^const>\<open>map_of\<close>; the search gets as fuel one unit per
  entry and two more, which is shown to be enough.
\<close>

section \<open>Data\<close>

definition CurrentSchema :: int where "CurrentSchema = 2"
definition MaxDepth :: int where "MaxDepth = 8"
definition MaxFanout :: int where "MaxFanout = 8"

type_synonym step_kind = string

definition StepModel :: step_kind where "StepModel = ''model''"
definition StepComboRef :: step_kind where "StepComboRef = ''combo-ref''"
definition StepProviderWildcard :: step_kind where "StepProviderWildcard = ''provider-wildcard''"

lemmas step_kind_defs = StepModel_def StepComboRef_def StepProviderWildcard_def

definition IsKnown :: "step_kind \<Rightarrow> bool" where
  "IsKnown k \<longleftrightarrow> k \<in> set [StepModel, StepComboRef, StepProviderWildcard]"

record step =
  st_kind :: step_kind
  st_ref :: string
  st_weight :: int
  st_prompt :: string
  st_allowed :: "credential_id list"
  st_fallback_only_on_quota :: bool

definition WeightOrOne :: "step \<Rightarrow> int" where
  "WeightOrOne s = (if st_weight s \<le> 0 then 1 else st_weight s)"

record combo =
  cb_id :: combo_id
  cb_name :: string
  cb_strategy :: strategy_kind
  cb_steps :: "step list"
  cb_schema_ver :: int
  cb_depth :: int

definition NewCombo :: "string \<Rightarrow> strategy_kind \<Rightarrow> step list \<Rightarrow> combo" where
  "NewCombo name strategy steps = \<lparr>cb_id = name, cb_name = name, cb_strategy = strategy,
     cb_steps = steps, cb_schema_ver = CurrentSchema, cb_depth = 0\<rparr>"

section \<open>Errors\<close>

definition invalid :: "string \<Rightarrow> string \<Rightarrow> domain_error" where
  "invalid name reason = New CodeRouteInvalidCombo
     [WithHTTPStatus 400, WithScope ScopeRequest, WithParams [(''name'', name), (''reason'', reason)]]"

definition cyclic :: "string \<Rightarrow> domain_error" where
  "cyclic name = New CodeRouteCyclicCombo
     [WithHTTPStatus 400, WithScope ScopeRequest, WithParams [(''name'', name)]]"

definition depthExceeded :: "string \<Rightarrow> domain_error" where
  "depthExceeded name = New CodeRouteDepthExceeded
     [WithHTTPStatus 400, WithScope ScopeRequest, WithParams [(''name'', name), (''max'', itoa MaxDepth)]]"

definition fanoutExceeded :: "string \<Rightarrow> domain_error" where
  "fanoutExceeded name = New CodeRouteFanoutExceeded
     [WithHTTPStatus 400, WithScope ScopeRequest, WithParams [(''name'', name), (''max'', itoa MaxFanout)]]"

definition unknownProvider :: "string \<Rightarrow> string \<Rightarrow> domain_error" where
  "unknownProvider name provider = New CodeRouteUnknownProvider
     [WithHTTPStatus 400, WithScope ScopeRequest, WithParams [(''name'', name), (''provider'', provider)]]"

definition unknownModel :: "string \<Rightarrow> string \<Rightarrow> domain_error" where
  "unknownModel name model = New CodeRouteUnknownModel
     [WithHTTPStatus 400, WithScope ScopeRequest, WithParams [(''name'', name), (''model'', model)]]"

lemmas combo_error_defs = invalid_def cyclic_def depthExceeded_def fanoutExceeded_def
  unknownProvider_def unknownModel_def

definition request_error :: "domain_error \<Rightarrow> bool" where
  "request_error e \<longleftrightarrow> de_scope e = ScopeRequest \<and> \<not> de_retryable e \<and> de_http_status e = 400"

lemma request_error_simps [simp]:
  "request_error (invalid a b)" "request_error (cyclic a)" "request_error (depthExceeded a)"
  "request_error (fanoutExceeded a)" "request_error (unknownProvider a b)" "request_error (unknownModel a b)"
  by (simp_all add: request_error_def combo_error_defs new_simps)

section \<open>Shape\<close>

text \<open>The expression \<open>^[a-zA-Z0-9_.-]+$\<close>.\<close>

definition name_char :: "char \<Rightarrow> bool" where
  "name_char c = (let n = of_char c :: nat in
     (97 \<le> n \<and> n \<le> 122) \<or> (65 \<le> n \<and> n \<le> 90) \<or> (48 \<le> n \<and> n \<le> 57)
     \<or> c = CHR ''_'' \<or> c = CHR ''.'' \<or> c = CHR ''-'')"

definition IsValidName :: "string \<Rightarrow> bool" where
  "IsValidName name \<longleftrightarrow> name \<noteq> [] \<and> list_all name_char name"

fun validate_steps :: "string \<Rightarrow> int \<Rightarrow> step list \<Rightarrow> domain_error option" where
  "validate_steps name i [] = None"
| "validate_steps name i (s # ss) =
     (if \<not> IsKnown (st_kind s) then Some (invalid name (''step '' @ itoa i @ '' has an unknown kind''))
      else if st_ref s = '''' then Some (invalid name (''step '' @ itoa i @ '' has an empty reference''))
      else validate_steps name (i + 1) ss)"

definition Validate :: "combo \<Rightarrow> domain_error option" where
  "Validate c =
     (if \<not> IsValidName (cb_name c) then Some (invalid (cb_name c) ''name must match [a-zA-Z0-9_.-]+'')
      else if ParseStrategyKind (cb_strategy c) = None then Some (invalid (cb_name c) ''unknown strategy'')
      else if cb_steps c = [] then Some (invalid (cb_name c) ''combo has no steps'')
      else validate_steps (cb_name c) 0 (cb_steps c))"

lemma validate_steps_None:
  "validate_steps name i ss = None \<longleftrightarrow> (\<forall>s \<in> set ss. IsKnown (st_kind s) \<and> st_ref s \<noteq> '''')"
  by (induction ss arbitrary: i) auto

lemma validate_steps_request: "validate_steps name i ss = Some e \<Longrightarrow> request_error e"
  by (induction ss arbitrary: i) (auto split: if_splits)

lemma Validate_request: "Validate c = Some e \<Longrightarrow> request_error e"
  by (auto simp: Validate_def dest: validate_steps_request split: if_splits)

lemma Validate_None:
  "Validate c = None \<longleftrightarrow> IsValidName (cb_name c) \<and> cb_strategy c \<in> set all_strategies \<and>
     cb_steps c \<noteq> [] \<and> (\<forall>s \<in> set (cb_steps c). IsKnown (st_kind s) \<and> st_ref s \<noteq> '''')"
  by (auto simp: Validate_def validate_steps_None ParseStrategyKind_iff split: if_splits)

section \<open>The reference graph\<close>

type_synonym combo_map = "(combo_id \<times> combo) list"
type_synonym combo_graph = "combo_id \<rightharpoonup> combo"

record provider_set =
  ps_has :: "provider_id \<Rightarrow> bool"
  ps_declares_model :: "model_id \<Rightarrow> bool"

fun check_providers :: "provider_set \<Rightarrow> string \<Rightarrow> step list \<Rightarrow> domain_error option" where
  "check_providers ps name [] = None"
| "check_providers ps name (s # ss) =
     (if st_kind s = StepProviderWildcard then
        (if \<not> ps_has ps (st_ref s) then Some (unknownProvider name (st_ref s)) else check_providers ps name ss)
      else if st_kind s = StepModel then
        (if \<not> ps_declares_model ps (st_ref s) then Some (unknownModel name (st_ref s))
         else check_providers ps name ss)
      else check_providers ps name ss)"

fun check_refs :: "combo_graph \<Rightarrow> string \<Rightarrow> step list \<Rightarrow> domain_error option" where
  "check_refs existing name [] = None"
| "check_refs existing name (s # ss) =
     (if st_kind s \<noteq> StepComboRef then check_refs existing name ss
      else if st_ref s = name then Some (cyclic name)
      else if existing (st_ref s) = None then Some (invalid name (''reference to unknown combo '' @ st_ref s))
      else check_refs existing name ss)"

datatype color = White | Grey | Black

type_synonym dfs = "combo_graph \<times> (combo_id \<Rightarrow> color)"

text \<open>\<open>depthOf\<close> and the loop over a node's steps.  \<^const>\<open>None\<close> means out of fuel.\<close>

fun depth_of :: "nat \<Rightarrow> dfs \<Rightarrow> combo_id \<Rightarrow> (domain_error + int \<times> dfs) option"
  and depth_steps :: "nat \<Rightarrow> dfs \<Rightarrow> step list \<Rightarrow> int \<Rightarrow> (domain_error + int \<times> dfs) option" where
  "depth_of 0 st i = None"
| "depth_of (Suc n) (g, col) i = (case col i of
      Grey \<Rightarrow> Some (Inl (cyclic i))
    | Black \<Rightarrow> Some (Inr (case g i of Some node \<Rightarrow> cb_depth node | None \<Rightarrow> 0, (g, col)))
    | White \<Rightarrow> (case g i of
          None \<Rightarrow> Some (Inl (invalid i ''reference to unknown combo''))
        | Some node \<Rightarrow> (case depth_steps n (g, col(i := Grey)) (cb_steps node) 0 of
              None \<Rightarrow> None
            | Some (Inl e) \<Rightarrow> Some (Inl e)
            | Some (Inr (maxChild, (g', col'))) \<Rightarrow>
                Some (Inr (maxChild, (g'(i \<mapsto> node\<lparr>cb_depth := maxChild\<rparr>), col'(i := Black)))))))"
| "depth_steps n st [] maxChild = Some (Inr (maxChild, st))"
| "depth_steps n st (s # ss) maxChild =
     (if st_kind s \<noteq> StepComboRef then depth_steps n st ss maxChild
      else (case depth_of n st (st_ref s) of
          None \<Rightarrow> None
        | Some (Inl e) \<Rightarrow> Some (Inl e)
        | Some (Inr (childDepth, st')) \<Rightarrow>
            depth_steps n st' ss (if childDepth + 1 > maxChild then childDepth + 1 else maxChild)))"

text \<open>A nil provider set is \<^const>\<open>None\<close>: the caller opted out of the allowlist.\<close>

definition ValidateGraph :: "combo \<Rightarrow> combo_map \<Rightarrow> provider_set option \<Rightarrow> (domain_error + int) option" where
  "ValidateGraph c existing providers =
     (case Validate c of Some e \<Rightarrow> Some (Inl e) | None \<Rightarrow>
      (case (case providers of None \<Rightarrow> None | Some ps \<Rightarrow> check_providers ps (cb_name c) (cb_steps c)) of
         Some e \<Rightarrow> Some (Inl e) | None \<Rightarrow>
      (case check_refs (map_of existing) (cb_name c) (cb_steps c) of Some e \<Rightarrow> Some (Inl e) | None \<Rightarrow>
      (if cb_strategy c = StrategyFusion \<and> int (length (cb_steps c)) > MaxFanout
       then Some (Inl (fanoutExceeded (cb_name c)))
       else
        (case depth_of (length existing + 2) ((map_of existing)(cb_id c \<mapsto> c), \<lambda>_. White) (cb_id c) of
           None \<Rightarrow> None
         | Some (Inl e) \<Rightarrow> Some (Inl e)
         | Some (Inr (depth, _)) \<Rightarrow>
             if depth > MaxDepth then Some (Inl (depthExceeded (cb_name c))) else Some (Inr depth))))))"

section \<open>Chains of references\<close>

definition refs_of :: "combo \<Rightarrow> combo_id list" where
  "refs_of c = map st_ref (filter (\<lambda>s. st_kind s = StepComboRef) (cb_steps c))"

definition ref_edge :: "combo_graph \<Rightarrow> combo_id \<Rightarrow> combo_id \<Rightarrow> bool" where
  "ref_edge G a b \<longleftrightarrow> (\<exists>c. G a = Some c \<and> b \<in> set (refs_of c))"

text \<open>\<open>has_chain G a n\<close>: from \<open>a\<close> there is a chain of \<open>n\<close> references.\<close>

inductive has_chain :: "combo_graph \<Rightarrow> combo_id \<Rightarrow> nat \<Rightarrow> bool" for G where
  chain_0: "has_chain G a 0"
| chain_Suc: "ref_edge G a b \<Longrightarrow> has_chain G b n \<Longrightarrow> has_chain G a (Suc n)"

inductive_cases has_chain_SucE: "has_chain G a (Suc n)"

inductive_simps has_chain_Suc_iff: "has_chain G a (Suc n)"

text \<open>The longest chain from \<open>a\<close> has \<open>d\<close> references; there is none exactly when a cycle can be
  reached from \<open>a\<close>.\<close>

definition longest :: "combo_graph \<Rightarrow> combo_id \<Rightarrow> nat \<Rightarrow> bool" where
  "longest G a d \<longleftrightarrow> has_chain G a d \<and> \<not> has_chain G a (Suc d)"

definition resolved :: "combo_graph \<Rightarrow> combo_id \<Rightarrow> bool" where
  "resolved G a \<longleftrightarrow> (\<forall>b. (ref_edge G)\<^sup>*\<^sup>* a b \<longrightarrow> G b \<noteq> None)"

lemma has_chain_Suc_D: "has_chain G a (Suc n) \<Longrightarrow> has_chain G a n"
proof (induction n arbitrary: a)
  case 0
  show ?case by (rule chain_0)
next
  case (Suc n)
  then obtain b where "ref_edge G a b" "has_chain G b (Suc n)" by (auto elim: has_chain_SucE)
  with Suc.IH show ?case by (blast intro: chain_Suc)
qed

lemma has_chain_mono: "has_chain G a n \<Longrightarrow> m \<le> n \<Longrightarrow> has_chain G a m"
  by (induction n) (auto simp: le_Suc_eq dest: has_chain_Suc_D)

lemma longest_iff: "longest G a d \<Longrightarrow> has_chain G a n \<longleftrightarrow> n \<le> d"
  unfolding longest_def by (meson has_chain_mono not_less_eq_eq)

lemma longest_unique: "longest G a d \<Longrightarrow> longest G a d' \<Longrightarrow> d = d'"
  by (metis longest_iff order.antisym order.refl)

lemma chain_to_path:
  assumes "(ref_edge G)\<^sup>*\<^sup>* b a" "has_chain G a n"
  shows "has_chain G b n"
  using assms by (induction rule: converse_rtranclp_induct) (blast intro: chain_Suc has_chain_Suc_D)+

text \<open>A cycle that can be reached gives chains of every length.\<close>

lemma cycle_chain:
  assumes "(ref_edge G)\<^sup>+\<^sup>+ x x"
  shows "has_chain G x n"
proof (induction n)
  case 0
  show ?case by (rule chain_0)
next
  case (Suc n)
  from assms obtain y where "ref_edge G x y" "(ref_edge G)\<^sup>*\<^sup>* y x"
    by (meson tranclpD)
  with Suc chain_to_path show ?case by (blast intro: chain_Suc)
qed

lemma longest_acyclic: "longest G a d \<Longrightarrow> (ref_edge G)\<^sup>*\<^sup>* a x \<Longrightarrow> \<not> (ref_edge G)\<^sup>+\<^sup>+ x x"
  unfolding longest_def by (meson cycle_chain chain_to_path)

lemma resolved_step: "G a \<noteq> None \<Longrightarrow> (\<And>b. ref_edge G a b \<Longrightarrow> resolved G b) \<Longrightarrow> resolved G a"
  unfolding resolved_def by (metis converse_rtranclpE)

lemma longest_node:
  assumes "\<And>b. ref_edge G a b \<Longrightarrow> \<exists>m. longest G b m \<and> m + 1 \<le> d"
    and "d = 0 \<or> (\<exists>b m. ref_edge G a b \<and> longest G b m \<and> d = Suc m)"
  shows "longest G a d"
proof -
  have "has_chain G a d"
    using assms(2) by (auto simp: longest_def intro: has_chain.intros)
  moreover have "\<not> has_chain G a (Suc d)"
    using assms(1) by (metis Suc_eq_plus1 Suc_le_eq has_chain_SucE leD longest_iff)
  ultimately show ?thesis by (simp add: longest_def)
qed

section \<open>The depth-first search is exact\<close>

text \<open>Invariant of the search over the graph \<open>G\<close> it started from: the steps never change, and a
  black node carries the length of its longest chain and reaches only combos that exist.\<close>

definition dfs_inv :: "combo_graph \<Rightarrow> dfs \<Rightarrow> bool" where
  "dfs_inv G st \<longleftrightarrow> (\<forall>x. map_option cb_steps (fst st x) = map_option cb_steps (G x)) \<and>
     (\<forall>x. snd st x = Black \<longrightarrow>
        (\<exists>node m. fst st x = Some node \<and> cb_depth node = int m \<and> longest G x m \<and> resolved G x))"

definition dfs_post :: "dfs \<Rightarrow> dfs \<Rightarrow> bool" where
  "dfs_post st st' \<longleftrightarrow> (\<forall>x. snd st' x = Grey \<longleftrightarrow> snd st x = Grey) \<and>
     (\<forall>x. snd st x = Black \<longrightarrow> snd st' x = Black)"

lemma dfs_post_trans: "dfs_post a b \<Longrightarrow> dfs_post b c \<Longrightarrow> dfs_post a c"
  by (simp add: dfs_post_def)

definition step_refs :: "step list \<Rightarrow> combo_id list" where
  "step_refs ss = map st_ref (filter (\<lambda>s. st_kind s = StepComboRef) ss)"

lemma step_refs_simps [simp]:
  "step_refs [] = []"
  "step_refs (s # ss) = (if st_kind s = StepComboRef then st_ref s # step_refs ss else step_refs ss)"
  by (simp_all add: step_refs_def)

lemma refs_of_steps: "refs_of c = step_refs (cb_steps c)"
  by (simp add: refs_of_def step_refs_def)

lemma dfs_inv_node:
  assumes "dfs_inv G (g, col)" "g i = Some node"
  obtains c where "G i = Some c" "cb_steps c = cb_steps node"
proof -
  from assms(1) have "map_option cb_steps (g i) = map_option cb_steps (G i)"
    by (simp add: dfs_inv_def)
  with assms(2) that show thesis by (cases "G i") auto
qed

lemma dfs_inv_edges:
  assumes "dfs_inv G (g, col)" "g i = Some node"
  shows "ref_edge G i b \<longleftrightarrow> b \<in> set (step_refs (cb_steps node))"
proof -
  from assms obtain c where "G i = Some c" "cb_steps c = cb_steps node" by (rule dfs_inv_node)
  then show ?thesis by (simp add: ref_edge_def refs_of_steps)
qed

lemma step_depth [simp]: "cb_steps (c\<lparr>cb_depth := d\<rparr>) = cb_steps c"
  by simp

lemma dfs_inv_None: "dfs_inv G (g, col) \<Longrightarrow> g i = None \<longleftrightarrow> G i = None"
  by (simp add: dfs_inv_def) (metis map_option_is_None)

lemma depth_ok:
  "depth_of n st i = Some (Inr (d, st')) \<Longrightarrow> dfs_inv G st \<Longrightarrow>
     dfs_post st st' \<and> dfs_inv G st' \<and> (\<exists>m. longest G i m \<and> d = int m) \<and> resolved G i"
  "depth_steps n st ss mx = Some (Inr (d, st')) \<Longrightarrow> dfs_inv G st \<Longrightarrow>
     dfs_post st st' \<and> dfs_inv G st' \<and> mx \<le> d \<and>
     (\<forall>b \<in> set (step_refs ss). resolved G b \<and> (\<exists>m. longest G b m \<and> int m + 1 \<le> d)) \<and>
     (d = mx \<or> (\<exists>b \<in> set (step_refs ss). \<exists>m. longest G b m \<and> d = int m + 1))"
proof (induction n st i and n st ss mx arbitrary: d st' and d st' rule: depth_of_depth_steps.induct)
  case (2 n g col i)
  show ?case
  proof (cases "col i")
    case White
    with "2.prems" obtain node where node: "g i = Some node"
      by (auto split: option.splits)
    with "2.prems" White obtain g' col' where steps:
      "depth_steps n (g, col(i := Grey)) (cb_steps node) 0 = Some (Inr (d, (g', col')))"
      and st': "st' = (g'(i \<mapsto> node\<lparr>cb_depth := d\<rparr>), col'(i := Black))"
      by (auto split: option.splits sum.splits)
    have inv0: "dfs_inv G (g, col(i := Grey))"
      using "2.prems"(2) by (auto simp: dfs_inv_def)
    note IH = "2.IH" [OF White node steps inv0]
    have edges: "ref_edge G i b \<longleftrightarrow> b \<in> set (step_refs (cb_steps node))" for b
      using "2.prems"(2) node by (rule dfs_inv_edges)
    have long: "longest G i (nat d)"
    proof (rule longest_node)
      fix b assume "ref_edge G i b"
      then show "\<exists>m. longest G b m \<and> m + 1 \<le> nat d" using IH edges by fastforce
    next
      show "nat d = 0 \<or> (\<exists>b m. ref_edge G i b \<and> longest G b m \<and> nat d = Suc m)"
        using IH edges by fastforce
    qed
    have "G i \<noteq> None" using dfs_inv_None [OF "2.prems"(2), of i] node by simp
    then have res: "resolved G i" by (rule resolved_step) (use IH edges in blast)
    have same: "map_option cb_steps (G i) = Some (cb_steps node)"
      using dfs_inv_node [OF "2.prems"(2) node] by (metis option.map(2))
    have "dfs_post (g, col) st'" using IH White by (auto simp: dfs_post_def st')
    moreover have nat_d: "d = int (nat d)" using IH by simp
    have "dfs_inv G st'"
      unfolding dfs_inv_def st' fst_conv snd_conv
    proof (intro conjI allI impI)
      fix x
      show "map_option cb_steps ((g'(i \<mapsto> node\<lparr>cb_depth := d\<rparr>)) x) = map_option cb_steps (G x)"
      proof (cases "x = i")
        case True
        show ?thesis by (simp only: True same fun_upd_same option.map(2) step_depth)
      next
        case False
        with IH show ?thesis by (simp add: dfs_inv_def)
      qed
      assume black: "(col'(i := Black)) x = Black"
      show "\<exists>n m. (g'(i \<mapsto> node\<lparr>cb_depth := d\<rparr>)) x = Some n \<and> cb_depth n = int m \<and>
          longest G x m \<and> resolved G x"
      proof (cases "x = i")
        case True
        with long res nat_d [symmetric] show ?thesis
          by (intro exI [of _ "node\<lparr>cb_depth := d\<rparr>"] exI [of _ "nat d"]) simp
      next
        case False
        with black IH show ?thesis by (simp add: dfs_inv_def)
      qed
    qed
    ultimately show ?thesis using long res nat_d by blast
  next
    case Grey
    with "2.prems" show ?thesis by simp
  next
    case Black
    with "2.prems" show ?thesis by (auto simp: dfs_inv_def dfs_post_def)
  qed
next
  case (4 n st s ss mx)
  show ?case
  proof (cases "st_kind s = StepComboRef")
    case False
    then show ?thesis using "4.IH"(1) "4.prems" by simp
  next
    case True
    with "4.prems" obtain cd st1 where child: "depth_of n st (st_ref s) = Some (Inr (cd, st1))"
      and rest: "depth_steps n st1 ss (if cd + 1 > mx then cd + 1 else mx) = Some (Inr (d, st'))"
      by (auto split: option.splits sum.splits)
    from True have ref: "\<not> st_kind s \<noteq> StepComboRef" by simp
    note c = "4.IH"(2) [OF ref child "4.prems"(2)]
    have inv1: "dfs_inv G st1" using c True by simp
    note r = "4.IH"(3) [OF ref child refl refl rest inv1]
    have c1: "dfs_post st st1" "resolved G (st_ref s)" and "\<exists>m. longest G (st_ref s) m \<and> cd = int m"
      using c True by simp_all
    then obtain m where m: "longest G (st_ref s) m" "cd = int m" by blast
    have post: "dfs_post st st'" using c1(1) r by (blast intro: dfs_post_trans)
    have le: "mx \<le> d" "int m + 1 \<le> d" using r m(2) by (auto split: if_splits)
    have "d = mx \<or> (\<exists>b \<in> set (step_refs (s # ss)). \<exists>m. longest G b m \<and> d = int m + 1)"
      using r m True by (auto split: if_splits)
    moreover have "\<forall>b \<in> set (step_refs (s # ss)). resolved G b \<and> (\<exists>m. longest G b m \<and> int m + 1 \<le> d)"
      using r m le c1(2) True by auto
    ultimately show ?thesis using post r le by blast
  qed
qed (auto simp: dfs_post_def)

text \<open>An error is never spurious: it reports a reference that does not resolve, or a cycle.\<close>

definition trouble :: "combo_graph \<Rightarrow> dfs \<Rightarrow> combo_id \<Rightarrow> bool" where
  "trouble G st i \<longleftrightarrow> (\<exists>x. (ref_edge G)\<^sup>*\<^sup>* i x \<and> snd st x = Grey) \<or> \<not> resolved G i \<or> (\<nexists>d. longest G i d)"

lemma longest_child:
  assumes "longest G a d" "ref_edge G a b"
  shows "\<exists>m. longest G b m"
proof -
  have "\<not> has_chain G b d"
    using assms by (auto simp: longest_def intro: chain_Suc)
  then obtain k where "\<not> has_chain G b k" "\<forall>j < k. has_chain G b j"
    using exists_least_iff [of "\<lambda>k. \<not> has_chain G b k"] by auto
  moreover from this have "k \<noteq> 0" by (metis chain_0)
  then obtain m where "k = Suc m" by (cases k) auto
  ultimately show ?thesis by (auto simp: longest_def)
qed

lemma resolved_child: "resolved G a \<Longrightarrow> ref_edge G a b \<Longrightarrow> resolved G b"
  by (simp add: resolved_def) (meson converse_rtranclp_into_rtranclp)

lemma trouble_child:
  assumes "trouble G (g, col(i := Grey)) b" "ref_edge G i b"
  shows "trouble G (g', col) i"
proof (rule ccontr)
  assume "\<not> trouble G (g', col) i"
  then have none: "\<And>x. (ref_edge G)\<^sup>*\<^sup>* i x \<Longrightarrow> col x \<noteq> Grey" and res: "resolved G i"
    and "\<exists>d. longest G i d"
    by (auto simp: trouble_def)
  then obtain d where d: "longest G i d" by blast
  from assms(1) longest_child [OF d assms(2)] resolved_child [OF res assms(2)]
  obtain x where x: "(ref_edge G)\<^sup>*\<^sup>* b x" "(col(i := Grey)) x = Grey"
    by (auto simp: trouble_def)
  show False
  proof (cases "x = i")
    case True
    with x assms(2) have "(ref_edge G)\<^sup>+\<^sup>+ i i" by (meson rtranclp_into_tranclp2)
    with longest_acyclic [OF d] show False by blast
  next
    case False
    with x none assms(2) show False by (metis converse_rtranclp_into_rtranclp fun_upd_other)
  qed
qed

lemma trouble_post: "dfs_post st st' \<Longrightarrow> trouble G st' b \<longleftrightarrow> trouble G st b"
  by (simp add: dfs_post_def trouble_def)

lemma depth_error:
  "depth_of n st i = Some (Inl e) \<Longrightarrow> dfs_inv G st \<Longrightarrow> trouble G st i"
  "depth_steps n st ss mx = Some (Inl e) \<Longrightarrow> dfs_inv G st \<Longrightarrow> \<exists>b \<in> set (step_refs ss). trouble G st b"
proof (induction n st i and n st ss mx arbitrary: e and e rule: depth_of_depth_steps.induct)
  case (2 n g col i)
  show ?case
  proof (cases "col i")
    case White
    show ?thesis
    proof (cases "g i")
      case None
      with "2.prems"(2) have "G i = None" by (simp add: dfs_inv_None)
      then show ?thesis by (auto simp: trouble_def resolved_def)
    next
      case (Some node)
      with "2.prems" White
      have steps: "depth_steps n (g, col(i := Grey)) (cb_steps node) 0 = Some (Inl e)"
        by (auto split: option.splits sum.splits)
      have "dfs_inv G (g, col(i := Grey))"
        using "2.prems"(2) by (auto simp: dfs_inv_def)
      with "2.IH" [OF White Some steps] obtain b
        where "b \<in> set (step_refs (cb_steps node))" "trouble G (g, col(i := Grey)) b" by blast
      with dfs_inv_edges [OF "2.prems"(2) Some] show ?thesis by (blast intro: trouble_child)
    qed
  qed (use "2.prems" in \<open>auto simp: trouble_def\<close>)
next
  case (4 n st s ss mx)
  show ?case
  proof (cases "st_kind s = StepComboRef")
    case False
    then show ?thesis using "4.IH"(1) "4.prems" by simp
  next
    case True
    then have ref: "\<not> st_kind s \<noteq> StepComboRef" by simp
    from True "4.prems"(1) consider
        "depth_of n st (st_ref s) = Some (Inl e)"
      | cd st1 where "depth_of n st (st_ref s) = Some (Inr (cd, st1))"
          "depth_steps n st1 ss (if cd + 1 > mx then cd + 1 else mx) = Some (Inl e)"
      by (auto split: option.splits sum.splits)
    then show ?thesis
    proof cases
      case 1
      with "4.IH"(2) [OF ref _ "4.prems"(2)] True show ?thesis by auto
    next
      case 2
      note ok = depth_ok(1) [OF 2(1) "4.prems"(2)]
      with "4.IH"(3) [OF ref 2(1) refl refl 2(2)] trouble_post [of st st1] True show ?thesis by auto
    qed
  qed
qed auto

text \<open>The fuel is enough: a call to \<open>depthOf\<close> that recurs turns one more combo of the graph grey.\<close>

definition whites :: "dfs \<Rightarrow> combo_id set" where
  "whites st = {x. fst st x \<noteq> None \<and> snd st x = White}"

lemma whites_finite: "dfs_inv G st \<Longrightarrow> finite (dom G) \<Longrightarrow> finite (whites st)"
  by (rule finite_subset [of _ "dom G"]) (cases st, auto simp: whites_def dfs_inv_None)

lemma whites_post: "dfs_post st st' \<Longrightarrow> dfs_inv G st \<Longrightarrow> dfs_inv G st' \<Longrightarrow> whites st' \<subseteq> whites st"
  by (cases st; cases st') (auto simp: whites_def dfs_inv_None dfs_post_def,
    metis color.exhaust color.distinct)

lemma depth_total:
  assumes fin: "finite (dom G)"
  shows "dfs_inv G st \<Longrightarrow> card (whites st) < n \<Longrightarrow> depth_of n st i \<noteq> None"
    and "dfs_inv G st \<Longrightarrow> card (whites st) < n \<Longrightarrow> depth_steps n st ss mx \<noteq> None"
proof (induction n st i and n st ss mx rule: depth_of_depth_steps.induct)
  case (2 n g col i)
  show ?case
  proof (cases "col i = White \<and> g i \<noteq> None")
    case True
    then obtain node where node: "col i = White" "g i = Some node" by auto
    have inv: "dfs_inv G (g, col(i := Grey))"
      using "2.prems"(1) by (auto simp: dfs_inv_def)
    have "whites (g, col(i := Grey)) = whites (g, col) - {i}" "i \<in> whites (g, col)"
      using node by (auto simp: whites_def)
    then have "card (whites (g, col(i := Grey))) < card (whites (g, col))"
      using whites_finite [OF "2.prems"(1) fin] by (metis card_Diff1_less)
    then have "depth_steps n (g, col(i := Grey)) (cb_steps node) 0 \<noteq> None"
      using "2.IH" [OF node inv] "2.prems"(2) by linarith
    with node show ?thesis by (auto split: option.splits sum.splits)
  qed (auto split: color.splits option.splits)
next
  case (4 n st s ss mx)
  show ?case
  proof (cases "st_kind s = StepComboRef")
    case False
    then show ?thesis using "4.IH"(1) "4.prems" by simp
  next
    case True
    then have ref: "\<not> st_kind s \<noteq> StepComboRef" by simp
    note child = "4.IH"(2) [OF ref "4.prems"]
    show ?thesis
    proof (cases "\<exists>cd st1. depth_of n st (st_ref s) = Some (Inr (cd, st1))")
      case False
      with child True show ?thesis by (auto split: option.splits sum.splits)
    next
      case True
      then obtain cd st1 where c: "depth_of n st (st_ref s) = Some (Inr (cd, st1))" by blast
      note ok = depth_ok(1) [OF c "4.prems"(1)]
      then have "card (whites st1) \<le> card (whites st)"
        using whites_post "4.prems"(1) whites_finite [OF "4.prems"(1) fin] by (meson card_mono)
      with "4.IH"(3) [OF ref c refl refl] ok "4.prems"(2) c ref show ?thesis by simp
    qed
  qed
qed auto

section \<open>The graph check accepts exactly the bounded, resolved, acyclic graphs\<close>

definition graph_with :: "combo \<Rightarrow> combo_map \<Rightarrow> combo_graph" where
  "graph_with c existing = (map_of existing)(cb_id c \<mapsto> c)"

lemma finite_graph_with: "finite (dom (graph_with c existing))"
  by (simp add: graph_with_def finite_dom_map_of)

lemma card_graph_with: "card (dom (graph_with c existing)) < length existing + 2"
proof -
  have "dom (map_of existing) = set (map fst existing)" by (simp add: dom_map_of_conv_image_fst)
  then have "card (dom (map_of existing)) \<le> length existing"
    by (metis card_length length_map)
  then show ?thesis
    by (simp add: graph_with_def card_insert_if finite_dom_map_of)
qed

lemma dfs_inv_start: "dfs_inv G (G, \<lambda>_. White)"
  by (simp add: dfs_inv_def)

lemma depth_of_start:
  fixes c :: combo and existing :: combo_map
  defines "G \<equiv> graph_with c existing"
  obtains (ok) d st where "depth_of (length existing + 2) (G, \<lambda>_. White) (cb_id c) = Some (Inr (int d, st))"
      "longest G (cb_id c) d" "resolved G (cb_id c)"
  | (bad) e where "depth_of (length existing + 2) (G, \<lambda>_. White) (cb_id c) = Some (Inl e)"
      "\<not> resolved G (cb_id c) \<or> (\<nexists>d. longest G (cb_id c) d)"
proof -
  have "whites (G, \<lambda>_. White) = dom G" by (auto simp: whites_def)
  then have "depth_of (length existing + 2) (G, \<lambda>_. White) (cb_id c) \<noteq> None"
    using depth_total(1) [OF finite_graph_with dfs_inv_start] card_graph_with
    unfolding G_def by metis
  then consider e where "depth_of (length existing + 2) (G, \<lambda>_. White) (cb_id c) = Some (Inl e)"
    | d st where "depth_of (length existing + 2) (G, \<lambda>_. White) (cb_id c) = Some (Inr (d, st))"
    by (metis option.exhaust sum.exhaust surj_pair)
  then show thesis
  proof cases
    case 1
    from depth_error(1) [OF this dfs_inv_start] show thesis
      by (intro bad [OF 1]) (simp add: trouble_def)
  next
    case 2
    from depth_ok(1) [OF this dfs_inv_start] show thesis
      using ok 2 by blast
  qed
qed

lemma check_providers_None:
  "check_providers ps name ss = None \<longleftrightarrow>
     (\<forall>s \<in> set ss. (st_kind s = StepProviderWildcard \<longrightarrow> ps_has ps (st_ref s)) \<and>
        (st_kind s = StepModel \<longrightarrow> ps_declares_model ps (st_ref s)))"
  by (induction ss) (auto simp: step_kind_defs)

lemma check_refs_None:
  "check_refs G name ss = None \<longleftrightarrow> (\<forall>r \<in> set (step_refs ss). r \<noteq> name \<and> G r \<noteq> None)"
  by (induction ss) auto

text \<open>What a combo must satisfy to be saved, without the search: the specification of the check.\<close>

definition saveable :: "combo \<Rightarrow> combo_map \<Rightarrow> provider_set option \<Rightarrow> nat \<Rightarrow> bool" where
  "saveable c existing providers d \<longleftrightarrow>
     Validate c = None \<and>
     (\<forall>ps. providers = Some ps \<longrightarrow> (\<forall>s \<in> set (cb_steps c).
        (st_kind s = StepProviderWildcard \<longrightarrow> ps_has ps (st_ref s)) \<and>
        (st_kind s = StepModel \<longrightarrow> ps_declares_model ps (st_ref s)))) \<and>
     (\<forall>r \<in> set (refs_of c). r \<noteq> cb_name c \<and> map_of existing r \<noteq> None) \<and>
     (cb_strategy c = StrategyFusion \<longrightarrow> int (length (cb_steps c)) \<le> MaxFanout) \<and>
     resolved (graph_with c existing) (cb_id c) \<and>
     longest (graph_with c existing) (cb_id c) d \<and> int d \<le> MaxDepth"

lemma ValidateGraph_prefix:
  "ValidateGraph c existing providers = Some r \<Longrightarrow>
   (\<exists>e. r = Inl e) \<or> (Validate c = None \<and>
     (\<forall>ps. providers = Some ps \<longrightarrow> check_providers ps (cb_name c) (cb_steps c) = None) \<and>
     check_refs (map_of existing) (cb_name c) (cb_steps c) = None \<and>
     \<not> (cb_strategy c = StrategyFusion \<and> int (length (cb_steps c)) > MaxFanout))"
  by (auto simp: ValidateGraph_def split: option.splits if_splits)

lemma ValidateGraph_search:
  assumes "Validate c = None" "\<And>ps. providers = Some ps \<Longrightarrow> check_providers ps (cb_name c) (cb_steps c) = None"
    and "check_refs (map_of existing) (cb_name c) (cb_steps c) = None"
    and "\<not> (cb_strategy c = StrategyFusion \<and> int (length (cb_steps c)) > MaxFanout)"
  shows "ValidateGraph c existing providers =
     (case depth_of (length existing + 2) (graph_with c existing, \<lambda>_. White) (cb_id c) of
        None \<Rightarrow> None
      | Some (Inl e) \<Rightarrow> Some (Inl e)
      | Some (Inr (depth, _)) \<Rightarrow>
          if depth > MaxDepth then Some (Inl (depthExceeded (cb_name c))) else Some (Inr depth))"
proof -
  have "(case providers of None \<Rightarrow> None | Some ps \<Rightarrow> check_providers ps (cb_name c) (cb_steps c)) = None"
    using assms(2) by (simp split: option.splits)
  then show ?thesis
    unfolding ValidateGraph_def graph_with_def [symmetric] assms(1,3) if_not_P [OF assms(4)] by simp
qed

lemma validate_graph_saveable:
  "ValidateGraph c existing providers = Some (Inr (int d)) \<longleftrightarrow> saveable c existing providers d"
proof
  assume acc: "ValidateGraph c existing providers = Some (Inr (int d))"
  with ValidateGraph_prefix have pre: "Validate c = None"
    "\<And>ps. providers = Some ps \<Longrightarrow> check_providers ps (cb_name c) (cb_steps c) = None"
    "check_refs (map_of existing) (cb_name c) (cb_steps c) = None"
    "\<not> (cb_strategy c = StrategyFusion \<and> int (length (cb_steps c)) > MaxFanout)"
    by blast+
  note search = ValidateGraph_search [of c, OF pre]
  show "saveable c existing providers d"
  proof (rule depth_of_start [of existing c])
    fix d' st
    assume "depth_of (length existing + 2) (graph_with c existing, \<lambda>_. White) (cb_id c) = Some (Inr (int d', st))"
      and long: "longest (graph_with c existing) (cb_id c) d'" and res: "resolved (graph_with c existing) (cb_id c)"
    with acc search have "d = d'" "int d \<le> MaxDepth" by (simp_all split: if_splits)
    with pre long res show ?thesis
      unfolding saveable_def check_providers_None check_refs_None refs_of_steps by auto
  qed (use acc search in auto)
next
  assume s: "saveable c existing providers d"
  then have pre: "Validate c = None"
    "\<And>ps. providers = Some ps \<Longrightarrow> check_providers ps (cb_name c) (cb_steps c) = None"
    "check_refs (map_of existing) (cb_name c) (cb_steps c) = None"
    "\<not> (cb_strategy c = StrategyFusion \<and> int (length (cb_steps c)) > MaxFanout)"
    by (auto simp: saveable_def check_providers_None check_refs_None refs_of_steps)
  note search = ValidateGraph_search [of c, OF pre]
  from s have long: "longest (graph_with c existing) (cb_id c) d" and "resolved (graph_with c existing) (cb_id c)"
    and le: "int d \<le> MaxDepth"
    by (simp_all add: saveable_def)
  then show "ValidateGraph c existing providers = Some (Inr (int d))"
    by (rule_tac depth_of_start [of existing c]) (use search in \<open>auto dest: longest_unique\<close>)
qed


text \<open>C7: The save-time check is exact: it accepts a combo, with depth \<open>d\<close>, exactly when its shape
  is right, its provider and model targets are allowed, its references exist and are not itself,
  a fusion combo has at most \<open>MaxFanout\<close> steps, every combo it reaches exists, the longest chain
  of references from it has \<open>d\<close> links (so no cycle can be reached from it) and \<open>d\<close> is at most
  \<open>MaxDepth\<close>.\<close>

theorem validate_graph_exact:
  "ValidateGraph c existing providers = Some (Inr (int d)) \<longleftrightarrow> saveable c existing providers d"
  by (rule validate_graph_saveable)

text \<open>Two combos, one referring to the other, for the witnesses.\<close>

definition sample_leaf :: combo where
  "sample_leaf = NewCombo ''leaf'' StrategyPriority
     [\<lparr>st_kind = StepModel, st_ref = ''m'', st_weight = 0, st_prompt = '''', st_allowed = [],
       st_fallback_only_on_quota = False\<rparr>]"

definition sample_ref :: "string \<Rightarrow> string \<Rightarrow> combo" where
  "sample_ref name target = NewCombo name StrategyPriority
     [\<lparr>st_kind = StepComboRef, st_ref = target, st_weight = 0, st_prompt = '''', st_allowed = [],
       st_fallback_only_on_quota = False\<rparr>]"

definition sample_providers :: provider_set where
  "sample_providers = \<lparr>ps_has = (\<lambda>p. p = ''openai''), ps_declares_model = (\<lambda>m. m = ''m'')\<rparr>"

lemma validate_graph_exact_witness:
  "saveable (sample_ref ''top'' ''leaf'') [(''leaf'', sample_leaf)] (Some sample_providers) 1"
proof -
  have "ValidateGraph (sample_ref ''top'' ''leaf'') [(''leaf'', sample_leaf)] (Some sample_providers)
      = Some (Inr (int 1))"
    by code_simp
  then show ?thesis using validate_graph_exact by blast
qed

lemma check_providers_request: "check_providers ps name ss = Some e \<Longrightarrow> request_error e"
  by (induction ss) (auto split: if_splits)

lemma check_refs_request: "check_refs G name ss = Some e \<Longrightarrow> request_error e"
  by (induction ss) (auto split: if_splits)

lemma depth_request:
  "depth_of n st i = Some (Inl e) \<Longrightarrow> request_error e"
  "depth_steps n st ss mx = Some (Inl e) \<Longrightarrow> request_error e"
  by (induction n st i and n st ss mx arbitrary: e and e rule: depth_of_depth_steps.induct)
    (auto split: color.splits option.splits sum.splits if_splits)

lemma validate_graph_answers:
  "(\<exists>d. ValidateGraph c existing providers = Some (Inr d) \<and> 0 \<le> d \<and> d \<le> MaxDepth) \<or>
   (\<exists>e. ValidateGraph c existing providers = Some (Inl e) \<and>
      de_scope e = ScopeRequest \<and> \<not> de_retryable e \<and> de_http_status e = 400)"
proof -
  have "(\<exists>d. ValidateGraph c existing providers = Some (Inr d) \<and> 0 \<le> d \<and> d \<le> MaxDepth) \<or>
    (\<exists>e. ValidateGraph c existing providers = Some (Inl e) \<and> request_error e)"
    by (rule depth_of_start [of existing c])
      (auto simp: ValidateGraph_def graph_with_def [symmetric] simp del: depth_of.simps
        dest: Validate_request check_providers_request check_refs_request depth_request
        split: option.splits if_splits)
  then show ?thesis by (simp add: request_error_def)
qed

text \<open>C8: The check always answers, and a refusal is always blamed on the request: it is a 400 error
  of the request's scope that no caller retries, so a combo that cannot be saved never costs a
  credential or a provider a cooldown.  An accepted depth is between 0 and \<open>MaxDepth\<close>.\<close>

theorem validate_graph_total:
  "(\<exists>d. ValidateGraph c existing providers = Some (Inr d) \<and> 0 \<le> d \<and> d \<le> MaxDepth) \<or>
   (\<exists>e. ValidateGraph c existing providers = Some (Inl e) \<and>
      de_scope e = ScopeRequest \<and> \<not> de_retryable e \<and> de_http_status e = 400)"
  by (rule validate_graph_answers)

section \<open>Not found, and the format of a stored combo\<close>

definition ErrNotFound :: domain_error where
  "ErrNotFound = New CodeNotFound [WithHTTPStatus 404]"

definition IsNotFound :: "domain_error \<Rightarrow> bool" where
  "IsNotFound e \<longleftrightarrow> e = ErrNotFound"

lemma ErrNotFound_invalid [simp]: "invalid a b \<noteq> ErrNotFound"
  by (simp add: invalid_def ErrNotFound_def new_simps)

definition Upgrade :: "combo \<Rightarrow> domain_error + combo" where
  "Upgrade c =
     (if cb_schema_ver c = CurrentSchema then Inr c
      else if cb_schema_ver c > CurrentSchema then
        Inl (invalid (cb_name c) ''combo schema version is newer than this build'')
      else if cb_schema_ver c \<le> 0 then Inl (invalid (cb_name c) ''combo has no schema version'')
      else Inl (invalid (cb_name c) ''combo schema version predates any shipped format''))"

lemma Upgrade_iff: "Upgrade c = Inr c' \<longleftrightarrow> cb_schema_ver c = CurrentSchema \<and> c' = c"
  by (auto simp: Upgrade_def)

end
