(* ===== verification/Combo_Store.thy ===== *)
theory Combo_Store
  imports Combos
begin

text \<open>
  The persistence of combos, \<open>internal/store/combo_store.go\<close>, with the mapping of a management
  request onto a combo (\<open>ComboFromRequest\<close>).  The \<open>combos\<close> table is a list of rows whose key
  column is \<open>name\<close>; a row's JSON body is the list of steps it encodes, and its two time stamps,
  which nothing here reads, are left out.  The text of the database's own error for a violated
  key, \<open>uniq\<close>, is a parameter.  A failing disk is not modelled.
\<close>

section \<open>The table\<close>

record combo_row =
  rw_name :: string
  rw_schema_ver :: int
  rw_policy :: string
  rw_body :: "step list"
  rw_depth :: int

type_synonym combo_table = "combo_row list"

definition CodeStoreOpenFailed :: string where "CodeStoreOpenFailed = ''store.open_failed''"

definition comboStoreError :: "string \<Rightarrow> go_error \<Rightarrow> domain_error" where
  "comboStoreError op err = New CodeStoreOpenFailed
     [WithHTTPStatus 500, WithCause err, WithParams [(''reason'', ''combo '' @ op @ '': '' @ go_error_string err)]]"

definition row_combo :: "combo_row \<Rightarrow> combo" where
  "row_combo r = \<lparr>cb_id = rw_name r, cb_name = rw_name r, cb_strategy = rw_policy r,
     cb_steps = rw_body r, cb_schema_ver = rw_schema_ver r, cb_depth = rw_depth r\<rparr>"

definition scanCombo :: "combo_row \<Rightarrow> domain_error + combo" where
  "scanCombo r = (case ParseStrategyKind (rw_policy r) of
      None \<Rightarrow> Inl (invalid (rw_name r) (''unknown strategy '' @ rw_policy r))
    | Some _ \<Rightarrow> Upgrade (row_combo r))"

definition Get :: "combo_table \<Rightarrow> combo_id \<Rightarrow> domain_error + combo" where
  "Get t i = (case find (\<lambda>r. rw_name r = i) t of None \<Rightarrow> Inl ErrNotFound | Some r \<Rightarrow> scanCombo r)"

fun scan_all :: "combo_row list \<Rightarrow> domain_error + combo list" where
  "scan_all [] = Inr []"
| "scan_all (r # rs) = (case scanCombo r of Inl e \<Rightarrow> Inl e | Inr c \<Rightarrow>
     (case scan_all rs of Inl e \<Rightarrow> Inl e | Inr cs \<Rightarrow> Inr (c # cs)))"

definition List_combos :: "combo_table \<Rightarrow> domain_error + combo list" where
  "List_combos t = scan_all (slice_stable (\<lambda>a b. rw_name a < rw_name b) t)"

text \<open>The Go map is filled in list order, a later entry winning: \<^const>\<open>map_of\<close> reads the reverse.\<close>

definition loadAll :: "combo_table \<Rightarrow> domain_error + combo_map" where
  "loadAll t = (case List_combos t of Inl e \<Rightarrow> Inl e | Inr cs \<Rightarrow> Inr (rev (map (\<lambda>c. (cb_id c, c)) cs)))"

section \<open>Writing\<close>

text \<open>\<^const>\<open>ValidateGraph\<close> always answers (\<open>validate_graph_total\<close>), so \<^const>\<open>the\<close> reads its answer.\<close>

definition validate_combo :: "provider_set option \<Rightarrow> combo_table \<Rightarrow> combo \<Rightarrow> bool \<Rightarrow> domain_error + int" where
  "validate_combo ps t c upd = (case loadAll t of Inl e \<Rightarrow> Inl e | Inr existing \<Rightarrow>
     the (ValidateGraph c (if upd then filter (\<lambda>(k, _). k \<noteq> cb_id c) existing else existing) ps))"

definition combo_to_row :: "combo \<Rightarrow> combo_row" where
  "combo_to_row c = \<lparr>rw_name = cb_name c, rw_schema_ver = cb_schema_ver c, rw_policy = cb_strategy c,
     rw_body = cb_steps c, rw_depth = cb_depth c\<rparr>"

definition write_combo :: "go_error \<Rightarrow> combo_table \<Rightarrow> combo \<Rightarrow> bool \<Rightarrow> combo_table \<times> domain_error option" where
  "write_combo uniq t c ins =
     (if ins then
        (if cb_name c \<in> set (map rw_name t) then (t, Some (comboStoreError ''write'' uniq))
         else (t @ [combo_to_row c], None))
      else if cb_name c \<in> set (map rw_name t) then
        (map (\<lambda>r. if rw_name r = cb_name c then combo_to_row c else r) t, None)
      else (t, Some ErrNotFound))"

definition default_id :: "combo \<Rightarrow> combo" where
  "default_id c = (if cb_id c = '''' then c\<lparr>cb_id := cb_name c\<rparr> else c)"

definition default_schema :: "combo \<Rightarrow> combo" where
  "default_schema c = (if cb_schema_ver c = 0 then c\<lparr>cb_schema_ver := CurrentSchema\<rparr> else c)"

definition Create :: "go_error \<Rightarrow> provider_set option \<Rightarrow> combo_table \<Rightarrow> combo
    \<Rightarrow> combo_table \<times> domain_error option" where
  "Create uniq ps t c0 = (let c = default_id (default_schema c0) in
     case Get t (cb_id c) of
       Inr _ \<Rightarrow> (t, Some (invalid (cb_name c) ''a combo with this name already exists''))
     | Inl err \<Rightarrow>
         if \<not> IsNotFound err then (t, Some err)
         else (case validate_combo ps t c False of
             Inl e \<Rightarrow> (t, Some e)
           | Inr depth \<Rightarrow> write_combo uniq t (c\<lparr>cb_depth := depth\<rparr>) True))"

definition Update :: "go_error \<Rightarrow> provider_set option \<Rightarrow> combo_table \<Rightarrow> combo
    \<Rightarrow> combo_table \<times> domain_error option" where
  "Update uniq ps t c0 = (let c = default_id c0 in
     case Get t (cb_id c) of
       Inl err \<Rightarrow> (t, Some err)
     | Inr _ \<Rightarrow> (case validate_combo ps t c True of
           Inl e \<Rightarrow> (t, Some e)
         | Inr depth \<Rightarrow> write_combo uniq t (c\<lparr>cb_depth := depth\<rparr>) False))"

definition Save :: "go_error \<Rightarrow> provider_set option \<Rightarrow> combo_table \<Rightarrow> combo
    \<Rightarrow> combo_table \<times> (domain_error + combo)" where
  "Save uniq ps t c0 = (let c = default_id (default_schema c0); got = Get t (cb_id c);
       insert = (case got of Inl err \<Rightarrow> IsNotFound err | Inr _ \<Rightarrow> False)
     in if \<not> insert \<and> isl got then (t, Inl (projl got))
        else (case validate_combo ps t c (\<not> insert) of
            Inl e \<Rightarrow> (t, Inl e)
          | Inr depth \<Rightarrow> (case write_combo uniq t (c\<lparr>cb_depth := depth\<rparr>) insert of
                (t', Some e) \<Rightarrow> (t', Inl e)
              | (t', None) \<Rightarrow> (t', Inr (c\<lparr>cb_depth := depth\<rparr>)))))"

definition Delete :: "combo_table \<Rightarrow> combo_id \<Rightarrow> combo_table \<times> domain_error option" where
  "Delete t i = (if i \<in> set (map rw_name t) then (filter (\<lambda>r. rw_name r \<noteq> i) t, None)
     else (t, Some ErrNotFound))"

section \<open>From the management API\<close>

record combo_step_request =
  cr_kind :: string
  cr_ref :: string
  cr_weight :: int
  cr_prompt :: string
  cr_allowed :: "string list"
  cr_quota_only :: bool

record combo_request =
  cq_name :: string
  cq_strategy :: string
  cq_steps :: "combo_step_request list"

definition bad_request :: "string \<Rightarrow> string \<Rightarrow> domain_error" where
  "bad_request name reason = New CodeRouteInvalidCombo
     [WithHTTPStatus 400, WithScope ScopeRequest, WithParams [(''name'', name), (''reason'', reason)]]"

fun steps_from_request :: "string \<Rightarrow> combo_step_request list \<Rightarrow> domain_error + step list" where
  "steps_from_request name [] = Inr []"
| "steps_from_request name (s # ss) =
     (if \<not> IsKnown (cr_kind s) then Inl (bad_request name (''unknown step kind '' @ cr_kind s))
      else (case steps_from_request name ss of
          Inl e \<Rightarrow> Inl e
        | Inr rest \<Rightarrow> Inr (\<lparr>st_kind = cr_kind s, st_ref = cr_ref s, st_weight = cr_weight s,
            st_prompt = cr_prompt s, st_allowed = cr_allowed s,
            st_fallback_only_on_quota = cr_quota_only s\<rparr> # rest)))"

definition ComboFromRequest :: "combo_request \<Rightarrow> domain_error + combo" where
  "ComboFromRequest req = (case ParseStrategyKind (cq_strategy req) of
      None \<Rightarrow> Inl (bad_request (cq_name req) (''unknown strategy '' @ cq_strategy req))
    | Some strategy \<Rightarrow> (case steps_from_request (cq_name req) (cq_steps req) of
          Inl e \<Rightarrow> Inl e
        | Inr steps \<Rightarrow> Inr (NewCombo (cq_name req) strategy steps)))"

section \<open>The graph of the stored combos\<close>

definition table_graph :: "combo_table \<Rightarrow> combo_graph" where
  "table_graph t = map_of (map (\<lambda>r. (rw_name r, row_combo r)) t)"

definition keyed :: "combo_table \<Rightarrow> bool" where
  "keyed t \<longleftrightarrow> distinct (map rw_name t)"

definition acyclic_graph :: "combo_graph \<Rightarrow> bool" where
  "acyclic_graph G \<longleftrightarrow> (\<forall>x. \<not> (ref_edge G)\<^sup>+\<^sup>+ x x)"

text \<open>A combo as its constructor builds it, or with its id still to be filled in.\<close>

definition built :: "combo \<Rightarrow> bool" where
  "built c \<longleftrightarrow> cb_id c = cb_name c \<or> cb_id c = ''''"

lemma ComboFromRequest_built: "ComboFromRequest req = Inr c \<Longrightarrow> built c \<and> cb_schema_ver c = CurrentSchema"
  by (auto simp: ComboFromRequest_def built_def NewCombo_def split: option.splits sum.splits)

lemma table_graph_iff: "keyed t \<Longrightarrow> table_graph t x = Some c \<longleftrightarrow> (\<exists>r \<in> set t. rw_name r = x \<and> row_combo r = c)"
  unfolding table_graph_def keyed_def
  by (subst map_of_eq_Some_iff) (auto simp: comp_def)

lemma scanCombo_Inr: "scanCombo r = Inr c \<Longrightarrow> c = row_combo r"
  by (auto simp: scanCombo_def Upgrade_iff split: option.splits)

lemma scan_all_Inr: "scan_all rs = Inr cs \<Longrightarrow> cs = map row_combo rs"
  by (induction rs arbitrary: cs) (auto split: sum.splits dest: scanCombo_Inr)

lemma row_combo_id [simp]: "cb_id (row_combo r) = rw_name r" "cb_steps (row_combo r) = rw_body r"
  by (simp_all add: row_combo_def)

lemma loadAll_graph:
  assumes "loadAll t = Inr existing" "keyed t"
  shows "map_of existing = table_graph t"
proof -
  let ?s = "slice_stable (\<lambda>a b. rw_name a < rw_name b) t"
  from assms(1) have ex: "existing = rev (map (\<lambda>r. (rw_name r, row_combo r)) ?s)"
    by (auto simp: loadAll_def List_combos_def split: sum.splits dest!: scan_all_Inr)
  have "mset (map rw_name ?s) = mset (map rw_name t)" by simp
  then have "distinct (map rw_name ?s)"
    using assms(2) mset_eq_imp_distinct_iff unfolding keyed_def by blast
  then have "distinct (map fst existing)" by (simp add: ex comp_def rev_map [symmetric])
  moreover have "set existing = set (map (\<lambda>r. (rw_name r, row_combo r)) t)" by (simp add: ex)
  moreover have "distinct (map fst (map (\<lambda>r. (rw_name r, row_combo r)) t))"
    using assms(2) by (simp add: keyed_def comp_def)
  ultimately show ?thesis
    unfolding table_graph_def using map_of_inject_set by blast
qed

lemma ref_edge_cong:
  assumes "\<And>x. map_option cb_steps (G x) = map_option cb_steps (H x)"
  shows "ref_edge G = ref_edge H"
proof (intro ext iffI)
  fix a b
  { fix G H :: combo_graph
    assume eq: "\<And>x. map_option cb_steps (G x) = map_option cb_steps (H x)" and "ref_edge G a b"
    then obtain c where c: "G a = Some c" "b \<in> set (step_refs (cb_steps c))"
      by (auto simp: ref_edge_def refs_of_steps)
    with eq [of a] obtain c' where "H a = Some c'" "cb_steps c' = cb_steps c"
      by (cases "H a") auto
    with c have "ref_edge H a b" by (auto simp: ref_edge_def refs_of_steps) }
  note half = this
  show "ref_edge G a b \<Longrightarrow> ref_edge H a b" by (rule half [OF assms])
  show "ref_edge H a b \<Longrightarrow> ref_edge G a b" by (rule half [OF assms [symmetric]])
qed

lemma chain_cong: "ref_edge G = ref_edge H \<Longrightarrow> has_chain G a n = has_chain H a n"
  by (induction n arbitrary: a) (simp_all add: has_chain_Suc_iff chain_0)

lemma longest_cong: "ref_edge G = ref_edge H \<Longrightarrow> longest G a d = longest H a d"
  unfolding longest_def by (simp only: chain_cong [of G H])

text \<open>A new cycle would pass through the combo that was replaced.\<close>

lemma path_upd:
  assumes "(ref_edge (G(i \<mapsto> c)))\<^sup>+\<^sup>+ x y"
  shows "(ref_edge G)\<^sup>+\<^sup>+ x y \<or> (ref_edge (G(i \<mapsto> c)))\<^sup>*\<^sup>* i y"
  using assms
proof (induction rule: tranclp_induct)
  case (base y)
  then show ?case by (cases "x = i") (auto simp: ref_edge_def)
next
  case (step y z)
  then show ?case
  proof (cases "y = i")
    case False
    with step.hyps(2) have "ref_edge G y z" by (simp add: ref_edge_def)
    with step show ?thesis by (meson rtranclp.rtrancl_into_rtrancl tranclp.trancl_into_trancl)
  next
    case True
    with step.hyps(2) show ?thesis by blast
  qed
qed

lemma acyclic_upd:
  assumes "acyclic_graph G" "longest (G(i \<mapsto> c)) i d"
  shows "acyclic_graph (G(i \<mapsto> c))"
  unfolding acyclic_graph_def
proof (intro allI notI)
  fix x assume cyc: "(ref_edge (G(i \<mapsto> c)))\<^sup>+\<^sup>+ x x"
  with path_upd [OF cyc] assms(1) have "(ref_edge (G(i \<mapsto> c)))\<^sup>*\<^sup>* i x"
    by (auto simp: acyclic_graph_def)
  with longest_acyclic [OF assms(2)] cyc show False by blast
qed

section \<open>Effect of the operations\<close>

lemma scanCombo_not_missing [simp]: "scanCombo r \<noteq> Inl ErrNotFound"
  by (simp add: scanCombo_def Upgrade_def split: option.splits)

lemma Get_None: "Get t i = Inl ErrNotFound \<longleftrightarrow> i \<notin> set (map rw_name t)"
proof (cases "find (\<lambda>r. rw_name r = i) t")
  case None
  then have "Get t i = Inl ErrNotFound" by (simp add: Get_def)
  with None show ?thesis by (auto simp: find_None_iff)
next
  case (Some r)
  then have "r \<in> set t" "rw_name r = i" by (auto simp: find_Some_iff)
  with Some show ?thesis by (auto simp: Get_def)
qed

lemma Get_in: "keyed t \<Longrightarrow> r \<in> set t \<Longrightarrow> Get t (rw_name r) = scanCombo r"
  unfolding Get_def keyed_def
  by (induction t) (auto split: option.splits dest!: map_of_SomeD)

lemma map_of_filter_key: "x \<noteq> i \<Longrightarrow> map_of (filter (\<lambda>(k, _). k \<noteq> i) xs) x = map_of xs x"
  by (induction xs) auto

lemma map_of_filter_upd: "(map_of (filter (\<lambda>(k, _). k \<noteq> i) xs))(i \<mapsto> c) = (map_of xs)(i \<mapsto> c)"
  by (simp add: fun_eq_iff map_of_filter_key)

lemma validate_combo_ok:
  assumes "validate_combo ps t c upd = Inr depth" "keyed t"
  obtains d where "depth = int d" "longest ((table_graph t)(cb_id c \<mapsto> c)) (cb_id c) d"
    "resolved ((table_graph t)(cb_id c \<mapsto> c)) (cb_id c)" "int d \<le> MaxDepth" "Validate c = None"
proof -
  from assms(1) obtain existing where ex: "loadAll t = Inr existing"
    by (auto simp: validate_combo_def split: sum.splits)
  define ex' where "ex' = (if upd then filter (\<lambda>(k, _). k \<noteq> cb_id c) existing else existing)"
  from assms(1) ex have "the (ValidateGraph c ex' ps) = Inr depth"
    by (simp add: validate_combo_def ex'_def)
  then have vg: "ValidateGraph c ex' ps = Some (Inr depth)" "0 \<le> depth"
    using validate_graph_answers [of c ex' ps] by auto
  then have "saveable c ex' ps (nat depth)"
    by (intro iffD1 [OF validate_graph_saveable]) simp
  moreover have "graph_with c ex' = (table_graph t)(cb_id c \<mapsto> c)"
    using loadAll_graph [OF ex assms(2)] by (simp add: graph_with_def ex'_def map_of_filter_upd)
  ultimately show thesis
    using that [of "nat depth"] vg(2) by (simp add: saveable_def)
qed

lemma table_graph_insert:
  "n \<notin> set (map rw_name t) \<Longrightarrow> rw_name r = n \<Longrightarrow> table_graph (t @ [r]) = (table_graph t)(n \<mapsto> row_combo r)"
  by (induction t) (auto simp: table_graph_def fun_eq_iff)

lemma table_graph_replace:
  "n \<in> set (map rw_name t) \<Longrightarrow> rw_name r = n \<Longrightarrow>
   table_graph (map (\<lambda>x. if rw_name x = n then r else x) t) = (table_graph t)(n \<mapsto> row_combo r)"
proof (induction t)
  case (Cons x t)
  have none: "n \<notin> set (map rw_name t) \<Longrightarrow> map (\<lambda>x. if rw_name x = n then r else x) t = t"
    by (induction t) auto
  from Cons none show ?case
    by (cases "n \<in> set (map rw_name t)") (auto simp: table_graph_def fun_eq_iff)
qed simp

lemma write_combo_ok:
  assumes "write_combo uniq t c ins = (t', None)" "keyed t"
  shows "keyed t'" "table_graph t' = (table_graph t)(cb_name c \<mapsto> row_combo (combo_to_row c))"
    "combo_to_row c \<in> set t'"
proof -
  have name: "rw_name (combo_to_row c) = cb_name c" by (simp add: combo_to_row_def)
  have names: "map rw_name (map (\<lambda>r. if rw_name r = cb_name c then combo_to_row c else r) t) = map rw_name t"
    by (simp add: comp_def name cong: map_cong)
  show "keyed t'"
  proof (cases ins)
    case True
    with assms show ?thesis by (auto simp: write_combo_def keyed_def name split: if_splits)
  next
    case False
    with assms(1) have "t' = map (\<lambda>r. if rw_name r = cb_name c then combo_to_row c else r) t"
      by (auto simp: write_combo_def split: if_splits)
    with names assms(2) show ?thesis by (simp only: keyed_def)
  qed
  show "table_graph t' = (table_graph t)(cb_name c \<mapsto> row_combo (combo_to_row c))"
    using assms(1) by (auto simp: write_combo_def name table_graph_insert table_graph_replace split: if_splits)
  show "combo_to_row c \<in> set t'"
    using assms(1) by (auto simp: write_combo_def split: if_splits)
qed

lemma write_combo_err: "write_combo uniq t c ins = (t', Some e) \<Longrightarrow> t' = t"
  by (auto simp: write_combo_def split: if_splits)

text \<open>A validated write keeps the graph acyclic and stores the length of the longest chain.\<close>

lemma validated_write:
  assumes "validate_combo ps t c upd = Inr depth" "write_combo uniq t (c\<lparr>cb_depth := depth\<rparr>) ins = (t', None)"
    and "keyed t" "cb_id c = cb_name c"
  shows "keyed t'" "acyclic_graph (table_graph t) \<Longrightarrow> acyclic_graph (table_graph t')"
    "0 \<le> depth" "longest (table_graph t') (cb_id c) (nat depth)" "Validate c = None" "depth \<le> MaxDepth"
proof -
  from assms(1,3) obtain d where d: "depth = int d" "longest ((table_graph t)(cb_id c \<mapsto> c)) (cb_id c) d"
    "int d \<le> MaxDepth" "Validate c = None" by (rule validate_combo_ok)
  note w = write_combo_ok [OF assms(2,3)]
  have "table_graph t' = (table_graph t)(cb_id c \<mapsto> row_combo (combo_to_row (c\<lparr>cb_depth := depth\<rparr>)))"
    using w(2) assms(4) by simp
  then have edges: "ref_edge (table_graph t') = ref_edge ((table_graph t)(cb_id c \<mapsto> c))"
    by (intro ref_edge_cong) (simp add: combo_to_row_def)
  show "keyed t'" by (rule w(1))
  show "acyclic_graph (table_graph t) \<Longrightarrow> acyclic_graph (table_graph t')"
    using acyclic_upd [OF _ d(2)] by (simp add: acyclic_graph_def edges)
  show "0 \<le> depth" "Validate c = None" "depth \<le> MaxDepth" using d by simp_all
  show "longest (table_graph t') (cb_id c) (nat depth)"
    using d(1,2) longest_cong [OF edges] by simp
qed

lemma Delete_graph:
  assumes "Delete t i = (t', r)" "keyed t"
  shows "keyed t'" "acyclic_graph (table_graph t) \<Longrightarrow> acyclic_graph (table_graph t')"
proof -
  show k: "keyed t'" using assms
    by (auto simp: Delete_def keyed_def distinct_map_filter split: if_splits)
  have "table_graph t' x = Some c \<Longrightarrow> table_graph t x = Some c" for x c
    using assms k by (auto simp: table_graph_iff Delete_def split: if_splits)
  then have "ref_edge (table_graph t') a b \<Longrightarrow> ref_edge (table_graph t) a b" for a b
    by (auto simp: ref_edge_def)
  note edge = this
  have "(ref_edge (table_graph t))\<^sup>+\<^sup>+ a b" if "(ref_edge (table_graph t'))\<^sup>+\<^sup>+ a b" for a b
    using that by (induction rule: tranclp_induct) (auto dest: edge intro: tranclp.trancl_into_trancl)
  then show "acyclic_graph (table_graph t) \<Longrightarrow> acyclic_graph (table_graph t')"
    by (auto simp: acyclic_graph_def)
qed

section \<open>Every stored table is acyclic\<close>

datatype store_op = OpCreate combo | OpUpdate combo | OpSave combo | OpDelete combo_id

fun store_step :: "go_error \<Rightarrow> provider_set option \<Rightarrow> combo_table \<Rightarrow> store_op \<Rightarrow> combo_table" where
  "store_step uniq ps t (OpCreate c) = fst (Create uniq ps t c)"
| "store_step uniq ps t (OpUpdate c) = fst (Update uniq ps t c)"
| "store_step uniq ps t (OpSave c) = fst (Save uniq ps t c)"
| "store_step uniq ps t (OpDelete i) = fst (Delete t i)"

definition run_store :: "go_error \<Rightarrow> provider_set option \<Rightarrow> store_op list \<Rightarrow> combo_table" where
  "run_store uniq ps ops = foldl (store_step uniq ps) [] ops"

fun op_built :: "store_op \<Rightarrow> bool" where
  "op_built (OpCreate c) = built c"
| "op_built (OpUpdate c) = built c"
| "op_built (OpSave c) = built c"
| "op_built (OpDelete i) = True"

lemma default_built: "built c \<Longrightarrow> cb_id (default_id c) = cb_name (default_id c)"
  by (auto simp: built_def default_id_def)

lemma default_schema_built: "built c \<Longrightarrow> built (default_schema c)"
  by (simp add: built_def default_schema_def)

definition stored :: "go_error \<Rightarrow> provider_set option \<Rightarrow> combo_table \<Rightarrow> combo \<Rightarrow> combo_table \<Rightarrow> bool" where
  "stored uniq ps t c t' \<longleftrightarrow> (\<exists>depth upd ins. validate_combo ps t c upd = Inr depth \<and>
     write_combo uniq t (c\<lparr>cb_depth := depth\<rparr>) ins = (t', None))"

lemma storedI: "validate_combo ps t c upd = Inr depth \<Longrightarrow>
    write_combo uniq t (c\<lparr>cb_depth := depth\<rparr>) ins = (t', None) \<Longrightarrow> stored uniq ps t c t'"
  unfolding stored_def by blast

lemma write_then: "write_combo uniq t c ins = (t', r) \<Longrightarrow> t' = t \<or> r = None"
  by (cases r) (auto dest: write_combo_err)

lemma Create_effect:
  assumes "Create uniq ps t c = (t', r)"
  shows "t' = t \<or> stored uniq ps t (default_id (default_schema c)) t'"
  using assms by (auto simp: Create_def Let_def split: sum.splits if_splits dest: write_then intro: storedI)

lemma Update_effect:
  assumes "Update uniq ps t c = (t', r)"
  shows "t' = t \<or> stored uniq ps t (default_id c) t'"
  using assms by (auto simp: Update_def Let_def split: sum.splits dest: write_then intro: storedI)

lemma Save_effect:
  assumes "Save uniq ps t c = (t', r)"
  shows "t' = t \<or> stored uniq ps t (default_id (default_schema c)) t'"
  using assms
  by (auto simp: Save_def Let_def split: sum.splits if_splits option.splits prod.splits
      dest: write_combo_err intro: storedI)

lemma stored_inv:
  assumes "stored uniq ps t c t'" "cb_id c = cb_name c" "keyed t" "acyclic_graph (table_graph t)"
  shows "keyed t' \<and> acyclic_graph (table_graph t')"
proof -
  from assms(1) obtain depth upd ins where "validate_combo ps t c upd = Inr depth"
    "write_combo uniq t (c\<lparr>cb_depth := depth\<rparr>) ins = (t', None)"
    unfolding stored_def by blast
  from validated_write(1,2) [OF this assms(3,2)] assms(4) show ?thesis by blast
qed

lemma store_step_inv:
  assumes "op_built op" "keyed t" "acyclic_graph (table_graph t)"
  shows "keyed (store_step uniq ps t op) \<and> acyclic_graph (table_graph (store_step uniq ps t op))"
proof (cases op)
  case (OpCreate c)
  then have "built (default_schema c)" using assms(1) by (simp add: default_schema_built)
  with OpCreate assms show ?thesis
    using Create_effect [of uniq ps t c] stored_inv default_built by (cases "Create uniq ps t c") fastforce
next
  case (OpUpdate c)
  with assms show ?thesis
    using Update_effect [of uniq ps t c] stored_inv default_built by (cases "Update uniq ps t c") fastforce
next
  case (OpSave c)
  then have "built (default_schema c)" using assms(1) by (simp add: default_schema_built)
  with OpSave assms show ?thesis
    using Save_effect [of uniq ps t c] stored_inv default_built by (cases "Save uniq ps t c") fastforce
next
  case (OpDelete i)
  with assms show ?thesis using Delete_graph [of t i] by (cases "Delete t i") auto
qed

lemma run_store_inv:
  assumes "\<forall>op \<in> set ops. op_built op"
  shows "keyed (run_store uniq ps ops) \<and> acyclic_graph (table_graph (run_store uniq ps ops))"
  using assms
proof (induction ops rule: rev_induct)
  case Nil
  have "\<not> (ref_edge (table_graph []))\<^sup>+\<^sup>+ x x" for x
    by (auto simp: ref_edge_def table_graph_def dest: tranclpD)
  then show ?case by (simp add: run_store_def keyed_def acyclic_graph_def)
next
  case (snoc op ops)
  then show ?case by (simp add: run_store_def store_step_inv)
qed

text \<open>C9: However the store is used, with combos built by the constructor, its reference graph has
  no cycle: no sequence of creates, updates, saves and deletes, in any order and whether or not
  each succeeds, leaves a combo that reaches itself.\<close>

theorem stored_combos_acyclic:
  assumes "\<forall>op \<in> set ops. op_built op"
  shows "\<not> (ref_edge (table_graph (run_store uniq ps ops)))\<^sup>+\<^sup>+ x x"
  using run_store_inv [OF assms] by (simp add: acyclic_graph_def)

definition sample_ops :: "store_op list" where
  "sample_ops = [OpSave sample_leaf, OpSave (sample_ref ''top'' ''leaf''), OpSave (sample_ref ''leaf'' ''top'')]"

lemma stored_combos_acyclic_witness:
  "\<not> (ref_edge (table_graph (run_store (Foreign '''' []) None sample_ops)))\<^sup>+\<^sup>+ ''top'' ''top'' \<and>
   map rw_name (run_store (Foreign '''' []) None sample_ops) = [''leaf'', ''top'']"
proof
  have "\<forall>op \<in> set sample_ops. op_built op" by code_simp
  then show "\<not> (ref_edge (table_graph (run_store (Foreign '''' []) None sample_ops)))\<^sup>+\<^sup>+ ''top'' ''top''"
    by (rule stored_combos_acyclic)
  show "map rw_name (run_store (Foreign '''' []) None sample_ops) = [''leaf'', ''top'']" by code_simp
qed

text \<open>What \<open>Save\<close> answers is what is stored.  When a combo of the constructor is saved, reading
  its name back gives exactly the combo \<open>Save\<close> returned, and its \<open>Depth\<close> is the length of the
  longest chain of references from it in the table after the write, at most \<open>MaxDepth\<close>.\<close>

theorem save_roundtrip:
  assumes "Save uniq ps t c = (t', Inr c')" "keyed t" "cb_id c = cb_name c" "cb_schema_ver c = CurrentSchema"
  shows "Get t' (cb_name c) = Inr c' \<and> c' = c\<lparr>cb_depth := cb_depth c'\<rparr> \<and>
    longest (table_graph t') (cb_name c) (nat (cb_depth c')) \<and> 0 \<le> cb_depth c' \<and> cb_depth c' \<le> MaxDepth"
proof -
  have "default_id (default_schema c) = c"
    using assms(3,4) by (simp add: default_id_def default_schema_def CurrentSchema_def)
  with assms(1) obtain depth upd ins where d: "validate_combo ps t c upd = Inr depth"
    "write_combo uniq t (c\<lparr>cb_depth := depth\<rparr>) ins = (t', None)" and c': "c' = c\<lparr>cb_depth := depth\<rparr>"
    by (auto simp: Save_def Let_def split: sum.splits if_splits option.splits prod.splits)
  note v = validated_write [OF d assms(2,3)] and w = write_combo_ok [OF d(2) assms(2)]
  have "Get t' (cb_name c) = scanCombo (combo_to_row c')"
    using Get_in [OF w(1) w(3)] by (simp add: combo_to_row_def c')
  also have "\<dots> = Inr c'"
    using v(5) assms(3,4)
    by (simp add: scanCombo_def combo_to_row_def c' Validate_None ParseStrategyKind_iff Upgrade_def row_combo_def)
  finally show ?thesis using v(3,4,6) assms(3) by (simp add: c')
qed

lemma save_roundtrip_witness:
  "Get (fst (Save (Foreign '''' []) None [] sample_leaf)) ''leaf'' =
     Inr (sample_leaf\<lparr>cb_depth := 0\<rparr>)"
proof -
  have "Save (Foreign '''' []) None [] sample_leaf =
      (fst (Save (Foreign '''' []) None [] sample_leaf), Inr (sample_leaf\<lparr>cb_depth := 0\<rparr>))"
    by code_simp
  from save_roundtrip [OF this] show ?thesis
    by (simp add: keyed_def sample_leaf_def NewCombo_def)
qed

text \<open>Eight combos in a chain over a leaf; then the leaf is made to refer to one combo more.\<close>

definition deepening_ops :: "store_op list" where
  "deepening_ops = [OpSave sample_leaf, OpSave (sample_leaf\<lparr>cb_id := ''x'', cb_name := ''x''\<rparr>),
     OpSave (sample_ref ''c1'' ''leaf''), OpSave (sample_ref ''c2'' ''c1''), OpSave (sample_ref ''c3'' ''c2''),
     OpSave (sample_ref ''c4'' ''c3''), OpSave (sample_ref ''c5'' ''c4''), OpSave (sample_ref ''c6'' ''c5''),
     OpSave (sample_ref ''c7'' ''c6''), OpSave (sample_ref ''c8'' ''c7''), OpSave (sample_ref ''leaf'' ''x'')]"

definition deepened :: combo_table where
  "deepened = run_store (Foreign '''' []) None deepening_ops"

text \<open>The depth cap is checked only for the combo that is saved, not for the combos that refer to
  it.  A chain of eight references over a leaf is accepted, and so is then a change of the leaf
  that makes it refer to one more combo: the table now holds a combo with a chain of nine
  references, its stored \<open>Depth\<close> is still eight, and the same combo, saved again unchanged, is
  refused for its depth.\<close>

theorem ancestor_depth_unchecked:
  "list_all op_built deepening_ops \<and>
   Get deepened ''c8'' = Inr (sample_ref ''c8'' ''c7''\<lparr>cb_depth := 8\<rparr>) \<and>
   snd (Save (Foreign '''' []) None deepened (sample_ref ''c8'' ''c7'')) = Inl (depthExceeded ''c8'')"
proof (intro conjI)
  show "list_all op_built deepening_ops" by code_simp
  show "Get deepened ''c8'' = Inr (sample_ref ''c8'' ''c7''\<lparr>cb_depth := 8\<rparr>)" by code_simp
  show "snd (Save (Foreign '''' []) None deepened (sample_ref ''c8'' ''c7'')) = Inl (depthExceeded ''c8'')"
    by code_simp
qed

text \<open>A combo that others refer to can be deleted, and the reference is left dangling: after it,
  the referring combo is still stored and still names the deleted one, and saving it again is
  refused.\<close>

theorem delete_leaves_dangling:
  "let t = run_store (Foreign '''' []) None
       [OpSave sample_leaf, OpSave (sample_ref ''top'' ''leaf''), OpDelete ''leaf'']
   in Get t ''top'' = Inr (sample_ref ''top'' ''leaf''\<lparr>cb_depth := 1\<rparr>) \<and>
      Get t ''leaf'' = Inl ErrNotFound \<and>
      snd (Save (Foreign '''' []) None t (sample_ref ''top'' ''leaf'')) =
        Inl (invalid ''top'' ''reference to unknown combo leaf'')"
  by code_simp

text \<open>\<open>Update\<close>, unlike \<open>Create\<close> and \<open>Save\<close>, does not fill in the schema version.  Updating a
  stored combo with one whose version is left zero writes a row this build refuses to read, and
  from then on nothing can be listed, and no combo at all, that one or another, can be saved.\<close>

theorem update_zero_schema_bricks:
  "let t = run_store (Foreign '''' []) None [OpSave sample_leaf, OpUpdate (sample_leaf\<lparr>cb_schema_ver := 0\<rparr>)];
       err = invalid ''leaf'' ''combo has no schema version''
   in Get t ''leaf'' = Inl err \<and> List_combos t = Inl err \<and>
      snd (Save (Foreign '''' []) None t sample_leaf) = Inl err \<and>
      snd (Save (Foreign '''' []) None t (sample_ref ''new'' ''leaf'')) = Inl err"
  by code_simp

end
