(* ===== verification/Breaker.thy ===== *)
theory Breaker
  imports Contracts
begin

text \<open>
  The circuit breaker of \<open>internal/breaker/breaker.go\<close>.  \<open>breaker\<close> is the map \<open>keys\<close> from a circuit
  key to its state; a key is created, closed, by the first operation that touches it
  (\<open>keyOf\<close>).  The per-key mutex makes every operation on one key atomic, so an operation is a
  function on the map.  The clock reading an operation makes is its argument \<open>now\<close>; the
  configuration is an argument too, so that the jitter may differ from call to call.
\<close>

section \<open>Configuration\<close>

definition TerminalBanned :: string where "TerminalBanned = ''banned''"

record breaker_outcome =
  bo_scope :: err_scope
  bo_retryable :: bool
  bo_retry_after :: duration
  bo_terminal_reason :: string
  bo_success :: bool

definition success_outcome :: breaker_outcome where
  "success_outcome = \<lparr>bo_scope = ScopeRequest, bo_retryable = False, bo_retry_after = 0,
     bo_terminal_reason = '''', bo_success = True\<rparr>"

record breaker_config =
  bc_base :: duration
  bc_max :: duration
  bc_credential_threshold :: int
  bc_jitter :: "duration \<Rightarrow> duration"

text \<open>\<open>DefaultJitter\<close>, given the \<open>r\<close> in [0,1) drawn by \<open>randFloat64\<close>.\<close>

definition DefaultJitter :: "float64 \<Rightarrow> duration \<Rightarrow> duration" where
  "DefaultJitter r d =
     (if d \<le> 0 then 0
      else let factor = fl (1/2 + fl (r * (1/2))) in trunc (fl (float_of_int d * factor)))"

definition DefaultConfig :: "float64 \<Rightarrow> breaker_config" where
  "DefaultConfig r = \<lparr>bc_base = 1000000000, bc_max = 60000000000, bc_credential_threshold = 3,
     bc_jitter = DefaultJitter r\<rparr>"

definition WithConfig ::
  "float64 \<Rightarrow> duration \<Rightarrow> duration \<Rightarrow> int \<Rightarrow> (duration \<Rightarrow> duration) option \<Rightarrow> breaker_config" where
  "WithConfig r base mx threshold jitter = (let def = DefaultConfig r in
     \<lparr>bc_base = (if base \<le> 0 then bc_base def else base),
      bc_max = (if mx \<le> 0 then bc_max def else mx),
      bc_credential_threshold = (if threshold \<le> 0 then bc_credential_threshold def else threshold),
      bc_jitter = (case jitter of None \<Rightarrow> bc_jitter def | Some j \<Rightarrow> j)\<rparr>)"

text \<open>\<open>exponential\<close>: the shift is capped at 30 and \<open>Base << shift\<close> is a signed 64-bit shift.\<close>

definition exponential :: "breaker_config \<Rightarrow> int \<Rightarrow> duration" where
  "exponential cfg failures =
     (let shift = failures - 1;
          shift = (if shift > 30 then 30 else shift);
          d = wrap64 (bc_base cfg * 2 ^ nat shift);
          d = (if d \<le> 0 \<or> d > bc_max cfg then bc_max cfg else d)
      in bc_jitter cfg d)"

section \<open>One circuit\<close>

record key_state =
  ks_status :: breaker_state
  ks_failures :: int
  ks_open_until :: gotime
  ks_terminal_reason :: string
  ks_probe_in_flight :: bool

definition fresh_key :: key_state where
  "fresh_key = \<lparr>ks_status = BreakerClosed, ks_failures = 0, ks_open_until = 0,
     ks_terminal_reason = '''', ks_probe_in_flight = False\<rparr>"

definition transition_locked :: "gotime \<Rightarrow> key_state \<Rightarrow> key_state" where
  "transition_locked now ks =
     (if ks_status ks = BreakerOpen \<and> \<not> ks_open_until ks > now
      then ks\<lparr>ks_status := BreakerHalfOpen, ks_probe_in_flight := False\<rparr> else ks)"

definition reserve_locked :: "key_state \<Rightarrow> bool \<times> key_state" where
  "reserve_locked ks = (case ks_status ks of
      BreakerClosed \<Rightarrow> (True, ks)
    | BreakerHalfOpen \<Rightarrow>
        (if ks_probe_in_flight ks then (False, ks) else (True, ks\<lparr>ks_probe_in_flight := True\<rparr>))
    | _ \<Rightarrow> (False, ks))"

definition release_probe :: "key_state \<Rightarrow> key_state" where
  "release_probe ks =
     (if ks_status ks = BreakerHalfOpen then ks\<lparr>ks_probe_in_flight := False\<rparr> else ks)"

text \<open>The body of \<open>RecordKey\<close> under the key's lock.\<close>

definition record_locked :: "breaker_config \<Rightarrow> gotime \<Rightarrow> breaker_outcome \<Rightarrow> key_state \<Rightarrow> key_state" where
  "record_locked cfg now o' ks0 =
     (let ks = transition_locked now ks0 in
      if ks_status ks = BreakerTerminal then ks
      else if bo_success o' then
        ks\<lparr>ks_status := BreakerClosed, ks_failures := 0, ks_open_until := 0,
           ks_probe_in_flight := False\<rparr>
      else if bo_scope o' = ScopeRequest then ks
      else if bo_terminal_reason o' \<noteq> '''' then
        ks\<lparr>ks_status := BreakerTerminal, ks_terminal_reason := bo_terminal_reason o',
           ks_open_until := 0, ks_probe_in_flight := False\<rparr>
      else if bo_scope o' = ScopeProvider \<and> \<not> bo_retryable o' then ks
      else
        let ks = ks\<lparr>ks_failures := ks_failures ks + 1\<rparr> in
        if bo_scope o' = ScopeCredential \<and> \<not> bo_retryable o' then
          (if ks_failures ks \<ge> bc_credential_threshold cfg then
             ks\<lparr>ks_status := BreakerTerminal, ks_terminal_reason := TerminalBanned,
                ks_open_until := 0, ks_probe_in_flight := False\<rparr>
           else ks)
        else
          let cooldown = (if bo_retry_after o' > 0 then bo_retry_after o'
                          else exponential cfg (ks_failures ks)) in
          if ks_status ks = BreakerOpen \<and> ks_open_until ks > now
          then ks\<lparr>ks_probe_in_flight := False\<rparr>
          else ks\<lparr>ks_status := BreakerOpen, ks_open_until := now + cooldown,
                  ks_probe_in_flight := False\<rparr>)"

definition clear_locked :: "key_state \<Rightarrow> key_state" where
  "clear_locked ks = ks\<lparr>ks_status := BreakerClosed, ks_failures := 0, ks_open_until := 0,
     ks_terminal_reason := '''', ks_probe_in_flight := False\<rparr>"

section \<open>The breaker\<close>

type_synonym breaker = "breaker_key \<rightharpoonup> key_state"

definition new_breaker :: breaker where
  "new_breaker = Map.empty"

definition key_of :: "breaker \<Rightarrow> breaker_key \<Rightarrow> key_state" where
  "key_of b k = (case b k of None \<Rightarrow> fresh_key | Some ks \<Rightarrow> ks)"

definition breaker_State :: "gotime \<Rightarrow> breaker_key \<Rightarrow> breaker \<Rightarrow> breaker_state \<times> breaker" where
  "breaker_State now k b = (let ks = transition_locked now (key_of b k) in (ks_status ks, b(k \<mapsto> ks)))"

definition AllowKey :: "gotime \<Rightarrow> breaker_key \<Rightarrow> breaker \<Rightarrow> bool \<times> breaker" where
  "AllowKey now k b =
     (let (ok, ks) = reserve_locked (transition_locked now (key_of b k)) in (ok, b(k \<mapsto> ks)))"

text \<open>\<open>RetryAfterKey\<close> reads the clock twice, for the transition and for the difference.\<close>

definition RetryAfterKey :: "gotime \<Rightarrow> gotime \<Rightarrow> breaker_key \<Rightarrow> breaker \<Rightarrow> duration \<times> breaker" where
  "RetryAfterKey now now' k b =
     (let ks = transition_locked now (key_of b k) in
      (if ks_status ks \<noteq> BreakerOpen then 0 else time_sub (ks_open_until ks) now', b(k \<mapsto> ks)))"

definition TerminalReason :: "breaker_key \<Rightarrow> breaker \<Rightarrow> string \<times> breaker" where
  "TerminalReason k b = (let ks = key_of b k in
     (if ks_status ks \<noteq> BreakerTerminal then '''' else ks_terminal_reason ks, b(k \<mapsto> ks)))"

definition RecordKey :: "breaker_config \<Rightarrow> gotime \<Rightarrow> breaker_key \<Rightarrow> breaker_outcome \<Rightarrow> breaker \<Rightarrow> breaker" where
  "RecordKey cfg now k o' b = b(k \<mapsto> record_locked cfg now o' (key_of b k))"

definition Clear :: "breaker_key \<Rightarrow> breaker \<Rightarrow> breaker" where
  "Clear k b = b(k \<mapsto> clear_locked (key_of b k))"

definition keys_for :: "candidate \<Rightarrow> err_scope \<Rightarrow> breaker_key list" where
  "keys_for c scope = (case scope of
      ScopeCredential \<Rightarrow>
        (if cand_credential c = '''' then [] else [KeyFor c BreakerCredential])
    | ScopeProvider \<Rightarrow>
        [KeyFor c BreakerProvider] @ (if cand_model c \<noteq> '''' then [KeyFor c BreakerModel] else [])
    | ScopeRequest \<Rightarrow> [])"

definition all_keys_for :: "candidate \<Rightarrow> breaker_key list" where
  "all_keys_for c = [KeyFor c BreakerProvider]
     @ (if cand_model c \<noteq> '''' then [KeyFor c BreakerModel] else [])
     @ (if cand_credential c \<noteq> '''' then [KeyFor c BreakerCredential] else [])"

definition Record :: "breaker_config \<Rightarrow> gotime \<Rightarrow> candidate \<Rightarrow> breaker_outcome \<Rightarrow> breaker \<Rightarrow> breaker" where
  "Record cfg now c o' b =
     (if bo_success o'
      then foldl (\<lambda>b k. RecordKey cfg now k success_outcome b) b (all_keys_for c)
      else foldl (\<lambda>b k. RecordKey cfg now k o' b) b (keys_for c (bo_scope o')))"

fun release_all :: "breaker_key list \<Rightarrow> breaker \<Rightarrow> breaker" where
  "release_all [] b = b"
| "release_all (r # rs) b = release_all rs (b(r \<mapsto> release_probe (key_of b r)))"

text \<open>The loop of \<open>Allow\<close>: reserve key after key; on the first refusal release what this call
  reserved.\<close>

fun allow_loop :: "gotime \<Rightarrow> breaker_key list \<Rightarrow> breaker_key list \<Rightarrow> breaker \<Rightarrow> bool \<times> breaker" where
  "allow_loop now reserved [] b = (True, b)"
| "allow_loop now reserved (k # ks) b =
     (let (ok, b') = AllowKey now k b in
      if \<not> ok then (False, release_all reserved b')
      else allow_loop now (reserved @ [k]) ks b')"

definition Allow :: "gotime \<Rightarrow> candidate \<Rightarrow> breaker \<Rightarrow> bool \<times> breaker" where
  "Allow now c b = allow_loop now [] (all_keys_for c) b"

fun retry_after_loop :: "gotime \<Rightarrow> duration \<Rightarrow> breaker_key list \<Rightarrow> breaker \<Rightarrow> duration \<times> breaker" where
  "retry_after_loop now mx [] b = (mx, b)"
| "retry_after_loop now mx (k # ks) b =
     (let (d, b') = RetryAfterKey now now k b in
      retry_after_loop now (if d > mx then d else mx) ks b')"

definition RetryAfter :: "gotime \<Rightarrow> candidate \<Rightarrow> breaker \<Rightarrow> duration \<times> breaker" where
  "RetryAfter now c b = retry_after_loop now 0 (all_keys_for c) b"

definition OnResult :: "breaker_config \<Rightarrow> gotime \<Rightarrow> candidate \<Rightarrow> attempt_outcome \<Rightarrow> usage \<Rightarrow> breaker \<Rightarrow> breaker" where
  "OnResult cfg now c outcome u b =
     (let failed = (\<lambda>scope. \<lparr>bo_scope = scope, bo_retryable = True, bo_retry_after = 0,
                            bo_terminal_reason = '''', bo_success = False\<rparr>)
      in case outcome of
          OutcomeSuccess \<Rightarrow> Record cfg now c success_outcome b
        | OutcomeCredentialError \<Rightarrow> Record cfg now c (failed ScopeCredential) b
        | OutcomeProviderError \<Rightarrow> Record cfg now c (failed ScopeProvider) b
        | _ \<Rightarrow> b)"

lemmas op_defs = breaker_State_def AllowKey_def RetryAfterKey_def TerminalReason_def RecordKey_def
  Clear_def
lemmas locked_defs = transition_locked_def reserve_locked_def release_probe_def record_locked_def
  clear_locked_def

section \<open>Laws of one circuit\<close>

lemma key_of_upd [simp]: "key_of (b(k \<mapsto> ks)) k' = (if k' = k then ks else key_of b k')"
  by (simp add: key_of_def)

lemma key_of_new [simp]: "key_of new_breaker k = fresh_key"
  by (simp add: key_of_def new_breaker_def)

lemma transition_idem [simp]: "transition_locked now (transition_locked now ks) = transition_locked now ks"
  by (simp add: transition_locked_def)

definition key_allows :: "gotime \<Rightarrow> key_state \<Rightarrow> bool" where
  "key_allows now ks = fst (reserve_locked (transition_locked now ks))"

lemma key_allows_iff:
  "key_allows now ks \<longleftrightarrow> ks_status ks = BreakerClosed
     \<or> ks_status ks = BreakerHalfOpen \<and> \<not> ks_probe_in_flight ks
     \<or> ks_status ks = BreakerOpen \<and> ks_open_until ks \<le> now"
  by (cases "ks_status ks") (auto simp: key_allows_def locked_defs)

text \<open>What happens to one circuit, as a step relation: every operation but \<open>Clear\<close> is a
  sequence of these four steps.\<close>

inductive key_step :: "key_state \<Rightarrow> key_state \<Rightarrow> bool" where
  transition: "key_step ks (transition_locked now ks)"
| reserve: "key_step ks (snd (reserve_locked ks))"
| release: "key_step ks (release_probe ks)"
| record_step: "key_step ks (record_locked cfg now o' ks)"

inductive_cases key_stepE: "key_step ks ks'"

abbreviation key_steps :: "key_state \<Rightarrow> key_state \<Rightarrow> bool" where
  "key_steps \<equiv> key_step\<^sup>*\<^sup>*"

lemma key_steps_trans [trans]: "key_steps a b \<Longrightarrow> key_steps b c \<Longrightarrow> key_steps a c"
  by (rule rtranclp_trans)

lemma key_steps1 [intro]:
  "key_steps ks (transition_locked now ks)"
  "key_steps ks (snd (reserve_locked ks))"
  "key_steps ks (release_probe ks)"
  "key_steps ks (record_locked cfg now o' ks)"
  by (auto intro: key_step.intros)

text \<open>A property that each elementary step preserves is preserved by any sequence of them.\<close>

lemma key_steps_invariant:
  assumes "key_steps ks ks'" "P ks" "\<And>a b. key_step a b \<Longrightarrow> P a \<Longrightarrow> P b"
  shows "P ks'"
  using assms by (induction rule: rtranclp_induct) blast+

lemma key_step_terminal:
  assumes "key_step ks ks'" "ks_status ks = BreakerTerminal"
  shows "ks' = ks"
  using assms by (elim key_stepE) (auto simp: locked_defs)

lemma key_steps_terminal:
  assumes "key_steps ks ks'" "ks_status ks = BreakerTerminal"
  shows "ks' = ks"
  using assms by (induction rule: rtranclp_induct) (auto dest: key_step_terminal)

text \<open>The well-formed circuits: a probe is out only in half-open, the terminal reason is set in
  the terminal state and nowhere else, a circuit with no cooldown has none stored, and a
  circuit that left \<open>closed\<close> has counted a failure.\<close>

definition wf_key :: "key_state \<Rightarrow> bool" where
  "wf_key ks \<longleftrightarrow>
     (ks_probe_in_flight ks \<longrightarrow> ks_status ks = BreakerHalfOpen) \<and>
     (ks_terminal_reason ks \<noteq> '''' \<longleftrightarrow> ks_status ks = BreakerTerminal) \<and>
     (ks_status ks \<in> {BreakerClosed, BreakerTerminal} \<longrightarrow> ks_open_until ks = 0) \<and>
     0 \<le> ks_failures ks \<and>
     (ks_status ks \<in> {BreakerOpen, BreakerHalfOpen} \<longrightarrow> 1 \<le> ks_failures ks)"

lemma wf_fresh_key: "wf_key fresh_key"
  by (simp add: wf_key_def fresh_key_def)

lemma wf_clear: "wf_key (clear_locked ks)"
  by (simp add: wf_key_def clear_locked_def)

lemma wf_transition: "wf_key ks \<Longrightarrow> wf_key (transition_locked now ks)"
  by (auto simp: wf_key_def transition_locked_def)

lemma wf_reserve: "wf_key ks \<Longrightarrow> wf_key (snd (reserve_locked ks))"
  by (auto simp: wf_key_def reserve_locked_def split: breaker_state.splits)

lemma wf_release: "wf_key ks \<Longrightarrow> wf_key (release_probe ks)"
  by (auto simp: wf_key_def release_probe_def)

lemma wf_record:
  assumes "wf_key ks"
  shows "wf_key (record_locked cfg now o' ks)"
proof -
  have "wf_key (transition_locked now ks)" using assms by (rule wf_transition)
  then show ?thesis
    by (auto simp: wf_key_def record_locked_def Let_def TerminalBanned_def)
qed

lemma key_step_wf: "key_step ks ks' \<Longrightarrow> wf_key ks \<Longrightarrow> wf_key ks'"
  by (elim key_stepE) (auto intro: wf_transition wf_reserve wf_release wf_record)

lemma key_steps_wf: "key_steps ks ks' \<Longrightarrow> wf_key ks \<Longrightarrow> wf_key ks'"
  by (rule key_steps_invariant [where P = wf_key]) (auto intro: key_step_wf)

section \<open>Frame laws of the operations\<close>

lemma key_of_ops [frame_simps]:
  "key_of (snd (breaker_State now k b)) k' = (if k' = k then transition_locked now (key_of b k) else key_of b k')"
  "key_of (snd (AllowKey now k b)) k' =
     (if k' = k then snd (reserve_locked (transition_locked now (key_of b k))) else key_of b k')"
  "key_of (snd (RetryAfterKey now now' k b)) k' =
     (if k' = k then transition_locked now (key_of b k) else key_of b k')"
  "key_of (snd (TerminalReason k b)) k' = key_of b k'"
  "key_of (RecordKey cfg now k o' b) k' = (if k' = k then record_locked cfg now o' (key_of b k) else key_of b k')"
  "key_of (Clear k b) k' = (if k' = k then clear_locked (key_of b k) else key_of b k')"
  by (simp_all add: op_defs Let_def split: prod.splits)

lemma fst_AllowKey: "fst (AllowKey now k b) = key_allows now (key_of b k)"
  by (simp add: AllowKey_def key_allows_def split: prod.splits)

lemma key_of_release_all:
  "key_of (release_all rs b) k = (if k \<in> set rs then release_probe (key_of b k) else key_of b k)"
  by (induction rs arbitrary: b) (auto simp: release_probe_def)

lemma key_of_record_keys:
  "distinct ks \<Longrightarrow> key_of (foldl (\<lambda>b k. RecordKey cfg now k o' b) b ks) k =
     (if k \<in> set ks then record_locked cfg now o' (key_of b k) else key_of b k)"
  by (induction ks arbitrary: b) (auto simp: frame_simps)

lemma untouched_record_keys:
  "k \<notin> set ks \<Longrightarrow> foldl (\<lambda>b k. RecordKey cfg now k o' b) b ks k = b k"
  by (induction ks arbitrary: b) (auto simp: RecordKey_def)

lemma distinct_all_keys_for [simp]: "distinct (all_keys_for c)"
  by (auto simp: all_keys_for_def)

lemma distinct_keys_for [simp]: "distinct (keys_for c s)"
  by (cases s) (auto simp: keys_for_def)

lemma keys_for_subset: "set (keys_for c s) \<subseteq> set (all_keys_for c)"
  by (cases s) (auto simp: keys_for_def all_keys_for_def)

lemma key_of_Record:
  "key_of (Record cfg now c o' b) k =
     (if bo_success o' then (if k \<in> set (all_keys_for c)
                             then record_locked cfg now success_outcome (key_of b k) else key_of b k)
      else (if k \<in> set (keys_for c (bo_scope o'))
            then record_locked cfg now o' (key_of b k) else key_of b k))"
  by (simp add: Record_def key_of_record_keys)

lemma key_of_retry_after_loop:
  "key_steps (key_of b k) (key_of (snd (retry_after_loop now mx ks b)) k)"
proof (induction ks arbitrary: mx b)
  case (Cons a ks)
  have "key_steps (key_of b k) (key_of (snd (RetryAfterKey now now a b)) k)"
    by (auto simp: frame_simps)
  also note Cons.IH [of "snd (RetryAfterKey now now a b)"
      "if fst (RetryAfterKey now now a b) > mx then fst (RetryAfterKey now now a b) else mx"]
  finally show ?case by (simp add: case_prod_beta)
qed simp

section \<open>The preflight\<close>

lemma fst_allow_loop:
  "distinct ks \<Longrightarrow> fst (allow_loop now rs ks b) \<longleftrightarrow> (\<forall>k \<in> set ks. key_allows now (key_of b k))"
proof (induction ks arbitrary: rs b)
  case (Cons k ks)
  have "(\<forall>k' \<in> set ks. key_allows now (key_of (snd (AllowKey now k b)) k'))
      \<longleftrightarrow> (\<forall>k' \<in> set ks. key_allows now (key_of b k'))"
    using Cons.prems by (auto simp: frame_simps)
  with Cons show ?case by (simp add: case_prod_beta fst_AllowKey)
qed simp

lemma allow_loop_true:
  "distinct ks \<Longrightarrow> fst (allow_loop now rs ks b) \<Longrightarrow>
   key_of (snd (allow_loop now rs ks b)) k =
     (if k \<in> set ks then snd (reserve_locked (transition_locked now (key_of b k))) else key_of b k)"
proof (induction ks arbitrary: rs b)
  case (Cons a ks)
  then show ?case by (auto simp: case_prod_beta frame_simps split: if_splits)
qed simp

lemma release_reserve:
  "key_allows now ks \<Longrightarrow>
   release_probe (snd (reserve_locked (transition_locked now ks))) \<in> {transition_locked now ks, ks}"
  by (cases "ks_status ks") (auto simp: key_allows_def locked_defs split: if_splits)

lemma allow_loop_false:
  assumes "distinct (rs @ ks)" "\<not> fst (allow_loop now rs ks b)"
  shows "key_of (snd (allow_loop now rs ks b)) k \<in>
     (if k \<in> set rs then {release_probe (key_of b k)} else {key_of b k, transition_locked now (key_of b k)})"
  using assms
proof (induction ks arbitrary: rs b)
  case (Cons a ks)
  show ?case
  proof (cases "key_allows now (key_of b a)")
    case False
    then have "snd (reserve_locked (transition_locked now (key_of b a))) = transition_locked now (key_of b a)"
      by (auto simp: key_allows_def reserve_locked_def split: breaker_state.splits if_splits)
    with False Cons.prems show ?thesis
      by (auto simp: case_prod_beta fst_AllowKey frame_simps key_of_release_all)
  next
    case True
    let ?b' = "snd (AllowKey now a b)"
    have "key_of (snd (allow_loop now (rs @ [a]) ks ?b')) k \<in>
       (if k \<in> set (rs @ [a]) then {release_probe (key_of ?b' k)}
        else {key_of ?b' k, transition_locked now (key_of ?b' k)})"
      by (rule Cons.IH) (use Cons.prems True in \<open>auto simp: case_prod_beta fst_AllowKey\<close>)
    with True Cons.prems release_reserve [OF True] show ?thesis
      by (auto simp: case_prod_beta fst_AllowKey frame_simps split: if_splits)
  qed
qed simp

lemma fst_Allow: "fst (Allow now c b) \<longleftrightarrow> (\<forall>k \<in> set (all_keys_for c). key_allows now (key_of b k))"
  by (simp add: Allow_def fst_allow_loop)

lemma key_of_Allow_true:
  "fst (Allow now c b) \<Longrightarrow> key_of (snd (Allow now c b)) k =
     (if k \<in> set (all_keys_for c) then snd (reserve_locked (transition_locked now (key_of b k))) else key_of b k)"
  by (simp add: Allow_def allow_loop_true)

lemma key_of_Allow_false:
  "\<not> fst (Allow now c b) \<Longrightarrow>
   key_of (snd (Allow now c b)) k \<in> {key_of b k, transition_locked now (key_of b k)}"
  using allow_loop_false [of "[]" "all_keys_for c" now b k] by (simp add: Allow_def)

lemma key_steps_Allow: "key_steps (key_of b k) (key_of (snd (Allow now c b)) k)"
proof (cases "fst (Allow now c b)")
  case True
  have "key_steps (key_of b k) (snd (reserve_locked (transition_locked now (key_of b k))))"
    by (meson key_steps1(1,2) key_steps_trans)
  with True show ?thesis by (simp add: key_of_Allow_true)
next
  case False
  from key_of_Allow_false [OF False, of k] show ?thesis by auto
qed

lemma key_steps_Record: "key_steps (key_of b k) (key_of (Record cfg now c o' b) k)"
  by (auto simp: key_of_Record)

section \<open>Runs\<close>

datatype breaker_op =
  OpState gotime breaker_key
| OpAllowKey gotime breaker_key
| OpRetryAfterKey gotime gotime breaker_key
| OpTerminalReason breaker_key
| OpRecordKey breaker_config gotime breaker_key breaker_outcome
| OpClear breaker_key
| OpAllow gotime candidate
| OpRecord breaker_config gotime candidate breaker_outcome
| OpRetryAfter gotime candidate
| OpOnResult breaker_config gotime candidate attempt_outcome usage

fun apply_op :: "breaker_op \<Rightarrow> breaker \<Rightarrow> breaker" where
  "apply_op (OpState now k) b = snd (breaker_State now k b)"
| "apply_op (OpAllowKey now k) b = snd (AllowKey now k b)"
| "apply_op (OpRetryAfterKey now now' k) b = snd (RetryAfterKey now now' k b)"
| "apply_op (OpTerminalReason k) b = snd (TerminalReason k b)"
| "apply_op (OpRecordKey cfg now k o') b = RecordKey cfg now k o' b"
| "apply_op (OpClear k) b = Clear k b"
| "apply_op (OpAllow now c) b = snd (Allow now c b)"
| "apply_op (OpRecord cfg now c o') b = Record cfg now c o' b"
| "apply_op (OpRetryAfter now c) b = snd (RetryAfter now c b)"
| "apply_op (OpOnResult cfg now c o' u) b = OnResult cfg now c o' u b"

definition run_ops :: "breaker_op list \<Rightarrow> breaker \<Rightarrow> breaker" where
  "run_ops ops b = foldl (\<lambda>b op. apply_op op b) b ops"

lemma run_ops_simps [simp]:
  "run_ops [] b = b" "run_ops (op # ops) b = run_ops ops (apply_op op b)"
  by (simp_all add: run_ops_def)

inductive breaker_reachable :: "breaker \<Rightarrow> bool" where
  init: "breaker_reachable new_breaker"
| step: "breaker_reachable b \<Longrightarrow> breaker_reachable (apply_op op b)"

lemma key_steps_apply_op:
  assumes "op \<noteq> OpClear k"
  shows "key_steps (key_of b k) (key_of (apply_op op b) k)"
proof (cases op)
  case (OpAllowKey now k')
  have "key_steps (key_of b k') (snd (reserve_locked (transition_locked now (key_of b k'))))"
    by (meson key_steps1(1,2) key_steps_trans)
  with OpAllowKey show ?thesis by (auto simp: frame_simps)
next
  case (OpAllow now c)
  then show ?thesis by (simp add: key_steps_Allow)
next
  case (OpRecord cfg now c o')
  then show ?thesis by (simp add: key_steps_Record)
next
  case (OpRetryAfter now c)
  then show ?thesis by (simp add: RetryAfter_def key_of_retry_after_loop)
next
  case (OpOnResult cfg now c o' u)
  then show ?thesis by (cases o') (simp_all add: OnResult_def Let_def key_steps_Record)
qed (use assms in \<open>auto simp: frame_simps\<close>)

lemma key_steps_run_ops:
  "OpClear k \<notin> set ops \<Longrightarrow> key_steps (key_of b k) (key_of (run_ops ops b) k)"
proof (induction ops arbitrary: b)
  case (Cons op ops)
  have "key_steps (key_of b k) (key_of (apply_op op b) k)"
    using Cons.prems by (intro key_steps_apply_op) auto
  also have "key_steps (key_of (apply_op op b) k) (key_of (run_ops ops (apply_op op b)) k)"
    using Cons by simp
  finally show ?case by simp
qed simp

lemma wf_apply_op:
  assumes "\<And>k. wf_key (key_of b k)"
  shows "wf_key (key_of (apply_op op b) k)"
proof (cases "op = OpClear k")
  case True
  then show ?thesis by (simp add: frame_simps wf_clear)
next
  case False
  then show ?thesis using key_steps_wf [OF key_steps_apply_op assms] by blast
qed

section \<open>Properties\<close>

text \<open>C6: In every state the breaker can reach from an empty one, by any sequence of operations at
  any times, each circuit is well formed: the half-open probe is out only in half-open, a
  terminal reason is recorded exactly in the terminal state, closed and terminal circuits store
  no cooldown, and an open or half-open circuit has counted at least one failure.\<close>

theorem breaker_reachable_wf: "breaker_reachable b \<Longrightarrow> wf_key (key_of b k)"
proof (induction arbitrary: k rule: breaker_reachable.induct)
  case init
  show ?case by (simp add: wf_fresh_key)
next
  case (step b op)
  show ?case using step.IH by (rule wf_apply_op)
qed

definition sample_cand :: candidate where
  "sample_cand = \<lparr>cand_provider = ''z.ai'', cand_model = ''glm'', cand_credential = ''acc1'',
     cand_score = Fin 0, cand_reason = ''''\<rparr>"

definition sample_cfg :: breaker_config where
  "sample_cfg = \<lparr>bc_base = 10, bc_max = 100, bc_credential_threshold = 3, bc_jitter = (\<lambda>d. d)\<rparr>"

definition failure :: "err_scope \<Rightarrow> bool \<Rightarrow> duration \<Rightarrow> breaker_outcome" where
  "failure s r ra = \<lparr>bo_scope = s, bo_retryable = r, bo_retry_after = ra,
     bo_terminal_reason = '''', bo_success = False\<rparr>"

lemmas sample_simps = sample_cand_def sample_cfg_def failure_def

theorem breaker_reachable_wf_witness:
  "wf_key (key_of (apply_op (OpRecord sample_cfg 5 sample_cand (failure ScopeProvider True 0)) new_breaker)
     (KeyFor sample_cand BreakerProvider))"
  by (rule breaker_reachable_wf [OF breaker_reachable.step [OF breaker_reachable.init]])

text \<open>A terminal circuit is absorbing: whatever sequence of operations runs, at whatever times,
  as long as none of them is the explicit \<open>Clear\<close> of that circuit, its state does not change at
  all, and every candidate that touches it is refused.\<close>

theorem terminal_absorbing:
  assumes "ks_status (key_of b k) = BreakerTerminal" "OpClear k \<notin> set ops"
  shows "key_of (run_ops ops b) k = key_of b k \<and>
    (\<forall>now c. k \<in> set (all_keys_for c) \<longrightarrow> \<not> fst (Allow now c (run_ops ops b)))"
proof -
  have "key_of (run_ops ops b) k = key_of b k"
    using key_steps_terminal [OF key_steps_run_ops] assms by blast
  moreover have "\<not> key_allows now (key_of b k)" for now
    using assms(1) by (simp add: key_allows_iff)
  ultimately show ?thesis by (metis fst_Allow)
qed

definition banned_breaker :: breaker where
  "banned_breaker = [KeyFor sample_cand BreakerCredential \<mapsto>
     fresh_key\<lparr>ks_status := BreakerTerminal, ks_terminal_reason := TerminalBanned\<rparr>]"

theorem terminal_absorbing_witness:
  "key_of (run_ops [OpRecord sample_cfg 7 sample_cand success_outcome, OpAllow 9 sample_cand] banned_breaker)
     (KeyFor sample_cand BreakerCredential) = key_of banned_breaker (KeyFor sample_cand BreakerCredential)
   \<and> \<not> fst (Allow 100 sample_cand
       (run_ops [OpRecord sample_cfg 7 sample_cand success_outcome, OpAllow 9 sample_cand] banned_breaker))"
proof -
  have "ks_status (key_of banned_breaker (KeyFor sample_cand BreakerCredential)) = BreakerTerminal"
    by (simp add: banned_breaker_def key_of_def)
  moreover have "OpClear (KeyFor sample_cand BreakerCredential)
      \<notin> set [OpRecord sample_cfg 7 sample_cand success_outcome, OpAllow 9 sample_cand]"
    by simp
  moreover have "KeyFor sample_cand BreakerCredential \<in> set (all_keys_for sample_cand)"
    by (simp add: all_keys_for_def sample_cand_def)
  ultimately show ?thesis using terminal_absorbing by blast
qed

text \<open>Recording a success closes the candidate: whatever the circuits were before, the next
  preflight admits the candidate at any time exactly when none of its circuits is terminal, and
  the consecutive-failure count of each non-terminal one is back to zero.\<close>

theorem success_closes:
  "(fst (Allow now' c (Record cfg now c success_outcome b)) \<longleftrightarrow>
      (\<forall>k \<in> set (all_keys_for c). ks_status (key_of b k) \<noteq> BreakerTerminal)) \<and>
   (\<forall>k \<in> set (all_keys_for c). ks_status (key_of b k) \<noteq> BreakerTerminal \<longrightarrow>
      ks_failures (key_of (Record cfg now c success_outcome b) k) = 0)"
proof -
  have closed: "bo_success success_outcome" by (simp add: success_outcome_def)
  have rec: "key_allows now' (record_locked cfg now success_outcome ks) \<longleftrightarrow> ks_status ks \<noteq> BreakerTerminal"
    "ks_status ks \<noteq> BreakerTerminal \<Longrightarrow> ks_failures (record_locked cfg now success_outcome ks) = 0" for ks
    by (auto simp: key_allows_iff record_locked_def transition_locked_def closed Let_def)
  show ?thesis by (simp add: fst_Allow key_of_Record closed rec)
qed

theorem success_closes_witness:
  "ks_failures (key_of (Record sample_cfg 3 sample_cand success_outcome new_breaker)
     (KeyFor sample_cand BreakerModel)) = 0"
  using success_closes [of 0 sample_cand sample_cfg 3 new_breaker]
  by (auto simp: all_keys_for_def sample_cand_def fresh_key_def)

text \<open>A failure reaches only the circuits of its scope.  A request-scoped failure changes
  nothing; a credential-scoped failure changes at most the circuit of that one account, so the
  other accounts of the family and the provider itself keep theirs; a provider-scoped failure
  changes at most the provider's and the provider-and-model circuit, never an account's.\<close>

theorem failure_isolation:
  assumes "\<not> bo_success o'"
  shows "(bo_scope o' = ScopeRequest \<longrightarrow> Record cfg now c o' b = b) \<and>
    (bo_scope o' = ScopeCredential \<and> k \<noteq> KeyFor c BreakerCredential \<longrightarrow> Record cfg now c o' b k = b k) \<and>
    (bo_scope o' = ScopeProvider \<and> (bk_scope k = BreakerCredential \<or> bk_provider k \<noteq> cand_provider c)
       \<longrightarrow> Record cfg now c o' b k = b k)"
proof -
  have cred: "k \<notin> set (keys_for c ScopeCredential)" if "k \<noteq> KeyFor c BreakerCredential"
    using that by (simp add: keys_for_def)
  have prov: "k \<notin> set (keys_for c ScopeProvider)"
    if "bk_scope k = BreakerCredential \<or> bk_provider k \<noteq> cand_provider c"
    using that by (auto simp: keys_for_def KeyFor_def)
  show ?thesis
    using assms cred prov by (auto simp: Record_def untouched_record_keys) (simp add: keys_for_def)
qed

theorem failure_isolation_witness:
  "Record sample_cfg 3 sample_cand (failure ScopeCredential False 0) new_breaker (KeyFor sample_cand BreakerProvider)
     = new_breaker (KeyFor sample_cand BreakerProvider)"
  using failure_isolation [of "failure ScopeCredential False 0" sample_cfg 3 sample_cand new_breaker
      "KeyFor sample_cand BreakerProvider"]
  by (simp add: failure_def)

text \<open>A retry hint is honoured exactly.  When an account whose circuits are closed fails with a
  retryable credential error carrying \<open>RetryAfter = d > 0\<close> at time \<open>now\<close>, the candidate is
  refused at every time before \<open>now + d\<close> and admitted at every time from then on, no matter
  what the exponential backoff or the jitter would have given; and \<open>RetryAfterKey\<close> reports
  exactly what is left.\<close>

theorem retry_after_exact:
  assumes "cand_credential c \<noteq> ''''"
    and "\<forall>k \<in> set (all_keys_for c). ks_status (key_of b k) = BreakerClosed"
    and "0 < d" "d < 2 ^ 63"
    and b': "b' = Record cfg now c (failure ScopeCredential True d) b"
  shows "(fst (Allow t c b') \<longleftrightarrow> now + d \<le> t) \<and>
    (now \<le> t \<longrightarrow> fst (RetryAfterKey t t (KeyFor c BreakerCredential) b')
       = (if t < now + d then now + d - t else 0))"
proof -
  let ?k = "KeyFor c BreakerCredential"
  have keys: "keys_for c ScopeCredential = [?k]" "?k \<in> set (all_keys_for c)"
    using assms(1) by (simp_all add: keys_for_def all_keys_for_def)
  have cred: "key_of b' ?k = (key_of b ?k)\<lparr>ks_status := BreakerOpen, ks_failures := ks_failures (key_of b ?k) + 1,
      ks_open_until := now + d, ks_probe_in_flight := False\<rparr>"
    using assms(2,3) keys
    by (simp add: b' key_of_Record failure_def record_locked_def transition_locked_def Let_def)
  have other: "key_of b' k = key_of b k" if "k \<noteq> ?k" for k
    using that keys by (simp add: b' key_of_Record failure_def)
  have "(\<forall>k \<in> set (all_keys_for c). key_allows t (key_of b' k)) \<longleftrightarrow> key_allows t (key_of b' ?k)"
  proof
    show "\<forall>k \<in> set (all_keys_for c). key_allows t (key_of b' k) \<Longrightarrow> key_allows t (key_of b' ?k)"
      using keys by blast
    show "key_allows t (key_of b' ?k) \<Longrightarrow> \<forall>k \<in> set (all_keys_for c). key_allows t (key_of b' k)"
      using other assms(2) by (metis key_allows_iff)
  qed
  also have "\<dots> \<longleftrightarrow> now + d \<le> t"
    by (simp add: cred key_allows_iff)
  finally have "fst (Allow t c b') \<longleftrightarrow> now + d \<le> t"
    by (simp add: fst_Allow)
  moreover have "now \<le> t \<Longrightarrow> fst (RetryAfterKey t t ?k b') = (if t < now + d then now + d - t else 0)"
    using assms(3,4) by (simp add: RetryAfterKey_def cred transition_locked_def Let_def time_sub_def)
  ultimately show ?thesis by simp
qed

theorem retry_after_exact_witness:
  "\<not> fst (Allow 149 sample_cand (Record sample_cfg 100 sample_cand (failure ScopeCredential True 50) new_breaker))
   \<and> fst (RetryAfterKey 120 120 (KeyFor sample_cand BreakerCredential)
        (Record sample_cfg 100 sample_cand (failure ScopeCredential True 50) new_breaker)) = 30"
proof -
  have c: "cand_credential sample_cand \<noteq> ''''" by (simp add: sample_cand_def)
  have closed: "\<forall>k \<in> set (all_keys_for sample_cand). ks_status (key_of new_breaker k) = BreakerClosed"
    by (simp add: fresh_key_def)
  show ?thesis
    using retry_after_exact [OF c closed _ _ refl, of 50 149 sample_cfg 100]
      retry_after_exact [OF c closed _ _ refl, of 50 120 sample_cfg 100] by simp
qed

text \<open>The preflight is all or nothing.  A candidate is admitted exactly when each of its
  circuits is closed, or half-open with the probe free, or open with the cooldown over.  When it
  is refused, no probe slot stays reserved on its account: every circuit is left as it was, up
  to the lazy transition from open to half-open.\<close>

theorem allow_all_or_nothing:
  "(fst (Allow now c b) \<longleftrightarrow> (\<forall>k \<in> set (all_keys_for c).
      ks_status (key_of b k) = BreakerClosed
      \<or> ks_status (key_of b k) = BreakerHalfOpen \<and> \<not> ks_probe_in_flight (key_of b k)
      \<or> ks_status (key_of b k) = BreakerOpen \<and> ks_open_until (key_of b k) \<le> now)) \<and>
   (\<not> fst (Allow now c b) \<longrightarrow>
      (\<forall>k. key_of (snd (Allow now c b)) k \<in> {key_of b k, transition_locked now (key_of b k)}))"
  using key_of_Allow_false [of now c b] unfolding fst_Allow key_allows_iff by blast

theorem allow_all_or_nothing_witness:
  "key_of (snd (Allow 5 sample_cand banned_breaker)) (KeyFor sample_cand BreakerProvider)
     \<in> {key_of banned_breaker (KeyFor sample_cand BreakerProvider),
        transition_locked 5 (key_of banned_breaker (KeyFor sample_cand BreakerProvider))}"
proof -
  have "\<not> fst (Allow 5 sample_cand banned_breaker)"
    by (simp add: fst_Allow all_keys_for_def key_allows_iff banned_breaker_def key_of_def sample_cand_def)
  then show ?thesis using allow_all_or_nothing by blast
qed

fun observing :: "breaker_op \<Rightarrow> bool" where
  "observing (OpRecordKey cfg now k o') = False"
| "observing (OpClear k) = False"
| "observing (OpRecord cfg now c o') = False"
| "observing (OpOnResult cfg now c o' u) = False"
| "observing op = True"

lemma probing_stays:
  assumes "ks_status (key_of b k) = BreakerHalfOpen" "ks_probe_in_flight (key_of b k)"
  shows "observing op \<Longrightarrow> key_of (apply_op op b) k = key_of b k"
proof (cases op)
  case (OpAllow now c)
  have refused: "\<not> key_allows now (key_of b k)" using assms by (simp add: key_allows_iff)
  show ?thesis
  proof (cases "fst (Allow now c b)")
    case True
    with refused have "k \<notin> set (all_keys_for c)" by (auto simp: fst_Allow)
    with True OpAllow show ?thesis by (simp add: key_of_Allow_true)
  next
    case False
    from key_of_Allow_false [OF False, of k] OpAllow assms show ?thesis
      by (auto simp: transition_locked_def)
  qed
next
  case (OpRetryAfter now c)
  have "key_of (snd (retry_after_loop now mx ks b)) k = key_of b k" for mx ks
    using assms
  proof (induction ks arbitrary: mx b)
    case (Cons a ks)
    have "key_of (snd (RetryAfterKey now now a b)) k = key_of b k"
      using Cons.prems by (auto simp: frame_simps transition_locked_def)
    with Cons show ?case by (simp add: case_prod_beta)
  qed simp
  with OpRetryAfter show ?thesis by (simp add: RetryAfter_def)
qed (use assms in \<open>auto simp: frame_simps locked_defs\<close>)

lemma probing_run:
  assumes "ks_status (key_of b k) = BreakerHalfOpen" "ks_probe_in_flight (key_of b k)"
    and "\<forall>op \<in> set ops. observing op"
  shows "key_of (run_ops ops b) k = key_of b k"
  using assms
proof (induction ops arbitrary: b)
  case (Cons op ops)
  then have "key_of (apply_op op b) k = key_of b k" by (intro probing_stays) simp_all
  with Cons show ?case by simp
qed simp

lemma probing_refuses:
  assumes "ks_status (key_of b k) = BreakerHalfOpen" "ks_probe_in_flight (key_of b k)"
    and "\<forall>op \<in> set ops. observing op" "k \<in> set (all_keys_for c)"
  shows "\<not> fst (Allow now c (run_ops ops b))"
proof -
  have "\<not> key_allows now (key_of (run_ops ops b) k)"
    using assms by (simp add: probing_run key_allows_iff)
  with assms(4) show ?thesis by (auto simp: fst_Allow)
qed

text \<open>A half-open circuit admits one probe.  Once the probe is out, no sequence of preflights,
  state reads and cooldown reads, at any times, changes the circuit, and every candidate that
  touches it is refused: the passing of time does not free the slot, only a recorded result or
  \<open>Clear\<close> does.\<close>

theorem half_open_single_probe:
  assumes "fst (AllowKey now k b)" "ks_status (transition_locked now (key_of b k)) = BreakerHalfOpen"
    and "\<forall>op \<in> set ops. observing op" "k \<in> set (all_keys_for c)"
  shows "\<not> fst (Allow later c (run_ops ops (snd (AllowKey now k b))))"
proof (rule probing_refuses [OF _ _ assms(3,4)])
  show "ks_status (key_of (snd (AllowKey now k b)) k) = BreakerHalfOpen"
    "ks_probe_in_flight (key_of (snd (AllowKey now k b)) k)"
    using assms(1,2) by (auto simp: frame_simps fst_AllowKey key_allows_def reserve_locked_def split: if_splits)
qed

definition cooled_breaker :: breaker where
  "cooled_breaker = [KeyFor sample_cand BreakerProvider \<mapsto>
     fresh_key\<lparr>ks_status := BreakerOpen, ks_failures := 1, ks_open_until := 50\<rparr>]"

theorem half_open_single_probe_witness:
  "\<not> fst (Allow 1000 sample_cand (run_ops [OpAllow 70 sample_cand]
     (snd (AllowKey 60 (KeyFor sample_cand BreakerProvider) cooled_breaker))))"
  by (rule half_open_single_probe)
    (simp_all add: fst_AllowKey key_allows_iff cooled_breaker_def key_of_def transition_locked_def
      all_keys_for_def)

text \<open>The probe slot of the provider's circuit is lost when the probing attempt ends in a failure
  of another scope.  If the preflight of a candidate took the half-open probe of its provider
  and the attempt then fails with a request-scoped or a credential-scoped error, recording that
  failure does not give the slot back: from then on every candidate of that provider, whatever
  its model and account, is refused at every later time and after any number of preflights and
  reads, and since nothing is attempted nothing is recorded that could reopen the circuit.\<close>

theorem probe_leak:
  assumes "fst (Allow now c b)"
    and "ks_status (transition_locked now (key_of b (KeyFor c BreakerProvider))) = BreakerHalfOpen"
    and "\<not> bo_success o'" "bo_scope o' \<noteq> ScopeProvider"
    and "\<forall>op \<in> set ops. observing op"
    and "cand_provider c' = cand_provider c"
  shows "\<not> fst (Allow later c' (run_ops ops (Record cfg done c o' (snd (Allow now c b)))))"
proof (rule probing_refuses [OF _ _ assms(5)])
  let ?k = "KeyFor c BreakerProvider"
  have mem: "?k \<in> set (all_keys_for c)" by (simp add: all_keys_for_def)
  have "key_allows now (key_of b ?k)" using assms(1) mem by (auto simp: fst_Allow)
  then have "key_of (snd (Allow now c b)) ?k = (transition_locked now (key_of b ?k))\<lparr>ks_probe_in_flight := True\<rparr>"
    using assms(1,2) mem by (simp add: key_of_Allow_true reserve_locked_def key_allows_def split: if_splits)
  moreover have "?k \<notin> set (keys_for c (bo_scope o'))"
    using assms(4) by (cases "bo_scope o'") (auto simp: keys_for_def)
  then have "key_of (Record cfg done c o' (snd (Allow now c b))) ?k = key_of (snd (Allow now c b)) ?k"
    using assms(3) by (simp add: key_of_Record)
  ultimately show "ks_status (key_of (Record cfg done c o' (snd (Allow now c b))) ?k) = BreakerHalfOpen"
    "ks_probe_in_flight (key_of (Record cfg done c o' (snd (Allow now c b))) ?k)"
    using assms(2) by simp_all
  show "?k \<in> set (all_keys_for c')"
    using assms(6) by (simp add: all_keys_for_def)
qed

theorem probe_leak_witness:
  "\<not> fst (Allow 1000000 (sample_cand\<lparr>cand_model := ''other'', cand_credential := ''acc2''\<rparr>)
     (run_ops [OpAllow 500 sample_cand] (Record sample_cfg 61 sample_cand (failure ScopeCredential False 0)
        (snd (Allow 60 sample_cand cooled_breaker)))))"
  by (rule probe_leak)
    (simp_all add: fst_Allow key_allows_iff cooled_breaker_def key_of_def transition_locked_def
      all_keys_for_def fresh_key_def failure_def sample_cand_def KeyFor_def)

text \<open>Terminal promotion by count.  A non-retryable credential failure opens no cooldown; it
  adds one to the account's failure count, and the account becomes terminal (banned) exactly when
  that count reaches the configured threshold.  Retryable failures feed the same count, so the
  failures that promote need not all be non-retryable.\<close>

theorem credential_promotion:
  assumes "cand_credential c \<noteq> ''''" "ks_status (key_of b (KeyFor c BreakerCredential)) = BreakerClosed"
  shows "key_of (Record cfg now c (failure ScopeCredential False ra) b) (KeyFor c BreakerCredential) =
    (let ks = key_of b (KeyFor c BreakerCredential); n = ks_failures ks + 1 in
     if bc_credential_threshold cfg \<le> n
     then ks\<lparr>ks_status := BreakerTerminal, ks_failures := n, ks_open_until := 0,
             ks_terminal_reason := TerminalBanned, ks_probe_in_flight := False\<rparr>
     else ks\<lparr>ks_failures := n\<rparr>)"
  using assms
  by (simp add: key_of_Record keys_for_def failure_def record_locked_def transition_locked_def Let_def)

definition retried_breaker :: breaker where
  "retried_breaker = Record sample_cfg 200 sample_cand (failure ScopeCredential True 5)
     (Record sample_cfg 100 sample_cand (failure ScopeCredential True 5) new_breaker)"

text \<open>Two rate-limit failures (retryable) and a single non-retryable one make the account terminal
  under a threshold of three.\<close>

theorem credential_promotion_counts_retryable:
  "ks_status (key_of (Record sample_cfg 300 sample_cand (failure ScopeCredential False 0) retried_breaker)
     (KeyFor sample_cand BreakerCredential)) = BreakerTerminal"
  by (simp add: retried_breaker_def sample_simps key_of_Record keys_for_def record_locked_def
      transition_locked_def fresh_key_def KeyFor_def Let_def)

theorem credential_promotion_witness:
  "ks_status (key_of (Record (sample_cfg\<lparr>bc_credential_threshold := 1\<rparr>) 9 sample_cand
     (failure ScopeCredential False 0) new_breaker) (KeyFor sample_cand BreakerCredential)) = BreakerTerminal"
proof -
  have "cand_credential sample_cand \<noteq> ''''"
    "ks_status (key_of new_breaker (KeyFor sample_cand BreakerCredential)) = BreakerClosed"
    by (simp_all add: sample_cand_def fresh_key_def)
  note credential_promotion [OF this, of "sample_cfg\<lparr>bc_credential_threshold := 1\<rparr>" 9 0]
  then show ?thesis by (simp add: Let_def fresh_key_def)
qed

section \<open>The cooldown sequence\<close>

lemma fl_half [simp]: "fl (1/2) = 1/2"
  by code_simp

lemma jitter_factor:
  assumes "0 \<le> r" "r \<le> 1"
  shows "1/2 \<le> fl (1/2 + fl (r * (1/2)))" "fl (1/2 + fl (r * (1/2))) \<le> 1"
proof -
  have lo: "0 \<le> fl (r * (1/2))" using assms by (simp add: fl_nonneg)
  have "fl (r * (1/2)) \<le> fl (1/2)" using assms by (intro fl_mono) simp
  then have hi: "fl (r * (1/2)) \<le> 1/2" by simp
  have "fl (1/2) \<le> fl (1/2 + fl (r * (1/2)))" using lo by (intro fl_mono) simp
  then show "1/2 \<le> fl (1/2 + fl (r * (1/2)))" by simp
  show "fl (1/2 + fl (r * (1/2))) \<le> 1" using hi by (intro fl_le_1) simp
qed

lemma DefaultJitter_range:
  assumes "0 \<le> r" "r \<le> 1" "0 < d" "d \<le> 2 ^ 53"
  shows "d div 2 \<le> DefaultJitter r d" "DefaultJitter r d \<le> d"
proof -
  let ?f = "fl (1/2 + fl (r * (1/2)))"
  have d: "float_of_int d = of_int d" using assms by (simp add: float_of_int_def)
  have dpos: "(0::rat) \<le> of_int d" using assms by simp
  have jit: "DefaultJitter r d = trunc (fl (of_int d * ?f))"
    using assms by (simp add: DefaultJitter_def d Let_def)
  have nonneg: "0 \<le> fl (of_int d * ?f)"
    by (rule fl_nonneg) (use jitter_factor(1) [OF assms(1,2)] dpos in simp)
  have "of_int (d div 2) \<le> of_int d * (1/2 :: rat)"
  proof -
    have "2 * (d div 2) \<le> d" by simp
    then have "of_int (2 * (d div 2)) \<le> (of_int d :: rat)" by (simp only: of_int_le_iff)
    then show ?thesis by simp
  qed
  also have "\<dots> \<le> of_int d * ?f"
    using jitter_factor(1) [OF assms(1,2)] dpos by (intro mult_left_mono)
  finally have "fl (of_int (d div 2)) \<le> fl (of_int d * ?f)" by (rule fl_mono)
  moreover have "fl (of_int (d div 2)) = of_int (d div 2)"
    using assms(3,4) by (intro fl_of_int) simp
  ultimately have "of_int (d div 2) \<le> fl (of_int d * ?f)" by simp
  then show "d div 2 \<le> DefaultJitter r d"
    using nonneg by (simp add: jit trunc_def le_floor_iff)
  have "of_int d * ?f \<le> of_int d * 1"
    using jitter_factor(2) [OF assms(1,2)] dpos by (intro mult_left_mono)
  then have "fl (of_int d * ?f) \<le> fl (of_int d)" by (intro fl_mono) simp
  also have "\<dots> = of_int d" using assms by (intro fl_of_int) simp
  finally show "DefaultJitter r d \<le> d"
    using nonneg by (simp add: jit trunc_def floor_le_iff)
qed

lemma exponential_exact:
  assumes "0 < bc_base cfg" "bc_base cfg < 2 ^ 33" "0 < bc_max cfg"
  shows "exponential cfg failures =
    bc_jitter cfg (min (bc_base cfg * 2 ^ nat (min (failures - 1) 30)) (bc_max cfg))"
proof -
  let ?d = "bc_base cfg * 2 ^ nat (min (failures - 1) 30)"
  have "(2::int) ^ nat (min (failures - 1) 30) \<le> 2 ^ 30" by (rule power_increasing) auto
  then have "?d \<le> bc_base cfg * 2 ^ 30" using assms(1) by simp
  also have "\<dots> < 2 ^ 63" using assms(2) by simp
  finally have upper: "?d < 2 ^ 63" .
  have shift: "(if failures - 1 > 30 then 30 else failures - 1) = min (failures - 1) 30" by simp
  have pos: "\<not> ?d \<le> 0" using assms(1) by (simp add: not_le)
  have "- 9223372036854775808 \<le> ?d" using pos by linarith
  then have wrap: "wrap64 ?d = ?d" using upper by (intro wrap64_id) simp_all
  show ?thesis
    unfolding exponential_def Let_def shift wrap using pos
    by (cases "?d \<le> bc_max cfg") (simp_all add: min_absorb1 min_absorb2)
qed

text \<open>The exponential backoff.  For a base below 2^33 ns (8.5 s) and the default jitter with any
  draw in [0,1), the cooldown after the n-th consecutive failure lies between half and the whole
  of \<open>min (base * 2^(n-1)) max\<close>, the exponent capped at 30: the 64-bit shift never overflows and
  the ceiling always holds.\<close>

theorem cooldown_range:
  assumes "0 < bc_base cfg" "bc_base cfg < 2 ^ 33" "0 < bc_max cfg" "bc_max cfg \<le> 2 ^ 53"
    and "bc_jitter cfg = DefaultJitter r" "0 \<le> r" "r < 1"
  shows "let d = min (bc_base cfg * 2 ^ nat (min (n - 1) 30)) (bc_max cfg) in
    d div 2 \<le> exponential cfg n \<and> exponential cfg n \<le> d \<and> d \<le> bc_max cfg"
proof -
  let ?d = "min (bc_base cfg * 2 ^ nat (min (n - 1) 30)) (bc_max cfg)"
  have d: "0 < ?d" using assms(1,3) by simp
  have "?d \<le> bc_max cfg" by (rule min.cobounded2)
  with assms(4) have "?d \<le> 2 ^ 53" by (rule order.trans [rotated])
  note jit = DefaultJitter_range [OF assms(6) less_imp_le [OF assms(7)] d this]
  show ?thesis
    unfolding Let_def exponential_exact [OF assms(1-3)] assms(5)
    by (intro conjI jit min.cobounded2)
qed

theorem cooldown_range_witness:
  "4000000000 div 2 \<le> exponential (DefaultConfig (1/4)) 3 \<and> exponential (DefaultConfig (1/4)) 3 \<le> 4000000000"
  using cooldown_range [of "DefaultConfig (1/4)" "1/4" 3]
  by (simp add: DefaultConfig_def)

text \<open>The cap on the shift does not keep a larger base from overflowing.  With a base of
  2^34 + 1 ns (about 17 s) and a ceiling of one hour, both accepted by \<open>WithConfig\<close>, the cooldown
  after 31 consecutive failures is 2^30 ns (about 1 s), below the cooldown after the first one.\<close>

theorem shift_overflow:
  "let cfg = WithConfig 0 (2 ^ 34 + 1) 3600000000000 3 (Some (\<lambda>d. d)) in
   exponential cfg 1 = 2 ^ 34 + 1 \<and> exponential cfg 31 = 2 ^ 30"
  by code_simp

end
