(* ===== verification/Json_Body.thy ===== *)
theory Json_Body
  imports Domain_Errors
begin

text \<open>
  Request and response bodies as the program reads them through \<open>encoding/json\<close>.  A body is the
  JSON value it encodes, or bytes that encode none; an object's members are in document order and
  no two names agree up to the case of ASCII letters, so that the case-insensitive member lookup
  of a struct target is a function.  A number is an integer literal or another literal, kept as
  text.  Marshalling a Go map writes its members sorted by name; the letters of a string are not
  escaped, so a word of letters occurs in the text exactly when it occurs in a name or a string.
\<close>

datatype json = JNull | JBool bool | JInt int | JNum string | JStr string | JArr "json list"
  | JObj "(string \<times> json) list"

datatype body = NotJson string | Json json

definition nil_body :: body where "nil_body = NotJson ''''"

section \<open>Struct targets\<close>

definition lower :: "char \<Rightarrow> char" where
  "lower c = (let n = of_char c :: nat in if 65 \<le> n \<and> n \<le> 90 then char_of (n + 32) else c)"

definition fold_eq :: "string \<Rightarrow> string \<Rightarrow> bool" where
  "fold_eq a b \<longleftrightarrow> map lower a = map lower b"

definition member :: "string \<Rightarrow> (string \<times> json) list \<Rightarrow> json option" where
  "member name ms = map_option snd (find (\<lambda>(k, _). fold_eq k name) ms)"

text \<open>Decoding into an \<open>int\<close> field: absent and null leave zero, a literal that is no 64-bit integer or
  a value of another kind is an error.\<close>

definition int_field :: "string \<Rightarrow> (string \<times> json) list \<Rightarrow> int option" where
  "int_field name ms = (case member name ms of
      None \<Rightarrow> Some 0
    | Some JNull \<Rightarrow> Some 0
    | Some (JInt n) \<Rightarrow> if - (2 ^ 63) \<le> n \<and> n < 2 ^ 63 then Some n else None
    | Some _ \<Rightarrow> None)"

definition string_field :: "string \<Rightarrow> (string \<times> json) list \<Rightarrow> string option" where
  "string_field name ms = (case member name ms of
      None \<Rightarrow> Some ''''
    | Some JNull \<Rightarrow> Some ''''
    | Some (JStr s) \<Rightarrow> Some s
    | Some _ \<Rightarrow> None)"

definition bool_field :: "string \<Rightarrow> (string \<times> json) list \<Rightarrow> bool option" where
  "bool_field name ms = (case member name ms of
      None \<Rightarrow> Some False
    | Some JNull \<Rightarrow> Some False
    | Some (JBool b) \<Rightarrow> Some b
    | Some _ \<Rightarrow> None)"

text \<open>A field of struct type: the members to decode, none when it is absent or null.\<close>

definition obj_field :: "string \<Rightarrow> (string \<times> json) list \<Rightarrow> (string \<times> json) list option" where
  "obj_field name ms = (case member name ms of
      None \<Rightarrow> Some []
    | Some JNull \<Rightarrow> Some []
    | Some (JObj xs) \<Rightarrow> Some xs
    | Some _ \<Rightarrow> None)"

definition as_struct :: "json \<Rightarrow> (string \<times> json) list option" where
  "as_struct j = (case j of JObj ms \<Rightarrow> Some ms | JNull \<Rightarrow> Some [] | _ \<Rightarrow> None)"

definition body_struct :: "body \<Rightarrow> (string \<times> json) list option" where
  "body_struct b = (case b of NotJson _ \<Rightarrow> None | Json j \<Rightarrow> as_struct j)"

section \<open>Map targets\<close>

text \<open>\<open>json.Unmarshal\<close> into a \<open>map[string]json.RawMessage\<close>, with the nil map refused by the callers.\<close>

definition body_map :: "body \<Rightarrow> (string \<times> json) list option" where
  "body_map b = (case b of Json (JObj ms) \<Rightarrow> Some ms | _ \<Rightarrow> None)"

definition marshal_map :: "(string \<times> json) list \<Rightarrow> body" where
  "marshal_map ms = Json (JObj (slice_stable (\<lambda>a b. fst a < fst b) ms))"

definition json_array :: "json option \<Rightarrow> json list" where
  "json_array j = (case j of Some (JArr xs) \<Rightarrow> xs | _ \<Rightarrow> [])"

section \<open>Text\<close>

fun contains :: "string \<Rightarrow> string \<Rightarrow> bool" where
  "contains [] w = (w = [])"
| "contains (c # cs) w = (take (length w) (c # cs) = w \<or> contains cs w)"

fun mentions :: "string \<Rightarrow> json \<Rightarrow> bool" where
  "mentions w (JStr s) = contains s w"
| "mentions w (JArr xs) = list_ex (mentions w) xs"
| "mentions w (JObj ms) = list_ex (\<lambda>(k, v). contains k w \<or> mentions w v) ms"
| "mentions w j = False"

definition body_mentions :: "string \<Rightarrow> body \<Rightarrow> bool" where
  "body_mentions w b = (case b of NotJson s \<Rightarrow> contains s w | Json j \<Rightarrow> mentions w j)"

lemma map_of_marshal:
  assumes "distinct (map fst ms)"
  shows "body_map (marshal_map ms) = Some (slice_stable (\<lambda>a b. fst a < fst b) ms)"
    and "map_of (slice_stable (\<lambda>a b. fst a < fst b) ms) = map_of ms"
proof -
  show "body_map (marshal_map ms) = Some (slice_stable (\<lambda>a b. fst a < fst b) ms)"
    by (simp add: body_map_def marshal_map_def)
  have "mset (map fst (slice_stable (\<lambda>a b. fst a < fst b) ms)) = mset (map fst ms)" by simp
  then have "distinct (map fst (slice_stable (\<lambda>a b. fst a < fst b) ms))"
    using assms mset_eq_imp_distinct_iff by metis
  then show "map_of (slice_stable (\<lambda>a b. fst a < fst b) ms) = map_of ms"
    using assms by (intro map_of_inject_set [THEN iffD2]) simp_all
qed

end
