(* ===== verification/Dispatcher.thy ===== *)
theory Dispatcher
  imports Breaker Json_Body
begin

text \<open>
  The dispatcher of \<open>internal/dispatcher\<close>: the attempt loop with failover and accounting
  (\<open>dispatcher.go\<close>), the fusion and pipeline plans (\<open>structural.go\<close>) and the accounting stream
  (\<open>stream.go\<close>).  The ports are the fields of a record; each acts on a world \<open>'w\<close> that holds
  everything outside the dispatcher: the breaker, the recorder, the upstreams, the clock and the
  request's context, whose error \<open>dp_Err\<close> reads.  A credential \<open>'c\<close> and a live stream \<open>'s\<close> are
  opaque.  The panels of a fusion run one after the other in panel order; their interleaving is
  not modelled.
\<close>

section \<open>Ports\<close>

record wire_request =
  wq_body :: body
  wq_model :: model_id
  wq_stream :: bool
  wq_headers :: "(string \<times> string list) list"

record wire_response =
  wr_status :: int
  wr_headers :: "(string \<times> string list) list"
  wr_body :: body

record ('w, 'c, 's) executor =
  xe_Do :: "wire_request \<Rightarrow> 'c \<Rightarrow> 'w \<Rightarrow> (go_error + wire_response) \<times> 'w"
  xe_DoStream :: "wire_request \<Rightarrow> 'c \<Rightarrow> 'w \<Rightarrow> (go_error + 's) \<times> 'w"

record ('w, 'c, 's) dispatcher =
  dp_NewRequestID :: "'w \<Rightarrow> request_id \<times> 'w"
  dp_Build :: "candidate \<Rightarrow> 'c \<Rightarrow> 'w \<Rightarrow> (go_error + ('w, 'c, 's) executor) \<times> 'w"
  dp_Get :: "credential_id \<Rightarrow> 'w \<Rightarrow> (go_error + 'c) \<times> 'w"
  dp_Credentials :: "provider_id \<Rightarrow> 'w \<Rightarrow> (go_error + credential_id list) \<times> 'w"
  dp_Allow :: "candidate \<Rightarrow> 'w \<Rightarrow> bool \<times> 'w"
  dp_Record :: "candidate \<Rightarrow> breaker_outcome \<Rightarrow> 'w \<Rightarrow> 'w"
  dp_quota :: "(route_plan \<Rightarrow> 'w \<Rightarrow> route_plan \<times> skip list \<times> 'w) option"
  dp_recorder :: "(attempt_outcome \<Rightarrow> usage \<Rightarrow> 'w \<Rightarrow> 'w) option"
  dp_Wait :: "duration \<Rightarrow> 'w \<Rightarrow> go_error option \<times> 'w"
  dp_Err :: "'w \<Rightarrow> go_error option"
  dp_max_cooldown :: duration

definition DefaultMaxCooldown :: duration where "DefaultMaxCooldown = 30000000000"

text \<open>The defaults \<open>New\<close> fills in for the cooldown cap.\<close>

definition max_cooldown_or_default :: "duration \<Rightarrow> duration" where
  "max_cooldown_or_default d = (if d \<le> 0 then DefaultMaxCooldown else d)"

section \<open>Errors\<close>

definition ctxError :: "go_error \<Rightarrow> domain_error" where
  "ctxError err = New CodeUpstreamTimeout [WithHTTPStatus 504, WithScope ScopeProvider, WithCause err]"

definition noAttemptsError :: "bool \<Rightarrow> bool \<Rightarrow> int \<Rightarrow> domain_error" where
  "noAttemptsError sawBreaker sawQuota candidates =
     (if sawBreaker then New CodeDispatchNoAttempts [WithHTTPStatus 503, Retry, WithScope ScopeProvider,
        WithParams [(''candidates'', itoa candidates)]]
      else if sawQuota then New CodeDispatchNoAttempts [WithHTTPStatus 503, Retry, WithScope ScopeCredential,
        WithParams [(''candidates'', itoa candidates)]]
      else New CodeDispatchNoAttempts [WithHTTPStatus 503, WithScope ScopeRequest,
        WithParams [(''candidates'', itoa candidates)]])"

definition maxRoundsError :: "int \<Rightarrow> domain_error" where
  "maxRoundsError n = New CodeDispatchMaxRounds [WithHTTPStatus 502, Retry, WithScope ScopeProvider,
     WithParams [(''max_rounds'', itoa n)]]"

definition exhaustedError :: "int \<Rightarrow> domain_error \<Rightarrow> domain_error" where
  "exhaustedError attempts le =
     (let e = New CodeDispatchExhausted [WithHTTPStatus 502,
        WithParams [(''attempts'', itoa attempts), (''last_code'', de_code le)],
        WithScope (de_scope le), WithCause (Dom le)]
      in if de_retryable le then Retry e else e)"

definition fusionAllFailed :: "int \<Rightarrow> domain_error" where
  "fusionAllFailed panels = New CodeRouteFusionAllFailed [WithHTTPStatus 502, WithScope ScopeProvider,
     WithParams [(''panels'', itoa panels)]]"

definition maxFanout :: int where "maxFanout = 8"

definition dispatchFanoutExceeded :: "int \<Rightarrow> domain_error" where
  "dispatchFanoutExceeded n = New CodeRouteFanoutExceeded [WithHTTPStatus 400, WithScope ScopeRequest,
     WithParams [(''name'', ''''), (''max'', itoa maxFanout)]]"

definition attemptOutcome :: "domain_error \<Rightarrow> attempt_outcome" where
  "attemptOutcome de = (case de_scope de of
      ScopeRequest \<Rightarrow> OutcomeClientError
    | ScopeCredential \<Rightarrow> OutcomeCredentialError
    | ScopeProvider \<Rightarrow> OutcomeProviderError)"

definition breakerFrom :: "domain_error \<Rightarrow> breaker_outcome" where
  "breakerFrom de = \<lparr>bo_scope = de_scope de, bo_retryable = de_retryable de,
     bo_retry_after = de_retry_after de, bo_terminal_reason = '''', bo_success = False\<rparr>"

section \<open>Accounting\<close>

definition failed_usage :: "candidate \<Rightarrow> usage" where
  "failed_usage c = \<lparr>u_attempt_key = '''', u_provider = cand_provider c, u_credential = cand_credential c,
     u_model = cand_model c, u_tokens = 0, u_input_tokens = 0, u_output_tokens = 0, u_requests = 1,
     u_cost_micros = 0, u_aborted = False\<rparr>"

definition record_failure :: "('w, 'c, 's) dispatcher \<Rightarrow> candidate \<Rightarrow> attempt_outcome \<Rightarrow> breaker_outcome \<Rightarrow> 'w \<Rightarrow> 'w" where
  "record_failure d c outcome bo w =
     (let w1 = dp_Record d c bo w
      in case dp_recorder d of None \<Rightarrow> w1 | Some rec \<Rightarrow> rec outcome (failed_usage c) w1)"

text \<open>The usage block of a canonical body: prompt, completion, total, input and output tokens.\<close>

record usage_block =
  ub_prompt :: int
  ub_completion :: int
  ub_total :: int
  ub_input :: int
  ub_output :: int

definition decode_usage :: "body \<Rightarrow> usage_block option" where
  "decode_usage b = (case body_struct b of None \<Rightarrow> None | Some ms \<Rightarrow>
     (case obj_field ''usage'' ms of None \<Rightarrow> None | Some us \<Rightarrow>
     (case int_field ''prompt_tokens'' us of None \<Rightarrow> None | Some p \<Rightarrow>
     (case int_field ''completion_tokens'' us of None \<Rightarrow> None | Some c \<Rightarrow>
     (case int_field ''total_tokens'' us of None \<Rightarrow> None | Some t \<Rightarrow>
     (case int_field ''input_tokens'' us of None \<Rightarrow> None | Some i \<Rightarrow>
     (case int_field ''output_tokens'' us of None \<Rightarrow> None | Some o' \<Rightarrow>
       Some \<lparr>ub_prompt = p, ub_completion = c, ub_total = t, ub_input = i, ub_output = o'\<rparr>)))))))"

definition usageFromBody :: "candidate \<Rightarrow> string \<Rightarrow> body \<Rightarrow> usage" where
  "usageFromBody c key b =
     (let u = (failed_usage c)\<lparr>u_attempt_key := key\<rparr>
      in case decode_usage b of None \<Rightarrow> u
       | Some p \<Rightarrow>
           (let i = (if ub_prompt p = 0 \<and> ub_input p > 0 then ub_input p else ub_prompt p);
                o' = (if ub_completion p = 0 \<and> ub_output p > 0 then ub_output p else ub_completion p)
            in u\<lparr>u_input_tokens := i, u_output_tokens := o',
                 u_tokens := (if ub_total p > 0 then ub_total p else wrap64 (i + o'))\<rparr>))"

definition account :: "('w, 'c, 's) dispatcher \<Rightarrow> candidate \<Rightarrow> string \<Rightarrow> body \<Rightarrow> 'w \<Rightarrow> 'w" where
  "account d c key b w = (case dp_recorder d of None \<Rightarrow> w
     | Some rec \<Rightarrow> rec OutcomeSuccess (usageFromBody c key b) w)"

section \<open>The accounting stream\<close>

record wrapping =
  wp_candidate :: candidate
  wp_key :: string
  wp_done :: bool
  wp_tokens :: int
  wp_input :: int
  wp_output :: int

datatype 's stream_value = Inner 's | Wrapped 's wrapping | SingleChunk body

datatype recv = RChunk body | REOF | RErr go_error

definition absorb :: "body \<Rightarrow> wrapping \<Rightarrow> wrapping" where
  "absorb b s =
     (if b = nil_body \<or> \<not> body_mentions ''usage'' b then s
      else (case decode_usage b of None \<Rightarrow> s
       | Some p \<Rightarrow>
           (let i = (if ub_prompt p = 0 then ub_input p else ub_prompt p);
                o' = (if ub_completion p = 0 then ub_output p else ub_completion p);
                s1 = (if ub_total p > 0 then s\<lparr>wp_tokens := ub_total p\<rparr>
                      else if wrap64 (i + o') > 0 then s\<lparr>wp_tokens := wrap64 (i + o')\<rparr> else s)
            in s1\<lparr>wp_input := i, wp_output := o'\<rparr>)))"

definition stream_usage :: "bool \<Rightarrow> wrapping \<Rightarrow> usage" where
  "stream_usage clean s = \<lparr>u_attempt_key = wp_key s, u_provider = cand_provider (wp_candidate s),
     u_credential = cand_credential (wp_candidate s), u_model = cand_model (wp_candidate s),
     u_tokens = wp_tokens s, u_input_tokens = wp_input s, u_output_tokens = wp_output s, u_requests = 1,
     u_cost_micros = 0, u_aborted = \<not> clean\<rparr>"

definition finalise :: "(attempt_outcome \<Rightarrow> usage \<Rightarrow> 'w \<Rightarrow> 'w) \<Rightarrow> bool \<Rightarrow> wrapping \<Rightarrow> 'w \<Rightarrow> wrapping \<times> 'w" where
  "finalise rec clean s w =
     (if wp_done s then (s, w)
      else (s\<lparr>wp_done := True\<rparr>,
            rec (if clean then OutcomeSuccess else OutcomeTransient) (stream_usage clean s) w))"

text \<open>\<open>Recv\<close> and \<open>Close\<close> of the wrapper, given what the inner stream answered.\<close>

definition wrap_Recv :: "(attempt_outcome \<Rightarrow> usage \<Rightarrow> 'w \<Rightarrow> 'w) \<Rightarrow> recv \<Rightarrow> wrapping \<Rightarrow> 'w \<Rightarrow> wrapping \<times> 'w" where
  "wrap_Recv rec r s w = (case r of
      RChunk b \<Rightarrow> (absorb b s, w)
    | REOF \<Rightarrow> finalise rec True s w
    | RErr e \<Rightarrow> finalise rec False s w)"

definition wrap_Close :: "(attempt_outcome \<Rightarrow> usage \<Rightarrow> 'w \<Rightarrow> 'w) \<Rightarrow> wrapping \<Rightarrow> 'w \<Rightarrow> wrapping \<times> 'w" where
  "wrap_Close rec s w = finalise rec False s w"

definition new_wrapping :: "candidate \<Rightarrow> string \<Rightarrow> wrapping" where
  "new_wrapping c key = \<lparr>wp_candidate = c, wp_key = key, wp_done = False, wp_tokens = 0, wp_input = 0, wp_output = 0\<rparr>"

definition wrapStream :: "('w, 'c, 's) dispatcher \<Rightarrow> 's \<Rightarrow> candidate \<Rightarrow> string \<Rightarrow> 's stream_value" where
  "wrapStream d inner c key = (case dp_recorder d of None \<Rightarrow> Inner inner
     | Some rec \<Rightarrow> Wrapped inner (new_wrapping c key))"

section \<open>Preflight of one candidate\<close>

datatype skip_reason = SkipBreaker | SkipQuota | SkipCredential

definition single_plan :: "candidate \<Rightarrow> route_plan" where
  "single_plan c = linear_plan [c] 1"

definition allow :: "('w, 'c, 's) dispatcher \<Rightarrow> candidate \<Rightarrow> 'w \<Rightarrow> bool \<times> 'w" where
  "allow d c w = (case dp_Allow d c w of (ok, w1) \<Rightarrow>
     if \<not> ok then (False, w1)
     else (case dp_quota d of
        None \<Rightarrow> (True, w1)
      | Some q \<Rightarrow> (case q (single_plan c) w1 of (p, skips, w2) \<Rightarrow> (length (plan_attempts p) = 1, w2))))"

definition denyReason :: "('w, 'c, 's) dispatcher \<Rightarrow> candidate \<Rightarrow> 'w \<Rightarrow> skip_reason \<times> 'w" where
  "denyReason d c w = (case dp_Allow d c w of (ok, w1) \<Rightarrow> (if \<not> ok then SkipBreaker else SkipQuota, w1))"

fun resolve_ids :: "('w, 'c, 's) dispatcher \<Rightarrow> candidate \<Rightarrow> credential_id list \<Rightarrow> 'w \<Rightarrow> ('c \<times> candidate) option \<times> 'w" where
  "resolve_ids d c [] w = (None, w)"
| "resolve_ids d c (i # is) w =
     (let cc = c\<lparr>cand_credential := i\<rparr>
      in case allow d cc w of (ok, w1) \<Rightarrow>
        if \<not> ok then resolve_ids d c is w1
        else (case dp_Get d i w1 of
            (Inl e, w2) \<Rightarrow> resolve_ids d c is w2
          | (Inr cred, w2) \<Rightarrow> (Some (cred, cc), w2)))"

definition resolve :: "('w, 'c, 's) dispatcher \<Rightarrow> candidate \<Rightarrow> 'w \<Rightarrow> (skip_reason + 'c \<times> candidate) \<times> 'w" where
  "resolve d c w =
     (if cand_credential c \<noteq> '''' then
        (case allow d c w of (ok, w1) \<Rightarrow>
           if \<not> ok then (case denyReason d c w1 of (r, w2) \<Rightarrow> (Inl r, w2))
           else (case dp_Get d (cand_credential c) w1 of
               (Inl e, w2) \<Rightarrow> (Inl SkipCredential, w2)
             | (Inr cred, w2) \<Rightarrow> (Inr (cred, c), w2)))
      else (case dp_Credentials d (cand_provider c) w of
          (Inl e, w1) \<Rightarrow> (Inl SkipCredential, w1)
        | (Inr ids, w1) \<Rightarrow> (case resolve_ids d c ids w1 of
              (Some r, w2) \<Rightarrow> (Inr r, w2)
            | (None, w2) \<Rightarrow> (Inl (if ids = [] then SkipCredential else SkipBreaker), w2))))"

section \<open>The attempt loop\<close>

record 's outcome =
  oc_candidate :: candidate
  oc_wire :: wire_response
  oc_stream :: "'s stream_value option"
  oc_attempts :: int

definition empty_wire :: wire_response where
  "empty_wire = \<lparr>wr_status = 0, wr_headers = [], wr_body = nil_body\<rparr>"

definition rewriteModel :: "wire_request \<Rightarrow> model_id \<Rightarrow> wire_request" where
  "rewriteModel req model =
     (if model = '''' \<or> wq_model req = model then req
      else (case body_map (wq_body req) of
          None \<Rightarrow> req\<lparr>wq_model := model\<rparr>
        | Some obj \<Rightarrow> req\<lparr>wq_body := marshal_map (AList.update ''model'' (JStr model) obj), wq_model := model\<rparr>))"

definition attempt_key :: "request_id \<Rightarrow> candidate \<Rightarrow> int \<Rightarrow> string" where
  "attempt_key rid c n = rid @ '':'' @ cand_provider c @ ''/'' @ cand_model c @ '':'' @ cand_credential c
     @ '':'' @ itoa n"

definition cooldown :: "('w, 'c, 's) dispatcher \<Rightarrow> duration \<Rightarrow> 'w \<Rightarrow> domain_error option \<times> 'w" where
  "cooldown d d2 w =
     (if d2 \<le> 0 then (None, w)
      else (case dp_Wait d (if d2 > dp_max_cooldown d then dp_max_cooldown d else d2) w of
          (Some err, w1) \<Rightarrow> (Some (ctxError err), w1)
        | (None, w1) \<Rightarrow> (None, w1)))"

text \<open>What happens after a failed call: record it; a request-scoped error and a dead context end the
  loop, otherwise the cooldown is waited out.\<close>

definition after_failure :: "('w, 'c, 's) dispatcher \<Rightarrow> candidate \<Rightarrow> domain_error \<Rightarrow> 'w \<Rightarrow> domain_error option \<times> 'w" where
  "after_failure d c de w =
     (let w1 = record_failure d c (attemptOutcome de) (breakerFrom de) w
      in if de_scope de = ScopeRequest then (Some de, w1)
         else (case dp_Err d w1 of
             Some err \<Rightarrow> (Some (ctxError err), w1)
           | None \<Rightarrow> cooldown d (de_retry_after de) w1))"

text \<open>One call of the executor: an outcome, an error that ends the loop, or a failure to go on from.\<close>

definition attempt :: "('w, 'c, 's) dispatcher \<Rightarrow> wire_request \<Rightarrow> bool \<Rightarrow> ('w, 'c, 's) executor \<Rightarrow> 'c
    \<Rightarrow> candidate \<Rightarrow> string \<Rightarrow> int \<Rightarrow> 'w \<Rightarrow> ((domain_error + 's outcome) + domain_error) \<times> 'w" where
  "attempt d req stream ex cred cc key n w =
     (let wireReq = rewriteModel req (cand_model cc);
          fail = (\<lambda>err w1. let de = as_domain err in
             (case after_failure d cc de w1 of
                (Some e, w2) \<Rightarrow> (Inl (Inl e), w2)
              | (None, w2) \<Rightarrow> (Inr de, w2)))
      in if stream then
           (case xe_DoStream ex wireReq cred w of
              (Inl err, w1) \<Rightarrow> fail err w1
            | (Inr s, w1) \<Rightarrow> (Inl (Inr \<lparr>oc_candidate = cc, oc_wire = empty_wire,
                 oc_stream = Some (wrapStream d s cc key), oc_attempts = n\<rparr>), w1))
         else
           (case xe_Do ex wireReq cred w of
              (Inl err, w1) \<Rightarrow> fail err w1
            | (Inr resp, w1) \<Rightarrow> (Inl (Inr \<lparr>oc_candidate = cc, oc_wire = resp, oc_stream = None, oc_attempts = n\<rparr>),
                 account d cc key (wr_body resp) (dp_Record d cc success_outcome w1))))"

record loop_state =
  ls_attempts :: int
  ls_last :: "domain_error option"
  ls_breaker :: bool
  ls_quota :: bool

definition loop_start :: loop_state where
  "loop_start = \<lparr>ls_attempts = 0, ls_last = None, ls_breaker = False, ls_quota = False\<rparr>"

definition note_skip :: "skip_reason \<Rightarrow> loop_state \<Rightarrow> loop_state" where
  "note_skip r st = (case r of
      SkipBreaker \<Rightarrow> st\<lparr>ls_breaker := True\<rparr>
    | SkipQuota \<Rightarrow> st\<lparr>ls_quota := True\<rparr>
    | SkipCredential \<Rightarrow> st)"

text \<open>No winner.  After an attempt there is a last error (\<open>walk_no_winner\<close>), so that the code's
  dereference is safe and the last branch here is not taken.\<close>

definition no_winner :: "int \<Rightarrow> int \<Rightarrow> bool \<Rightarrow> loop_state \<Rightarrow> domain_error" where
  "no_winner candidates maxRounds hit st =
     (if ls_attempts st = 0 then noAttemptsError (ls_breaker st) (ls_quota st) candidates
      else if hit then maxRoundsError maxRounds
      else (case ls_last st of Some e \<Rightarrow> exhaustedError (ls_attempts st) e
            | None \<Rightarrow> noAttemptsError (ls_breaker st) (ls_quota st) candidates))"

fun attempt_loop :: "('w, 'c, 's) dispatcher \<Rightarrow> wire_request \<Rightarrow> request_id \<Rightarrow> int \<Rightarrow> int \<Rightarrow> bool
    \<Rightarrow> candidate list \<Rightarrow> loop_state \<Rightarrow> 'w \<Rightarrow> (domain_error + 's outcome) \<times> 'w" where
  "attempt_loop d req rid cnt maxRounds stream [] st w = (Inl (no_winner cnt maxRounds False st), w)"
| "attempt_loop d req rid cnt maxRounds stream (c # cs) st w =
     (if ls_attempts st \<ge> maxRounds then (Inl (no_winner cnt maxRounds True st), w)
      else (case resolve d c w of
          (Inl reason, w1) \<Rightarrow> attempt_loop d req rid cnt maxRounds stream cs (note_skip reason st) w1
        | (Inr (cred, cc), w1) \<Rightarrow>
            (case dp_Err d w1 of
               Some err \<Rightarrow> (Inl (ctxError err), w1)
             | None \<Rightarrow> (case dp_Build d cc cred w1 of
                   (Inl err, w2) \<Rightarrow> (let de = as_domain err in
                      attempt_loop d req rid cnt maxRounds stream cs (st\<lparr>ls_last := Some de\<rparr>)
                        (record_failure d cc (attemptOutcome de) (breakerFrom de) w2))
                 | (Inr ex, w2) \<Rightarrow> (let n = ls_attempts st + 1 in
                     (case attempt d req stream ex cred cc (attempt_key rid cc n) n w2 of
                        (Inl res, w3) \<Rightarrow> (res, w3)
                      | (Inr de, w3) \<Rightarrow> attempt_loop d req rid cnt maxRounds stream cs
                          (st\<lparr>ls_attempts := n, ls_last := Some de\<rparr>) w3))))))"

definition run_linear :: "('w, 'c, 's) dispatcher \<Rightarrow> wire_request \<Rightarrow> route_plan \<Rightarrow> bool \<Rightarrow> 'w
    \<Rightarrow> (domain_error + 's outcome) \<times> 'w" where
  "run_linear d req plan stream w =
     (case dp_NewRequestID d w of (rid, w1) \<Rightarrow>
        (let n = int (length (plan_attempts plan));
             maxRounds = (if plan_max_rounds plan \<le> 0 then n else plan_max_rounds plan)
         in attempt_loop d req rid n maxRounds stream (plan_attempts plan) loop_start w1))"

section \<open>Structural plans\<close>

definition extractContent :: "body \<Rightarrow> string" where
  "extractContent b = (case body_struct b of None \<Rightarrow> '''' | Some ms \<Rightarrow>
     (case member ''choices'' ms of
        Some (JArr (x # xs)) \<Rightarrow>
          (if list_all (\<lambda>y. case as_struct y of None \<Rightarrow> False | Some ys \<Rightarrow> obj_field ''message'' ys \<noteq> None) (x # xs)
           then (case as_struct x of None \<Rightarrow> '''' | Some ys \<Rightarrow>
             (case obj_field ''message'' ys of None \<Rightarrow> '''' | Some msg \<Rightarrow>
               (case member ''content'' msg of Some (JStr s) \<Rightarrow> s | _ \<Rightarrow> '''')))
           else '''')
      | _ \<Rightarrow> ''''))"

definition user_message :: "string \<Rightarrow> json" where
  "user_message content = JObj [(''role'', JStr ''user''), (''content'', JStr content)]"

text \<open>Append a user message to a request body that is a JSON object.\<close>

definition append_message :: "wire_request \<Rightarrow> string \<Rightarrow> wire_request" where
  "append_message base content = (case body_map (wq_body base) of
      None \<Rightarrow> base
    | Some obj \<Rightarrow> base\<lparr>wq_body := marshal_map (AList.update ''messages''
        (JArr (json_array (map_of obj ''messages'') @ [user_message content])) obj)\<rparr>)"

definition chainRequest :: "wire_request \<Rightarrow> body \<Rightarrow> wire_request" where
  "chainRequest base responseBody =
     (let content = extractContent responseBody in
      if content = '''' then base else append_message base content)"

record panel_result =
  pr_label :: string
  pr_content :: string
  pr_ok :: bool
  pr_candidate :: candidate
  pr_body :: body

definition newline :: string where "newline = [CHR 10]"

fun panelsDigest :: "panel_result list \<Rightarrow> string" where
  "panelsDigest [] = ''''"
| "panelsDigest (p # ps) = (if \<not> pr_ok p then '''' else
     ''['' @ pr_label p @ '']'' @ newline @ pr_content p @ newline @ newline) @ panelsDigest ps"

definition judgeRequest :: "wire_request \<Rightarrow> panel_result list \<Rightarrow> wire_request" where
  "judgeRequest base panels = append_message base (panelsDigest panels)"

definition panel_result_of :: "string \<Rightarrow> domain_error + 's outcome \<Rightarrow> panel_result" where
  "panel_result_of label res = (case res of
      Inl e \<Rightarrow> \<lparr>pr_label = label, pr_content = '''', pr_ok = False, pr_candidate = mk_candidate '''' '''', pr_body = nil_body\<rparr>
    | Inr r \<Rightarrow> \<lparr>pr_label = label, pr_content = extractContent (wr_body (oc_wire r)), pr_ok = True,
        pr_candidate = oc_candidate r, pr_body = wr_body (oc_wire r)\<rparr>)"

definition firstSuccessfulPanel :: "panel_result list \<Rightarrow> bool \<Rightarrow> 's outcome" where
  "firstSuccessfulPanel outputs stream = (case find pr_ok outputs of
      Some o' \<Rightarrow> (if stream then
          \<lparr>oc_candidate = pr_candidate o', oc_wire = empty_wire, oc_stream = Some (SingleChunk (pr_body o')),
            oc_attempts = int (length outputs)\<rparr>
        else \<lparr>oc_candidate = pr_candidate o', oc_wire = \<lparr>wr_status = 200, wr_headers = [], wr_body = pr_body o'\<rparr>,
            oc_stream = None, oc_attempts = int (length outputs)\<rparr>)
    | None \<Rightarrow> \<lparr>oc_candidate = mk_candidate '''' '''', oc_wire = empty_wire, oc_stream = None, oc_attempts = 0\<rparr>)"

definition add_attempts :: "int \<Rightarrow> domain_error + 's outcome \<Rightarrow> domain_error + 's outcome" where
  "add_attempts n res = map_sum id (\<lambda>r. r\<lparr>oc_attempts := oc_attempts r + n\<rparr>) res"

text \<open>\<open>run\<close> with the fusion and the pipeline it delegates to: the panels in order, the judge, and the
  stages, the last of which is the only one that streams.\<close>

function (sequential) run :: "('w, 'c, 's) dispatcher \<Rightarrow> wire_request \<Rightarrow> route_plan \<Rightarrow> bool \<Rightarrow> 'w
    \<Rightarrow> (domain_error + 's outcome) \<times> 'w"
  and runPanels :: "('w, 'c, 's) dispatcher \<Rightarrow> wire_request \<Rightarrow> (string \<times> route_plan) list \<Rightarrow> 'w
    \<Rightarrow> panel_result list \<times> 'w"
  and runPipeline :: "('w, 'c, 's) dispatcher \<Rightarrow> wire_request \<Rightarrow> route_plan list \<Rightarrow> int \<Rightarrow> bool \<Rightarrow> 'w
    \<Rightarrow> (domain_error + 's outcome) \<times> 'w" where
  "run d req (RoutePlan combo attempts rounds strategy panels judge chain) stream w =
     (if panels \<noteq> [] then
        (if int (length panels) > maxFanout then (Inl (dispatchFanoutExceeded (int (length panels))), w)
         else (case runPanels d req panels w of (outputs, w1) \<Rightarrow>
           (let successes = int (length (filter pr_ok outputs)) in
            if successes = 0 then (Inl (fusionAllFailed (int (length panels))), w1)
            else (case judge of
                None \<Rightarrow> (Inr (firstSuccessfulPanel outputs stream), w1)
              | Some j \<Rightarrow> (case run d (judgeRequest req outputs) j stream w1 of
                    (res, w2) \<Rightarrow> (add_attempts successes res, w2))))))
      else if chain \<noteq> [] then runPipeline d req chain 0 stream w
      else run_linear d req (RoutePlan combo attempts rounds strategy panels judge chain) stream w)"
| "runPanels d req [] w = ([], w)"
| "runPanels d req ((label, plan) # ps) w =
     (case run d req plan False w of (res, w1) \<Rightarrow>
      (case runPanels d req ps w1 of (rest, w2) \<Rightarrow> (panel_result_of label res # rest, w2)))"
| "runPipeline d cur [] acc stream w = (Inl (noAttemptsError False False 0), w)"
| "runPipeline d cur [p] acc stream w =
     (case run d cur p stream w of (res, w1) \<Rightarrow> (add_attempts acc res, w1))"
| "runPipeline d cur (p # q # ps) acc stream w =
     (case run d cur p False w of
        (Inl e, w1) \<Rightarrow> (Inl e, w1)
      | (Inr res, w1) \<Rightarrow> runPipeline d
          (if wr_body (oc_wire res) \<noteq> nil_body then chainRequest cur (wr_body (oc_wire res)) else cur)
          (q # ps) (acc + oc_attempts res) stream w1)"
  by pat_completeness auto
termination
  by (relation "measure (\<lambda>x. case x of
       Inl (d, req, p, stream, w) \<Rightarrow> size p
     | Inr (Inl (d, req, ps, w)) \<Rightarrow> size_list (size_prod (\<lambda>_. 0) size) ps
     | Inr (Inr (d, cur, ps, acc, stream, w)) \<Rightarrow> size_list size ps)") auto

definition Do :: "('w, 'c, 's) dispatcher \<Rightarrow> wire_request \<Rightarrow> route_plan \<Rightarrow> 'w
    \<Rightarrow> (domain_error + candidate \<times> wire_response \<times> int) \<times> 'w" where
  "Do d req plan w = (case run d req plan False w of
     (res, w1) \<Rightarrow> (map_sum id (\<lambda>r. (oc_candidate r, oc_wire r, oc_attempts r)) res, w1))"

definition DoStream :: "('w, 'c, 's) dispatcher \<Rightarrow> wire_request \<Rightarrow> route_plan \<Rightarrow> 'w
    \<Rightarrow> (domain_error + 's stream_value option) \<times> 'w" where
  "DoStream d req plan w = (case run d req plan True w of (res, w1) \<Rightarrow> (map_sum id oc_stream res, w1))"

text \<open>The one-chunk stream: its receive and its close.\<close>

record single_chunk =
  sc_body :: body
  sc_emitted :: bool
  sc_closed :: bool

definition single_Recv :: "single_chunk \<Rightarrow> recv \<times> single_chunk" where
  "single_Recv s = (if sc_emitted s then (REOF, s) else (RChunk (sc_body s), s\<lparr>sc_emitted := True\<rparr>))"

definition single_Close :: "single_chunk \<Rightarrow> single_chunk" where
  "single_Close s = s\<lparr>sc_closed := True\<rparr>"

end
