(* ===== verification/Dispatcher_Laws.thy ===== *)
theory Dispatcher_Laws
  imports Dispatcher
begin

text \<open>
  What the dispatcher promises over any ports.  Two contracts of the ports are locales:
  \<open>guarded_dispatcher\<close>, an invariant of the world that holds as long as only admitted candidates
  are called, and \<open>counting_dispatcher\<close>, a counter only the executors advance.  The error of a failed
  plan is decided by the walk that was made down its candidates, a relation of its own.
\<close>

section \<open>Induction over a plan\<close>

lemma plan_induct [case_names RoutePlan]:
  assumes "\<And>combo attempts rounds strategy panels judge chain.
    (\<And>l p. (l, p) \<in> set panels \<Longrightarrow> P p) \<Longrightarrow> (\<And>j. judge = Some j \<Longrightarrow> P j) \<Longrightarrow> (\<And>p. p \<in> set chain \<Longrightarrow> P p) \<Longrightarrow>
    P (RoutePlan combo attempts rounds strategy panels judge chain)"
  shows "P plan"
proof (induction plan)
  case (RoutePlan combo attempts rounds strategy panels judge chain)
  show ?case
  proof (rule assms)
    fix l p assume "(l, p) \<in> set panels"
    then show "P p" using RoutePlan.IH(1) [of "(l, p)" p] by simp
  next
    fix j assume "judge = Some j"
    then show "P j" using RoutePlan.IH(2) [of j] by simp
  next
    fix p assume "p \<in> set chain"
    then show "P p" by (rule RoutePlan.IH(3))
  qed
qed

text \<open>A property of all candidates of a plan.\<close>

fun plan_all :: "(candidate \<Rightarrow> bool) \<Rightarrow> route_plan \<Rightarrow> bool" where
  "plan_all Q (RoutePlan combo attempts rounds strategy panels judge chain) \<longleftrightarrow>
     list_all Q attempts \<and> list_all (\<lambda>x. plan_all Q (snd x)) panels \<and>
     (case judge of None \<Rightarrow> True | Some j \<Rightarrow> plan_all Q j) \<and> list_all (plan_all Q) chain"

section \<open>Induction over the attempt loop\<close>

text \<open>The ways one round of the loop can go; \<open>P\<close> relates the candidates left, the loop's state, the
  world and the loop's result.\<close>

lemma attempt_loop_induct [case_names Nil Full Skip Dead Unbuilt Done Failed]:
  assumes "\<And>st w. P [] st w (Inl (no_winner cnt mx False st), w)"
    and "\<And>c cs st w. ls_attempts st \<ge> mx \<Longrightarrow> P (c # cs) st w (Inl (no_winner cnt mx True st), w)"
    and "\<And>c cs st w reason w1 res. ls_attempts st < mx \<Longrightarrow> resolve d c w = (Inl reason, w1) \<Longrightarrow>
      P cs (note_skip reason st) w1 res \<Longrightarrow> P (c # cs) st w res"
    and "\<And>c cs st w cred cc w1 err. ls_attempts st < mx \<Longrightarrow> resolve d c w = (Inr (cred, cc), w1) \<Longrightarrow>
      dp_Err d w1 = Some err \<Longrightarrow> P (c # cs) st w (Inl (ctxError err), w1)"
    and "\<And>c cs st w cred cc w1 err w2 res. ls_attempts st < mx \<Longrightarrow> resolve d c w = (Inr (cred, cc), w1) \<Longrightarrow>
      dp_Err d w1 = None \<Longrightarrow> dp_Build d cc cred w1 = (Inl err, w2) \<Longrightarrow>
      P cs (st\<lparr>ls_last := Some (as_domain err)\<rparr>)
        (record_failure d cc (attemptOutcome (as_domain err)) (breakerFrom (as_domain err)) w2) res \<Longrightarrow>
      P (c # cs) st w res"
    and "\<And>c cs st w cred cc w1 ex w2 n res w3. ls_attempts st < mx \<Longrightarrow> resolve d c w = (Inr (cred, cc), w1) \<Longrightarrow>
      dp_Err d w1 = None \<Longrightarrow> dp_Build d cc cred w1 = (Inr ex, w2) \<Longrightarrow> n = ls_attempts st + 1 \<Longrightarrow>
      attempt d req stream ex cred cc (attempt_key rid cc n) n w2 = (Inl res, w3) \<Longrightarrow> P (c # cs) st w (res, w3)"
    and "\<And>c cs st w cred cc w1 ex w2 n de w3 res. ls_attempts st < mx \<Longrightarrow> resolve d c w = (Inr (cred, cc), w1) \<Longrightarrow>
      dp_Err d w1 = None \<Longrightarrow> dp_Build d cc cred w1 = (Inr ex, w2) \<Longrightarrow> n = ls_attempts st + 1 \<Longrightarrow>
      attempt d req stream ex cred cc (attempt_key rid cc n) n w2 = (Inr de, w3) \<Longrightarrow>
      P cs (st\<lparr>ls_attempts := n, ls_last := Some de\<rparr>) w3 res \<Longrightarrow> P (c # cs) st w res"
  shows "P cs st w (attempt_loop d req rid cnt mx stream cs st w)"
proof (induction cs arbitrary: st w)
  case Nil
  show ?case using assms(1) by simp
next
  case (Cons c cs)
  show ?case
  proof (cases "ls_attempts st \<ge> mx")
    case True
    with assms(2) show ?thesis by simp
  next
    case room: False
    obtain x w1 where x: "resolve d c w = (x, w1)" by fastforce
    show ?thesis
    proof (cases x)
      case (Inl reason)
      with assms(3) [OF _ x [unfolded Inl] Cons.IH] room x show ?thesis by simp
    next
      case (Inr y)
      obtain cred cc where y: "y = (cred, cc)" by fastforce
      note x = x [unfolded Inr y]
      obtain b w2 where b: "dp_Build d cc cred w1 = (b, w2)" by fastforce
      let ?n = "ls_attempts st + 1"
      show ?thesis
      proof (cases "dp_Err d w1")
        case (Some err)
        with assms(4) [OF _ x Some] room x show ?thesis by simp
      next
        case None
        show ?thesis
        proof (cases b)
          case (Inl err)
          with assms(5) [OF _ x None b [unfolded Inl] Cons.IH] room x b None show ?thesis by (simp add: Let_def)
        next
          case (Inr ex)
          obtain res w3 where a: "attempt d req stream ex cred cc (attempt_key rid cc ?n) ?n w2 = (res, w3)" by fastforce
          show ?thesis
          proof (cases res)
            case (Inl res')
            with assms(6) [OF _ x None b [unfolded Inr] refl a [unfolded Inl]] room x b Inr None a show ?thesis
              by (simp add: Let_def)
          next
            case (Inr de)
            with assms(7) [OF _ x None b [unfolded \<open>b = Inr ex\<close>] refl a [unfolded Inr] Cons.IH] room x b \<open>b = Inr ex\<close> None a
            show ?thesis by (simp add: Let_def)
          qed
        qed
      qed
    qed
  qed
qed

lemma note_skip_frame [simp]:
  "ls_attempts (note_skip r st) = ls_attempts st" "ls_last (note_skip r st) = ls_last st"
  by (simp_all add: note_skip_def split: skip_reason.splits)

section \<open>An invariant guarded by the preflight\<close>

text \<open>\<open>Q\<close> is what is known of the candidates of the plan.\<close>

locale guarded_dispatcher =
  fixes d :: "('w, 'c, 's) dispatcher" and I :: "'w \<Rightarrow> bool" and ok Q :: "candidate \<Rightarrow> bool"
  assumes Q_credential: "Q c \<Longrightarrow> Q (c\<lparr>cand_credential := i\<rparr>)"
    and admitted_ok: "Q c \<Longrightarrow> I w \<Longrightarrow> dp_Allow d c w = (True, w') \<Longrightarrow> ok c"
    and I_Allow: "I w \<Longrightarrow> I (snd (dp_Allow d c w))"
    and I_NewRequestID: "I w \<Longrightarrow> I (snd (dp_NewRequestID d w))"
    and I_Get: "I w \<Longrightarrow> I (snd (dp_Get d i w))"
    and I_Credentials: "I w \<Longrightarrow> I (snd (dp_Credentials d p w))"
    and I_quota: "I w \<Longrightarrow> dp_quota d = Some q \<Longrightarrow> I (snd (snd (q plan w)))"
    and I_Wait: "I w \<Longrightarrow> I (snd (dp_Wait d t w))"
    and I_Build: "I w \<Longrightarrow> ok c \<Longrightarrow> I (snd (dp_Build d c cred w))"
    and I_Do: "ok c \<Longrightarrow> dp_Build d c cred w = (Inr ex, w') \<Longrightarrow> I v \<Longrightarrow> I (snd (xe_Do ex req cr v))"
    and I_DoStream: "ok c \<Longrightarrow> dp_Build d c cred w = (Inr ex, w') \<Longrightarrow> I v \<Longrightarrow> I (snd (xe_DoStream ex req cr v))"
    and I_Record: "I w \<Longrightarrow> ok c \<Longrightarrow> I (dp_Record d c bo w)"
    and I_recorder: "I w \<Longrightarrow> dp_recorder d = Some rec \<Longrightarrow> I (rec oc u w)"
begin

lemma I_allow: "Q c \<Longrightarrow> I w \<Longrightarrow> I (snd (allow d c w)) \<and> (fst (allow d c w) \<longrightarrow> ok c)"
  using I_Allow [of w c] admitted_ok [of c w] I_quota
  by (auto simp: allow_def split: prod.splits option.splits) (metis snd_conv)+

lemma I_resolve_ids:
  assumes "Q c" "I w"
  shows "I (snd (resolve_ids d c is w)) \<and> (\<forall>cred cc. fst (resolve_ids d c is w) = Some (cred, cc) \<longrightarrow> ok cc)"
  using assms(2)
proof (induction "is" arbitrary: w)
  case (Cons i "is")
  obtain b w1 where a: "allow d (c\<lparr>cand_credential := i\<rparr>) w = (b, w1)" by fastforce
  obtain g w2 where g: "dp_Get d i w1 = (g, w2)" by fastforce
  have "I w1" "b \<longrightarrow> ok (c\<lparr>cand_credential := i\<rparr>)" using I_allow [OF Q_credential [OF assms(1)] Cons.prems, of i] a by auto
  moreover have "I w2" using I_Get [OF \<open>I w1\<close>, of i] g by simp
  ultimately show ?case using Cons.IH [of w1] Cons.IH [of w2] a g
    by (auto simp: Let_def split: sum.splits)
qed simp

lemma I_denyReason: "I w \<Longrightarrow> I (snd (denyReason d c w))"
  using I_Allow [of w c] by (cases "dp_Allow d c w") (simp add: denyReason_def)

lemma I_resolve:
  assumes "Q c" "I w"
  shows "I (snd (resolve d c w)) \<and> (\<forall>cred cc. fst (resolve d c w) = Inr (cred, cc) \<longrightarrow> ok cc)"
proof (cases "cand_credential c = ''''")
  case True
  obtain r w1 where c: "dp_Credentials d (cand_provider c) w = (r, w1)" by fastforce
  then have "I w1" using I_Credentials [OF assms(2), of "cand_provider c"] by simp
  then show ?thesis using True c I_resolve_ids [OF assms(1), of w1]
    by (auto simp: resolve_def split: sum.splits option.splits prod.splits) (metis fst_conv snd_conv)+
next
  case False
  obtain b w1 where a: "allow d c w = (b, w1)" by fastforce
  obtain g w2 where g: "dp_Get d (cand_credential c) w1 = (g, w2)" by fastforce
  have "I w1" "b \<longrightarrow> ok c" using I_allow [OF assms] a by auto
  moreover have "I w2" using I_Get [OF \<open>I w1\<close>] g by (metis snd_conv)
  moreover have "I (snd (denyReason d c w1))" using I_denyReason [OF \<open>I w1\<close>] .
  ultimately show ?thesis using False a g
    by (auto simp: resolve_def split: sum.splits prod.splits)
qed

lemma I_record_failure: "I w \<Longrightarrow> ok c \<Longrightarrow> I (record_failure d c oc bo w)"
  using I_Record [of w c bo] I_recorder by (simp add: record_failure_def Let_def split: option.splits)

lemma I_cooldown: "I w \<Longrightarrow> I (snd (cooldown d t w))"
  using I_Wait [of w "if t > dp_max_cooldown d then dp_max_cooldown d else t"]
  by (auto simp: cooldown_def split: prod.splits option.splits)

lemma I_after_failure: "I w \<Longrightarrow> ok c \<Longrightarrow> I (snd (after_failure d c de w))"
  using I_record_failure [of w c "attemptOutcome de" "breakerFrom de"] I_cooldown
  by (simp add: after_failure_def Let_def split: option.splits)

lemma I_attempt:
  assumes "I v" "ok cc" "dp_Build d cc cred w = (Inr ex, w')"
  shows "I (snd (attempt d req stream ex cr cc key n v))"
proof (cases stream)
  case True
  obtain r v1 where s: "xe_DoStream ex (rewriteModel req (cand_model cc)) cr v = (r, v1)" by fastforce
  then have "I v1" using I_DoStream [OF assms(2,3,1)] by (metis snd_conv)
  then have "I (snd (after_failure d cc de v1))" for de using I_after_failure assms(2) by simp
  with True s \<open>I v1\<close> show ?thesis
    by (simp add: attempt_def Let_def split: sum.splits prod.splits option.splits) (metis snd_conv)
next
  case False
  obtain r v1 where s: "xe_Do ex (rewriteModel req (cand_model cc)) cr v = (r, v1)" by fastforce
  then have "I v1" using I_Do [OF assms(2,3,1)] by (metis snd_conv)
  then have "I (snd (after_failure d cc de v1))" for de using I_after_failure assms(2) by simp
  moreover have "I (account d cc key b (dp_Record d cc success_outcome v1))" for b
    using I_Record [OF \<open>I v1\<close> assms(2)] I_recorder by (simp add: account_def split: option.splits)
  ultimately show ?thesis using False s
    by (simp add: attempt_def Let_def split: sum.splits prod.splits option.splits) (metis snd_conv)
qed

lemma I_attempt_loop:
  "list_all Q cs \<and> I w \<longrightarrow> I (snd (attempt_loop d req rid cnt mx stream cs st w))"
proof (induction rule: attempt_loop_induct [where P = "\<lambda>cs st w res. list_all Q cs \<and> I w \<longrightarrow> I (snd res)"])
  case (Skip c cs st w reason w1 res)
  then show ?case using I_resolve [of c w] by auto
next
  case (Dead c cs st w cred cc w1 err)
  then show ?case using I_resolve [of c w] by auto
next
  case (Unbuilt c cs st w cred cc w1 err w2 res)
  then show ?case
    using I_resolve [of c w] I_Build [of w1 cc cred] I_record_failure [of w2 cc] by auto
next
  case (Done c cs st w cred cc w1 ex w2 n res w3)
  then show ?case
    using I_resolve [of c w] I_Build [of w1 cc cred] I_attempt [of w2 cc cred w1 ex w2 req stream cred] by (simp, metis snd_conv fst_conv)
next
  case (Failed c cs st w cred cc w1 ex w2 n de w3 res)
  then show ?case
    using I_resolve [of c w] I_Build [of w1 cc cred] I_attempt [of w2 cc cred w1 ex w2 req stream cred] by (simp, metis snd_conv fst_conv)
qed simp_all

lemma I_run_linear: "list_all Q (plan_attempts plan) \<Longrightarrow> I w \<Longrightarrow> I (snd (run_linear d req plan stream w))"
  using I_NewRequestID [of w] I_attempt_loop by (cases "dp_NewRequestID d w") (simp add: run_linear_def Let_def)

lemma I_runPanels:
  assumes "\<And>p req stream w. p \<in> snd ` set ps \<Longrightarrow> I w \<Longrightarrow> I (snd (run d req p stream w))" "I w"
  shows "I (snd (runPanels d req ps w))"
  using assms
proof (induction ps arbitrary: w)
  case (Cons x ps)
  obtain l p where x: "x = (l, p)" by fastforce
  have "I (snd (run d req p False w))" using Cons.prems x by simp
  then have "I (snd (runPanels d req ps (snd (run d req p False w))))"
    using Cons.prems(1) by (intro Cons.IH) simp_all
  then show ?case by (simp add: x split_beta)
qed simp

lemma I_runPipeline:
  assumes "\<And>p req stream w. p \<in> set ps \<Longrightarrow> I w \<Longrightarrow> I (snd (run d req p stream w))" "I w"
  shows "I (snd (runPipeline d req ps acc stream w))"
  using assms
proof (induction ps arbitrary: req acc w rule: induct_list012)
  case (2 p)
  then have "I (snd (run d req p stream w))" by simp
  then show ?case by (simp add: split_beta)
next
  case (3 p q ps)
  obtain r w1 where r: "run d req p False w = (r, w1)" by fastforce
  then have "I w1" using "3.prems"(1) [of p w req False] "3.prems"(2) by simp
  then have "I (snd (runPipeline d req' (q # ps) acc' stream w1))" for req' acc'
    using "3.prems"(1) by (intro "3.IH"(2)) simp_all
  then show ?case using r \<open>I w1\<close> by (simp split: sum.splits)
qed simp

lemma I_run: "plan_all Q plan \<Longrightarrow> I w \<Longrightarrow> I (snd (run d req plan stream w))"
proof (induction plan arbitrary: req stream w rule: plan_induct)
  case (RoutePlan combo attempts rounds strategy panels judge chain)
  have panels: "I (snd (runPanels d req panels w))"
    by (rule I_runPanels) (use RoutePlan.IH(1) RoutePlan.prems in \<open>auto simp: list_all_iff\<close>)
  then have "I (snd (run d req' j stream (snd (runPanels d req panels w))))" if "judge = Some j" for j req'
    using RoutePlan.IH(2) [OF that] RoutePlan.prems that by simp
  moreover have "I (snd (runPipeline d req chain 0 stream w))"
    by (rule I_runPipeline) (use RoutePlan.IH(3) RoutePlan.prems in \<open>auto simp: list_all_iff\<close>)
  moreover have "I (snd (run_linear d req p stream w))" if "plan_attempts p = attempts" for p
    using I_run_linear [of p] RoutePlan.prems that by simp
  ultimately show ?case using panels RoutePlan.prems
    by (simp add: Let_def split_beta split: option.splits)
qed

end

section \<open>A counter only the executors advance\<close>

text \<open>The most executor calls a plan may cost.\<close>

definition rounds_of :: "route_plan \<Rightarrow> int" where
  "rounds_of plan = (if plan_max_rounds plan \<le> 0 then int (length (plan_attempts plan)) else plan_max_rounds plan)"

fun plan_calls :: "route_plan \<Rightarrow> nat" where
  "plan_calls (RoutePlan combo attempts rounds strategy panels judge chain) =
     (if panels \<noteq> [] then sum_list (map (\<lambda>x. plan_calls (snd x)) panels) +
        (case judge of None \<Rightarrow> 0 | Some j \<Rightarrow> plan_calls j)
      else if chain \<noteq> [] then sum_list (map plan_calls chain)
      else min (length attempts) (nat (rounds_of (RoutePlan combo attempts rounds strategy panels judge chain))))"

locale counting_dispatcher =
  fixes d :: "('w, 'c, 's) dispatcher" and calls :: "'w \<Rightarrow> nat"
  assumes k_Allow: "calls (snd (dp_Allow d c w)) = calls w"
    and k_NewRequestID: "calls (snd (dp_NewRequestID d w)) = calls w"
    and k_Get: "calls (snd (dp_Get d i w)) = calls w"
    and k_Credentials: "calls (snd (dp_Credentials d p w)) = calls w"
    and k_quota: "dp_quota d = Some q \<Longrightarrow> calls (snd (snd (q plan w))) = calls w"
    and k_Wait: "calls (snd (dp_Wait d t w)) = calls w"
    and k_Build: "calls (snd (dp_Build d c cred w)) = calls w"
    and k_Do: "dp_Build d c cred w = (Inr ex, w') \<Longrightarrow> calls (snd (xe_Do ex req cr v)) \<le> calls v + 1"
    and k_DoStream: "dp_Build d c cred w = (Inr ex, w') \<Longrightarrow> calls (snd (xe_DoStream ex req cr v)) \<le> calls v + 1"
    and k_Record: "calls (dp_Record d c bo w) = calls w"
    and k_recorder: "dp_recorder d = Some rec \<Longrightarrow> calls (rec oc u w) = calls w"
begin

lemma k_allow: "calls (snd (allow d c w)) = calls w"
  using k_Allow [of c w] k_quota by (simp add: allow_def split_beta split: option.splits)

lemma k_resolve_ids: "calls (snd (resolve_ids d c is w)) = calls w"
proof (induction "is" arbitrary: w)
  case (Cons i "is")
  obtain g w2 where "dp_Get d i (snd (allow d (c\<lparr>cand_credential := i\<rparr>) w)) = (g, w2)" by fastforce
  with Cons k_allow [of "c\<lparr>cand_credential := i\<rparr>" w] k_Get [of i "snd (allow d (c\<lparr>cand_credential := i\<rparr>) w)"]
  show ?case by (simp add: Let_def split_beta split: sum.splits)
qed simp

lemma k_resolve: "calls (snd (resolve d c w)) = calls w"
proof (cases "cand_credential c = ''''")
  case True
  obtain r w1 where "dp_Credentials d (cand_provider c) w = (r, w1)" by fastforce
  with True k_Credentials [of "cand_provider c" w] k_resolve_ids [of c _ w1] show ?thesis
    by (simp add: resolve_def split_beta split: sum.splits option.splits)
next
  case False
  obtain g w2 where "dp_Get d (cand_credential c) (snd (allow d c w)) = (g, w2)" by fastforce
  with False k_allow [of c w] k_Get [of "cand_credential c" "snd (allow d c w)"] k_Allow [of c "snd (allow d c w)"]
  show ?thesis by (simp add: resolve_def denyReason_def split_beta split: sum.splits)
qed

lemma k_record_failure: "calls (record_failure d c oc bo w) = calls w"
  using k_Record k_recorder by (simp add: record_failure_def Let_def split: option.splits)

lemma k_after_failure: "calls (snd (after_failure d c de w)) = calls w"
  using k_record_failure [of c "attemptOutcome de" "breakerFrom de" w] k_Wait
  by (simp add: after_failure_def cooldown_def Let_def split_beta split: option.splits)

lemma k_attempt:
  assumes "dp_Build d cc cred w = (Inr ex, w')"
  shows "calls (snd (attempt d req stream ex cr cc key n v)) \<le> calls v + 1"
proof (cases stream)
  case True
  obtain r v1 where s: "xe_DoStream ex (rewriteModel req (cand_model cc)) cr v = (r, v1)" by fastforce
  with k_DoStream [OF assms, of "rewriteModel req (cand_model cc)" cr v] True show ?thesis
    using k_after_failure [of cc _ v1]
    by (simp add: attempt_def Let_def split_beta split: sum.splits option.splits)
next
  case False
  obtain r v1 where s: "xe_Do ex (rewriteModel req (cand_model cc)) cr v = (r, v1)" by fastforce
  with k_Do [OF assms, of "rewriteModel req (cand_model cc)" cr v] False show ?thesis
    using k_after_failure [of cc _ v1] k_Record k_recorder
    by (simp add: attempt_def account_def Let_def split_beta split: sum.splits option.splits)
qed

lemma k_attempt_loop:
  "calls (snd (attempt_loop d req rid cnt mx stream cs st w)) \<le>
   calls w + min (length cs) (nat (mx - ls_attempts st))"
proof (induction rule: attempt_loop_induct [where P = "\<lambda>cs st w res.
    calls (snd res) \<le> calls w + min (length cs) (nat (mx - ls_attempts st))"])
  case (Skip c cs st w reason w1 res)
  then show ?case using k_resolve [of c w] by (simp add: min_def split: if_splits)
next
  case (Dead c cs st w cred cc w1 err)
  then show ?case using k_resolve [of c w] by simp
next
  case (Unbuilt c cs st w cred cc w1 err w2 res)
  then show ?case
    using k_resolve [of c w] k_Build [of cc cred w1] k_record_failure by (simp add: min_def split: if_splits)
next
  case (Done c cs st w cred cc w1 ex w2 n res w3)
  then show ?case
    using k_resolve [of c w] k_Build [of cc cred w1]
      k_attempt [of cc cred w1 ex w2 req stream cred "attempt_key rid cc n" n w2] by simp
next
  case (Failed c cs st w cred cc w1 ex w2 n de w3 res)
  have "nat (mx - ls_attempts st) = Suc (nat (mx - n))" using Failed(1,5) by simp
  with Failed show ?case
    using k_resolve [of c w] k_Build [of cc cred w1]
      k_attempt [of cc cred w1 ex w2 req stream cred "attempt_key rid cc n" n w2] by simp
qed simp_all

lemma k_run_linear:
  "calls (snd (run_linear d req plan stream w)) \<le> calls w + min (length (plan_attempts plan)) (nat (rounds_of plan))"
proof -
  obtain rid w1 where id: "dp_NewRequestID d w = (rid, w1)" by fastforce
  have "run_linear d req plan stream w = attempt_loop d req rid (int (length (plan_attempts plan)))
      (rounds_of plan) stream (plan_attempts plan) loop_start w1"
    by (simp add: run_linear_def id rounds_of_def Let_def)
  then show ?thesis
    using k_NewRequestID [of w] k_attempt_loop [of req rid _ "rounds_of plan" stream "plan_attempts plan" loop_start w1]
    by (simp add: id loop_start_def)
qed

lemma k_runPanels:
  assumes "\<And>p req stream w. p \<in> snd ` set ps \<Longrightarrow> calls (snd (run d req p stream w)) \<le> calls w + plan_calls p"
  shows "calls (snd (runPanels d req ps w)) \<le> calls w + sum_list (map (\<lambda>x. plan_calls (snd x)) ps)"
  using assms
proof (induction ps arbitrary: w)
  case (Cons x ps)
  obtain l p where x: "x = (l, p)" by fastforce
  let ?w1 = "snd (run d req p False w)"
  have "calls (snd (runPanels d req ps ?w1)) \<le> calls ?w1 + sum_list (map (\<lambda>x. plan_calls (snd x)) ps)"
    using Cons.prems by (intro Cons.IH) simp_all
  moreover have "calls ?w1 \<le> calls w + plan_calls p" using Cons.prems x by simp
  ultimately show ?case by (simp add: x split_beta)
qed simp

lemma k_runPipeline:
  assumes "\<And>p req stream w. p \<in> set ps \<Longrightarrow> calls (snd (run d req p stream w)) \<le> calls w + plan_calls p"
  shows "calls (snd (runPipeline d req ps acc stream w)) \<le> calls w + sum_list (map plan_calls ps)"
  using assms
proof (induction ps arbitrary: req acc w rule: induct_list012)
  case (2 p)
  then have "calls (snd (run d req p stream w)) \<le> calls w + plan_calls p" by simp
  then show ?case by (simp add: split_beta)
next
  case (3 p q ps)
  obtain r w1 where r: "run d req p False w = (r, w1)" by fastforce
  then have w1: "calls w1 \<le> calls w + plan_calls p" using "3.prems"(1) [of p req False w] by simp
  have "calls (snd (runPipeline d req' (q # ps) acc' stream w1)) \<le> calls w1 + sum_list (map plan_calls (q # ps))" for req' acc'
    using "3.prems"(1) by (intro "3.IH"(2)) simp_all
  note rest = this
  show ?case
  proof (cases r)
    case (Inr o')
    then show ?thesis
      using r w1 rest [of "if wr_body (oc_wire o') \<noteq> nil_body then chainRequest req (wr_body (oc_wire o')) else req"
        "acc + oc_attempts o'"] by simp
  qed (use r w1 in simp)
qed simp

lemma k_run: "calls (snd (run d req plan stream w)) \<le> calls w + plan_calls plan"
proof (induction plan arbitrary: req stream w rule: plan_induct)
  case (RoutePlan combo attempts rounds strategy panels judge chain)
  have panels: "calls (snd (runPanels d req panels w)) \<le> calls w + sum_list (map (\<lambda>x. plan_calls (snd x)) panels)"
    by (rule k_runPanels) (use RoutePlan.IH(1) in auto)
  have judge: "calls (snd (run d req' j stream w1)) \<le> calls w1 + plan_calls j" if "judge = Some j" for j req' w1
    using RoutePlan.IH(2) [OF that] by blast
  have chain: "calls (snd (runPipeline d req chain 0 stream w)) \<le> calls w + sum_list (map plan_calls chain)"
    using RoutePlan.IH(3) by (rule k_runPipeline)
  have linear: "calls (snd (run_linear d req (RoutePlan combo attempts rounds strategy panels judge chain) stream w)) \<le>
      calls w + min (length attempts) (nat (rounds_of (RoutePlan combo attempts rounds strategy panels judge chain)))"
    using k_run_linear [of req "RoutePlan combo attempts rounds strategy panels judge chain"] by simp
  show ?case
  proof (cases "panels = []")
    case True
    then show ?thesis using chain linear by (cases chain) simp_all
  next
    case False
    obtain outputs w1 where o': "runPanels d req panels w = (outputs, w1)" by fastforce
    with panels have "calls w1 \<le> calls w + sum_list (map (\<lambda>x. plan_calls (snd x)) panels)" by simp
    moreover have "calls (snd (run d (judgeRequest req outputs) j stream w1)) \<le> calls w1 + plan_calls j" if "judge = Some j" for j
      using judge [OF that] .
    ultimately show ?thesis using False o'
      by (cases judge) (auto simp: Let_def split_beta intro: order_trans add_mono)
  qed
qed

end

section \<open>The winner and the errors of a linear plan\<close>

lemma resolve_ids_candidate:
  "resolve_ids d c is w = (Some (cred, cc), w') \<Longrightarrow> \<exists>i \<in> set is. cc = c\<lparr>cand_credential := i\<rparr>"
  by (induction "is" arbitrary: w) (auto simp: Let_def split: prod.splits sum.splits if_splits)

text \<open>The candidate that is called is the plan's, its empty account filled in.\<close>

definition same_target :: "candidate \<Rightarrow> candidate \<Rightarrow> bool" where
  "same_target c cc \<longleftrightarrow> cand_provider cc = cand_provider c \<and> cand_model cc = cand_model c \<and>
     (cand_credential c = '''' \<or> cand_credential cc = cand_credential c)"

lemma resolve_target:
  assumes "resolve d c w = (Inr (cred, cc), w')"
  shows "same_target c cc"
proof (cases "cand_credential c = ''''")
  case True
  obtain r w1 where "dp_Credentials d (cand_provider c) w = (r, w1)" by fastforce
  with True assms resolve_ids_candidate [of d c _ w1 cred cc w'] show ?thesis
    by (fastforce simp: resolve_def same_target_def split: sum.splits option.splits prod.splits)
next
  case False
  with assms show ?thesis
    by (auto simp: resolve_def same_target_def split: sum.splits prod.splits if_splits)
qed

lemma attempt_outcome_ok:
  "attempt d req stream ex cr cc key n v = (Inl (Inr r), v') \<Longrightarrow> oc_candidate r = cc \<and> oc_attempts r = n"
  by (auto simp: attempt_def Let_def split: if_splits sum.splits prod.splits option.splits)

lemma attempt_loop_winner:
  "fst (attempt_loop d req rid cnt mx stream cs st w) = Inr r \<longrightarrow>
    ls_attempts st < oc_attempts r \<and> oc_attempts r \<le> mx \<and> oc_attempts r \<le> ls_attempts st + int (length cs) \<and>
    (\<exists>c \<in> set cs. same_target c (oc_candidate r))"
proof (induction rule: attempt_loop_induct [where P = "\<lambda>cs st w res. fst res = Inr r \<longrightarrow>
    ls_attempts st < oc_attempts r \<and> oc_attempts r \<le> mx \<and> oc_attempts r \<le> ls_attempts st + int (length cs) \<and>
    (\<exists>c \<in> set cs. same_target c (oc_candidate r))"])
  case (Done c cs st w cred cc w1 ex w2 n res w3)
  then show ?case using resolve_target attempt_outcome_ok by fastforce
qed auto

text \<open>the winner of a linear plan is one of the plan's own targets, on the account the plan named if
  it named one, and it is found after at least one and at most \<open>MaxRounds\<close> calls, never more than
  the plan has attempts.\<close>

theorem linear_winner:
  assumes "run_linear d req plan stream w = (Inr r, w')"
  shows "1 \<le> oc_attempts r \<and> oc_attempts r \<le> rounds_of plan \<and> oc_attempts r \<le> int (length (plan_attempts plan)) \<and>
    (\<exists>c \<in> set (plan_attempts plan). same_target c (oc_candidate r))"
proof -
  obtain rid w1 where "dp_NewRequestID d w = (rid, w1)" by fastforce
  with assms have "fst (attempt_loop d req rid (int (length (plan_attempts plan))) (rounds_of plan) stream
      (plan_attempts plan) loop_start w1) = Inr r"
    by (simp add: run_linear_def rounds_of_def Let_def split: if_splits)
  from attempt_loop_winner [THEN mp, OF this] show ?thesis by (simp add: loop_start_def)
qed

section \<open>The error of a linear plan\<close>

text \<open>
  What happened on a walk down the candidates, told without the loop's own state: a candidate skipped
  and why, a candidate whose executor could not be built, a call that failed with the error that was
  made of it.  A walk that has no winner stops at the end of the plan, at the bound of the calls, at
  a context found dead, or at an error of the request itself.
\<close>

datatype walk_event = WSkip skip_reason | WUnbuilt domain_error | WFail domain_error

datatype walk_end = WPlanEnd | WBound | WDead go_error | WRefused go_error

definition call_error :: "wire_request \<Rightarrow> bool \<Rightarrow> ('w, 'c, 's) executor \<Rightarrow> 'c \<Rightarrow> candidate \<Rightarrow> 'w \<Rightarrow> go_error option \<times> 'w" where
  "call_error req stream ex cred cc w =
     (if stream then (case xe_DoStream ex (rewriteModel req (cand_model cc)) cred w of
          (Inl err, w1) \<Rightarrow> (Some err, w1) | (Inr s, w1) \<Rightarrow> (None, w1))
      else (case xe_Do ex (rewriteModel req (cand_model cc)) cred w of
          (Inl err, w1) \<Rightarrow> (Some err, w1) | (Inr resp, w1) \<Rightarrow> (None, w1)))"

abbreviation recorded :: "('w, 'c, 's) dispatcher \<Rightarrow> candidate \<Rightarrow> go_error \<Rightarrow> 'w \<Rightarrow> 'w" where
  "recorded d cc err w \<equiv> record_failure d cc (attemptOutcome (as_domain err)) (breakerFrom (as_domain err)) w"

text \<open>The walk over the candidates \<open>cs\<close> from the world \<open>w\<close> when \<open>n\<close> calls were made already.\<close>

inductive walks :: "('w, 'c, 's) dispatcher \<Rightarrow> wire_request \<Rightarrow> bool \<Rightarrow> int \<Rightarrow> candidate list \<Rightarrow> int \<Rightarrow> 'w
    \<Rightarrow> walk_event list \<Rightarrow> walk_end \<Rightarrow> 'w \<Rightarrow> bool"
  for d :: "('w, 'c, 's) dispatcher" and req :: wire_request and stream :: bool and mx :: int where
  AtEnd: "walks d req stream mx [] n w [] WPlanEnd w"
| AtBound: "mx \<le> n \<Longrightarrow> walks d req stream mx (c # cs) n w [] WBound w"
| Skipped: "n < mx \<Longrightarrow> resolve d c w = (Inl r, w1) \<Longrightarrow> walks d req stream mx cs n w1 es stop w' \<Longrightarrow>
    walks d req stream mx (c # cs) n w (WSkip r # es) stop w'"
| DeadBefore: "n < mx \<Longrightarrow> resolve d c w = (Inr (cred, cc), w1) \<Longrightarrow> dp_Err d w1 = Some err \<Longrightarrow>
    walks d req stream mx (c # cs) n w [] (WDead err) w1"
| Unbuilt: "n < mx \<Longrightarrow> resolve d c w = (Inr (cred, cc), w1) \<Longrightarrow> dp_Err d w1 = None \<Longrightarrow>
    dp_Build d cc cred w1 = (Inl err, w2) \<Longrightarrow> walks d req stream mx cs n (recorded d cc err w2) es stop w' \<Longrightarrow>
    walks d req stream mx (c # cs) n w (WUnbuilt (as_domain err) # es) stop w'"
| Refused: "n < mx \<Longrightarrow> resolve d c w = (Inr (cred, cc), w1) \<Longrightarrow> dp_Err d w1 = None \<Longrightarrow>
    dp_Build d cc cred w1 = (Inr ex, w2) \<Longrightarrow> call_error req stream ex cred cc w2 = (Some err, w3) \<Longrightarrow>
    de_scope (as_domain err) = ScopeRequest \<Longrightarrow>
    walks d req stream mx (c # cs) n w [] (WRefused err) (recorded d cc err w3)"
| DeadAfter: "n < mx \<Longrightarrow> resolve d c w = (Inr (cred, cc), w1) \<Longrightarrow> dp_Err d w1 = None \<Longrightarrow>
    dp_Build d cc cred w1 = (Inr ex, w2) \<Longrightarrow> call_error req stream ex cred cc w2 = (Some err, w3) \<Longrightarrow>
    de_scope (as_domain err) \<noteq> ScopeRequest \<Longrightarrow> w4 = recorded d cc err w3 \<Longrightarrow> dp_Err d w4 = Some dead \<Longrightarrow>
    walks d req stream mx (c # cs) n w [WFail (as_domain err)] (WDead dead) w4"
| DeadWaiting: "n < mx \<Longrightarrow> resolve d c w = (Inr (cred, cc), w1) \<Longrightarrow> dp_Err d w1 = None \<Longrightarrow>
    dp_Build d cc cred w1 = (Inr ex, w2) \<Longrightarrow> call_error req stream ex cred cc w2 = (Some err, w3) \<Longrightarrow>
    de_scope (as_domain err) \<noteq> ScopeRequest \<Longrightarrow> w4 = recorded d cc err w3 \<Longrightarrow> dp_Err d w4 = None \<Longrightarrow>
    0 < de_retry_after (as_domain err) \<Longrightarrow>
    dp_Wait d (min (de_retry_after (as_domain err)) (dp_max_cooldown d)) w4 = (Some dead, w5) \<Longrightarrow>
    walks d req stream mx (c # cs) n w [WFail (as_domain err)] (WDead dead) w5"
| Unhurried: "n < mx \<Longrightarrow> resolve d c w = (Inr (cred, cc), w1) \<Longrightarrow> dp_Err d w1 = None \<Longrightarrow>
    dp_Build d cc cred w1 = (Inr ex, w2) \<Longrightarrow> call_error req stream ex cred cc w2 = (Some err, w3) \<Longrightarrow>
    de_scope (as_domain err) \<noteq> ScopeRequest \<Longrightarrow> w4 = recorded d cc err w3 \<Longrightarrow> dp_Err d w4 = None \<Longrightarrow>
    de_retry_after (as_domain err) \<le> 0 \<Longrightarrow> walks d req stream mx cs (n + 1) w4 es stop w' \<Longrightarrow>
    walks d req stream mx (c # cs) n w (WFail (as_domain err) # es) stop w'"
| Waited: "n < mx \<Longrightarrow> resolve d c w = (Inr (cred, cc), w1) \<Longrightarrow> dp_Err d w1 = None \<Longrightarrow>
    dp_Build d cc cred w1 = (Inr ex, w2) \<Longrightarrow> call_error req stream ex cred cc w2 = (Some err, w3) \<Longrightarrow>
    de_scope (as_domain err) \<noteq> ScopeRequest \<Longrightarrow> w4 = recorded d cc err w3 \<Longrightarrow> dp_Err d w4 = None \<Longrightarrow>
    0 < de_retry_after (as_domain err) \<Longrightarrow>
    dp_Wait d (min (de_retry_after (as_domain err)) (dp_max_cooldown d)) w4 = (None, w5) \<Longrightarrow>
    walks d req stream mx cs (n + 1) w5 es stop w' \<Longrightarrow>
    walks d req stream mx (c # cs) n w (WFail (as_domain err) # es) stop w'"

text \<open>The calls that failed on a walk, and the errors met, in order.\<close>

primrec walk_fails :: "walk_event list \<Rightarrow> domain_error list" where
  "walk_fails [] = []"
| "walk_fails (e # es) = (case e of WFail de \<Rightarrow> de # walk_fails es | _ \<Rightarrow> walk_fails es)"

primrec walk_errors :: "walk_event list \<Rightarrow> domain_error list" where
  "walk_errors [] = []"
| "walk_errors (e # es) = (case e of WFail de \<Rightarrow> de # walk_errors es | WUnbuilt de \<Rightarrow> de # walk_errors es
     | WSkip r \<Rightarrow> walk_errors es)"

text \<open>The loop's state after a walk, and the error the loop makes of it.\<close>

definition after_walk :: "loop_state \<Rightarrow> walk_event list \<Rightarrow> loop_state" where
  "after_walk st es =
     \<lparr>ls_attempts = ls_attempts st + int (length (walk_fails es)),
      ls_last = (if walk_errors es = [] then ls_last st else Some (List.last (walk_errors es))),
      ls_breaker = (ls_breaker st \<or> WSkip SkipBreaker \<in> set es),
      ls_quota = (ls_quota st \<or> WSkip SkipQuota \<in> set es)\<rparr>"

definition loop_error :: "int \<Rightarrow> int \<Rightarrow> loop_state \<Rightarrow> walk_end \<Rightarrow> domain_error" where
  "loop_error cnt mx st stop = (case stop of WDead err \<Rightarrow> ctxError err | WRefused err \<Rightarrow> as_domain err
     | WBound \<Rightarrow> no_winner cnt mx True st | WPlanEnd \<Rightarrow> no_winner cnt mx False st)"

lemma after_walk_step [simp]:
  "after_walk st [] = st"
  "after_walk st (WSkip r # es) = after_walk (note_skip r st) es"
  "after_walk st (WUnbuilt de # es) = after_walk (st\<lparr>ls_last := Some de\<rparr>) es"
  "after_walk st (WFail de # es) = after_walk (st\<lparr>ls_attempts := ls_attempts st + 1, ls_last := Some de\<rparr>) es"
  by (cases st; auto simp: after_walk_def note_skip_def split: skip_reason.splits)+

text \<open>A call that failed, and what followed it: the loop ends with an error, or goes on.\<close>

lemma attempt_ends:
  assumes "attempt d req stream ex cred cc key n w = (Inl (Inl e), w')"
  obtains err w1 where "call_error req stream ex cred cc w = (Some err, w1)"
    "after_failure d cc (as_domain err) w1 = (Some e, w')"
  using assms by (auto simp: attempt_def call_error_def Let_def split: sum.splits prod.splits if_splits option.splits)

lemma attempt_goes_on:
  assumes "attempt d req stream ex cred cc key n w = (Inr de, w')"
  obtains err w1 where "call_error req stream ex cred cc w = (Some err, w1)" "de = as_domain err"
    "after_failure d cc (as_domain err) w1 = (None, w')"
  using assms by (auto simp: attempt_def call_error_def Let_def split: sum.splits prod.splits if_splits option.splits)

lemma after_failure_ends:
  assumes "after_failure d cc de w = (Some e, w')"
  obtains (Request) "de_scope de = ScopeRequest" "e = de" "w' = record_failure d cc (attemptOutcome de) (breakerFrom de) w"
  | (Dead) dead where "de_scope de \<noteq> ScopeRequest" "w' = record_failure d cc (attemptOutcome de) (breakerFrom de) w"
      "dp_Err d w' = Some dead" "e = ctxError dead"
  | (Waiting) dead where "de_scope de \<noteq> ScopeRequest" "0 < de_retry_after de" "e = ctxError dead"
      "dp_Err d (record_failure d cc (attemptOutcome de) (breakerFrom de) w) = None"
      "dp_Wait d (min (de_retry_after de) (dp_max_cooldown d)) (record_failure d cc (attemptOutcome de) (breakerFrom de) w)
        = (Some dead, w')"
  using assms by (auto simp: after_failure_def cooldown_def Let_def min_def split: if_splits option.splits prod.splits)

lemma after_failure_goes_on:
  assumes "after_failure d cc de w = (None, w')"
  obtains (Unhurried) "de_scope de \<noteq> ScopeRequest" "w' = record_failure d cc (attemptOutcome de) (breakerFrom de) w"
      "dp_Err d w' = None" "de_retry_after de \<le> 0"
  | (Waited) "de_scope de \<noteq> ScopeRequest" "0 < de_retry_after de"
      "dp_Err d (record_failure d cc (attemptOutcome de) (breakerFrom de) w) = None"
      "dp_Wait d (min (de_retry_after de) (dp_max_cooldown d)) (record_failure d cc (attemptOutcome de) (breakerFrom de) w)
        = (None, w')"
  using assms by (auto simp: after_failure_def cooldown_def Let_def min_def split: if_splits option.splits prod.splits)

text \<open>The whole loop: its error is that of a walk that happened, and the world left is the walk's.\<close>

lemma loop_walks:
  "attempt_loop d req rid cnt mx stream cs st w = (Inl e, w') \<longrightarrow>
   (\<exists>es stop. walks d req stream mx cs (ls_attempts st) w es stop w' \<and> e = loop_error cnt mx (after_walk st es) stop)"
proof (induction rule: attempt_loop_induct [where P = "\<lambda>cs st w res. res = (Inl e, w') \<longrightarrow>
    (\<exists>es stop. walks d req stream mx cs (ls_attempts st) w es stop w' \<and> e = loop_error cnt mx (after_walk st es) stop)"])
  case (Nil st w)
  show ?case by (auto intro!: exI [of _ "[]"] exI [of _ WPlanEnd] AtEnd simp: loop_error_def)
next
  case (Full c cs st w)
  then show ?case by (auto intro!: exI [of _ "[]"] exI [of _ WBound] AtBound simp: loop_error_def)
next
  case (Skip c cs st w reason w1 res)
  have "ls_attempts (note_skip reason st) = ls_attempts st"
    by (simp add: note_skip_def split: skip_reason.splits)
  with Skip show ?case by (metis Skipped after_walk_step(2))
next
  case (Dead c cs st w cred cc w1 err)
  then show ?case
    by (auto intro!: exI [of _ "[]"] exI [of _ "WDead err"] DeadBefore [of _ _ d] simp: loop_error_def)
next
  case (Unbuilt c cs st w cred cc w1 err w2 res)
  show ?case
  proof
    assume "res = (Inl e, w')"
    with Unbuilt(5) obtain es stop where "walks d req stream mx cs (ls_attempts st) (recorded d cc err w2) es stop w'"
      "e = loop_error cnt mx (after_walk (st\<lparr>ls_last := Some (as_domain err)\<rparr>) es) stop" by auto
    with walks.Unbuilt [OF Unbuilt(1-4)] show "\<exists>es stop. walks d req stream mx (c # cs) (ls_attempts st) w es stop w' \<and>
        e = loop_error cnt mx (after_walk st es) stop" by (metis after_walk_step(3))
  qed
next
  case (Done c cs st w cred cc w1 ex w2 n res w3)
  show ?case
  proof
    assume "(res, w3) = (Inl e, w')"
    then have res: "res = Inl e" "w3 = w'" by simp_all
    from Done(5) [unfolded res] obtain err v where c: "call_error req stream ex cred cc w2 = (Some err, v)"
      and a: "after_failure d cc (as_domain err) v = (Some e, w')" by (rule attempt_ends)
    from a show "\<exists>es stop. walks d req stream mx (c # cs) (ls_attempts st) w es stop w' \<and>
        e = loop_error cnt mx (after_walk st es) stop"
    proof (cases rule: after_failure_ends)
      case Request
      with walks.Refused [OF Done(1-4) c] show ?thesis
        by (intro exI [of _ "[]"] exI [of _ "WRefused err"]) (simp add: loop_error_def)
    next
      case (Dead dead)
      with walks.DeadAfter [OF Done(1-4) c _ refl] show ?thesis
        by (intro exI [of _ "[WFail (as_domain err)]"] exI [of _ "WDead dead"]) (simp add: loop_error_def)
    next
      case (Waiting dead)
      with walks.DeadWaiting [OF Done(1-4) c _ refl] show ?thesis
        by (intro exI [of _ "[WFail (as_domain err)]"] exI [of _ "WDead dead"]) (simp add: loop_error_def)
    qed
  qed
next
  case (Failed c cs st w cred cc w1 ex w2 n de w3 res)
  show ?case
  proof
    assume r: "res = (Inl e, w')"
    from Failed(5) obtain err v where c: "call_error req stream ex cred cc w2 = (Some err, v)" and de: "de = as_domain err"
      and a: "after_failure d cc (as_domain err) v = (None, w3)" by (rule attempt_goes_on)
    from r Failed(6) Failed(7) de obtain es stop where next': "walks d req stream mx cs (ls_attempts st + 1) w3 es stop w'"
      and e: "e = loop_error cnt mx (after_walk (st\<lparr>ls_attempts := ls_attempts st + 1, ls_last := Some (as_domain err)\<rparr>) es) stop"
      by auto
    from a
    have "walks d req stream mx (c # cs) (ls_attempts st) w (WFail (as_domain err) # es) stop w'"
    proof (cases rule: after_failure_goes_on)
      case Unhurried
      with walks.Unhurried [OF Failed(1-4) c _ refl _ _] next' show ?thesis by simp
    next
      case Waited
      with walks.Waited [OF Failed(1-4) c _ refl _ _ _ next'] show ?thesis by simp
    qed
    with e show "\<exists>es stop. walks d req stream mx (c # cs) (ls_attempts st) w es stop w' \<and>
        e = loop_error cnt mx (after_walk st es) stop" by (metis after_walk_step(4))
  qed
qed

lemma exhausted_fields:
  "de_code (exhaustedError n le) = CodeDispatchExhausted \<and> de_http_status (exhaustedError n le) = 502 \<and>
   de_scope (exhaustedError n le) = de_scope le \<and> de_retryable (exhaustedError n le) = de_retryable le \<and>
   de_params (exhaustedError n le) = [(''attempts'', itoa n), (''last_code'', de_code le)] \<and>
   de_cause (exhaustedError n le) = Some (Dom le) \<and> de_retry_after (exhaustedError n le) = 0"
  by (cases le) (simp add: exhaustedError_def new_simps Let_def)

lemma walk_fails_errors: "walk_errors es = [] \<Longrightarrow> walk_fails es = []"
  by (induction es) (auto split: walk_event.splits)

lemma walk_no_winner:
  "no_winner cnt mx hit (after_walk loop_start es) =
     (if walk_fails es = [] then noAttemptsError (WSkip SkipBreaker \<in> set es) (WSkip SkipQuota \<in> set es) cnt
      else if hit then maxRoundsError mx else exhaustedError (int (length (walk_fails es))) (List.last (walk_errors es)))"
  using walk_fails_errors [of es] by (auto simp: no_winner_def after_walk_def loop_start_def)

text \<open>C4: a linear run that answers an error walked down its candidates, and the error is decided by
  that walk.  A context found dead before a call, after a failed one or while its cooldown is waited
  out gives the provider timeout of just that context error; an error of the request's own scope is
  passed on as the upstream gave it; when no call was made the answer is a 503 that names the
  breaker or the quota if a candidate was skipped for it; with the bound of the calls reached it is
  the 502 of the loop bound; and at the end of the plan it is the exhausted 502 that counts the failed
  calls and takes its scope, its retryability, its last code and its cause from the error met last.\<close>

theorem linear_errors:
  assumes "run_linear d req plan stream w = (Inl e, w')"
  shows "\<exists>es stop. walks d req stream (rounds_of plan) (plan_attempts plan) 0 (snd (dp_NewRequestID d w)) es stop w' \<and>
    (case stop of
       WDead err \<Rightarrow> e = ctxError err
     | WRefused err \<Rightarrow> e = as_domain err \<and> de_scope e = ScopeRequest
     | _ \<Rightarrow>
        if walk_fails es = [] then
          e = noAttemptsError (WSkip SkipBreaker \<in> set es) (WSkip SkipQuota \<in> set es) (int (length (plan_attempts plan)))
        else if stop = WBound then e = maxRoundsError (rounds_of plan)
        else de_code e = CodeDispatchExhausted \<and> de_http_status e = 502 \<and>
          de_params e = [(''attempts'', itoa (int (length (walk_fails es)))),
            (''last_code'', de_code (List.last (walk_errors es)))] \<and>
          de_scope e = de_scope (List.last (walk_errors es)) \<and>
          de_retryable e = de_retryable (List.last (walk_errors es)) \<and>
          de_cause e = Some (Dom (List.last (walk_errors es))))"
proof -
  obtain rid w1 where "dp_NewRequestID d w = (rid, w1)" by fastforce
  with assms have "attempt_loop d req rid (int (length (plan_attempts plan))) (rounds_of plan) stream
      (plan_attempts plan) loop_start w1 = (Inl e, w')"
    by (simp add: run_linear_def rounds_of_def Let_def split: if_splits)
  with loop_walks obtain es stop where w: "walks d req stream (rounds_of plan) (plan_attempts plan) 0 w1 es stop w'"
    and e: "e = loop_error (int (length (plan_attempts plan))) (rounds_of plan) (after_walk loop_start es) stop"
    by (metis loop_start_def loop_state.select_convs(1))
  from w have "\<And>err. stop = WRefused err \<Longrightarrow> de_scope (as_domain err) = ScopeRequest"
    by (induction rule: walks.induct) auto
  with w e \<open>dp_NewRequestID d w = (rid, w1)\<close> show ?thesis
    by (intro exI [of _ es] exI [of _ stop])
      (auto simp: loop_error_def walk_no_winner exhausted_fields split: walk_end.splits)
qed

section \<open>Streams\<close>

datatype stream_event = EvRecv recv | EvClose

primrec stream_step :: "(attempt_outcome \<Rightarrow> usage \<Rightarrow> 'w \<Rightarrow> 'w) \<Rightarrow> stream_event \<Rightarrow> wrapping \<times> 'w \<Rightarrow> wrapping \<times> 'w" where
  "stream_step rec (EvRecv r) sw = wrap_Recv rec r (fst sw) (snd sw)"
| "stream_step rec EvClose sw = wrap_Close rec (fst sw) (snd sw)"

definition stream_run :: "(attempt_outcome \<Rightarrow> usage \<Rightarrow> 'w \<Rightarrow> 'w) \<Rightarrow> stream_event list \<Rightarrow> wrapping \<times> 'w \<Rightarrow> wrapping \<times> 'w" where
  "stream_run rec evs sw = foldl (\<lambda>sw e. stream_step rec e sw) sw evs"

fun is_chunk :: "stream_event \<Rightarrow> bool" where
  "is_chunk (EvRecv (RChunk b)) = True"
| "is_chunk e = False"

fun absorb_event :: "wrapping \<Rightarrow> stream_event \<Rightarrow> wrapping" where
  "absorb_event s (EvRecv (RChunk b)) = absorb b s"
| "absorb_event s e = s"

lemma absorb_frame [simp]: "wp_done (absorb b s) = wp_done s"
  by (simp add: absorb_def Let_def split: option.splits)

lemma stream_done:
  "wp_done s \<Longrightarrow> snd (stream_run rec evs (s, w)) = w"
proof (induction evs arbitrary: s)
  case (Cons e evs)
  then show ?case
    by (cases e rule: is_chunk.cases) (auto simp: stream_run_def wrap_Recv_def wrap_Close_def finalise_def)
qed (simp add: stream_run_def)

lemma stream_run_live:
  "\<not> wp_done s \<Longrightarrow> snd (stream_run rec evs (s, w)) =
    (let seen = foldl absorb_event s (takeWhile is_chunk evs) in
     case dropWhile is_chunk evs of
       [] \<Rightarrow> w
     | e # rest \<Rightarrow> (if e = EvRecv REOF then rec OutcomeSuccess (stream_usage True seen) w
                    else rec OutcomeTransient (stream_usage False seen) w))"
proof (induction evs arbitrary: s)
  case (Cons e evs)
  show ?case
  proof (cases "is_chunk e")
    case True
    then obtain b where e: "e = EvRecv (RChunk b)" by (cases e rule: is_chunk.cases) auto
    then have "stream_run rec (e # evs) (s, w) = stream_run rec evs (absorb b s, w)"
      by (simp add: stream_run_def wrap_Recv_def)
    with Cons.IH [of "absorb b s"] Cons.prems e show ?thesis by simp
  next
    case False
    then have step: "stream_step rec e (s, w) = finalise rec (e = EvRecv REOF) s w"
      by (cases e rule: is_chunk.cases) (simp_all add: wrap_Recv_def wrap_Close_def)
    have "snd (stream_run rec evs (s\<lparr>wp_done := True\<rparr>, w')) = w'" for w' by (rule stream_done) simp
    then show ?thesis using False Cons.prems step by (simp add: stream_run_def finalise_def Let_def)
  qed
qed (simp add: stream_run_def)

text \<open>C5: a wrapped stream is accounted exactly once, however often it is read and closed: nothing is
  recorded while chunks arrive; the first end records one usage, with the tokens of the chunks
  before it, as a success if the upstream ended the stream and as aborted if it failed or the
  client closed it first.\<close>

theorem stream_accounted_once:
  "snd (stream_run rec evs (new_wrapping c key, w)) =
    (let seen = foldl absorb_event (new_wrapping c key) (takeWhile is_chunk evs) in
     case dropWhile is_chunk evs of
       [] \<Rightarrow> w
     | e # rest \<Rightarrow> (if e = EvRecv REOF then rec OutcomeSuccess (stream_usage True seen) w
                    else rec OutcomeTransient (stream_usage False seen) w))"
  by (rule stream_run_live) (simp add: new_wrapping_def)

text \<open>A chunk that mentions the word \<open>usage\<close> but has no usage block forgets the input and output
  counts seen before it, and keeps the total.\<close>

lemma absorb_forgets_split:
  "absorb (Json (JObj [(''choices'', JStr ''usage'')])) s = s\<lparr>wp_input := 0, wp_output := 0\<rparr>"
proof -
  have "decode_usage (Json (JObj [(''choices'', JStr ''usage'')])) =
      Some \<lparr>ub_prompt = 0, ub_completion = 0, ub_total = 0, ub_input = 0, ub_output = 0\<rparr>" by code_simp
  moreover have "body_mentions ''usage'' (Json (JObj [(''choices'', JStr ''usage'')]))" by code_simp
  ultimately show ?thesis by (simp add: absorb_def nil_body_def wrap64_def)
qed

section \<open>Attempt keys\<close>

lemma itoa_no_colon: "CHR '':'' \<notin> set (itoa n)"
proof -
  have "CHR '':'' \<notin> set (show_nat k)" for k by (rule show_nat_no_char) simp
  then show ?thesis by (simp add: itoa_def)
qed

lemma attempt_key_inject:
  "attempt_key rid c n = attempt_key rid' c' n' \<Longrightarrow> n = n'"
  using sep_inject_last [OF itoa_no_colon itoa_no_colon, of
    "rid @ '':'' @ cand_provider c @ ''/'' @ cand_model c @ '':'' @ cand_credential c" n
    "rid' @ '':'' @ cand_provider c' @ ''/'' @ cand_model c' @ '':'' @ cand_credential c'" n']
  by (simp add: attempt_key_def)

section \<open>Structural requests\<close>

text \<open>the judge of a fusion is shown the original request with one user message more: the digest
  of the panels that succeeded, in panel order.  Every other member of the request keeps its
  value, and the digest depends on the panels' labels and texts only, not on which provider, model
  or account answered.\<close>

theorem judge_sees_panels_only:
  assumes "wq_body req = Json (JObj obj)" and "distinct (map fst obj)"
  shows "\<exists>obj'. wq_body (judgeRequest req ps) = Json (JObj obj') \<and>
    map_of obj' = (map_of obj)(''messages'' \<mapsto>
      JArr (json_array (map_of obj ''messages'') @ [user_message (panelsDigest ps)])) \<and>
    panelsDigest ps = panelsDigest (map (\<lambda>p. p\<lparr>pr_candidate := c, pr_body := b\<rparr>) ps)"
proof -
  define new where "new = JArr (json_array (map_of obj ''messages'') @ [user_message (panelsDigest ps)])"
  define obj' where "obj' = slice_stable (\<lambda>a b. fst a < fst b) (AList.update ''messages'' new obj)"
  have d: "distinct (map fst (AList.update ''messages'' new obj))"
    using assms(2) by (rule AList.distinct_update)
  have "wq_body (judgeRequest req ps) = Json (JObj obj')"
    by (simp add: judgeRequest_def append_message_def assms(1) body_map_def marshal_map_def obj'_def new_def)
  moreover have "map_of obj' = (map_of obj)(''messages'' \<mapsto> new)"
    unfolding obj'_def map_of_marshal(2) [OF d] by (rule AList.update_conv')
  moreover have "panelsDigest ps = panelsDigest (map (\<lambda>p. p\<lparr>pr_candidate := c, pr_body := b\<rparr>) ps)"
    by (induction ps) simp_all
  ultimately show ?thesis unfolding new_def by blast
qed

section \<open>A client error\<close>

text \<open>an error of the request itself ends the loop at once: it is returned unchanged, no other
  candidate is resolved, called or waited for, and the world is the one in which just this attempt
  was recorded.\<close>

theorem client_error_terminal:
  assumes "ls_attempts st < mx" and "resolve d c w = (Inr (cred, cc), w1)" and "dp_Err d w1 = None"
    and "dp_Build d cc cred w1 = (Inr ex, w2)"
    and "xe_Do ex (rewriteModel req (cand_model cc)) cred w2 = (Inl err, w3)"
    and "de_scope (as_domain err) = ScopeRequest"
  shows "attempt_loop d req rid cnt mx False (c # cs) st w =
    (Inl (as_domain err), record_failure d cc OutcomeClientError (breakerFrom (as_domain err)) w3)"
proof -
  have "attempt d req False ex cred cc key n w2 = (Inl (Inl (as_domain err)),
      record_failure d cc OutcomeClientError (breakerFrom (as_domain err)) w3)" for key n
    using assms(5,6) by (simp add: attempt_def after_failure_def attemptOutcome_def Let_def)
  with assms(1-4) show ?thesis by (simp add: Let_def)
qed

section \<open>Witnesses\<close>

definition client_error :: domain_error where
  "client_error = New ''error.bad_request'' [WithHTTPStatus 400, WithScope ScopeRequest]"

definition overload_error :: domain_error where
  "overload_error = New ''error.overloaded'' [WithHTTPStatus 529, Retry, WithScope ScopeProvider]"

text \<open>A world without state: \<open>bad\<close> answers a client error, \<open>busy\<close> an overload, the others succeed.\<close>

definition toy_executor :: "candidate \<Rightarrow> (unit, unit, unit) executor" where
  "toy_executor c = \<lparr>
     xe_Do = (\<lambda>req cred w. (if cand_provider c = ''bad'' then Inl (Dom client_error)
        else if cand_provider c = ''busy'' then Inl (Dom overload_error)
        else Inr \<lparr>wr_status = 200, wr_headers = [], wr_body = nil_body\<rparr>, w)),
     xe_DoStream = (\<lambda>req cred w. (Inr (), w))\<rparr>"

definition toy :: "(unit, unit, unit) dispatcher" where
  "toy = \<lparr>dp_NewRequestID = (\<lambda>w. (''r1'', w)), dp_Build = (\<lambda>c cred w. (Inr (toy_executor c), w)),
     dp_Get = (\<lambda>i w. (Inr (), w)), dp_Credentials = (\<lambda>p w. (Inr [''acc''], w)), dp_Allow = (\<lambda>c w. (True, w)),
     dp_Record = (\<lambda>c o' w. w), dp_quota = None, dp_recorder = None, dp_Wait = (\<lambda>t w. (None, w)),
     dp_Err = (\<lambda>w. None), dp_max_cooldown = DefaultMaxCooldown\<rparr>"

definition toy_request :: wire_request where
  "toy_request = \<lparr>wq_body = Json (JObj [(''model'', JStr ''x''), (''messages'', JArr [])]), wq_model = ''x'',
     wq_stream = False, wq_headers = []\<rparr>"

theorem linear_winner_witness:
  "\<exists>r w'. run_linear toy toy_request (linear_plan [mk_candidate ''busy'' ''m'', mk_candidate ''ok'' ''m''] 0) False () = (Inr r, w') \<and>
     1 \<le> oc_attempts r \<and> oc_attempts r \<le> 2 \<and> cand_provider (oc_candidate r) \<in> {''busy'', ''ok''}"
proof -
  let ?run = "run_linear toy toy_request (linear_plan [mk_candidate ''busy'' ''m'', mk_candidate ''ok'' ''m''] 0) False ()"
  have "\<not> isl (fst ?run)" by code_simp
  then obtain r w' where r: "?run = (Inr r, w')"
    by (cases ?run; cases "fst ?run") auto
  from linear_winner [OF r] r show ?thesis
    by (auto simp: linear_plan_def rounds_of_def same_target_def mk_candidate_def)
qed

theorem linear_errors_witness:
  "\<exists>e w'. run_linear toy toy_request (linear_plan [mk_candidate ''busy'' ''m'', mk_candidate ''busy'' ''n''] 0) False () = (Inl e, w') \<and>
     (\<exists>es stop. walks toy toy_request False 2 [mk_candidate ''busy'' ''m'', mk_candidate ''busy'' ''n''] 0 () es stop () \<and>
        stop = WPlanEnd \<and> de_retryable e = de_retryable (List.last (walk_errors es)))"
proof -
  let ?cs = "[mk_candidate ''busy'' ''m'', mk_candidate ''busy'' ''n'']"
  let ?run = "run_linear toy toy_request (linear_plan ?cs 0) False ()"
  have code: "map_sum de_code (\<lambda>_. ()) (fst ?run) = Inl CodeDispatchExhausted" by code_simp
  then obtain e w' where e: "?run = (Inl e, w')"
    by (cases ?run; cases "fst ?run") auto
  have plan: "plan_attempts (linear_plan ?cs 0) = ?cs" "rounds_of (linear_plan ?cs 0) = 2"
    by (simp_all add: linear_plan_def rounds_of_def)
  from linear_errors [OF e, unfolded plan] obtain es stop where
    w: "walks toy toy_request False 2 ?cs 0 (snd (dp_NewRequestID toy ())) es stop w'" and
    c: "case stop of
       WDead err \<Rightarrow> e = ctxError err
     | WRefused err \<Rightarrow> e = as_domain err \<and> de_scope e = ScopeRequest
     | _ \<Rightarrow>
        if walk_fails es = [] then
          e = noAttemptsError (WSkip SkipBreaker \<in> set es) (WSkip SkipQuota \<in> set es) (int (length ?cs))
        else if stop = WBound then e = maxRoundsError 2
        else de_code e = CodeDispatchExhausted \<and> de_http_status e = 502 \<and>
          de_params e = [(''attempts'', itoa (int (length (walk_fails es)))),
            (''last_code'', de_code (List.last (walk_errors es)))] \<and>
          de_scope e = de_scope (List.last (walk_errors es)) \<and>
          de_retryable e = de_retryable (List.last (walk_errors es)) \<and>
          de_cause e = Some (Dom (List.last (walk_errors es)))"
    by blast
  have "de_code (ctxError err) = CodeUpstreamTimeout" "de_code (noAttemptsError b q n) = CodeDispatchNoAttempts"
    "de_code (maxRoundsError n) = CodeDispatchMaxRounds" for err b q n
    by (simp_all add: ctxError_def noAttemptsError_def maxRoundsError_def new_simps)
  moreover have "map_sum de_scope (\<lambda>_. ()) (fst ?run) = Inl ScopeProvider" by code_simp
  ultimately have "stop = WPlanEnd \<and> de_retryable e = de_retryable (List.last (walk_errors es))"
    using c code e by (auto simp: code_defs split: walk_end.splits if_splits)
  with e w show ?thesis by auto
qed

theorem judge_sees_panels_only_witness:
  "\<exists>obj'. wq_body (judgeRequest toy_request [\<lparr>pr_label = ''panel-1'', pr_content = ''a'', pr_ok = True,
       pr_candidate = mk_candidate ''ok'' ''m'', pr_body = nil_body\<rparr>]) = Json (JObj obj') \<and>
     map_of obj' ''messages'' = Some (JArr [user_message (''[panel-1]'' @ newline @ ''a'' @ newline @ newline)])"
proof -
  let ?ps = "[\<lparr>pr_label = ''panel-1'', pr_content = ''a'', pr_ok = True,
       pr_candidate = mk_candidate ''ok'' ''m'', pr_body = nil_body\<rparr>]"
  have b: "wq_body toy_request = Json (JObj [(''model'', JStr ''x''), (''messages'', JArr [])])"
    by (simp add: toy_request_def)
  from judge_sees_panels_only [OF b, of ?ps] show ?thesis
    by (simp add: json_array_def) (metis fun_upd_same)
qed

theorem client_error_terminal_witness:
  "attempt_loop toy toy_request ''r1'' 2 2 False ((mk_candidate ''bad'' ''m'')\<lparr>cand_credential := ''acc''\<rparr> #
     [mk_candidate ''ok'' ''m'']) loop_start () = (Inl client_error, ())"
proof -
  let ?c = "(mk_candidate ''bad'' ''m'')\<lparr>cand_credential := ''acc''\<rparr>"
  have r: "resolve toy ?c () = (Inr ((), ?c), ())"
    by (simp add: resolve_def allow_def toy_def mk_candidate_def)
  have "de_scope client_error = ScopeRequest" by (simp add: client_error_def new_simps)
  then show ?thesis
    using client_error_terminal [OF _ r, of loop_start 2 "toy_executor ?c" "()" toy_request "Dom client_error" "()" "''r1''" 2]
    by (simp add: toy_def toy_executor_def loop_start_def mk_candidate_def)
qed

end
