(* ===== verification/Capability.thy ===== *)
theory Capability
  imports Contracts
begin

text \<open>
  The capability fit and the capability-aware ordering of \<open>internal/combos/capability.go\<close>.  A
  candidate that misses something the request needs is moved behind the compatible ones, never
  dropped.
\<close>

section \<open>Fit\<close>

record candidate_spec =
  cs_candidate :: candidate
  cs_capabilities :: capabilities
  cs_modalities :: modality_set

record fit =
  ft_compatible :: bool
  ft_missing_caps :: capabilities
  ft_missing_modalities :: modality_set

text \<open>The loop over the modalities collects the missing ones bit by bit.\<close>

fun missing_modalities :: "modality_set \<Rightarrow> modality_set \<Rightarrow> modality list \<Rightarrow> modality_set \<Rightarrow> modality_set" where
  "missing_modalities want have_set [] acc = acc"
| "missing_modalities want have_set (m # ms) acc =
     missing_modalities want have_set ms
       (if ModalitySet_Has want m \<and> \<not> ModalitySet_Has have_set m
        then acc OR push_bit (modality_bit m) 1 else acc)"

text \<open>A nil request is \<^const>\<open>None\<close>.\<close>

definition ComputeFit :: "candidate_spec \<Rightarrow> request option \<Rightarrow> fit" where
  "ComputeFit spec ro = (case ro of
      None \<Rightarrow> \<lparr>ft_compatible = True, ft_missing_caps = 0, ft_missing_modalities = 0\<rparr>
    | Some req \<Rightarrow>
        (let caps = (if \<not> Capabilities_Has (cs_capabilities spec) (req_capabilities req)
                     then req_capabilities req AND NOT (cs_capabilities spec) else 0);
             mods = missing_modalities (req_modalities req) (cs_modalities spec) all_modalities 0
         in \<lparr>ft_compatible = (caps = 0 \<and> mods = 0), ft_missing_caps = caps, ft_missing_modalities = mods\<rparr>))"

lemma missing_modalities_bit:
  "bit (missing_modalities want have_set ms acc) n \<longleftrightarrow>
     bit acc n \<or> (\<exists>m \<in> set ms. modality_bit m = n \<and> ModalitySet_Has want m \<and> \<not> ModalitySet_Has have_set m)"
  by (induction ms arbitrary: acc)
    (auto simp: bit_simps modality_bit_less, (metis less_irrefl)?)

lemma word_zero_iff: "(w :: 'a :: len word) = 0 \<longleftrightarrow> (\<forall>n. \<not> bit w n)"
  by (auto intro: bit_eqI)

lemma cap_bit: "bit (c :: capabilities) n \<Longrightarrow> n < 64"
  using bit_imp_le_length [of c n] by simp

lemma Capabilities_missing: "want AND NOT c = 0 \<longleftrightarrow> Capabilities_Has c (want :: capabilities)"
  unfolding Capabilities_Has_iff word_zero_iff
  by (simp add: bit_simps) (metis cap_bit)

lemma all_modalities_complete [simp]: "m \<in> set all_modalities"
  by (cases m) (simp_all add: all_modalities_def)

lemma ComputeFit_Has:
  "ModalitySet_Has (ft_missing_modalities (ComputeFit spec (Some req))) m \<longleftrightarrow>
     ModalitySet_Has (req_modalities req) m \<and> \<not> ModalitySet_Has (cs_modalities spec) m"
  by (auto simp: ComputeFit_def Let_def ModalitySet_Has_bit [of "missing_modalities _ _ _ _"]
      missing_modalities_bit modality_bit_inject)

lemma missing_modalities_0:
  "missing_modalities want have_set all_modalities 0 = 0 \<longleftrightarrow>
     (\<forall>m. ModalitySet_Has want m \<longrightarrow> ModalitySet_Has have_set m)"
  unfolding word_zero_iff missing_modalities_bit by auto

lemma ComputeFit_caps: "ft_missing_caps (ComputeFit spec (Some req)) = req_capabilities req AND NOT (cs_capabilities spec)"
  by (simp add: ComputeFit_def Let_def Capabilities_missing)

lemma ComputeFit_ok:
  "ft_compatible (ComputeFit spec (Some req)) \<longleftrightarrow>
     Capabilities_Has (cs_capabilities spec) (req_capabilities req) \<and>
     (\<forall>m. ModalitySet_Has (req_modalities req) m \<longrightarrow> ModalitySet_Has (cs_modalities spec) m)"
  by (simp add: ComputeFit_def Let_def missing_modalities_0 Capabilities_missing)

text \<open>The fit is exact.  A candidate is compatible with a request exactly when it declares every
  capability and every modality the request needs; otherwise the two missing sets hold exactly
  what the request needs and the candidate lacks.\<close>

theorem compute_fit_exact:
  "(ft_compatible (ComputeFit spec (Some req)) \<longleftrightarrow>
      (\<forall>n. bit (req_capabilities req) n \<le> bit (cs_capabilities spec) n) \<and>
      (\<forall>m. ModalitySet_Has (req_modalities req) m \<le> ModalitySet_Has (cs_modalities spec) m)) \<and>
   (\<forall>n. bit (ft_missing_caps (ComputeFit spec (Some req))) n =
      (bit (req_capabilities req) n \<and> \<not> bit (cs_capabilities spec) n)) \<and>
   (\<forall>m. ModalitySet_Has (ft_missing_modalities (ComputeFit spec (Some req))) m =
      (ModalitySet_Has (req_modalities req) m \<and> \<not> ModalitySet_Has (cs_modalities spec) m))"
  by (auto simp: ComputeFit_ok Capabilities_Has_iff ComputeFit_caps ComputeFit_Has bit_simps
      intro: cap_bit)

section \<open>Ordering\<close>

definition lessCandidate :: "candidate \<Rightarrow> candidate \<Rightarrow> bool" where
  "lessCandidate a b =
     (if cand_provider a \<noteq> cand_provider b then cand_provider a < cand_provider b
      else if cand_model a \<noteq> cand_model b then cand_model a < cand_model b
      else cand_credential a < cand_credential b)"

definition less_scored :: "candidate_spec \<times> fit \<Rightarrow> candidate_spec \<times> fit \<Rightarrow> bool" where
  "less_scored a b =
     (if ft_compatible (snd a) \<noteq> ft_compatible (snd b) then ft_compatible (snd a)
      else lessCandidate (cs_candidate (fst a)) (cs_candidate (fst b)))"

definition OrderByCapability :: "candidate_spec list \<Rightarrow> request option \<Rightarrow> candidate_spec list" where
  "OrderByCapability specs req =
     map fst (slice_stable less_scored (map (\<lambda>s. (s, ComputeFit s req)) specs))"

definition candidate_key :: "candidate \<Rightarrow> string \<times> string \<times> string" where
  "candidate_key c = (cand_provider c, cand_model c, cand_credential c)"

lemma lessCandidate_key: "lessCandidate a b \<longleftrightarrow> candidate_key a < candidate_key b"
  by (auto simp: lessCandidate_def candidate_key_def less_prod_def')

definition scored_key :: "candidate_spec \<times> fit \<Rightarrow> bool \<times> string \<times> string \<times> string" where
  "scored_key a = (\<not> ft_compatible (snd a), candidate_key (cs_candidate (fst a)))"

lemma less_scored_key: "less_scored a b \<longleftrightarrow> scored_key a < scored_key b"
  by (auto simp: less_scored_def scored_key_def lessCandidate_key less_prod_def')

interpretation candidate_order: strict_weak_order lessCandidate
  by unfold_locales (auto simp: lessCandidate_key)

interpretation scored_order: strict_weak_order less_scored
  by unfold_locales (auto simp: less_scored_key)

text \<open>The capability ordering only reorders: the result holds the same candidates, each as often
  as before; every compatible candidate stands before every incompatible one; and within either
  group the candidates are in the order of provider, model and credential.\<close>

theorem order_by_capability_reorders:
  "mset (OrderByCapability specs req) = mset specs \<and>
   sorted (map (\<lambda>s. (\<not> ft_compatible (ComputeFit s req), candidate_key (cs_candidate s)))
     (OrderByCapability specs req))"
proof
  let ?scored = "map (\<lambda>s. (s, ComputeFit s req)) specs"
  let ?sorted = "slice_stable less_scored ?scored"
  have "mset (map fst ?sorted) = mset (map fst ?scored)" by (simp only: mset_map mset_slice_stable)
  then show "mset (OrderByCapability specs req) = mset specs"
    by (simp add: OrderByCapability_def comp_def)
  have "snd a = ComputeFit (fst a) req" if "a \<in> set ?sorted" for a using that by auto
  then have "map (\<lambda>s. (\<not> ft_compatible (ComputeFit s req), candidate_key (cs_candidate s))) (map fst ?sorted)
      = map scored_key ?sorted"
    by (simp add: scored_key_def)
  moreover have "sorted (map scored_key ?sorted)"
    by (rule sorted_slice_stable_key) (rule less_scored_key)
  ultimately show "sorted (map (\<lambda>s. (\<not> ft_compatible (ComputeFit s req), candidate_key (cs_candidate s)))
      (OrderByCapability specs req))"
    by (simp only: OrderByCapability_def)
qed

text \<open>The original order is not kept, even among equally compatible candidates: with a request
  that asks for nothing, a list given as \<open>zai\<close> before \<open>anthropic\<close> comes back alphabetically.\<close>

theorem order_by_capability_not_original:
  "let a = \<lparr>cs_candidate = mk_candidate ''zai'' ''m'', cs_capabilities = 0, cs_modalities = 0\<rparr>;
       b = \<lparr>cs_candidate = mk_candidate ''anthropic'' ''m'', cs_capabilities = 0, cs_modalities = 0\<rparr>
   in ft_compatible (ComputeFit a None) \<and> ft_compatible (ComputeFit b None) \<and>
      OrderByCapability [a, b] None = [b, a]"
  by code_simp

end
