(* ===== verification/Strategies.thy ===== *)
theory Strategies
  imports Combos Capability
begin

text \<open>
  The ordering strategies of \<open>internal/router\<close>: the rotation cursor, the stable tie-break, the
  reason strings, and the ten \<open>Order\<close> methods.  A strategy maps the expanded candidates to the
  attempt order; it also returns the slice it was given as it leaves it (several strategies sort
  it in place), the cursor and the state of the random source.  \<^const>\<open>None\<close> is a Go panic.
\<close>

section \<open>Rotation cursor\<close>

record cursor =
  cu_roundRobin :: "string \<rightharpoonup> int"
  cu_fillFirst :: "string \<rightharpoonup> int"

definition empty_cursor :: cursor where
  "empty_cursor = \<lparr>cu_roundRobin = Map.empty, cu_fillFirst = Map.empty\<rparr>"

definition rrKey :: "string \<Rightarrow> int \<Rightarrow> string" where
  "rrKey combo tier = combo @ ''#'' @ itoa tier"

definition cursor_index :: "(string \<rightharpoonup> int) \<Rightarrow> string \<Rightarrow> int \<Rightarrow> int" where
  "cursor_index m key n = (let idx = (case m key of Some i \<Rightarrow> i | None \<Rightarrow> 0) in
     if idx < 0 \<or> idx \<ge> n then 0 else idx)"

definition nextRR :: "cursor \<Rightarrow> string \<Rightarrow> int \<Rightarrow> int \<times> cursor" where
  "nextRR c key n = (if n \<le> 0 then (0, c) else
     (let idx = cursor_index (cu_roundRobin c) key n
      in (idx, c\<lparr>cu_roundRobin := (cu_roundRobin c)(key \<mapsto> (idx + 1) mod n)\<rparr>)))"

definition nextFill :: "cursor \<Rightarrow> string \<Rightarrow> int \<Rightarrow> int \<times> cursor" where
  "nextFill c key n = (if n \<le> 0 then (0, c) else
     (let idx = cursor_index (cu_fillFirst c) key n
      in (idx, c\<lparr>cu_fillFirst := (cu_fillFirst c)(key \<mapsto> (idx + 1) mod n)\<rparr>)))"

lemma cursor_index_range: "0 < n \<Longrightarrow> 0 \<le> cursor_index m key n \<and> cursor_index m key n < n"
  by (simp add: cursor_index_def Let_def)

lemma cursor_index_after: "0 < n \<Longrightarrow> cursor_index (m(key \<mapsto> i mod n)) key n = i mod n"
  by (simp add: cursor_index_def Let_def pos_mod_sign not_less not_le)

lemma nextRR_range: "0 < n \<Longrightarrow> 0 \<le> fst (nextRR c key n) \<and> fst (nextRR c key n) < n"
  by (simp add: nextRR_def Let_def cursor_index_range)

lemma nextFill_range: "0 < n \<Longrightarrow> 0 \<le> fst (nextFill c key n) \<and> fst (nextFill c key n) < n"
  by (simp add: nextFill_def Let_def cursor_index_range)

section \<open>Expanded candidates\<close>

record expanded =
  ex_candidate :: candidate
  ex_step :: int
  ex_weight :: int
  ex_allowed :: "credential_id list"
  ex_quota_only :: bool
  ex_compatible :: bool

definition NUL :: char where "NUL = CHR 0x00"

definition stableKey :: "candidate \<Rightarrow> string" where
  "stableKey c = cand_provider c @ [NUL] @ cand_model c @ [NUL] @ cand_credential c"

definition lessStable :: "candidate \<Rightarrow> candidate \<Rightarrow> bool" where
  "lessStable a b \<longleftrightarrow> stableKey a < stableKey b"

definition buildReason :: "strategy_kind \<Rightarrow> expanded \<Rightarrow> string \<Rightarrow> string" where
  "buildReason strategy e extra =
     ''strategy='' @ strategy @ '' step='' @ itoa (ex_step e) @
     (if ex_weight e \<noteq> 1 then '' weight='' @ itoa (ex_weight e) else '''') @
     (if \<not> ex_compatible e then '' capability_mismatch'' else '''') @
     (if extra \<noteq> '''' then '' '' @ extra else '''')"

text \<open>\<open>strconv.FormatFloat(f, 'f', 3, 64)\<close>: the exact value rounded to three decimals, ties to even.\<close>

definition ftoa :: "float64 \<Rightarrow> string" where
  "ftoa r = (let n = nat (round_even (\<bar>r\<bar> * 1000)); f = n mod 1000
     in (if r < 0 then ''-'' else '''') @ show_nat (n div 1000) @ ''.'' @
        show_nat (f div 100) @ show_nat (f div 10 mod 10) @ show_nat (f mod 10))"

definition itoa64 :: "int \<Rightarrow> string" where
  "itoa64 n = (if n = 0 then ''0'' else
     (let m = (if n < 0 then wrap64 (- n) else n)
      in (if n < 0 then ''-'' else '''') @ (if m > 0 then show_nat (nat m) else '''')))"

section \<open>Environment\<close>

record signals =
  sg_QuotaRemaining :: "candidate \<Rightarrow> float64"
  sg_BreakerHealth :: "candidate \<Rightarrow> float64"
  sg_Latency :: "candidate \<Rightarrow> float64"
  sg_InFlight :: "candidate \<Rightarrow> int"

text \<open>A random source is its state and what \<open>Intn\<close> draws from it; a nil port is \<^const>\<open>None\<close>.\<close>

record 'g env =
  ev_cursor :: "cursor option"
  ev_rng :: "('g \<Rightarrow> int \<Rightarrow> int \<times> 'g) option"
  ev_combo :: string
  ev_cred :: "(provider_id \<Rightarrow> credential_id list) option"
  ev_cost :: "(provider_id \<Rightarrow> model_id \<Rightarrow> int option) option"
  ev_signals :: "signals option"

record 'g ordered =
  or_candidates :: "candidate list"
  or_in :: "expanded list"
  or_cursor :: "cursor option"
  or_seed :: 'g

definition ordered_pure :: "candidate list \<Rightarrow> expanded list \<Rightarrow> 'g env \<Rightarrow> 'g \<Rightarrow> 'g ordered option" where
  "ordered_pure cs ins ec g = Some \<lparr>or_candidates = cs, or_in = ins, or_cursor = ev_cursor ec, or_seed = g\<rparr>"

section \<open>Step order: priority, fallback, fusion, pipeline\<close>

definition less_step :: "expanded \<Rightarrow> expanded \<Rightarrow> bool" where
  "less_step a b = (if ex_step a \<noteq> ex_step b then ex_step a < ex_step b
     else lessStable (ex_candidate a) (ex_candidate b))"

definition priority_Order :: "expanded list \<Rightarrow> 'g env \<Rightarrow> 'g \<Rightarrow> 'g ordered option" where
  "priority_Order ins ec g = (let s = slice_stable less_step ins in
     ordered_pure (map (\<lambda>e. (ex_candidate e)\<lparr>cand_score := Fin (float_of_int (ex_step e)),
       cand_reason := buildReason StrategyPriority e ''''\<rparr>) s) s ec g)"

definition fallback_Order :: "expanded list \<Rightarrow> 'g env \<Rightarrow> 'g \<Rightarrow> 'g ordered option" where
  "fallback_Order ins ec g = (let s = slice_stable less_step ins in
     ordered_pure (map (\<lambda>e. (ex_candidate e)\<lparr>cand_reason := buildReason StrategyFallback e ''''\<rparr>) s) s ec g)"

definition fusion_Order :: "expanded list \<Rightarrow> 'g env \<Rightarrow> 'g \<Rightarrow> 'g ordered option" where
  "fusion_Order ins ec g = (let s = slice_stable less_step ins in
     ordered_pure (map (\<lambda>e. (ex_candidate e)\<lparr>cand_reason := buildReason StrategyFusion e ''''\<rparr>) s) s ec g)"

definition pipeline_Order :: "expanded list \<Rightarrow> 'g env \<Rightarrow> 'g \<Rightarrow> 'g ordered option" where
  "pipeline_Order ins ec g = (let s = slice_stable less_step ins in
     ordered_pure (map (\<lambda>e. (ex_candidate e)\<lparr>cand_reason := buildReason StrategyPipeline e ''chain=sequential''\<rparr>) s) s ec g)"

section \<open>Round robin\<close>

definition less_expanded :: "expanded \<Rightarrow> expanded \<Rightarrow> bool" where
  "less_expanded a b \<longleftrightarrow> lessStable (ex_candidate a) (ex_candidate b)"

text \<open>The distinct tiers, ascending.\<close>

definition tier_order :: "expanded list \<Rightarrow> int list" where
  "tier_order ins = sort (remdups (map ex_step ins))"

definition rr_emit :: "expanded list \<Rightarrow> int \<Rightarrow> candidate list" where
  "rr_emit grp start = map (\<lambda>k. let pos = (nat start + k) mod length grp; e = grp ! pos in
     (ex_candidate e)\<lparr>cand_score := Fin (float_of_int (int pos)),
       cand_reason := buildReason StrategyRoundRobin e (''cursor='' @ itoa start)\<rparr>) [0 ..< length grp]"

fun rr_tiers :: "string \<Rightarrow> expanded list \<Rightarrow> int list \<Rightarrow> cursor option \<Rightarrow> candidate list \<times> cursor option" where
  "rr_tiers combo ins [] cur = ([], cur)"
| "rr_tiers combo ins (tier # tiers) cur =
     (let grp = slice_stable less_expanded (filter (\<lambda>e. ex_step e = tier) ins);
          (start, cur') = (case cur of
              None \<Rightarrow> (0, None)
            | Some c \<Rightarrow> (let (i, c') = nextRR c (rrKey combo tier) (int (length grp)) in (i, Some c')));
          (rest, cur'') = rr_tiers combo ins tiers cur'
      in (rr_emit grp start @ rest, cur''))"

definition roundRobin_Order :: "expanded list \<Rightarrow> 'g env \<Rightarrow> 'g \<Rightarrow> 'g ordered option" where
  "roundRobin_Order ins ec g =
     (let (cs, cur) = rr_tiers (ev_combo ec) ins (tier_order ins) (ev_cursor ec)
      in Some \<lparr>or_candidates = cs, or_in = ins, or_cursor = cur, or_seed = g\<rparr>)"

section \<open>Weighted draw\<close>

text \<open>The total weight is a Go \<open>int\<close>; \<open>Intn\<close> panics on a bound that is not positive.\<close>

fun total_weight :: "expanded list \<Rightarrow> nat list \<Rightarrow> int \<Rightarrow> int" where
  "total_weight grp [] acc = acc"
| "total_weight grp (i # js) acc = total_weight grp js (wrap64 (acc + ex_weight (grp ! i)))"

text \<open>The position the draw \<open>r\<close> falls on; \<open>0\<close> when it falls on none.\<close>

fun pick_weight :: "expanded list \<Rightarrow> int \<Rightarrow> nat list \<Rightarrow> int \<Rightarrow> nat \<Rightarrow> nat" where
  "pick_weight grp r [] acc pos = 0"
| "pick_weight grp r (i # js) acc pos =
     (let acc' = wrap64 (acc + ex_weight (grp ! i))
      in if r < acc' then pos else pick_weight grp r js acc' (Suc pos))"

definition drop_at :: "nat \<Rightarrow> 'a list \<Rightarrow> 'a list" where
  "drop_at i xs = take i xs @ drop (Suc i) xs"

fun draw_loop :: "nat \<Rightarrow> expanded list \<Rightarrow> ('g \<Rightarrow> int \<Rightarrow> int \<times> 'g) \<Rightarrow> 'g \<Rightarrow> nat list \<Rightarrow> (nat list \<times> 'g) option" where
  "draw_loop 0 grp intn g remaining = Some ([], g)"
| "draw_loop (Suc n) grp intn g remaining =
     (if remaining = [] then Some ([], g) else
      (let total = total_weight grp remaining 0 in
       if total \<le> 0 then None else
       (let (r, g') = intn g total; pick = pick_weight grp r remaining 0 0 in
        (case draw_loop n grp intn g' (drop_at pick remaining) of
           None \<Rightarrow> None
         | Some (out, g'') \<Rightarrow> Some (remaining ! pick # out, g'')))))"

definition weightedDraw :: "expanded list \<Rightarrow> ('g \<Rightarrow> int \<Rightarrow> int \<times> 'g) option \<Rightarrow> 'g \<Rightarrow> (nat list \<times> 'g) option" where
  "weightedDraw grp rng g = (case rng of
      None \<Rightarrow> Some (slice_stable (\<lambda>i j. ex_weight (grp ! i) \<noteq> ex_weight (grp ! j) \<and>
                ex_weight (grp ! i) > ex_weight (grp ! j)) [0 ..< length grp], g)
    | Some intn \<Rightarrow> draw_loop (length grp) grp intn g [0 ..< length grp])"

definition weighted_Order :: "expanded list \<Rightarrow> 'g env \<Rightarrow> 'g \<Rightarrow> 'g ordered option" where
  "weighted_Order ins ec g =
     (let grp = slice_stable less_expanded ins in
      case weightedDraw grp (ev_rng ec) g of
        None \<Rightarrow> None
      | Some (order, g') \<Rightarrow> Some \<lparr>or_candidates = map (\<lambda>(rank, idx). let e = grp ! idx in
            (ex_candidate e)\<lparr>cand_score := Fin (float_of_int (ex_weight e)),
              cand_reason := buildReason StrategyWeighted e
                (''weight='' @ itoa (ex_weight e) @ '' draw='' @ itoa (int rank))\<rparr>)
            (enumerate 0 order), or_in = ins, or_cursor = ev_cursor ec, or_seed = g'\<rparr>)"

section \<open>Fill first\<close>

definition less_fill :: "expanded \<Rightarrow> expanded \<Rightarrow> bool" where
  "less_fill a b = (if ex_step a \<noteq> ex_step b then ex_step a < ex_step b
     else if cand_provider (ex_candidate a) \<noteq> cand_provider (ex_candidate b)
       then cand_provider (ex_candidate a) < cand_provider (ex_candidate b)
     else lessStable (ex_candidate a) (ex_candidate b))"

definition fill_creds :: "'g env \<Rightarrow> expanded \<Rightarrow> credential_id list" where
  "fill_creds ec e = (case ev_cred ec of
      Some credentials \<Rightarrow> (if ex_allowed e = [] then credentials (cand_provider (ex_candidate e)) else ex_allowed e)
    | None \<Rightarrow> ex_allowed e)"

fun fill_loop :: "'g env \<Rightarrow> cursor option \<Rightarrow> expanded list \<Rightarrow> candidate list \<times> cursor option" where
  "fill_loop ec cur [] = ([], cur)"
| "fill_loop ec cur (e # es) =
     (let creds = fill_creds ec e; c = ex_candidate e;
          (c', cur') = (if creds = [] then (c, cur) else
             (case cur of
                None \<Rightarrow> (c\<lparr>cand_credential := creds ! 0\<rparr>, None)
              | Some cu \<Rightarrow> (let (start, cu') = nextFill cu (cand_provider c @ ''#'' @ itoa (ex_step e)) (int (length creds))
                  in (c\<lparr>cand_credential := creds ! nat start\<rparr>, Some cu'))));
          (rest, cur'') = fill_loop ec cur' es
      in (c'\<lparr>cand_reason := buildReason StrategyFillFirst e (''credential='' @ cand_credential c')\<rparr> # rest, cur''))"

definition fillFirst_Order :: "expanded list \<Rightarrow> 'g env \<Rightarrow> 'g \<Rightarrow> 'g ordered option" where
  "fillFirst_Order ins ec g =
     (let s = slice_stable less_fill ins; (cs, cur) = fill_loop ec (ev_cursor ec) s
      in Some \<lparr>or_candidates = cs, or_in = s, or_cursor = cur, or_seed = g\<rparr>)"

section \<open>Cost\<close>

definition cost_of :: "'g env \<Rightarrow> candidate \<Rightarrow> int option" where
  "cost_of ec c = (case ev_cost ec of None \<Rightarrow> None | Some costMicros \<Rightarrow> costMicros (cand_provider c) (cand_model c))"

definition less_cost :: "expanded \<times> int option \<Rightarrow> expanded \<times> int option \<Rightarrow> bool" where
  "less_cost a b = (case (snd a, snd b) of
      (Some _, None) \<Rightarrow> True
    | (None, Some _) \<Rightarrow> False
    | (Some x, Some y) \<Rightarrow> (if x \<noteq> y then x < y else less_expanded (fst a) (fst b))
    | (None, None) \<Rightarrow> less_expanded (fst a) (fst b))"

definition cost_Order :: "expanded list \<Rightarrow> 'g env \<Rightarrow> 'g \<Rightarrow> 'g ordered option" where
  "cost_Order ins ec g = ordered_pure
     (map (\<lambda>(e, cost). (ex_candidate e)
         \<lparr>cand_score := (case cost of Some x \<Rightarrow> Fin (float_of_int x) | None \<Rightarrow> PosInf),
          cand_reason := buildReason StrategyCost e
            (case cost of Some x \<Rightarrow> ''cost_micros='' @ itoa64 x | None \<Rightarrow> ''cost_unknown'')\<rparr>)
       (slice_stable less_cost (map (\<lambda>e. (e, cost_of ec (ex_candidate e))) ins))) ins ec g"

section \<open>Power of two choices\<close>

definition pressure :: "signals \<Rightarrow> candidate \<Rightarrow> float64" where
  "pressure s c = fl (fl (fl (fl (fl (1 - sg_QuotaRemaining s c) * 2) + fl (fl (1 - sg_BreakerHealth s c) * 2))
     + sg_Latency s c) + float_of_int (sg_InFlight s c))"

definition betterPressure :: "'g env \<Rightarrow> expanded \<Rightarrow> expanded \<Rightarrow> nat" where
  "betterPressure ec a b = (case ev_signals ec of
      None \<Rightarrow> 0
    | Some s \<Rightarrow> (if pressure s (ex_candidate b) < pressure s (ex_candidate a) then 1 else 0))"

definition p2cCandidate :: "expanded \<Rightarrow> 'g env \<Rightarrow> int \<Rightarrow> candidate" where
  "p2cCandidate e ec rank =
     (let c = ex_candidate e;
          c' = (case ev_signals ec of None \<Rightarrow> c | Some s \<Rightarrow> c\<lparr>cand_score := Fin (pressure s c)\<rparr>)
      in c'\<lparr>cand_reason := buildReason StrategyP2C e (''pick='' @ itoa rank)\<rparr>)"

fun p2c_loop :: "nat \<Rightarrow> expanded list \<Rightarrow> 'g env \<Rightarrow> ('g \<Rightarrow> int \<Rightarrow> int \<times> 'g) \<Rightarrow> 'g \<Rightarrow> nat list \<Rightarrow> int
    \<Rightarrow> candidate list \<times> 'g" where
  "p2c_loop 0 grp ec intn g remaining rank = ([], g)"
| "p2c_loop (Suc n) grp ec intn g remaining rank =
     (if remaining = [] then ([], g) else
      (let (pick, g') = (if length remaining = 1 then (0, g) else
             (let (a, g1) = intn g (int (length remaining));
                  (b0, g2) = intn g1 (int (length remaining) - 1);
                  b = (if b0 \<ge> a then b0 + 1 else b0)
              in (betterPressure ec (grp ! (remaining ! nat a)) (grp ! (remaining ! nat b)), g2)));
           (out, g'') = p2c_loop n grp ec intn g' (drop_at pick remaining) (rank + 1)
       in (p2cCandidate (grp ! (remaining ! pick)) ec rank # out, g'')))"

definition p2c_Order :: "expanded list \<Rightarrow> 'g env \<Rightarrow> 'g \<Rightarrow> 'g ordered option" where
  "p2c_Order ins ec g =
     (let grp = slice_stable less_expanded ins in
      case ev_rng ec of
        None \<Rightarrow> ordered_pure (map (\<lambda>e. p2cCandidate e ec 0) grp) ins ec g
      | Some intn \<Rightarrow> (let (cs, g') = p2c_loop (length grp) grp ec intn g [0 ..< length grp] 0
          in Some \<lparr>or_candidates = cs, or_in = ins, or_cursor = ev_cursor ec, or_seed = g'\<rparr>))"

section \<open>Auto\<close>

definition clamp01 :: "float64 \<Rightarrow> float64" where
  "clamp01 v = (if v < 0 then 0 else if v > 1 then 1 else v)"

definition autoCostCeilingMicros :: float64 where "autoCostCeilingMicros = 50"

text \<open>The weights as the compiler rounds the decimal literals.\<close>

definition weight_quota :: float64 where "weight_quota = fl (30 / 100)"
definition weight_health :: float64 where "weight_health = fl (25 / 100)"
definition weight_cost :: float64 where "weight_cost = fl (15 / 100)"
definition weight_latency :: float64 where "weight_latency = fl (15 / 100)"
definition weight_tier :: float64 where "weight_tier = fl (5 / 100)"
definition weight_capfit :: float64 where "weight_capfit = fl (10 / 100)"

definition cost_factor :: "'g env \<Rightarrow> candidate \<Rightarrow> float64" where
  "cost_factor ec c = (case cost_of ec c of
      Some micros \<Rightarrow> (if micros > 0
        then fl (1 - clamp01 (fl (float_of_int micros / autoCostCeilingMicros))) else 0)
    | None \<Rightarrow> 0)"

definition autoScore :: "'g env \<Rightarrow> candidate \<Rightarrow> float64 \<times> string" where
  "autoScore ec c =
     (let quota = (case ev_signals ec of None \<Rightarrow> 1 | Some s \<Rightarrow> sg_QuotaRemaining s c);
          health = (case ev_signals ec of None \<Rightarrow> 1 | Some s \<Rightarrow> sg_BreakerHealth s c);
          latency = (case ev_signals ec of None \<Rightarrow> 0 | Some s \<Rightarrow> sg_Latency s c);
          cost = cost_factor ec c; capfit = 1;
          score = fl (fl (fl (fl (fl (fl (weight_quota * quota) + fl (weight_health * health))
            + fl (weight_cost * cost)) + fl (weight_latency * fl (1 - latency)))
            + fl (weight_tier * 1)) + fl (weight_capfit * capfit))
      in (score, ''quota='' @ ftoa quota @ '' health='' @ ftoa health @ '' cost='' @ ftoa cost @
            '' latency='' @ ftoa latency @ '' capfit='' @ ftoa capfit))"

definition less_auto :: "expanded \<times> float64 \<times> string \<Rightarrow> expanded \<times> float64 \<times> string \<Rightarrow> bool" where
  "less_auto a b = (if fst (snd a) \<noteq> fst (snd b) then fst (snd a) > fst (snd b) else less_expanded (fst a) (fst b))"

definition auto_Order :: "expanded list \<Rightarrow> 'g env \<Rightarrow> 'g \<Rightarrow> 'g ordered option" where
  "auto_Order ins ec g = ordered_pure
     (map (\<lambda>(e, score, notes). (ex_candidate e)\<lparr>cand_score := Fin score,
         cand_reason := buildReason StrategyAuto e notes\<rparr>)
       (slice_stable less_auto (map (\<lambda>e. (e, autoScore ec (ex_candidate e))) ins))) ins ec g"

section \<open>The strategy set\<close>

type_synonym 'g strategy_fun = "expanded list \<Rightarrow> 'g env \<Rightarrow> 'g \<Rightarrow> 'g ordered option"

definition defaultStrategies :: "(strategy_kind \<times> 'g strategy_fun) list" where
  "defaultStrategies = [(StrategyPriority, priority_Order), (StrategyFallback, fallback_Order),
     (StrategyRoundRobin, roundRobin_Order), (StrategyWeighted, weighted_Order),
     (StrategyFillFirst, fillFirst_Order), (StrategyCost, cost_Order), (StrategyP2C, p2c_Order),
     (StrategyFusion, fusion_Order), (StrategyPipeline, pipeline_Order), (StrategyAuto, auto_Order)]"

definition defaultStrategy :: "strategy_kind \<Rightarrow> strategy_kind" where
  "defaultStrategy k = (case ParseStrategyKind k of Some _ \<Rightarrow> k | None \<Rightarrow> StrategyAuto)"

definition invalidCombo :: "string \<Rightarrow> string \<Rightarrow> domain_error" where
  "invalidCombo name reason = New CodeRouteInvalidCombo
     [WithHTTPStatus 400, WithScope ScopeRequest, WithParams [(''name'', name), (''reason'', reason)]]"

type_synonym 'g registry = "strategy_kind \<rightharpoonup> 'g strategy_fun"

text \<open>A nil strategy is \<^const>\<open>None\<close>.\<close>

fun register_all :: "(strategy_kind \<times> 'g strategy_fun) option list \<Rightarrow> 'g registry \<Rightarrow> domain_error + 'g registry" where
  "register_all [] m = Inr m"
| "register_all (None # ss) m = Inl (invalidCombo '''' ''nil strategy'')"
| "register_all (Some (k, f) # ss) m =
     (if ParseStrategyKind k = None then Inl (invalidCombo '''' (''unknown strategy kind '' @ k))
      else if m k \<noteq> None then Inl (invalidCombo '''' (''duplicate strategy '' @ k))
      else register_all ss (m(k \<mapsto> f)))"

definition newRegistry :: "(strategy_kind \<times> 'g strategy_fun) option list \<Rightarrow> domain_error + 'g registry" where
  "newRegistry list = register_all list Map.empty"

definition registry_Get :: "'g registry \<Rightarrow> strategy_kind \<Rightarrow> domain_error + 'g strategy_fun" where
  "registry_Get m kind = (case m kind of
      None \<Rightarrow> Inl (invalidCombo '''' (''unknown strategy '' @ kind)) | Some f \<Rightarrow> Inr f)"

end
