(* ===== verification/Strategy_Laws.thy ===== *)
theory Strategy_Laws
  imports Strategies
begin

text \<open>
  What the strategies promise.  The \<open>Strategy\<close> interface is a locale: an \<open>Order\<close> only reorders,
  and leaves the slice it was given a permutation of itself.  Each of the ten strategies is an
  interpretation.  After it come the laws of the single strategies: the rotation, the draw, the
  cost and score orders, and what the two-choices and fill-first strategies really do.
\<close>

section \<open>The interface\<close>

definition target :: "candidate \<Rightarrow> provider_id \<times> model_id" where
  "target c = (cand_provider c, cand_model c)"

abbreviation ex_target :: "expanded \<Rightarrow> provider_id \<times> model_id" where
  "ex_target e \<equiv> target (ex_candidate e)"

lemma target_upd [simp]:
  "target (c\<lparr>cand_score := s\<rparr>) = target c" "target (c\<lparr>cand_reason := r\<rparr>) = target c"
  "target (c\<lparr>cand_credential := k\<rparr>) = target c"
  by (simp_all add: target_def)

locale strategy =
  fixes order :: "'g strategy_fun"
  assumes reorders: "order ins ec g = Some r \<Longrightarrow> mset (map target (or_candidates r)) = mset (map ex_target ins)"
    and keeps_in: "order ins ec g = Some r \<Longrightarrow> mset (or_in r) = mset ins"
begin

lemma order_length: "order ins ec g = Some r \<Longrightarrow> length (or_candidates r) = length ins"
  using reorders [THEN mset_eq_length] by simp

lemma order_targets: "order ins ec g = Some r \<Longrightarrow> target ` set (or_candidates r) = ex_target ` set ins"
  using reorders [THEN mset_eq_setD] by simp

lemma order_nonempty: "order ins ec g = Some r \<Longrightarrow> or_candidates r = [] \<longleftrightarrow> ins = []"
  using order_length by fastforce

end

text \<open>All strategies but fill first, which picks an account, keep the credential field too.\<close>

definition ident :: "candidate \<Rightarrow> (provider_id \<times> model_id) \<times> credential_id" where
  "ident c = (target c, cand_credential c)"

abbreviation ex_ident :: "expanded \<Rightarrow> (provider_id \<times> model_id) \<times> credential_id" where
  "ex_ident e \<equiv> ident (ex_candidate e)"

lemma ident_upd [simp]:
  "ident (c\<lparr>cand_score := s\<rparr>) = ident c" "ident (c\<lparr>cand_reason := r\<rparr>) = ident c"
  by (simp_all add: ident_def)

locale stable_strategy = strategy order for order :: "'g strategy_fun" +
  assumes keeps_ident: "order ins ec g = Some r \<Longrightarrow> mset (map ident (or_candidates r)) = mset (map ex_ident ins)"
begin

lemma order_idents: "order ins ec g = Some r \<Longrightarrow> ident ` set (or_candidates r) = ex_ident ` set ins"
  using keeps_ident [THEN mset_eq_setD] by simp

end

lemma stable_strategyI:
  assumes "\<And>ins ec g r. order ins ec g = Some r \<Longrightarrow> mset (map ident (or_candidates r)) = mset (map ex_ident ins)"
    and "\<And>ins ec g r. order ins ec g = Some r \<Longrightarrow> mset (or_in r) = mset ins"
  shows "stable_strategy order"
proof
  fix ins ec g r assume o': "order ins ec g = Some r"
  have "map target cs = map fst (map ident cs)" for cs by (simp add: ident_def)
  moreover have "map ex_target ins = map fst (map ex_ident ins)" by (simp add: ident_def)
  ultimately show "mset (map target (or_candidates r)) = mset (map ex_target ins)"
    using assms(1) [OF o'] by (metis mset_map)
  show "mset (or_in r) = mset ins" "mset (map ident (or_candidates r)) = mset (map ex_ident ins)"
    using assms o' by blast+
qed

text \<open>A random source keeps to its bound.\<close>

locale rng_port =
  fixes intn :: "'g \<Rightarrow> int \<Rightarrow> int \<times> 'g"
  assumes in_range: "0 < n \<Longrightarrow> 0 \<le> fst (intn g n) \<and> fst (intn g n) < n"

text \<open>The fixed sequence a test injects is one.\<close>

definition tape_intn :: "int list \<Rightarrow> int \<Rightarrow> int \<times> int list" where
  "tape_intn g n = (case g of [] \<Rightarrow> (0, []) | x # xs \<Rightarrow> (x mod n, xs))"

interpretation tape: rng_port tape_intn
  by unfold_locales (simp add: tape_intn_def split: list.splits)

section \<open>The strategies are lawful\<close>

lemma mset_map_slice_stable: "mset (map f (slice_stable lt xs)) = mset (map f xs)"
  by simp

lemma ordered_pure_strategy:
  assumes "\<And>ins ec. \<exists>s. mset s = mset ins \<and> mset (map ident (cs ins ec)) = mset (map ex_ident s)"
    and "\<And>ins ec. mset (after ins ec) = mset ins"
  shows "stable_strategy (\<lambda>ins ec g. ordered_pure (cs ins ec) (after ins ec) ec g)"
proof (rule stable_strategyI)
  fix ins g and ec :: "'a env" and r :: "'a ordered"
  assume "ordered_pure (cs ins ec) (after ins ec) ec g = Some r"
  then have r: "or_candidates r = cs ins ec" "or_in r = after ins ec"
    by (auto simp: ordered_pure_def)
  obtain s where "mset s = mset ins" "mset (map ident (cs ins ec)) = mset (map ex_ident s)"
    using assms(1) by blast
  then show "mset (map ident (or_candidates r)) = mset (map ex_ident ins)"
    unfolding r by (metis mset_map)
  show "mset (or_in r) = mset ins" by (simp add: r assms(2))
qed

lemma step_strategy:
  assumes "\<And>e. ident (f e) = ex_ident e"
  shows "stable_strategy (\<lambda>ins ec g. ordered_pure (map f (slice_stable less_step ins)) (slice_stable less_step ins) ec g)"
  by (rule ordered_pure_strategy) (auto simp: assms comp_def intro!: exI [of _ "slice_stable less_step _"])

lemma priority_lawful: "stable_strategy priority_Order"
  unfolding priority_Order_def [abs_def] Let_def by (rule step_strategy) simp

lemma fallback_lawful: "stable_strategy fallback_Order"
  unfolding fallback_Order_def [abs_def] Let_def by (rule step_strategy) simp

lemma fusion_lawful: "stable_strategy fusion_Order"
  unfolding fusion_Order_def [abs_def] Let_def by (rule step_strategy) simp

lemma pipeline_lawful: "stable_strategy pipeline_Order"
  unfolding pipeline_Order_def [abs_def] Let_def by (rule step_strategy) simp

lemma cost_lawful: "stable_strategy cost_Order"
  unfolding cost_Order_def [abs_def]
proof (rule ordered_pure_strategy)
  fix ins and ec :: "'a env"
  let ?s = "slice_stable less_cost (map (\<lambda>e. (e, cost_of ec (ex_candidate e))) ins)"
  have "mset (map fst ?s) = mset (map fst (map (\<lambda>e. (e, cost_of ec (ex_candidate e))) ins))"
    by (simp only: mset_map mset_slice_stable)
  then show "\<exists>s. mset s = mset ins \<and> mset (map ident (map (\<lambda>(e, cost). (ex_candidate e)
         \<lparr>cand_score := (case cost of Some x \<Rightarrow> Fin (float_of_int x) | None \<Rightarrow> PosInf),
          cand_reason := buildReason StrategyCost e
            (case cost of Some x \<Rightarrow> ''cost_micros='' @ itoa64 x | None \<Rightarrow> ''cost_unknown'')\<rparr>) ?s)) =
        mset (map ex_ident s)"
    by (intro exI [of _ "map fst ?s"]) (simp add: comp_def case_prod_beta)
qed simp

lemma auto_lawful: "stable_strategy auto_Order"
  unfolding auto_Order_def [abs_def]
proof (rule ordered_pure_strategy)
  fix ins and ec :: "'a env"
  let ?s = "slice_stable less_auto (map (\<lambda>e. (e, autoScore ec (ex_candidate e))) ins)"
  have "mset (map fst ?s) = mset (map fst (map (\<lambda>e. (e, autoScore ec (ex_candidate e))) ins))"
    by (simp only: mset_map mset_slice_stable)
  then show "\<exists>s. mset s = mset ins \<and> mset (map ident (map (\<lambda>(e, score, notes). (ex_candidate e)
         \<lparr>cand_score := Fin score, cand_reason := buildReason StrategyAuto e notes\<rparr>) ?s)) =
        mset (map ex_ident s)"
    by (intro exI [of _ "map fst ?s"]) (simp add: comp_def case_prod_beta)
qed simp

lemma target_rr_emit: "map ident (rr_emit grp start) = rotate (nat start) (map ex_ident grp)"
  by (rule nth_equalityI)
    (auto simp: rr_emit_def Let_def nth_rotate intro!: nth_map [symmetric] mod_less_divisor)

lemma mset_rotate1: "mset (rotate1 xs) = mset xs"
  by (cases xs) simp_all

lemma mset_rotate: "mset (rotate n xs) = mset xs"
  by (induction n) (simp_all only: rotate_Suc mset_rotate1 rotate0 id_apply)

lemma rr_tiers_targets:
  "distinct tiers \<Longrightarrow> mset (map ident (fst (rr_tiers combo ins tiers cur))) =
     mset (map ex_ident (filter (\<lambda>e. ex_step e \<in> set tiers) ins))"
proof (induction tiers arbitrary: cur)
  case (Cons t ts)
  let ?grp = "slice_stable less_expanded (filter (\<lambda>e. ex_step e = t) ins)"
  obtain start cur' where sc: "(case cur of None \<Rightarrow> (0, None)
      | Some c \<Rightarrow> (let (i, c') = nextRR c (rrKey combo t) (int (length ?grp)) in (i, Some c'))) = (start, cur')"
    by (meson surj_pair)
  have split: "mset (map ex_ident (filter (\<lambda>e. ex_step e = t) ins)) +
      mset (map ex_ident (filter (\<lambda>e. ex_step e \<in> set ts) ins)) =
      mset (map ex_ident (filter (\<lambda>e. ex_step e \<in> set (t # ts)) ins))"
    using Cons.prems by (induction ins) auto
  have "mset (map ident (fst (rr_tiers combo ins (t # ts) cur))) =
      mset (rotate (nat start) (map ex_ident ?grp)) + mset (map ident (fst (rr_tiers combo ins ts cur')))"
    using sc by (simp add: Let_def case_prod_beta target_rr_emit [symmetric])
  with Cons split show ?case by (simp add: mset_rotate)
qed simp

lemma roundRobin_lawful: "stable_strategy roundRobin_Order"
proof (rule stable_strategyI)
  fix ins g and ec :: "'a env" and r :: "'a ordered"
  assume "roundRobin_Order ins ec g = Some r"
  then have r: "or_candidates r = fst (rr_tiers (ev_combo ec) ins (tier_order ins) (ev_cursor ec))" "or_in r = ins"
    by (auto simp: roundRobin_Order_def case_prod_beta)
  have "filter (\<lambda>e. ex_step e \<in> set (tier_order ins)) ins = ins"
    by (simp add: tier_order_def filter_id_conv)
  moreover have "distinct (tier_order ins)" by (simp add: tier_order_def)
  ultimately show "mset (map ident (or_candidates r)) = mset (map ex_ident ins)"
    unfolding r by (simp only: rr_tiers_targets)
  show "mset (or_in r) = mset ins" by (simp add: r)
qed

lemma mset_drop_at: "i < length xs \<Longrightarrow> add_mset (xs ! i) (mset (drop_at i xs)) = mset xs"
  by (metis drop_at_def id_take_nth_drop mset.simps(2) mset_append union_mset_add_mset_right)

lemma length_drop_at [simp]: "i < length xs \<Longrightarrow> length (drop_at i xs) = length xs - 1"
  by (simp add: drop_at_def)

lemma pick_weight_bounds:
  "pick_weight grp r xs acc pos = 0 \<or> (pos \<le> pick_weight grp r xs acc pos \<and> pick_weight grp r xs acc pos < pos + length xs)"
proof (induction xs arbitrary: acc pos)
  case (Cons i js)
  show ?case using Cons [of "wrap64 (acc + ex_weight (grp ! i))" "Suc pos"] by (auto simp: Let_def)
qed simp

lemma pick_weight_range: "xs \<noteq> [] \<Longrightarrow> pick_weight grp r xs acc 0 < length xs"
  using pick_weight_bounds [of grp r xs acc 0] by auto

lemma draw_loop_mset:
  "draw_loop n grp intn g xs = Some (out, g') \<Longrightarrow> length xs \<le> n \<Longrightarrow> mset out = mset xs"
proof (induction n grp intn g xs arbitrary: out g' rule: draw_loop.induct)
  case (2 n grp intn g xs)
  show ?case
  proof (cases "xs = []")
    case True
    with "2.prems" show ?thesis by simp
  next
    case False
    obtain r g1 where draw: "intn g (total_weight grp xs 0) = (r, g1)" by fastforce
    let ?p = "pick_weight grp r xs 0 0"
    from "2.prems" False draw obtain rest where rest: "\<not> total_weight grp xs 0 \<le> 0"
      "draw_loop n grp intn g1 (drop_at ?p xs) = Some (rest, g')" "out = xs ! ?p # rest"
      by (auto simp: Let_def split: option.splits if_splits)
    have p: "?p < length xs" using False by (rule pick_weight_range)
    have "mset rest = mset (drop_at ?p xs)"
      using "2.IH" [OF False refl rest(1) draw [symmetric] refl refl rest(2)] "2.prems"(2) p by simp
    with p rest(3) show ?thesis by (simp add: mset_drop_at)
  qed
qed simp

lemma weightedDraw_mset: "weightedDraw grp rng g = Some (out, g') \<Longrightarrow> mset out = mset [0 ..< length grp]"
  by (auto simp: weightedDraw_def split: option.splits dest: draw_loop_mset)

lemma mset_map_indices:
  assumes "mset js = mset [0 ..< length xs]"
  shows "mset (map (\<lambda>i. f (xs ! i)) js) = mset (map f xs)"
proof -
  have "mset (map (\<lambda>i. f (xs ! i)) js) = mset (map (\<lambda>i. f (xs ! i)) [0 ..< length xs])"
    using assms by (metis mset_map)
  also have "map (\<lambda>i. f (xs ! i)) [0 ..< length xs] = map f xs"
    by (rule nth_equalityI) simp_all
  finally show ?thesis .
qed

lemma map_enumerate_snd: "map (\<lambda>(r, i). f i) (enumerate n xs) = map f xs"
  by (rule nth_equalityI) (simp_all add: nth_enumerate_eq)

lemma weighted_lawful: "stable_strategy weighted_Order"
proof (rule stable_strategyI)
  fix ins g and ec :: "'a env" and r :: "'a ordered"
  let ?grp = "slice_stable less_expanded ins"
  assume "weighted_Order ins ec g = Some r"
  then obtain js g' where draw: "weightedDraw ?grp (ev_rng ec) g = Some (js, g')"
    and o': "or_candidates r = map (\<lambda>(rank, idx). let e = ?grp ! idx in
            (ex_candidate e)\<lparr>cand_score := Fin (float_of_int (ex_weight e)),
              cand_reason := buildReason StrategyWeighted e
                (''weight='' @ itoa (ex_weight e) @ '' draw='' @ itoa (int rank))\<rparr>) (enumerate 0 js)"
    and r2: "or_in r = ins"
    by (cases "weightedDraw ?grp (ev_rng ec) g") (auto simp: weighted_Order_def Let_def)
  have r: "map ident (or_candidates r) = map (\<lambda>(rank, idx). ex_ident (?grp ! idx)) (enumerate 0 js)"
    unfolding o' by (simp add: Let_def case_prod_beta)
  show "mset (map ident (or_candidates r)) = mset (map ex_ident ins)"
    using mset_map_indices [OF weightedDraw_mset [OF draw], of "\<lambda>e. ex_ident e"]
    by (simp add: r map_enumerate_snd)
  show "mset (or_in r) = mset ins" by (simp add: r2)
qed

lemma p2c_loop_targets:
  "length xs \<le> n \<Longrightarrow> mset (map ident (fst (p2c_loop n grp ec intn g xs rank))) = mset (map (\<lambda>i. ex_ident (grp ! i)) xs)"
proof (induction n arbitrary: g xs rank)
  case (Suc n)
  show ?case
  proof (cases "xs = []")
    case False
    obtain pick g' where step: "(if length xs = 1 then (0, g) else
             (let (a, g1) = intn g (int (length xs)); (b0, g2) = intn g1 (int (length xs) - 1);
                  b = (if b0 \<ge> a then b0 + 1 else b0)
              in (betterPressure ec (grp ! (xs ! nat a)) (grp ! (xs ! nat b)), g2))) = (pick, g')"
      by fastforce
    have pick: "pick < length xs"
    proof (cases "length xs = 1")
      case True
      with step show ?thesis by simp
    next
      case many: False
      then have "pick \<le> 1" using step
        by (auto simp: Let_def betterPressure_def split: prod.splits option.splits if_splits)
      moreover have "2 \<le> length xs" using many False by (cases xs rule: list.exhaust) (auto simp: Suc_le_eq)
      ultimately show ?thesis by linarith
    qed
    have "ident (p2cCandidate (grp ! (xs ! pick)) ec rank) = ex_ident (grp ! (xs ! pick))"
      by (simp add: p2cCandidate_def Let_def split: option.splits)
    then have "mset (map ident (fst (p2c_loop (Suc n) grp ec intn g xs rank))) =
        add_mset (ex_ident (grp ! (xs ! pick))) (mset (map (\<lambda>i. ex_ident (grp ! i)) (drop_at pick xs)))"
      using False step Suc pick by (simp add: Let_def case_prod_beta)
    also have "\<dots> = image_mset (\<lambda>i. ex_ident (grp ! i)) (add_mset (xs ! pick) (mset (drop_at pick xs)))"
      by simp
    finally show ?thesis using mset_drop_at [OF pick] by simp
  qed simp
qed simp

lemma p2c_lawful: "stable_strategy p2c_Order"
proof (rule stable_strategyI)
  fix ins g and ec :: "'a env" and r :: "'a ordered"
  let ?grp = "slice_stable less_expanded ins"
  assume o': "p2c_Order ins ec g = Some r"
  then show "mset (or_in r) = mset ins"
    by (auto simp: p2c_Order_def Let_def ordered_pure_def split: option.splits prod.splits)
  have render: "ident (p2cCandidate e ec k) = ex_ident e" for e k
    by (simp add: p2cCandidate_def Let_def split: option.splits)
  show "mset (map ident (or_candidates r)) = mset (map ex_ident ins)"
  proof (cases "ev_rng ec")
    case None
    with o' show ?thesis by (auto simp: p2c_Order_def Let_def ordered_pure_def render image_mset.compositionality comp_def)
  next
    case (Some intn)
    with o' have "or_candidates r = fst (p2c_loop (length ?grp) ?grp ec intn g [0 ..< length ?grp] 0)"
      by (auto simp: p2c_Order_def Let_def split: prod.splits)
    then have "mset (map ident (or_candidates r)) = mset (map (\<lambda>i. ex_ident (?grp ! i)) [0 ..< length ?grp])"
      by (simp only: p2c_loop_targets length_upt order.refl diff_zero)
    then show ?thesis using mset_map_indices [OF refl, of "\<lambda>e. ex_ident e" ?grp] by simp
  qed
qed

lemma fill_loop_targets: "map target (fst (fill_loop ec cur es)) = map ex_target es"
proof (induction es arbitrary: cur)
  case (Cons e es)
  show ?case by (cases cur) (simp_all add: Let_def case_prod_beta Cons)
qed simp

lemma fillFirst_lawful: "strategy fillFirst_Order"
proof
  fix ins g and ec :: "'a env" and r :: "'a ordered"
  assume "fillFirst_Order ins ec g = Some r"
  then have r: "map target (or_candidates r) = map ex_target (slice_stable less_fill ins)"
    "or_in r = slice_stable less_fill ins"
    using fill_loop_targets by (auto simp: fillFirst_Order_def Let_def case_prod_beta)
  show "mset (map target (or_candidates r)) = mset (map ex_target ins)" unfolding r by simp
  show "mset (or_in r) = mset ins" unfolding r by simp
qed

lemmas stable_strategies = priority_lawful fallback_lawful roundRobin_lawful weighted_lawful
  cost_lawful p2c_lawful fusion_lawful pipeline_lawful auto_lawful

interpretation priority: stable_strategy priority_Order by (rule priority_lawful)
interpretation fallback: stable_strategy fallback_Order by (rule fallback_lawful)
interpretation round_robin: stable_strategy roundRobin_Order by (rule roundRobin_lawful)
interpretation weighted: stable_strategy weighted_Order by (rule weighted_lawful)
interpretation cost: stable_strategy cost_Order by (rule cost_lawful)
interpretation p2c: stable_strategy p2c_Order by (rule p2c_lawful)
interpretation fusion: stable_strategy fusion_Order by (rule fusion_lawful)
interpretation pipeline: stable_strategy pipeline_Order by (rule pipeline_lawful)
interpretation auto: stable_strategy auto_Order by (rule auto_lawful)
interpretation fill_first: strategy fillFirst_Order by (rule fillFirst_lawful)

lemmas strategies_lawful = priority.strategy_axioms fallback.strategy_axioms round_robin.strategy_axioms
  weighted.strategy_axioms cost.strategy_axioms p2c.strategy_axioms fusion.strategy_axioms
  pipeline.strategy_axioms auto.strategy_axioms fillFirst_lawful

section \<open>Properties of the whole set\<close>

lemma default_strategy_lawful: "(k, f) \<in> set defaultStrategies \<Longrightarrow> strategy f"
  by (auto simp: defaultStrategies_def strategies_lawful)

definition sample_expanded :: "string \<Rightarrow> int \<Rightarrow> int \<Rightarrow> expanded" where
  "sample_expanded p step weight = \<lparr>ex_candidate = mk_candidate p ''m'', ex_step = step, ex_weight = weight,
     ex_allowed = [], ex_quota_only = False, ex_compatible = True\<rparr>"

definition sample_env :: "int list env" where
  "sample_env = \<lparr>ev_cursor = Some empty_cursor, ev_rng = Some tape_intn, ev_combo = ''c'', ev_cred = None,
     ev_cost = None, ev_signals = None\<rparr>"

text \<open>Every strategy reorders and drops nothing: when an \<open>Order\<close> of the built-in set answers,
  the attempts name the same provider and model pairs as the candidates it was given, each as
  often, and the slice it was given still holds the same candidates.\<close>

theorem strategies_only_reorder:
  assumes "(k, f) \<in> set defaultStrategies" and "f ins ec g = Some r"
  shows "mset (map target (or_candidates r)) = mset (map ex_target ins) \<and> mset (or_in r) = mset ins"
  using strategy.reorders [OF default_strategy_lawful [OF assms(1)] assms(2)]
    strategy.keeps_in [OF default_strategy_lawful [OF assms(1)] assms(2)] by blast

lemma strategies_only_reorder_witness:
  "\<exists>r. weighted_Order [sample_expanded ''b'' 0 1, sample_expanded ''a'' 1 5] sample_env [5] = Some r \<and>
     mset (map target (or_candidates r)) = {#(''a'', ''m''), (''b'', ''m'')#}"
proof -
  let ?ins = "[sample_expanded ''b'' 0 1, sample_expanded ''a'' 1 5]"
  have in_set: "(StrategyWeighted, weighted_Order) \<in> set (defaultStrategies :: (strategy_kind \<times> int list strategy_fun) list)"
    by (simp add: defaultStrategies_def)
  have "weighted_Order ?ins sample_env [5] \<noteq> None" by code_simp
  then obtain r where r: "weighted_Order ?ins sample_env [5] = Some r" by blast
  have "mset (map ex_target ?ins) = {#(''a'', ''m''), (''b'', ''m'')#}"
    by (simp add: sample_expanded_def target_def mk_candidate_def add_mset_commute)
  with r strategies_only_reorder [OF in_set r] show ?thesis by auto
qed

section \<open>No panic while the weights stay in range\<close>

definition weight_sum :: "expanded list \<Rightarrow> nat list \<Rightarrow> int" where
  "weight_sum grp js = sum_list (map (\<lambda>i. ex_weight (grp ! i)) js)"

lemma weight_sum_simps [simp]:
  "weight_sum grp [] = 0" "weight_sum grp (i # js) = ex_weight (grp ! i) + weight_sum grp js"
  by (simp_all add: weight_sum_def)

definition in_range_weights :: "expanded list \<Rightarrow> nat list \<Rightarrow> bool" where
  "in_range_weights grp js \<longleftrightarrow> (\<forall>i \<in> set js. 1 \<le> ex_weight (grp ! i)) \<and> weight_sum grp js < 2 ^ 63"

lemma weight_sum_nonneg: "\<forall>i \<in> set js. 1 \<le> ex_weight (grp ! i) \<Longrightarrow> 0 \<le> weight_sum grp js"
  by (induction js) auto

lemma total_weight_sum:
  "0 \<le> acc \<Longrightarrow> \<forall>i \<in> set js. 1 \<le> ex_weight (grp ! i) \<Longrightarrow> acc + weight_sum grp js < 2 ^ 63 \<Longrightarrow>
   total_weight grp js acc = acc + weight_sum grp js"
proof (induction js arbitrary: acc)
  case (Cons i js)
  have "0 \<le> weight_sum grp js" using Cons.prems by (simp add: weight_sum_nonneg)
  with Cons.prems have "wrap64 (acc + ex_weight (grp ! i)) = acc + ex_weight (grp ! i)"
    by (intro wrap64_id) auto
  with Cons show ?case by simp
qed simp

lemma weight_sum_perm: "mset js = mset js' \<Longrightarrow> weight_sum grp js = weight_sum grp js'"
  unfolding weight_sum_def by (metis mset_map sum_mset_sum_list)

lemma drop_at_subset: "set (drop_at i xs) \<subseteq> set xs"
  by (auto simp: drop_at_def dest: in_set_takeD in_set_dropD)

lemma weight_sum_drop_at: "i < length js \<Longrightarrow> weight_sum grp js = ex_weight (grp ! (js ! i)) + weight_sum grp (drop_at i js)"
  using weight_sum_perm [of js "js ! i # drop_at i js" grp] by (simp add: mset_drop_at)

lemma in_range_drop_at: "in_range_weights grp js \<Longrightarrow> i < length js \<Longrightarrow> in_range_weights grp (drop_at i js)"
proof -
  assume a: "in_range_weights grp js" "i < length js"
  then have one: "1 \<le> ex_weight (grp ! (js ! i))" by (simp add: in_range_weights_def)
  with a weight_sum_drop_at [OF a(2), of grp]
  have "weight_sum grp (drop_at i js) < 2 ^ 63" unfolding in_range_weights_def by linarith
  with a(1) drop_at_subset [of i js] show ?thesis by (auto simp: in_range_weights_def)
qed

lemma in_range_total:
  assumes "in_range_weights grp js" "js \<noteq> []"
  shows "total_weight grp js 0 = weight_sum grp js" "0 < weight_sum grp js"
proof -
  show "total_weight grp js 0 = weight_sum grp js"
    using assms total_weight_sum [of 0 js grp] by (simp add: in_range_weights_def)
  from assms obtain i rest where "js = i # rest" by (cases js) auto
  with assms weight_sum_nonneg [of rest grp] show "0 < weight_sum grp js"
    by (auto simp: in_range_weights_def)
qed

lemma draw_loop_answers: "in_range_weights grp js \<Longrightarrow> draw_loop n grp intn g js \<noteq> None"
proof (induction n arbitrary: g js)
  case (Suc n)
  show ?case
  proof (cases "js = []")
    case False
    have pos: "\<not> total_weight grp js 0 \<le> 0" using in_range_total [OF Suc.prems False] by simp
    have in_range: "in_range_weights grp (drop_at (pick_weight grp r js 0 0) js)" for r
      using Suc.prems pick_weight_range [OF False] by (rule in_range_drop_at)
    obtain r g1 where draw: "intn g (total_weight grp js 0) = (r, g1)" by fastforce
    have "draw_loop n grp intn g1 (drop_at (pick_weight grp r js 0 0) js) \<noteq> None"
      by (rule Suc.IH [OF in_range])
    then obtain out g2
      where "draw_loop n grp intn g1 (drop_at (pick_weight grp r js 0 0) js) = Some (out, g2)" by auto
    with pos False draw show ?thesis by (simp add: Let_def)
  qed simp
qed simp

lemma in_range_all:
  assumes "\<forall>e \<in> set ins. 1 \<le> ex_weight e" "sum_list (map ex_weight ins) < 2 ^ 63" "mset grp = mset ins"
  shows "in_range_weights grp [0 ..< length grp]"
proof -
  have "map (\<lambda>i. ex_weight (grp ! i)) [0 ..< length grp] = map ex_weight grp"
    by (rule nth_equalityI) simp_all
  then have "weight_sum grp [0 ..< length grp] = sum_list (map ex_weight grp)"
    by (simp add: weight_sum_def)
  also have "\<dots> = sum_list (map ex_weight ins)"
    using assms(3) by (metis mset_map sum_mset_sum_list)
  finally have "weight_sum grp [0 ..< length grp] < 2 ^ 63" using assms(2) by simp
  moreover have "set grp = set ins" using assms(3) by (rule mset_eq_setD)
  ultimately show ?thesis
    using assms(1) by (auto simp: in_range_weights_def)
qed

lemma weighted_answers:
  assumes "\<forall>e \<in> set ins. 1 \<le> ex_weight e" "sum_list (map ex_weight ins) < 2 ^ 63"
  shows "weighted_Order ins ec g \<noteq> None"
proof -
  let ?grp = "slice_stable less_expanded ins"
  have "weightedDraw ?grp (ev_rng ec) g \<noteq> None"
    using draw_loop_answers [OF in_range_all [OF assms, of ?grp]]
    by (auto simp: weightedDraw_def split: option.splits)
  then show ?thesis by (auto simp: weighted_Order_def Let_def split: option.splits)
qed

lemma other_strategies_answer:
  assumes "f \<in> {priority_Order, fallback_Order, roundRobin_Order, fillFirst_Order, cost_Order,
      p2c_Order, fusion_Order, pipeline_Order, auto_Order}"
  shows "f ins ec g \<noteq> None"
  using assms
  by (auto simp: priority_Order_def fallback_Order_def roundRobin_Order_def fillFirst_Order_def
      cost_Order_def p2c_Order_def fusion_Order_def pipeline_Order_def auto_Order_def ordered_pure_def
      Let_def split: option.splits prod.splits)

lemma default_strategies_answer:
  assumes "(k, f) \<in> set defaultStrategies"
    and "\<forall>e \<in> set ins. 1 \<le> ex_weight e" and "sum_list (map ex_weight ins) < 2 ^ 63"
  shows "f ins ec g \<noteq> None"
proof (cases "k = StrategyWeighted")
  case True
  with assms(1) have "f = weighted_Order"
    by (auto simp: defaultStrategies_def strategy_defs)
  with weighted_answers [OF assms(2,3)] show ?thesis by simp
next
  case False
  with assms(1) have "f \<in> {priority_Order, fallback_Order, roundRobin_Order, fillFirst_Order, cost_Order,
      p2c_Order, fusion_Order, pipeline_Order, auto_Order}"
    by (auto simp: defaultStrategies_def)
  then show ?thesis by (rule other_strategies_answer)
qed

text \<open>No strategy panics while the step weights add up to less than \<open>2 ^ 63\<close>, as they do unless
  a stored weight is astronomic: with every weight at least one, which \<open>WeightOrOne\<close> gives,
  every \<open>Order\<close> of the built-in set answers, whatever the random source draws.\<close>

theorem strategies_never_panic:
  assumes "(k, f) \<in> set defaultStrategies"
    and "\<forall>e \<in> set ins. 1 \<le> ex_weight e" and "sum_list (map ex_weight ins) < 2 ^ 63"
  shows "\<exists>r. f ins ec g = Some r"
  using default_strategies_answer [OF assms] by simp

lemma strategies_never_panic_witness:
  "\<exists>r. weighted_Order [sample_expanded ''b'' 0 1, sample_expanded ''a'' 1 5] sample_env [5] = Some r"
proof (rule strategies_never_panic)
  show "(StrategyWeighted, weighted_Order) \<in> set defaultStrategies" by (simp add: defaultStrategies_def)
qed (simp_all add: sample_expanded_def)

definition heavy_combo :: combo where
  "heavy_combo = NewCombo ''heavy'' StrategyWeighted
     (map (\<lambda>m. \<lparr>st_kind = StepModel, st_ref = m, st_weight = 2 ^ 62, st_prompt = '''', st_allowed = [],
        st_fallback_only_on_quota = False\<rparr>) [''m'', ''n''])"

text \<open>A stored weight is not bounded, and two heavy steps make the weighted strategy panic: a
  combo of two model steps of weight \<open>2 ^ 62\<close> each passes the save-time check, but the sum of the
  two weights wraps to a negative number, on which \<open>Intn\<close> panics, for every random source.\<close>

theorem heavy_weights_panic:
  "ValidateGraph heavy_combo [] None = Some (Inr 0) \<and>
   map WeightOrOne (cb_steps heavy_combo) = [2 ^ 62, 2 ^ 62] \<and>
   weighted_Order [sample_expanded ''a'' 0 (2 ^ 62), sample_expanded ''b'' 1 (2 ^ 62)]
     (sample_env\<lparr>ev_rng := Some intn\<rparr>) g = None"
proof (intro conjI)
  show "ValidateGraph heavy_combo [] None = Some (Inr 0)" by code_simp
  show "map WeightOrOne (cb_steps heavy_combo) = [2 ^ 62, 2 ^ 62]" by code_simp
  let ?ins = "[sample_expanded ''a'' 0 (2 ^ 62), sample_expanded ''b'' 1 (2 ^ 62)]"
  have grp: "slice_stable less_expanded ?ins = ?ins" by code_simp
  have "total_weight ?ins [0, 1] 0 = - (2 ^ 63)" by code_simp
  moreover have "[0 ..< length ?ins] = [0, 1]" by (simp add: upt_rec)
  ultimately have "weightedDraw ?ins (Some intn) g = None"
    by (simp add: weightedDraw_def numeral_2_eq_2 Let_def)
  then show "weighted_Order ?ins (sample_env\<lparr>ev_rng := Some intn\<rparr>) g = None"
    unfolding weighted_Order_def grp Let_def by simp
qed

section \<open>Round robin is fair\<close>

text \<open>The first attempts of \<open>n\<close> requests in a row.\<close>

fun rr_run :: "nat \<Rightarrow> expanded list \<Rightarrow> 'g env \<Rightarrow> 'g \<Rightarrow> candidate list" where
  "rr_run 0 ins ec g = []"
| "rr_run (Suc n) ins ec g = (case roundRobin_Order ins ec g of
      None \<Rightarrow> []
    | Some r \<Rightarrow> hd (or_candidates r) # rr_run n ins (ec\<lparr>ev_cursor := or_cursor r\<rparr>) (or_seed r))"

definition rr_start :: "'g env \<Rightarrow> int \<Rightarrow> int \<Rightarrow> int" where
  "rr_start ec t n = (case ev_cursor ec of
      None \<Rightarrow> 0 | Some c \<Rightarrow> cursor_index (cu_roundRobin c) (rrKey (ev_combo ec) t) n)"

lemma remdups_replicate: "remdups (replicate (Suc n) t) = [t]"
  by (induction n) auto

lemma tier_order_single:
  assumes "ins \<noteq> []" "\<forall>e \<in> set ins. ex_step e = t"
  shows "tier_order ins = [t]"
proof -
  from assms(1) obtain n where "length ins = Suc n" by (cases ins) auto
  then have "map ex_step ins = replicate (Suc n) t"
    using assms(2) by (intro replicate_eqI) auto
  then show ?thesis by (simp add: tier_order_def remdups_replicate del: remdups.simps replicate.simps)
qed

lemma hd_rr_emit:
  assumes "grp \<noteq> []"
  shows "target (hd (rr_emit grp s)) = ex_target (grp ! (nat s mod length grp))"
  using assms by (simp add: rr_emit_def hd_map hd_conv_nth Let_def)

lemma roundRobin_single:
  fixes ec :: "'g env"
  assumes "ins \<noteq> []" "\<forall>e \<in> set ins. ex_step e = t" "ev_cursor ec = Some c"
  defines "n \<equiv> int (length ins)" and "grp \<equiv> slice_stable less_expanded ins"
  obtains r c' where "roundRobin_Order ins ec g = Some r" "or_cursor r = Some c'" "or_seed r = g"
    "target (hd (or_candidates r)) = ex_target (grp ! (nat (rr_start ec t n)))"
    "rr_start (ec\<lparr>ev_cursor := or_cursor r\<rparr>) t n = (rr_start ec t n + 1) mod n"
proof -
  let ?s = "rr_start ec t n"
  let ?c = "c\<lparr>cu_roundRobin := (cu_roundRobin c)(rrKey (ev_combo ec) t \<mapsto> (?s + 1) mod n)\<rparr>"
  let ?r = "\<lparr>or_candidates = rr_emit grp ?s, or_in = ins, or_cursor = Some ?c, or_seed = g\<rparr>"
  have n: "0 < n" using assms(1) by (simp add: n_def)
  have all: "filter (\<lambda>e. ex_step e = t) ins = ins" using assms(2) by (simp add: filter_id_conv)
  have "nextRR c (rrKey (ev_combo ec) t) (int (length grp)) = (?s, ?c)"
    using n by (simp add: nextRR_def Let_def rr_start_def assms(3) n_def grp_def)
  then have "roundRobin_Order ins ec g = Some ?r"
    by (simp add: roundRobin_Order_def tier_order_single [OF assms(1,2)] assms(3) all grp_def Let_def)
  moreover have "target (hd (or_candidates ?r)) = ex_target (grp ! nat ?s)"
  proof -
    have "0 \<le> ?s" "?s < n" using n by (simp_all add: rr_start_def assms(3) cursor_index_range)
    moreover have "grp \<noteq> []" using assms(1) by (simp add: grp_def)
    ultimately show ?thesis by (simp add: hd_rr_emit grp_def n_def nat_less_iff)
  qed
  moreover have "rr_start (ec\<lparr>ev_cursor := or_cursor ?r\<rparr>) t n = (?s + 1) mod n"
    using n by (simp add: rr_start_def cursor_index_after)
  ultimately show thesis using that by fastforce
qed

lemma rr_start_range: "0 < n \<Longrightarrow> 0 \<le> rr_start ec t n \<and> rr_start ec t n < n"
  by (simp add: rr_start_def cursor_index_range split: option.splits)

lemma rr_run_targets:
  fixes ec :: "'g env"
  assumes "ins \<noteq> []" "\<forall>e \<in> set ins. ex_step e = t" "ev_cursor ec = Some c"
  defines "n \<equiv> int (length ins)"
  shows "map target (rr_run k ins ec g) =
    map (\<lambda>j. ex_target (slice_stable less_expanded ins ! ((nat (rr_start ec t n) + j) mod length ins))) [0 ..< k]"
  using assms(3)
proof (induction k arbitrary: ec c g)
  case (Suc k)
  let ?s = "rr_start ec t n"
  from roundRobin_single [OF assms(1,2) Suc.prems] obtain r c' where r:
    "roundRobin_Order ins ec g = Some r" "or_cursor r = Some c'" "or_seed r = g"
    "target (hd (or_candidates r)) = ex_target (slice_stable less_expanded ins ! (nat ?s))"
    "rr_start (ec\<lparr>ev_cursor := or_cursor r\<rparr>) t n = (?s + 1) mod n"
    unfolding n_def by blast
  have n: "0 < n" using assms(1) by (simp add: n_def)
  have s: "0 \<le> ?s" "nat ?s < length ins"
    using rr_start_range [OF n, of ec t] by (simp_all add: n_def nat_less_iff)
  have next_pos: "(nat ((?s + 1) mod n) + j) mod length ins = (nat ?s + Suc j) mod length ins" for j
  proof -
    have "nat ((?s + 1) mod n) = (nat ?s + 1) mod length ins"
      using s(1) by (simp add: n_def nat_mod_distrib nat_add_distrib)
    then show ?thesis by (simp add: mod_simps)
  qed
  have "map target (rr_run k ins (ec\<lparr>ev_cursor := or_cursor r\<rparr>) g) =
    map (\<lambda>j. ex_target (slice_stable less_expanded ins ! ((nat ?s + Suc j) mod length ins))) [0 ..< k]"
    using Suc.IH [of "ec\<lparr>ev_cursor := or_cursor r\<rparr>" c'] r(2,5) by (simp add: next_pos)
  then have "map target (rr_run (Suc k) ins ec g) =
    ex_target (slice_stable less_expanded ins ! (nat ?s)) #
    map (\<lambda>j. ex_target (slice_stable less_expanded ins ! ((nat ?s + Suc j) mod length ins))) [0 ..< k]"
    using r(1,3,4) by simp
  also have "\<dots> = map (\<lambda>j. ex_target (slice_stable less_expanded ins ! ((nat ?s + j) mod length ins))) [0 ..< Suc k]"
    using s(2) by (simp add: upt_conv_Cons map_Suc_upt [symmetric] comp_def del: upt_Suc)
  finally show ?case .
qed simp

text \<open>C10: Round robin is fair: when a combo's candidates are all of one tier, then over any \<open>n\<close>
  consecutive requests, \<open>n\<close> being their number, each candidate is the first attempt of exactly one
  request, wherever the cursor stood before.\<close>

theorem round_robin_fair:
  assumes "ins \<noteq> []" and "\<forall>e \<in> set ins. ex_step e = t" and "ev_cursor ec = Some c"
  shows "mset (map target (rr_run (length ins) ins ec g)) = mset (map ex_target ins)"
proof -
  let ?grp = "slice_stable less_expanded ins" and ?s = "nat (rr_start ec t (int (length ins)))"
  have "map target (rr_run (length ins) ins ec g) = rotate ?s (map ex_target ?grp)"
    using rr_run_targets [OF assms, of "length ins" g]
    by (auto simp: nth_rotate intro!: nth_equalityI nth_map [symmetric] mod_less_divisor)
  then show ?thesis by (simp add: mset_rotate)
qed

lemma round_robin_fair_witness:
  "mset (map target (rr_run 2 [sample_expanded ''b'' 0 1, sample_expanded ''a'' 0 1] sample_env [])) =
     {#(''a'', ''m''), (''b'', ''m'')#}"
proof -
  let ?ins = "[sample_expanded ''b'' 0 1, sample_expanded ''a'' 0 1]"
  have "mset (map target (rr_run (length ?ins) ?ins sample_env [])) = mset (map ex_target ?ins)"
    by (rule round_robin_fair) (simp_all add: sample_expanded_def sample_env_def)
  also have "mset (map ex_target ?ins) = {#(''a'', ''m''), (''b'', ''m'')#}"
    by (simp add: sample_expanded_def target_def mk_candidate_def)
  finally show ?thesis by (simp add: numeral_2_eq_2)
qed

section \<open>The weighted draw is proportional\<close>

lemma pick_weight_prefix:
  assumes "\<forall>i \<in> set js. 1 \<le> ex_weight (grp ! i)" "0 \<le> acc" "acc + weight_sum grp js < 2 ^ 63"
    and "p < length js" "acc + weight_sum grp (take p js) \<le> r" "r < acc + weight_sum grp (take (Suc p) js)"
  shows "pick_weight grp r js acc pos = pos + p"
  using assms
proof (induction js arbitrary: acc pos p)
  case (Cons i js)
  have nonneg: "0 \<le> weight_sum grp js" "0 \<le> weight_sum grp (take q js)" for q
    using Cons.prems(1) in_set_takeD by (fastforce intro!: weight_sum_nonneg)+
  have acc: "wrap64 (acc + ex_weight (grp ! i)) = acc + ex_weight (grp ! i)"
    using Cons.prems(1-3) nonneg(1) by (intro wrap64_id) auto
  show ?case
  proof (cases p)
    case 0
    with Cons.prems acc show ?thesis by simp
  next
    case (Suc q)
    have "\<not> r < acc + ex_weight (grp ! i)"
      using Cons.prems(5) nonneg(2) [of q] Suc by simp
    moreover have "pick_weight grp r js (acc + ex_weight (grp ! i)) (Suc pos) = Suc pos + q"
      by (rule Cons.IH) (use Cons.prems Suc in auto)
    ultimately show ?thesis using acc Suc by simp
  qed
qed simp

lemma weight_sum_append: "weight_sum grp (xs @ ys) = weight_sum grp xs + weight_sum grp ys"
  by (induction xs) auto

lemma prefix_cover:
  assumes "\<forall>i \<in> set js. 1 \<le> ex_weight (grp ! i)" "0 \<le> r" "r < weight_sum grp js"
  shows "\<exists>p < length js. weight_sum grp (take p js) \<le> r \<and> r < weight_sum grp (take (Suc p) js)"
  using assms
proof (induction js rule: rev_induct)
  case (snoc i js)
  show ?case
  proof (cases "r < weight_sum grp js")
    case True
    with snoc obtain p where "p < length js" "weight_sum grp (take p js) \<le> r" "r < weight_sum grp (take (Suc p) js)"
      by auto
    then show ?thesis by (intro exI [of _ p]) simp
  next
    case False
    with snoc.prems show ?thesis by (intro exI [of _ "length js"]) simp
  qed
qed simp

text \<open>The weighted draw is proportional to the weights: with weights of at least one that add up
  to \<open>total\<close> without overflow, exactly as many of the \<open>total\<close> equally likely values of \<open>Intn\<close>
  pick a candidate as its weight says, so a candidate is drawn with probability weight over
  total.\<close>

theorem draw_proportional:
  assumes "\<forall>i \<in> set js. 1 \<le> ex_weight (grp ! i)" and "weight_sum grp js < 2 ^ 63" and "p < length js"
  shows "total_weight grp js 0 = weight_sum grp js \<and>
    card {r. 0 \<le> r \<and> r < total_weight grp js 0 \<and> pick_weight grp r js 0 0 = p} = nat (ex_weight (grp ! (js ! p)))"
proof
  show total: "total_weight grp js 0 = weight_sum grp js"
    using total_weight_sum [of 0 js grp] assms(1,2) by simp
  let ?lo = "weight_sum grp (take p js)"
  have hi: "weight_sum grp (take (Suc p) js) = ?lo + ex_weight (grp ! (js ! p))"
    using assms(3) by (simp add: take_Suc_conv_app_nth weight_sum_append)
  have nonneg: "0 \<le> weight_sum grp (take q js)" "0 \<le> weight_sum grp (drop q js)" for q
    using assms(1) in_set_takeD in_set_dropD by (fastforce intro!: weight_sum_nonneg)+
  have le: "weight_sum grp (take q js) \<le> weight_sum grp js" for q
    using nonneg(2) [of q] weight_sum_append [of grp "take q js" "drop q js"] by simp
  have pick: "pick_weight grp r js 0 0 = q"
    if "q < length js" "weight_sum grp (take q js) \<le> r" "r < weight_sum grp (take (Suc q) js)" for r q
    using pick_weight_prefix [of js grp 0 q r 0] assms(1,2) that by simp
  have "{r. 0 \<le> r \<and> r < weight_sum grp js \<and> pick_weight grp r js 0 0 = p} =
      {?lo ..< ?lo + ex_weight (grp ! (js ! p))}"
  proof (intro equalityI subsetI)
    fix r assume "r \<in> {r. 0 \<le> r \<and> r < weight_sum grp js \<and> pick_weight grp r js 0 0 = p}"
    then have r: "0 \<le> r" "r < weight_sum grp js" "pick_weight grp r js 0 0 = p" by auto
    obtain q where q: "q < length js" "weight_sum grp (take q js) \<le> r" "r < weight_sum grp (take (Suc q) js)"
      using prefix_cover [OF assms(1) r(1,2)] by blast
    with pick r(3) have "q = p" by blast
    with q hi show "r \<in> {?lo ..< ?lo + ex_weight (grp ! (js ! p))}" by simp
  next
    fix r assume "r \<in> {?lo ..< ?lo + ex_weight (grp ! (js ! p))}"
    then have r: "?lo \<le> r" "r < weight_sum grp (take (Suc p) js)" using hi by auto
    with pick [OF assms(3)] nonneg(1) [of p] le [of "Suc p"]
    show "r \<in> {r. 0 \<le> r \<and> r < weight_sum grp js \<and> pick_weight grp r js 0 0 = p}" by auto
  qed
  then show "card {r. 0 \<le> r \<and> r < total_weight grp js 0 \<and> pick_weight grp r js 0 0 = p} =
      nat (ex_weight (grp ! (js ! p)))"
    unfolding total by simp
qed

lemma draw_proportional_witness:
  "card {r. 0 \<le> r \<and> r < total_weight [sample_expanded ''a'' 0 1, sample_expanded ''b'' 1 5] [0, 1] 0 \<and>
     pick_weight [sample_expanded ''a'' 0 1, sample_expanded ''b'' 1 5] r [0, 1] 0 0 = 1} = 5"
proof -
  let ?grp = "[sample_expanded ''a'' 0 1, sample_expanded ''b'' 1 5]"
  have "total_weight ?grp [0, 1] 0 = weight_sum ?grp [0, 1] \<and>
      card {r. 0 \<le> r \<and> r < total_weight ?grp [0, 1] 0 \<and> pick_weight ?grp r [0, 1] 0 0 = 1} =
      nat (ex_weight (?grp ! ([0, 1] ! 1)))"
    by (rule draw_proportional) (simp_all add: sample_expanded_def)
  moreover have "nat (ex_weight (?grp ! ([0, 1] ! 1))) = 5" by (simp add: sample_expanded_def)
  ultimately show ?thesis by argo
qed

section \<open>Ties are broken by the stable key\<close>

lemma sorted_unique:
  fixes key :: "'a \<Rightarrow> 'k :: linorder"
  assumes "mset xs = mset ys" "distinct (map key xs)" "\<And>a b. lt a b \<longleftrightarrow> key a < key b"
  shows "slice_stable lt xs = slice_stable lt ys"
proof (rule map_inj_on)
  have "sorted (map key (slice_stable lt xs))" "sorted (map key (slice_stable lt ys))"
    by (rule sorted_slice_stable_key, rule assms(3))+
  moreover have "mset (map key (slice_stable lt xs)) = mset (map key (slice_stable lt ys))"
    using assms(1) by simp
  ultimately show "map key (slice_stable lt xs) = map key (slice_stable lt ys)"
    by (metis properties_for_sort)
  have "set xs = set ys" using assms(1) by (rule mset_eq_setD)
  then show "inj_on key (set (slice_stable lt xs) \<union> set (slice_stable lt ys))"
    using assms(2) by (simp add: distinct_map)
qed

definition ex_key :: "expanded \<Rightarrow> string" where
  "ex_key e = stableKey (ex_candidate e)"

lemma less_step_key: "less_step a b \<longleftrightarrow> (ex_step a, ex_key a) < (ex_step b, ex_key b)"
  by (auto simp: less_step_def lessStable_def ex_key_def less_prod_def')

lemma less_expanded_key: "less_expanded a b \<longleftrightarrow> ex_key a < ex_key b"
  by (simp add: less_expanded_def lessStable_def ex_key_def)

definition cost_key :: "expanded \<times> int option \<Rightarrow> bool \<times> int \<times> string" where
  "cost_key a = (snd a = None, case snd a of None \<Rightarrow> 0 | Some x \<Rightarrow> x, ex_key (fst a))"

lemma less_cost_key: "less_cost a b \<longleftrightarrow> cost_key a < cost_key b"
  by (auto simp: less_cost_def cost_key_def less_expanded_key less_prod_def' split: option.splits)

definition auto_key :: "expanded \<times> float64 \<times> string \<Rightarrow> rat \<times> string" where
  "auto_key a = (- fst (snd a), ex_key (fst a))"

lemma less_auto_key: "less_auto a b \<longleftrightarrow> auto_key a < auto_key b"
  by (auto simp: less_auto_def auto_key_def less_expanded_key less_prod_def')

interpretation step_order: strict_weak_order less_step
  by unfold_locales (auto simp: less_step_key less_prod_def')

interpretation cost_order: strict_weak_order less_cost
  by unfold_locales (auto simp: less_cost_key not_less)

interpretation auto_order: strict_weak_order less_auto
  by unfold_locales (auto simp: less_auto_key not_less)

lemma step_sort_unique:
  "mset ins = mset ins' \<Longrightarrow> distinct (map ex_key ins) \<Longrightarrow> slice_stable less_step ins = slice_stable less_step ins'"
  by (rule sorted_unique [where key = "\<lambda>e. (ex_step e, ex_key e)"])
    (auto simp: less_step_key distinct_map inj_on_def)

lemma paired_sort_unique:
  assumes "mset ins = mset ins'" "distinct (map ex_key ins)"
    and "\<And>a b. lt a b \<longleftrightarrow> key a < (key b :: 'k :: linorder)" "\<And>e e'. key (e, f e) = key (e', f e') \<Longrightarrow> ex_key e = ex_key e'"
  shows "slice_stable lt (map (\<lambda>e. (e, f e)) ins) = slice_stable lt (map (\<lambda>e. (e, f e)) ins')"
proof (rule sorted_unique [where key = key])
  show "mset (map (\<lambda>e. (e, f e)) ins) = mset (map (\<lambda>e. (e, f e)) ins')" using assms(1) by simp
  show "distinct (map key (map (\<lambda>e. (e, f e)) ins))"
  proof -
    have "inj_on ex_key (set ins)" "distinct ins" using assms(2) by (simp_all add: distinct_map)
    moreover from this(1) have "inj_on (\<lambda>e. key (e, f e)) (set ins)"
      by (meson assms(4) inj_onD inj_onI)
    ultimately show ?thesis by (simp add: distinct_map comp_def)
  qed
qed (rule assms(3))

text \<open>The order does not depend on how the candidates were listed.  When no two candidates share
  the stable key, the strategies that sort (priority, fallback, cost, auto, fusion, pipeline)
  give the same attempts, with the same scores and reasons, for any listing of the same
  candidates.\<close>

theorem sorted_strategies_deterministic:
  assumes "f \<in> {priority_Order, fallback_Order, cost_Order, auto_Order, fusion_Order, pipeline_Order}"
    and "mset ins = mset ins'" and "distinct (map ex_key ins)"
  shows "map_option or_candidates (f ins ec g) = map_option or_candidates (f ins' ec g)"
proof -
  note steps = step_sort_unique [OF assms(2,3)]
  have cost: "slice_stable less_cost (map (\<lambda>e. (e, cost_of ec (ex_candidate e))) ins) =
      slice_stable less_cost (map (\<lambda>e. (e, cost_of ec (ex_candidate e))) ins')"
    by (rule paired_sort_unique [OF assms(2,3) less_cost_key]) (simp add: cost_key_def)
  have auto: "slice_stable less_auto (map (\<lambda>e. (e, autoScore ec (ex_candidate e))) ins) =
      slice_stable less_auto (map (\<lambda>e. (e, autoScore ec (ex_candidate e))) ins')"
    by (rule paired_sort_unique [OF assms(2,3) less_auto_key]) (simp add: auto_key_def)
  note unf = ordered_pure_def Let_def option.map ordered.simps
  have "map_option or_candidates (priority_Order ins ec g) = map_option or_candidates (priority_Order ins' ec g)"
    "map_option or_candidates (fallback_Order ins ec g) = map_option or_candidates (fallback_Order ins' ec g)"
    "map_option or_candidates (fusion_Order ins ec g) = map_option or_candidates (fusion_Order ins' ec g)"
    "map_option or_candidates (pipeline_Order ins ec g) = map_option or_candidates (pipeline_Order ins' ec g)"
    by (simp_all only: priority_Order_def fallback_Order_def fusion_Order_def pipeline_Order_def unf steps)
  moreover have "map_option or_candidates (cost_Order ins ec g) = map_option or_candidates (cost_Order ins' ec g)"
    "map_option or_candidates (auto_Order ins ec g) = map_option or_candidates (auto_Order ins' ec g)"
    by (simp_all only: cost_Order_def auto_Order_def unf cost auto)
  ultimately show ?thesis using assms(1) by blast
qed

lemma sorted_strategies_deterministic_witness:
  "map_option or_candidates (priority_Order [sample_expanded ''b'' 0 1, sample_expanded ''a'' 0 1] sample_env []) =
   map_option or_candidates (priority_Order [sample_expanded ''a'' 0 1, sample_expanded ''b'' 0 1] sample_env [])"
  by (rule sorted_strategies_deterministic)
    (simp_all add: sample_expanded_def ex_key_def stableKey_def mk_candidate_def add_mset_commute)

section \<open>What two choices and fill first really do\<close>

lemma betterPressure_01: "betterPressure ec a b = 0 \<or> betterPressure ec a b = 1"
  by (simp add: betterPressure_def split: option.splits)

lemma target_p2cCandidate: "target (p2cCandidate e ec k) = ex_target e"
  by (simp add: p2cCandidate_def Let_def split: option.splits)

lemma p2c_loop_hd:
  assumes "xs \<noteq> []" "n \<noteq> 0"
  shows "\<exists>i < 2. i < length xs \<and> target (hd (fst (p2c_loop n grp ec intn g xs rank))) = ex_target (grp ! (xs ! i))"
proof -
  obtain m where n: "n = Suc m" using assms(2) by (cases n) auto
  obtain pick g' where step: "(if length xs = 1 then (0, g) else
             (let (a, g1) = intn g (int (length xs)); (b0, g2) = intn g1 (int (length xs) - 1);
                  b = (if b0 \<ge> a then b0 + 1 else b0)
              in (betterPressure ec (grp ! (xs ! nat a)) (grp ! (xs ! nat b)), g2))) = (pick, g')"
    by fastforce
  have "pick < 2 \<and> pick < length xs"
  proof (cases "length xs = 1")
    case True
    with step show ?thesis by auto
  next
    case False
    with assms(1) have "2 \<le> length xs" by (cases xs) (auto simp: Suc_le_eq)
    moreover have "pick = 0 \<or> pick = 1" using step False betterPressure_01
      by (auto simp: Let_def split: prod.splits)
    ultimately show ?thesis by linarith
  qed
  moreover have "hd (fst (p2c_loop n grp ec intn g xs rank)) = p2cCandidate (grp ! (xs ! pick)) ec rank"
    using assms(1) step by (simp add: n Let_def case_prod_beta)
  ultimately show ?thesis by (auto simp: target_p2cCandidate)
qed

text \<open>Power of two choices does not try the candidate it chose.  \<open>betterPressure\<close> answers which of
  the two sampled candidates is better, 0 or 1, and the answer is used as the position among all
  remaining candidates: whatever is drawn, and whatever the pressures are, the first attempt is
  the first or the second candidate of the stable order, so of three or more candidates the
  others never lead.\<close>

theorem p2c_leads_with_first_two:
  assumes "ins \<noteq> []" and "ev_rng ec = Some intn" and "p2c_Order ins ec g = Some r"
  shows "\<exists>i < 2. i < length ins \<and>
    target (hd (or_candidates r)) = ex_target (slice_stable less_expanded ins ! i)"
proof -
  let ?grp = "slice_stable less_expanded ins"
  have "or_candidates r = fst (p2c_loop (length ?grp) ?grp ec intn g [0 ..< length ?grp] 0)"
    using assms(2,3) by (auto simp: p2c_Order_def Let_def split: prod.splits)
  with p2c_loop_hd [of "[0 ..< length ?grp]" "length ?grp" ?grp ec intn g 0] assms(1)
  show ?thesis by (auto simp: nth_upt)
qed

text \<open>Candidate \<open>c\<close> is idle and the other two are exhausted; the draw samples \<open>c\<close> and \<open>b\<close>.\<close>

definition pressed_env :: "int list env" where
  "pressed_env = sample_env\<lparr>ev_signals := Some \<lparr>
     sg_QuotaRemaining = (\<lambda>c. if cand_provider c = ''c'' then 1 else 0), sg_BreakerHealth = (\<lambda>c. 1),
     sg_Latency = (\<lambda>c. 0), sg_InFlight = (\<lambda>c. 0)\<rparr>\<rparr>"

definition three_candidates :: "expanded list" where
  "three_candidates = [sample_expanded ''a'' 0 1, sample_expanded ''b'' 0 1, sample_expanded ''c'' 0 1]"

lemma pressed_pressure:
  "betterPressure pressed_env a b =
     (if cand_provider (ex_candidate a) \<noteq> ''c'' \<and> cand_provider (ex_candidate b) = ''c'' then 1 else 0)"
proof -
  have "fl 2 = 2" using fl_of_int [of 2] by simp
  then show ?thesis
    by (simp add: betterPressure_def pressed_env_def pressure_def float_of_int_def)
qed

lemma three_sorted: "slice_stable less_expanded three_candidates = three_candidates"
  by code_simp

lemma three_ordered:
  "\<exists>r. p2c_Order three_candidates pressed_env [2, 1] = Some r \<and> map target (or_candidates r) =
     [(''a'', ''m''), (''c'', ''m''), (''b'', ''m'')]"
proof -
  have len: "length three_candidates = 3" "[0 ..< 3] = [0, 1, 2 :: nat]" by code_simp+
  have rng: "ev_rng pressed_env = Some tape_intn" by (simp add: pressed_env_def sample_env_def)
  have nths: "three_candidates ! 0 = sample_expanded ''a'' 0 1" "three_candidates ! 1 = sample_expanded ''b'' 0 1"
    "three_candidates ! 2 = sample_expanded ''c'' 0 1" "three_candidates ! Suc 0 = sample_expanded ''b'' 0 1"
    by (simp_all add: three_candidates_def)
  have cands: "ex_target (sample_expanded p 0 1) = (p, ''m'')" "cand_provider (ex_candidate (sample_expanded p 0 1)) = p" for p
    by (simp_all add: sample_expanded_def mk_candidate_def target_def)
  show ?thesis
    unfolding p2c_Order_def Let_def three_sorted rng option.case len
    by (simp add: numeral_3_eq_3 tape_intn_def pressed_pressure nths cands drop_at_def target_p2cCandidate)
qed

lemma p2c_leads_with_first_two_witness:
  "\<exists>r. p2c_Order three_candidates pressed_env [2, 1] = Some r \<and>
     map target (or_candidates r) = [(''a'', ''m''), (''c'', ''m''), (''b'', ''m'')] \<and>
     (\<exists>i < 2. i < length three_candidates \<and>
        target (hd (or_candidates r)) = ex_target (slice_stable less_expanded three_candidates ! i))"
proof -
  obtain r where r: "p2c_Order three_candidates pressed_env [2, 1] = Some r"
    "map target (or_candidates r) = [(''a'', ''m''), (''c'', ''m''), (''b'', ''m'')]"
    using three_ordered by (elim exE conjE)
  have pre: "three_candidates \<noteq> []" "ev_rng pressed_env = Some tape_intn"
    by (simp_all add: three_candidates_def pressed_env_def sample_env_def)
  show ?thesis
    by (intro exI [of _ r] conjI) (rule r p2c_leads_with_first_two [OF pre r(1)])+
qed

text \<open>The credentials that a lone candidate is given in \<open>n\<close> requests in a row.\<close>

fun fill_run :: "nat \<Rightarrow> expanded list \<Rightarrow> 'g env \<Rightarrow> 'g \<Rightarrow> credential_id list" where
  "fill_run 0 ins ec g = []"
| "fill_run (Suc n) ins ec g = (case fillFirst_Order ins ec g of
      None \<Rightarrow> []
    | Some r \<Rightarrow> map cand_credential (or_candidates r) @ fill_run n ins (ec\<lparr>ev_cursor := or_cursor r\<rparr>) (or_seed r))"

definition fill_start :: "'g env \<Rightarrow> expanded \<Rightarrow> int \<Rightarrow> int" where
  "fill_start ec e n = (case ev_cursor ec of
      None \<Rightarrow> 0
    | Some c \<Rightarrow> cursor_index (cu_fillFirst c) (cand_provider (ex_candidate e) @ ''#'' @ itoa (ex_step e)) n)"

lemma fill_run_credentials:
  fixes ec :: "'g env"
  assumes "fill_creds ec e = creds" "creds \<noteq> []" "ev_cursor ec = Some c"
  shows "fill_run k [e] ec g = map (\<lambda>j. creds ! ((nat (fill_start ec e (int (length creds))) + j) mod length creds)) [0 ..< k]"
  using assms(1,3)
proof (induction k arbitrary: ec c)
  case (Suc k)
  let ?n = "int (length creds)"
  let ?s = "fill_start ec e ?n"
  let ?key = "cand_provider (ex_candidate e) @ ''#'' @ itoa (ex_step e)"
  let ?c = "c\<lparr>cu_fillFirst := (cu_fillFirst c)(?key \<mapsto> (?s + 1) mod ?n)\<rparr>"
  let ?ec = "ec\<lparr>ev_cursor := Some ?c\<rparr>"
  have n: "0 < ?n" using assms(2) by simp
  have s: "0 \<le> ?s" "nat ?s < length creds"
    using cursor_index_range [OF n] by (simp_all add: fill_start_def Suc.prems(2) nat_less_iff)
  have "nextFill c ?key ?n = (?s, ?c)"
    using n by (simp add: nextFill_def Let_def fill_start_def Suc.prems(2))
  then have "fill_run (Suc k) [e] ec g = creds ! nat ?s # fill_run k [e] ?ec g"
    using assms(2) by (simp add: fillFirst_Order_def Let_def Suc.prems)
  moreover have "fill_creds ?ec e = creds" using Suc.prems(1) by (simp add: fill_creds_def)
  then have "fill_run k [e] ?ec g = map (\<lambda>j. creds ! ((nat (fill_start ?ec e ?n) + j) mod length creds)) [0 ..< k]"
    by (rule Suc.IH) simp
  moreover have "(nat (fill_start ?ec e ?n) + j) mod length creds = (nat ?s + Suc j) mod length creds" for j
  proof -
    have "nat (fill_start ?ec e ?n) = (nat ?s + 1) mod length creds"
      using n s(1) by (simp add: fill_start_def cursor_index_after nat_mod_distrib nat_add_distrib)
    then show ?thesis by (simp add: mod_simps)
  qed
  ultimately have "fill_run (Suc k) [e] ec g =
      creds ! nat ?s # map (\<lambda>j. creds ! ((nat ?s + Suc j) mod length creds)) [0 ..< k]"
    by simp
  also have "\<dots> = map (\<lambda>j. creds ! ((nat ?s + j) mod length creds)) [0 ..< Suc k]"
    using s(2) by (simp add: upt_conv_Cons map_Suc_upt [symmetric] comp_def del: upt_Suc)
  finally show ?case .
qed simp

text \<open>Fill first does not fill first: it rotates.  For a lone candidate with several accounts the
  credentials given to successive requests are the accounts in turn, one after the other and
  round again, and nothing that the quota or the breaker could report (the signals) has any part
  in it; the current credential is never kept until it is exhausted.\<close>

theorem fill_first_rotates:
  assumes "fill_creds ec e = creds" and "creds \<noteq> []" and "ev_cursor ec = Some c"
  shows "mset (fill_run (length creds) [e] (ec\<lparr>ev_signals := s\<rparr>) g) = mset creds"
proof -
  let ?ec = "ec\<lparr>ev_signals := s\<rparr>"
  have "fill_creds ?ec e = creds" "ev_cursor ?ec = Some c"
    using assms(1,3) by (simp_all add: fill_creds_def)
  from fill_run_credentials [OF this(1) assms(2) this(2), of "length creds" g]
  have "fill_run (length creds) [e] ?ec g = rotate (nat (fill_start ?ec e (int (length creds)))) creds"
    by (auto simp: nth_rotate intro!: nth_equalityI)
  then show ?thesis by (simp add: mset_rotate)
qed

lemma fill_first_rotates_witness:
  "mset (fill_run 2 [sample_expanded ''a'' 0 1]
     (sample_env\<lparr>ev_cred := Some (\<lambda>p. [''k1'', ''k2'']), ev_signals := None\<rparr>) []) = {#''k1'', ''k2''#}"
  using fill_first_rotates [of "sample_env\<lparr>ev_cred := Some (\<lambda>p. [''k1'', ''k2''])\<rparr>" "sample_expanded ''a'' 0 1"
      "[''k1'', ''k2'']" empty_cursor None "[]"]
  by (simp add: fill_creds_def sample_expanded_def sample_env_def numeral_2_eq_2)

text \<open>The cost factor of \<open>auto\<close>: a model that costs nothing, like one without a known price, gets the
  factor of the dearest model, below every model with a price under the ceiling.\<close>

lemma fl_49_50: "fl (49 / 50) < 1"
  by code_simp

theorem free_model_scored_as_dearest:
  assumes "ev_cost ec = Some cost" and "cost (cand_provider a) (cand_model a) = Some 0"
    and "cost (cand_provider b) (cand_model b) = Some p" and "0 < p" and "p < 50"
  shows "cost_factor ec a = 0 \<and> 0 < cost_factor ec b"
proof
  show "cost_factor ec a = 0" using assms(1,2) by (simp add: cost_factor_def cost_of_def)
  have p: "float_of_int p = of_int p" using assms(4,5) by (simp add: float_of_int_def)
  have "fl (of_int p / 50) \<le> fl (49 / 50)" using assms(4,5) by (intro fl_mono) simp_all
  then have lt: "fl (of_int p / 50) < 1" using fl_49_50 by simp
  then have "clamp01 (fl (float_of_int p / autoCostCeilingMicros)) < 1"
    by (simp add: p autoCostCeilingMicros_def clamp01_def)
  then have "0 < fl (1 - clamp01 (fl (float_of_int p / autoCostCeilingMicros)))"
    by (intro fl_pos_pos) simp
  then show "0 < cost_factor ec b"
    using assms(1,3,4) by (simp add: cost_factor_def cost_of_def)
qed

lemma free_model_scored_as_dearest_witness:
  "cost_factor (sample_env\<lparr>ev_cost := Some (\<lambda>p m. if p = ''free'' then Some 0 else Some 49)\<rparr>)
     (mk_candidate ''paid'' ''m'') > 0"
  using free_model_scored_as_dearest [of "sample_env\<lparr>ev_cost := Some (\<lambda>p m. if p = ''free'' then Some 0 else Some 49)\<rparr>"
      "\<lambda>p m. if p = ''free'' then Some 0 else Some 49" "mk_candidate ''free'' ''m''" "mk_candidate ''paid'' ''m''" 49]
  by (simp add: mk_candidate_def)

section \<open>The stable key\<close>

text \<open>Joining with a NUL keeps the order of the triple when provider and model hold no NUL.\<close>

lemma nul_less: "NUL \<le> c"
  by (simp add: NUL_def less_eq_char_def)

lemma nul_join_less:
  fixes a b :: string
  assumes "NUL \<notin> set a" "NUL \<notin> set b"
  shows "a @ NUL # x < b @ NUL # y \<longleftrightarrow> a < b \<or> (a = b \<and> x < y)"
  using assms
proof (induction a arbitrary: b)
  case Nil
  then show ?case
  proof (cases b)
    case (Cons c cs)
    with Nil nul_less [of c] have "NUL < c" by (auto simp: le_less)
    with Cons show ?thesis by simp
  qed simp
next
  case (Cons d a)
  show ?case
  proof (cases b)
    case Nil
    with Cons.prems nul_less [of d] have "\<not> d < NUL" "d \<noteq> NUL" by auto
    with Nil show ?thesis by simp
  next
    case (Cons c cs)
    with Cons.IH [of cs] Cons.prems show ?thesis by auto
  qed
qed

lemma lessStable_lessCandidate:
  assumes "NUL \<notin> set (cand_provider a @ cand_model a)" "NUL \<notin> set (cand_provider b @ cand_model b)"
  shows "lessStable a b \<longleftrightarrow> lessCandidate a b"
  using assms
  by (auto simp: lessStable_def stableKey_def nul_join_less lessCandidate_key candidate_key_def less_prod_def')

end
