(* ===== verification/Router.thy ===== *)
theory Router
  imports Strategy_Laws
begin

text \<open>
  The resolver of \<open>internal/router\<close> (\<open>expand.go\<close>, \<open>resolver.go\<close>, and the plan shapes of
  \<open>strategies_structural.go\<close>): the expansion of a combo into candidates, the preflight filter,
  the ordering under the cursor lock, the demotion of incompatible candidates, the fusion panels
  and judge guards, the pipeline chain and \<open>Resolve\<close> itself.  The ports of the resolver are
  fields of a record; \<open>'g\<close> is the state they act on, the random seed and whatever the preflight
  port mutates.  A result of \<^const>\<open>None\<close> is a Go panic.
\<close>

section \<open>Ports\<close>

record catalog =
  cg_Providers :: "provider_id list"
  cg_Models :: "provider_id \<Rightarrow> model_id list"
  cg_Capabilities :: "provider_id \<Rightarrow> model_id \<Rightarrow> capabilities option"
  cg_Modalities :: "provider_id \<Rightarrow> model_id \<Rightarrow> modality_set option"

record 'g resolver =
  rv_Get :: "combo_id \<Rightarrow> go_error + combo"
  rv_List :: "go_error + combo list"
  rv_catalog :: catalog
  rv_registry :: "'g registry"
  rv_registry_err :: "go_error option"
  rv_preflight :: "(candidate \<Rightarrow> 'g \<Rightarrow> (bool \<times> string) \<times> 'g) option"
  rv_rng :: "('g \<Rightarrow> int \<Rightarrow> int \<times> 'g) option"
  rv_cred :: "(provider_id \<Rightarrow> credential_id list) option"
  rv_cost :: "(provider_id \<Rightarrow> model_id \<Rightarrow> int option) option"
  rv_signals :: "signals option"
  rv_judge :: "(request \<Rightarrow> string list \<Rightarrow> go_error + route_plan) option"
  rv_cursor :: cursor

section \<open>Errors\<close>

definition noCandidate :: domain_error where
  "noCandidate = New CodeRouteNoCandidate [WithHTTPStatus 400, WithScope ScopeRequest]"

definition fusionSelfJudge :: "string \<Rightarrow> domain_error" where
  "fusionSelfJudge name = New CodeRouteFusionSelfJudge
     [WithHTTPStatus 400, WithScope ScopeRequest, WithParams [(''name'', name)]]"

section \<open>Expansion\<close>

definition zero_if_unknown :: "'a :: zero option \<Rightarrow> 'a" where
  "zero_if_unknown x = (case x of None \<Rightarrow> 0 | Some v \<Rightarrow> v)"

definition mkExpanded :: "request option \<Rightarrow> int \<Rightarrow> step \<Rightarrow> provider_id \<Rightarrow> model_id \<Rightarrow> capabilities
    \<Rightarrow> modality_set \<Rightarrow> expanded" where
  "mkExpanded req i s provider model caps mods =
     \<lparr>ex_candidate = mk_candidate provider model, ex_step = i, ex_weight = WeightOrOne s,
      ex_allowed = st_allowed s, ex_quota_only = st_fallback_only_on_quota s,
      ex_compatible = ft_compatible (ComputeFit
        \<lparr>cs_candidate = mk_candidate provider model, cs_capabilities = caps, cs_modalities = mods\<rparr> req)\<rparr>"

fun expand_model :: "catalog \<Rightarrow> request option \<Rightarrow> int \<Rightarrow> step \<Rightarrow> provider_id list \<Rightarrow> expanded list" where
  "expand_model cat req i s [] = []"
| "expand_model cat req i s (p # ps) =
     (case cg_Capabilities cat p (st_ref s) of
        None \<Rightarrow> expand_model cat req i s ps
      | Some caps \<Rightarrow> mkExpanded req i s p (st_ref s) caps (zero_if_unknown (cg_Modalities cat p (st_ref s)))
          # expand_model cat req i s ps)"

definition expand_wildcard :: "catalog \<Rightarrow> request option \<Rightarrow> int \<Rightarrow> step \<Rightarrow> expanded list" where
  "expand_wildcard cat req i s = map (\<lambda>m. mkExpanded req i s (st_ref s) m
     (zero_if_unknown (cg_Capabilities cat (st_ref s) m)) (zero_if_unknown (cg_Modalities cat (st_ref s) m)))
     (cg_Models cat (st_ref s))"

text \<open>
  \<open>expand\<close> counts its depth up and refuses a depth over eight; here the count runs down: the first
  argument is \<open>maxDepth + 1 - depth\<close>.  \<open>chain\<close> holds the combos being expanded.
\<close>

fun expand :: "catalog \<Rightarrow> combo_graph \<Rightarrow> request option \<Rightarrow> nat \<Rightarrow> combo_id list \<Rightarrow> combo
      \<Rightarrow> domain_error + expanded list"
  and expand_steps :: "catalog \<Rightarrow> combo_graph \<Rightarrow> request option \<Rightarrow> nat \<Rightarrow> combo_id list \<Rightarrow> combo \<Rightarrow> int
      \<Rightarrow> step list \<Rightarrow> domain_error + expanded list" where
  "expand cat byID req 0 chain c = Inl (depthExceeded (cb_name c))"
| "expand cat byID req (Suc k) chain c =
     (if cb_id c \<in> set chain then Inl (cyclic (cb_name c))
      else expand_steps cat byID req k (cb_id c # chain) c 0 (cb_steps c))"
| "expand_steps cat byID req k chain c i [] = Inr []"
| "expand_steps cat byID req k chain c i (s # ss) =
     (let here = (if st_kind s = StepModel then Inr (expand_model cat req i s (cg_Providers cat))
        else if st_kind s = StepProviderWildcard then
          (if st_ref s \<notin> set (cg_Providers cat) then Inl (unknownProvider (cb_name c) (st_ref s))
           else Inr (expand_wildcard cat req i s))
        else if st_kind s = StepComboRef then
          (case byID (st_ref s) of
             None \<Rightarrow> Inl (invalidCombo (cb_name c) (''reference to unknown combo '' @ st_ref s))
           | Some ref \<Rightarrow> (case expand cat byID req k chain ref of
                 Inl e \<Rightarrow> Inl e
               | Inr nested \<Rightarrow> Inr (map (\<lambda>e. e\<lparr>ex_step := i, ex_weight := WeightOrOne s\<rparr>) nested)))
        else Inl (invalidCombo (cb_name c) (''unknown step kind '' @ st_kind s)))
      in case here of
           Inl e \<Rightarrow> Inl e
         | Inr xs \<Rightarrow> (case expand_steps cat byID req k chain c (i + 1) ss of
               Inl e \<Rightarrow> Inl e
             | Inr rest \<Rightarrow> Inr (xs @ rest)))"

section \<open>Preflight, ordering and demotion\<close>

fun preflight_loop :: "(candidate \<Rightarrow> 'g \<Rightarrow> (bool \<times> string) \<times> 'g) \<Rightarrow> expanded list \<Rightarrow> 'g \<Rightarrow> expanded list \<times> 'g" where
  "preflight_loop allow [] g = ([], g)"
| "preflight_loop allow (e # es) g =
     (case allow (ex_candidate e) g of ((ok, reason), g1) \<Rightarrow>
      (case preflight_loop allow es g1 of (out, g2) \<Rightarrow> (if ok then e # out else out, g2)))"

definition preflight :: "(candidate \<Rightarrow> 'g \<Rightarrow> (bool \<times> string) \<times> 'g) option \<Rightarrow> expanded list \<Rightarrow> 'g
    \<Rightarrow> expanded list \<times> 'g" where
  "preflight pf ins g = (case pf of None \<Rightarrow> (ins, g) | Some allow \<Rightarrow> preflight_loop allow ins g)"

text \<open>The Go maps that are filled from the candidates and read with the zero value for a missing key.\<close>

fun compat_map :: "expanded list \<Rightarrow> (string \<Rightarrow> bool) \<Rightarrow> string \<Rightarrow> bool" where
  "compat_map [] m = m"
| "compat_map (e # es) m = compat_map es (m(stableKey (ex_candidate e) := ex_compatible e))"

fun step_map :: "expanded list \<Rightarrow> (string \<Rightarrow> int) \<Rightarrow> string \<Rightarrow> int" where
  "step_map [] m = m"
| "step_map (e # es) m = step_map es (m(stableKey (ex_candidate e) := ex_step e))"

definition demote :: "candidate list \<Rightarrow> expanded list \<Rightarrow> candidate list" where
  "demote order ins =
     (let compat = compat_map ins (\<lambda>_. False)
      in slice_stable (\<lambda>a b. let ci = compat (stableKey a); cj = compat (stableKey b) in
           if ci \<noteq> cj then ci else False) order)"

text \<open>The attempts, the candidates as the strategy left them, the cursor and the seed.\<close>

definition orderEnvelope :: "'g resolver \<Rightarrow> 'g strategy_fun \<Rightarrow> string \<Rightarrow> expanded list \<Rightarrow> 'g
    \<Rightarrow> (candidate list \<times> expanded list \<times> cursor \<times> 'g) option" where
  "orderEnvelope r f comboName ins g =
     (case f ins \<lparr>ev_cursor = Some (rv_cursor r), ev_rng = rv_rng r, ev_combo = comboName,
        ev_cred = rv_cred r, ev_cost = rv_cost r, ev_signals = rv_signals r\<rparr> g of
        None \<Rightarrow> None
      | Some o' \<Rightarrow> Some (demote (or_candidates o') (or_in o'), or_in o',
          (case or_cursor o' of Some c \<Rightarrow> c | None \<Rightarrow> rv_cursor r), or_seed o'))"

definition maxRoundsFor :: "strategy_kind \<Rightarrow> combo \<Rightarrow> int \<Rightarrow> int" where
  "maxRoundsFor kind c n =
     (if kind = StrategyFusion then 2
      else if kind = StrategyPipeline then int (length (cb_steps c))
      else if n < 1 then 1 else n)"

section \<open>Plan shapes\<close>

definition groupByStep :: "candidate list \<Rightarrow> expanded list \<Rightarrow> candidate list list" where
  "groupByStep ordered ins =
     (let stepOf = step_map ins (\<lambda>_. 0); steps = sort (remdups (map (\<lambda>c. stepOf (stableKey c)) ordered))
      in map (\<lambda>s. filter (\<lambda>c. stepOf (stableKey c) = s) ordered) steps)"

definition step_plan :: "candidate list \<Rightarrow> route_plan" where
  "step_plan cs = linear_plan cs (int (length cs))"

fun panels_from :: "int \<Rightarrow> candidate list list \<Rightarrow> (string \<times> route_plan) list" where
  "panels_from n [] = []"
| "panels_from n (cs # css) =
     (if cs = [] then panels_from n css
      else (''panel-'' @ itoa (n + 1), step_plan cs) # panels_from (n + 1) css)"

definition panelsFromGroups :: "candidate list list \<Rightarrow> (string \<times> route_plan) list" where
  "panelsFromGroups groups = panels_from 0 groups"

definition pipelineChain :: "candidate list list \<Rightarrow> route_plan list" where
  "pipelineChain groups = map step_plan (filter (\<lambda>cs. cs \<noteq> []) groups)"

definition buildFusionPlans :: "request \<Rightarrow> string \<Rightarrow> candidate list list
    \<Rightarrow> (request \<Rightarrow> string list \<Rightarrow> go_error + route_plan) option
    \<Rightarrow> go_error + (string \<times> route_plan) list \<times> route_plan option" where
  "buildFusionPlans req comboName groups judge =
     (if sum_list (map length groups) = 0 then Inl (Dom noCandidate)
      else if int (length groups) > MaxFanout then Inl (Dom (fanoutExceeded comboName))
      else (case judge of
          None \<Rightarrow> Inr (panelsFromGroups groups, None)
        | Some judgePlan \<Rightarrow> (case judgePlan req [] of
              Inl err \<Rightarrow> Inl err
            | Inr jp \<Rightarrow>
                if plan_strategy jp = StrategyFusion then Inl (Dom (fusionSelfJudge comboName))
                else if plan_combo jp = comboName then Inl (Dom (fusionSelfJudge comboName))
                else Inr (panelsFromGroups groups, Some jp))))"

section \<open>Resolve\<close>

text \<open>A result with the cursor and the seed after it.\<close>

type_synonym 'g resolved_plan = "((go_error + route_plan) \<times> cursor \<times> 'g) option"

definition resolveAuto :: "'g resolver \<Rightarrow> request \<Rightarrow> 'g \<Rightarrow> 'g resolved_plan" where
  "resolveAuto r req g =
     (let fail = (\<lambda>e. Some (Inl e, rv_cursor r, g));
          s = \<lparr>st_kind = StepModel, st_ref = req_model req, st_weight = 0, st_prompt = '''',
               st_allowed = [], st_fallback_only_on_quota = False\<rparr>;
          ex = expand_model (rv_catalog r) (Some req) 0 s (cg_Providers (rv_catalog r))
      in if req_model req = '''' then fail (Dom noCandidate)
         else if ex = [] then fail (Dom noCandidate)
         else (let pre = preflight (rv_preflight r) ex g in
           case registry_Get (rv_registry r) StrategyAuto of
             Inl e \<Rightarrow> Some (Inl (Dom e), rv_cursor r, snd pre)
           | Inr f \<Rightarrow> (case orderEnvelope r f '''' (fst pre) (snd pre) of
                 None \<Rightarrow> None
               | Some (order, ins, cur, g') \<Rightarrow>
                   (if order = [] then Some (Inl (Dom noCandidate), cur, g')
                    else Some (Inr (RoutePlan '''' order 1 StrategyAuto [] None []), cur, g')))))"

definition add_shape :: "'g resolver \<Rightarrow> request \<Rightarrow> string \<Rightarrow> strategy_kind \<Rightarrow> candidate list
    \<Rightarrow> expanded list \<Rightarrow> combo_id \<Rightarrow> int \<Rightarrow> go_error + route_plan" where
  "add_shape r req name kind order ins cid rounds =
     (if kind = StrategyFusion then
        (case buildFusionPlans req name (groupByStep order ins) (rv_judge r) of
           Inl e \<Rightarrow> Inl e
         | Inr (panels, judge) \<Rightarrow> Inr (RoutePlan cid order rounds kind panels
             (case judge of None \<Rightarrow> None | Some jp \<Rightarrow> if plan_attempts jp = [] then None else Some jp) []))
      else if kind = StrategyPipeline then
        Inr (RoutePlan cid order rounds kind [] None (pipelineChain (groupByStep order ins)))
      else Inr (RoutePlan cid order rounds kind [] None []))"

definition Resolve :: "'g resolver \<Rightarrow> request option \<Rightarrow> combo_id \<Rightarrow> 'g \<Rightarrow> 'g resolved_plan" where
  "Resolve r ro combo g =
     (let fail = (\<lambda>e. Some (Inl e, rv_cursor r, g)) in
      case ro of None \<Rightarrow> fail (Dom (invalidCombo '''' ''nil request'')) | Some req \<Rightarrow>
      case rv_registry_err r of Some e \<Rightarrow> fail e | None \<Rightarrow>
      if combo = '''' then resolveAuto r req g else
      case rv_Get r combo of Inl e \<Rightarrow> fail e | Inr c \<Rightarrow>
      case rv_List r of Inl e \<Rightarrow> fail e | Inr all \<Rightarrow>
      (let byID = (map_of (rev (map (\<lambda>x. (cb_id x, x)) all)))(cb_id c \<mapsto> c);
           kind = defaultStrategy (cb_strategy c) in
       case registry_Get (rv_registry r) kind of
         Inl _ \<Rightarrow> fail (Dom (invalidCombo (cb_name c) (''unknown strategy '' @ kind)))
       | Inr f \<Rightarrow>
      (case expand (rv_catalog r) byID (Some req) (nat MaxDepth + 1) [] c of
         Inl e \<Rightarrow> fail (Dom e)
       | Inr ex \<Rightarrow>
           if ex = [] then fail (Dom noCandidate) else
           (let pre = preflight (rv_preflight r) ex g; kept = fst pre in
            case orderEnvelope r f (cb_name c) kept (snd pre) of
              None \<Rightarrow> None
            | Some (order, ins, cur, g') \<Rightarrow>
                if order = [] then Some (Inl (Dom noCandidate), cur, g')
                else Some (add_shape r req (cb_name c) kind order ins (cb_id c)
                       (maxRoundsFor kind c (int (length kept))), cur, g')))))"

end
