(* ===== verification/Router_Laws.thy ===== *)
theory Router_Laws
  imports Router
begin

text \<open>
  What \<open>Resolve\<close> guarantees: a plan is never empty and names only declared, admitted targets;
  a combo that passed the save-time check expands without a depth or cycle error; incompatible
  candidates stand behind compatible ones; the panels of a fusion are its steps.  And where it
  falls short: the demotion under fill first, and a pipeline that uses one model twice.
\<close>

section \<open>Expansion\<close>

definition declared_target :: "catalog \<Rightarrow> candidate \<Rightarrow> bool" where
  "declared_target cat c \<longleftrightarrow> cand_provider c \<in> set (cg_Providers cat) \<and>
     (cg_Capabilities cat (cand_provider c) (cand_model c) \<noteq> None \<or>
      cand_model c \<in> set (cg_Models cat (cand_provider c)))"

text \<open>Whether a target fits the request, by what the catalog declares of it.\<close>

definition fits :: "catalog \<Rightarrow> request option \<Rightarrow> provider_id \<times> model_id \<Rightarrow> bool" where
  "fits cat req t = ft_compatible (ComputeFit
     \<lparr>cs_candidate = mk_candidate (fst t) (snd t), cs_capabilities = zero_if_unknown (cg_Capabilities cat (fst t) (snd t)),
      cs_modalities = zero_if_unknown (cg_Modalities cat (fst t) (snd t))\<rparr> req)"

definition plain :: "catalog \<Rightarrow> request option \<Rightarrow> expanded \<Rightarrow> bool" where
  "plain cat req e \<longleftrightarrow> declared_target cat (ex_candidate e) \<and> 1 \<le> ex_weight e \<and>
     ex_candidate e = mk_candidate (cand_provider (ex_candidate e)) (cand_model (ex_candidate e)) \<and>
     ex_compatible e = fits cat req (ex_target e)"

lemma WeightOrOne_pos: "1 \<le> WeightOrOne s"
  by (simp add: WeightOrOne_def)

lemma mkExpanded_plain:
  assumes "p \<in> set (cg_Providers cat)" "cg_Capabilities cat p m \<noteq> None \<or> m \<in> set (cg_Models cat p)"
  shows "plain cat req (mkExpanded req i s p m (zero_if_unknown (cg_Capabilities cat p m))
     (zero_if_unknown (cg_Modalities cat p m)))"
  using assms WeightOrOne_pos
  by (simp add: plain_def mkExpanded_def declared_target_def mk_candidate_def fits_def target_def)

lemma expand_model_plain:
  "set ps \<subseteq> set (cg_Providers cat) \<Longrightarrow> e \<in> set (expand_model cat req i s ps) \<Longrightarrow> plain cat req e"
proof (induction ps)
  case (Cons p ps)
  show ?case
  proof (cases "cg_Capabilities cat p (st_ref s)")
    case None
    with Cons show ?thesis by simp
  next
    case (Some caps)
    with Cons mkExpanded_plain [of p cat "st_ref s" req i s] show ?thesis
      by (auto simp: zero_if_unknown_def)
  qed
qed simp

lemma expand_wildcard_plain:
  "st_ref s \<in> set (cg_Providers cat) \<Longrightarrow> e \<in> set (expand_wildcard cat req i s) \<Longrightarrow> plain cat req e"
  by (auto simp: expand_wildcard_def intro: mkExpanded_plain)

lemma plain_tier: "plain cat req e \<Longrightarrow> plain cat req (e\<lparr>ex_step := i, ex_weight := WeightOrOne s\<rparr>)"
  by (simp add: plain_def WeightOrOne_pos)

lemma expand_plain:
  "expand cat byID req k chain c = Inr es \<Longrightarrow> \<forall>e \<in> set es. plain cat req e"
  "expand_steps cat byID req k chain c i ss = Inr es \<Longrightarrow> \<forall>e \<in> set es. plain cat req e"
proof (induction cat byID req k chain c and cat byID req k chain c i ss arbitrary: es and es rule: expand_expand_steps.induct)
  case (4 cat byID req k chain c i s ss)
  define here where "here = (if st_kind s = StepModel then Inr (expand_model cat req i s (cg_Providers cat))
        else if st_kind s = StepProviderWildcard then
          (if st_ref s \<notin> set (cg_Providers cat) then Inl (unknownProvider (cb_name c) (st_ref s))
           else Inr (expand_wildcard cat req i s))
        else if st_kind s = StepComboRef then
          (case byID (st_ref s) of
             None \<Rightarrow> Inl (invalidCombo (cb_name c) (''reference to unknown combo '' @ st_ref s))
           | Some ref \<Rightarrow> (case expand cat byID req k chain ref of
                 Inl e \<Rightarrow> Inl e
               | Inr nested \<Rightarrow> Inr (map (\<lambda>e. e\<lparr>ex_step := i, ex_weight := WeightOrOne s\<rparr>) nested)))
        else Inl (invalidCombo (cb_name c) (''unknown step kind '' @ st_kind s)))"
  from "4.prems" obtain xs rest where xs: "here = Inr xs"
    and rest: "expand_steps cat byID req k chain c (i + 1) ss = Inr rest" and es: "es = xs @ rest"
    unfolding expand_steps.simps Let_def here_def [symmetric] by (auto split: sum.splits)
  have "\<forall>e \<in> set xs. plain cat req e"
  proof (cases "st_kind s = StepModel \<or> st_kind s = StepProviderWildcard")
    case True
    with xs show ?thesis
      by (auto simp: here_def intro: expand_model_plain [OF order.refl] expand_wildcard_plain split: if_splits)
  next
    case False
    with xs obtain ref nested where ref: "st_kind s = StepComboRef" "byID (st_ref s) = Some ref"
      "expand cat byID req k chain ref = Inr nested"
      and "xs = map (\<lambda>e. e\<lparr>ex_step := i, ex_weight := WeightOrOne s\<rparr>) nested"
      by (auto simp: here_def split: if_splits option.splits sum.splits)
    moreover have "\<forall>e \<in> set nested. plain cat req e"
      using "4.IH"(1) False ref by simp
    ultimately show ?thesis by (auto intro: plain_tier)
  qed
  moreover have "\<forall>e \<in> set rest. plain cat req e"
    using "4.IH"(2) [OF here_def xs rest] .
  ultimately show ?case by (auto simp: es)
qed (auto split: if_splits)

lemma expand_nonempty_steps: "expand cat byID req k chain c = Inr es \<Longrightarrow> es \<noteq> [] \<Longrightarrow> cb_steps c \<noteq> []"
  by (cases k) (auto split: if_splits)

section \<open>A saved combo expands\<close>

definition expandable :: "catalog \<Rightarrow> combo_graph \<Rightarrow> combo_id \<Rightarrow> bool" where
  "expandable cat G a \<longleftrightarrow> (\<forall>b node. (ref_edge G)\<^sup>*\<^sup>* a b \<longrightarrow> G b = Some node \<longrightarrow>
     (\<forall>s \<in> set (cb_steps node). IsKnown (st_kind s) \<and>
        (st_kind s = StepProviderWildcard \<longrightarrow> st_ref s \<in> set (cg_Providers cat))))"

lemma expand_steps_ok:
  assumes "\<forall>s \<in> set ss. IsKnown (st_kind s) \<and> (st_kind s = StepProviderWildcard \<longrightarrow> st_ref s \<in> set (cg_Providers cat)) \<and>
      (st_kind s = StepComboRef \<longrightarrow> (\<exists>node es. byID (st_ref s) = Some node \<and> expand cat byID req k chain node = Inr es))"
  shows "\<exists>es. expand_steps cat byID req k chain c i ss = Inr es"
  using assms
proof (induction ss arbitrary: i)
  case (Cons s ss)
  then obtain rest where rest: "expand_steps cat byID req k chain c (i + 1) ss = Inr rest" by auto
  from Cons.prems consider "st_kind s = StepModel" | "st_kind s = StepProviderWildcard" "st_ref s \<in> set (cg_Providers cat)"
    | node es where "st_kind s = StepComboRef" "byID (st_ref s) = Some node" "expand cat byID req k chain node = Inr es"
    by (auto simp: IsKnown_def)
  then show ?case
    by cases (simp_all add: rest Let_def step_kind_defs)
qed simp

lemma expand_ok:
  assumes "longest G (cb_id c) d" "d < k" "G (cb_id c) = Some c" "resolved G (cb_id c)"
    and "\<And>x node. G x = Some node \<Longrightarrow> cb_id node = x" "expandable cat G (cb_id c)"
    and "\<forall>x \<in> set chain. \<not> (ref_edge G)\<^sup>*\<^sup>* (cb_id c) x"
  shows "\<exists>es. expand cat G req k chain c = Inr es"
  using assms(1-4,6,7)
proof (induction k arbitrary: d chain c)
  case (Suc k)
  have fresh: "cb_id c \<notin> set chain" using Suc.prems(6) by auto
  have "\<forall>s \<in> set (cb_steps c). IsKnown (st_kind s) \<and>
      (st_kind s = StepProviderWildcard \<longrightarrow> st_ref s \<in> set (cg_Providers cat))"
    using Suc.prems(3,5) by (auto simp: expandable_def)
  moreover have "\<exists>node es. G (st_ref s) = Some node \<and> expand cat G req k (cb_id c # chain) node = Inr es"
    if s: "s \<in> set (cb_steps c)" "st_kind s = StepComboRef" for s
  proof -
    have edge: "ref_edge G (cb_id c) (st_ref s)"
      using s Suc.prems(3) by (auto simp: ref_edge_def refs_of_def)
    with Suc.prems(4) have "resolved G (st_ref s)" by (blast intro: resolved_child)
    then obtain node where node: "G (st_ref s) = Some node" by (auto simp: resolved_def)
    with assms(5) have id: "cb_id node = st_ref s" by blast
    obtain m where m: "longest G (st_ref s) m" using longest_child [OF Suc.prems(1) edge] by blast
    have "has_chain G (cb_id c) (Suc m)" using edge m by (auto simp: longest_def intro: chain_Suc)
    then have "m < k" using longest_iff [OF Suc.prems(1)] Suc.prems(2) by auto
    moreover have "expandable cat G (cb_id node)"
      using Suc.prems(5) edge by (auto simp: expandable_def id intro: converse_rtranclp_into_rtranclp)
    moreover have "\<forall>x \<in> set (cb_id c # chain). \<not> (ref_edge G)\<^sup>*\<^sup>* (cb_id node) x"
      using longest_acyclic [OF Suc.prems(1)] Suc.prems(6) edge
      by (auto simp: id dest: rtranclp_into_tranclp2 converse_rtranclp_into_rtranclp)
    ultimately have "\<exists>es. expand cat G req k (cb_id c # chain) node = Inr es"
      using Suc.IH [of node m "cb_id c # chain"] m node \<open>resolved G (st_ref s)\<close> by (simp add: id)
    with node show ?thesis by blast
  qed
  ultimately have "\<exists>es. expand_steps cat G req k (cb_id c # chain) c 0 (cb_steps c) = Inr es"
    by (intro expand_steps_ok) blast
  with fresh show ?case by simp
qed simp

text \<open>C11: The save-time check is enough for the request path.  If \<open>ValidateGraph\<close> accepts a combo and
  the graph of combos is still what it was checked against, then the resolver expands it, and
  everything it refers to, with no depth, cycle or unresolved-reference error, provided the
  providers its wildcard steps name are still in the catalog.\<close>

theorem accepted_combo_expands:
  assumes "ValidateGraph c existing providers = Some (Inr d)"
    and "\<forall>x node. map_of existing x = Some node \<longrightarrow> cb_id node = x"
    and "expandable cat (graph_with c existing) (cb_id c)"
  shows "\<exists>es. expand cat (graph_with c existing) req (nat MaxDepth + 1) [] c = Inr es"
proof -
  have "0 \<le> d" using validate_graph_answers [of c existing providers] assms(1) by auto
  then have "saveable c existing providers (nat d)"
    using assms(1) by (intro iffD1 [OF validate_graph_saveable]) simp
  then have s: "longest (graph_with c existing) (cb_id c) (nat d)" "resolved (graph_with c existing) (cb_id c)"
    "int (nat d) \<le> MaxDepth"
    by (simp_all add: saveable_def)
  show ?thesis
    by (rule expand_ok [OF s(1)]) (use s assms(2,3) in \<open>auto simp: graph_with_def split: if_splits\<close>)
qed

definition sample_catalog :: catalog where
  "sample_catalog = \<lparr>cg_Providers = [''openai'', ''zai''], cg_Models = (\<lambda>p. [''m'']),
     cg_Capabilities = (\<lambda>p m. if m = ''m'' then Some 0 else None),
     cg_Modalities = (\<lambda>p m. if m = ''m'' then Some 1 else None)\<rparr>"

lemma accepted_combo_expands_witness:
  "\<exists>es. expand sample_catalog (graph_with (sample_ref ''top'' ''leaf'') [(''leaf'', sample_leaf)]) None
      (nat MaxDepth + 1) [] (sample_ref ''top'' ''leaf'') = Inr es"
proof (rule accepted_combo_expands)
  show "ValidateGraph (sample_ref ''top'' ''leaf'') [(''leaf'', sample_leaf)] None = Some (Inr 1)" by code_simp
  show "\<forall>x node. map_of [(''leaf'', sample_leaf)] x = Some node \<longrightarrow> cb_id node = x"
    by (simp add: sample_leaf_def NewCombo_def)
  have "\<forall>b node. graph_with (sample_ref ''top'' ''leaf'') [(''leaf'', sample_leaf)] b = Some node \<longrightarrow>
      (\<forall>s \<in> set (cb_steps node). IsKnown (st_kind s) \<and> st_kind s \<noteq> StepProviderWildcard)"
    by (auto simp: graph_with_def sample_ref_def sample_leaf_def NewCombo_def IsKnown_def step_kind_defs split: if_splits)
  then show "expandable sample_catalog (graph_with (sample_ref ''top'' ''leaf'') [(''leaf'', sample_leaf)])
      (cb_id (sample_ref ''top'' ''leaf''))"
    by (auto simp: expandable_def)
qed

section \<open>The plan\<close>

lemma preflight_loop_sound:
  "e \<in> set (fst (preflight_loop allow ins g)) \<Longrightarrow> e \<in> set ins \<and> (\<exists>g. fst (fst (allow (ex_candidate e) g)))"
proof (induction ins arbitrary: g)
  case (Cons x xs)
  obtain ok reason g1 out g2 where st: "allow (ex_candidate x) g = ((ok, reason), g1)"
    "preflight_loop allow xs g1 = (out, g2)" by (metis prod.exhaust)
  with Cons.IH [of g1] Cons.prems show ?case by (auto split: if_splits) (metis fst_conv)
qed simp

lemma set_preflight:
  "e \<in> set (fst (preflight pf ins g)) \<Longrightarrow>
   e \<in> set ins \<and> (\<forall>allow. pf = Some allow \<longrightarrow> (\<exists>g. fst (fst (allow (ex_candidate e) g))))"
proof (cases pf)
  case (Some allow)
  then show "e \<in> set (fst (preflight pf ins g)) \<Longrightarrow> ?thesis"
    using preflight_loop_sound [of e allow ins g] by (simp add: preflight_def)
qed (simp add: preflight_def)

lemma mset_demote: "mset (demote order ins) = mset order"
  unfolding demote_def Let_def by (rule mset_slice_stable)

context strategy
begin

lemma envelope_targets:
  assumes "orderEnvelope r order nm ins g = Some (cs, ins', cur, g')"
  shows "mset (map target cs) = mset (map ex_target ins)" "mset ins' = mset ins"
proof -
  let ?ec = "\<lparr>ev_cursor = Some (rv_cursor r), ev_rng = rv_rng r, ev_combo = nm,
        ev_cred = rv_cred r, ev_cost = rv_cost r, ev_signals = rv_signals r\<rparr>"
  obtain o' where o': "order ins ?ec g = Some o'"
    using assms unfolding orderEnvelope_def by (cases "order ins ?ec g") simp_all
  with assms have *: "cs = demote (or_candidates o') (or_in o')" "ins' = or_in o'"
    unfolding orderEnvelope_def by auto
  show "mset (map target cs) = mset (map ex_target ins)"
    using reorders [OF o'] by (simp add: *(1) mset_demote)
  show "mset ins' = mset ins" using keeps_in [OF o'] by (simp add: *(2))
qed

lemma envelope_target_set:
  "orderEnvelope r order nm ins g = Some (cs, ins', cur, g') \<Longrightarrow> target ` set cs = ex_target ` set ins"
  using envelope_targets(1) [THEN mset_eq_setD] by simp

end

text \<open>The built-in registry.\<close>

definition builtin :: "'g resolver \<Rightarrow> bool" where
  "builtin r \<longleftrightarrow> rv_registry r = map_of defaultStrategies"

lemma builtin_Get: "builtin r \<Longrightarrow> registry_Get (rv_registry r) k = Inr f \<Longrightarrow> (k, f) \<in> set defaultStrategies"
  by (auto simp: builtin_def registry_Get_def split: option.splits dest: map_of_SomeD)

text \<open>How a successful \<open>Resolve\<close> of a combo comes about.\<close>

lemma Resolve_combo:
  assumes "Resolve r (Some req) combo g = Some (Inr plan, cur, g')" "combo \<noteq> ''''"
  obtains c byID f ex order ins where "rv_Get r combo = Inr c"
    "registry_Get (rv_registry r) (defaultStrategy (cb_strategy c)) = Inr f"
    "expand (rv_catalog r) byID (Some req) (nat MaxDepth + 1) [] c = Inr ex" "ex \<noteq> []"
    "orderEnvelope r f (cb_name c) (fst (preflight (rv_preflight r) ex g)) (snd (preflight (rv_preflight r) ex g)) = Some (order, ins, cur, g')" "order \<noteq> []"
    "add_shape r req (cb_name c) (defaultStrategy (cb_strategy c)) order ins (cb_id c)
       (maxRoundsFor (defaultStrategy (cb_strategy c)) c (int (length (fst (preflight (rv_preflight r) ex g))))) = Inr plan"
proof -
  define k where "k = nat MaxDepth + 1"
  note R = assms(1) [unfolded Resolve_def Let_def option.case, folded k_def]
  have noerr: "rv_registry_err r = None" using R by (cases "rv_registry_err r") simp_all
  obtain c where c: "rv_Get r combo = Inr c"
    using R assms(2) by (cases "rv_Get r combo") (simp_all add: noerr)
  obtain all where all: "rv_List r = Inr all"
    using R assms(2) by (cases "rv_List r") (simp_all add: noerr c)
  let ?byID = "(map_of (rev (map (\<lambda>x. (cb_id x, x)) all)))(cb_id c \<mapsto> c)"
  let ?kind = "defaultStrategy (cb_strategy c)"
  obtain f where f: "registry_Get (rv_registry r) ?kind = Inr f"
    using R assms(2) by (cases "registry_Get (rv_registry r) ?kind") (simp_all add: noerr c all)
  obtain ex where ex: "expand (rv_catalog r) ?byID (Some req) k [] c = Inr ex"
    using R assms(2) by (cases "expand (rv_catalog r) ?byID (Some req) k [] c")
      (simp_all add: noerr c all f)
  have nonempty: "ex \<noteq> []" using R assms(2) by (auto simp: noerr c all f ex)
  let ?kept = "fst (preflight (rv_preflight r) ex g)" and ?g = "snd (preflight (rv_preflight r) ex g)"
  obtain order ins cur' g'' where env: "orderEnvelope r f (cb_name c) ?kept ?g = Some (order, ins, cur', g'')"
    using R assms(2) nonempty
    by (cases "orderEnvelope r f (cb_name c) ?kept ?g") (auto simp: noerr c all f ex)
  from R assms(2) nonempty have "order \<noteq> []" "cur' = cur" "g'' = g'"
    "add_shape r req (cb_name c) ?kind order ins (cb_id c) (maxRoundsFor ?kind c (int (length ?kept))) = Inr plan"
    by (auto simp: noerr c all f ex env split: if_splits)
  with that [OF c f ex [unfolded k_def] nonempty] env show thesis by blast
qed

lemma Resolve_auto:
  assumes "Resolve r (Some req) '''' g = Some (Inr plan, cur, g')"
  obtains f ex ins where
    "registry_Get (rv_registry r) StrategyAuto = Inr f"
    "\<forall>e \<in> set ex. plain (rv_catalog r) (Some req) e"
    "orderEnvelope r f '''' (fst (preflight (rv_preflight r) ex g)) (snd (preflight (rv_preflight r) ex g)) = Some (plan_attempts plan, ins, cur, g')"
    "plan_attempts plan \<noteq> []" "plan_max_rounds plan = 1" "plan_strategy plan = StrategyAuto"
    "plan = RoutePlan '''' (plan_attempts plan) 1 StrategyAuto [] None []"
proof -
  let ?s = "\<lparr>st_kind = StepModel, st_ref = req_model req, st_weight = 0, st_prompt = '''',
     st_allowed = [], st_fallback_only_on_quota = False\<rparr>"
  let ?ex = "expand_model (rv_catalog r) (Some req) 0 ?s (cg_Providers (rv_catalog r))"
  have "rv_registry_err r = None"
    using assms unfolding Resolve_def by (cases "rv_registry_err r") simp_all
  with assms have R: "resolveAuto r req g = Some (Inr plan, cur, g')"
    unfolding Resolve_def by simp
  note R = R [unfolded resolveAuto_def Let_def]
  obtain f where f: "registry_Get (rv_registry r) StrategyAuto = Inr f"
    using R by (cases "registry_Get (rv_registry r) StrategyAuto") (auto split: if_splits)
  obtain order ins cur' g'' where env: "orderEnvelope r f '''' (fst (preflight (rv_preflight r) ?ex g)) (snd (preflight (rv_preflight r) ?ex g)) = Some (order, ins, cur', g'')"
    using R f by (cases "orderEnvelope r f '''' (fst (preflight (rv_preflight r) ?ex g)) (snd (preflight (rv_preflight r) ?ex g))") (auto split: if_splits)
  with R f have "order \<noteq> []" "plan = RoutePlan '''' order 1 StrategyAuto [] None []" "cur' = cur" "g'' = g'"
    by (auto split: if_splits)
  moreover have "\<forall>e \<in> set ?ex. plain (rv_catalog r) (Some req) e"
    using expand_model_plain [OF order.refl] by blast
  ultimately show thesis using that [of f ?ex ins] f env by simp
qed

lemma add_shape_plan:
  assumes "add_shape r req name kind order ins cid rounds = Inr plan"
  shows "plan_attempts plan = order" "plan_max_rounds plan = rounds" "plan_strategy plan = kind" "plan_combo plan = cid"
  using assms by (auto simp: add_shape_def split: if_splits sum.splits)

lemma maxRoundsFor_pos: "cb_steps c \<noteq> [] \<Longrightarrow> 1 \<le> maxRoundsFor kind c n"
  by (cases "cb_steps c") (simp_all add: maxRoundsFor_def)

definition admitted :: "'g resolver \<Rightarrow> candidate \<Rightarrow> bool" where
  "admitted r c \<longleftrightarrow> declared_target (rv_catalog r) c \<and>
     (\<forall>allow. rv_preflight r = Some allow \<longrightarrow> (\<exists>g. fst (fst (allow (mk_candidate (cand_provider c) (cand_model c)) g))))"

lemma admitted_target: "target c = target c' \<Longrightarrow> admitted r c \<longleftrightarrow> admitted r c'"
  by (simp add: admitted_def target_def declared_target_def)

lemma envelope_admitted:
  assumes "strategy f" "\<forall>e \<in> set ex. plain (rv_catalog r) req e"
    and "orderEnvelope r f nm (fst (preflight (rv_preflight r) ex g)) (snd (preflight (rv_preflight r) ex g)) = Some (cs, ins, cur, g')"
  shows "\<forall>c \<in> set cs. admitted r c"
proof
  fix c assume "c \<in> set cs"
  then have "target c \<in> ex_target ` set (fst (preflight (rv_preflight r) ex g))"
    using strategy.envelope_target_set [OF assms(1,3)] by blast
  then obtain e where e: "e \<in> set (fst (preflight (rv_preflight r) ex g))" "target c = ex_target e" by blast
  then have "plain (rv_catalog r) req e" and allow: "\<forall>allow. rv_preflight r = Some allow \<longrightarrow> (\<exists>g. fst (fst (allow (ex_candidate e) g)))"
    using assms(2) set_preflight [OF e(1)] by blast+
  then have "declared_target (rv_catalog r) (ex_candidate e)"
    and "ex_candidate e = mk_candidate (cand_provider (ex_candidate e)) (cand_model (ex_candidate e))"
    by (auto simp: plain_def)
  then obtain p m where pm: "declared_target (rv_catalog r) (mk_candidate p m)" "ex_candidate e = mk_candidate p m"
    by metis
  with allow have "admitted r (ex_candidate e)" by (simp add: admitted_def mk_candidate_def)
  with admitted_target [OF e(2)] show "admitted r c" by (rule iffD2)
qed

text \<open>A plan can always be run.  Whenever \<open>Resolve\<close> with the built-in strategies answers a plan,
  its attempts are not empty, the dispatcher's loop bound is at least one, and every attempt is a
  provider and model the catalog declares and the preflight let through.\<close>

theorem resolve_plan_runnable:
  assumes "builtin r" and "Resolve r (Some req) combo g = Some (Inr plan, cur, g')"
  shows "plan_attempts plan \<noteq> [] \<and> 1 \<le> plan_max_rounds plan \<and> (\<forall>c \<in> set (plan_attempts plan). admitted r c)"
proof (cases "combo = ''''")
  case True
  with assms(2) have auto: "Resolve r (Some req) '''' g = Some (Inr plan, cur, g')" by simp
  obtain f ex ins where *: "registry_Get (rv_registry r) StrategyAuto = Inr f"
    "\<forall>e \<in> set ex. plain (rv_catalog r) (Some req) e"
    "orderEnvelope r f '''' (fst (preflight (rv_preflight r) ex g)) (snd (preflight (rv_preflight r) ex g)) = Some (plan_attempts plan, ins, cur, g')"
    "plan_attempts plan \<noteq> []" "plan_max_rounds plan = 1"
    by (rule Resolve_auto [OF auto])
  have "strategy f" using builtin_Get [OF assms(1) *(1)] by (rule default_strategy_lawful)
  from envelope_admitted [OF this *(2,3)] *(4,5) show ?thesis by simp
next
  case False
  obtain c byID f ex order ins where *: "rv_Get r combo = Inr c"
    "registry_Get (rv_registry r) (defaultStrategy (cb_strategy c)) = Inr f"
    "expand (rv_catalog r) byID (Some req) (nat MaxDepth + 1) [] c = Inr ex" "ex \<noteq> []"
    "orderEnvelope r f (cb_name c) (fst (preflight (rv_preflight r) ex g)) (snd (preflight (rv_preflight r) ex g)) = Some (order, ins, cur, g')" "order \<noteq> []"
    "add_shape r req (cb_name c) (defaultStrategy (cb_strategy c)) order ins (cb_id c)
       (maxRoundsFor (defaultStrategy (cb_strategy c)) c (int (length (fst (preflight (rv_preflight r) ex g))))) = Inr plan"
    by (rule Resolve_combo [OF assms(2) False])
  have "strategy f" using builtin_Get [OF assms(1) *(2)] by (rule default_strategy_lawful)
  from envelope_admitted [OF this expand_plain(1) [OF *(3)] *(5)] *(6) add_shape_plan [OF *(7)]
    maxRoundsFor_pos [OF expand_nonempty_steps [OF *(3,4)]] show ?thesis by simp
qed

definition sample_resolver :: "combo \<Rightarrow> int list resolver" where
  "sample_resolver c = \<lparr>rv_Get = (\<lambda>i. if i = cb_id c then Inr c else Inl (Dom ErrNotFound)), rv_List = Inr [c],
     rv_catalog = sample_catalog, rv_registry = map_of defaultStrategies, rv_registry_err = None,
     rv_preflight = None, rv_rng = None, rv_cred = None, rv_cost = None, rv_signals = None,
     rv_judge = None, rv_cursor = empty_cursor\<rparr>"

definition sample_request :: request where
  "sample_request = \<lparr>req_id = ''r'', req_model = ''m'', req_combo = '''', req_modalities = 0, req_capabilities = 0,
     req_headers = []\<rparr>"

lemma resolve_plan_runnable_witness:
  "\<exists>plan cur. Resolve (sample_resolver sample_leaf) (Some sample_request) ''leaf'' [] = Some (Inr plan, cur, []) \<and>
     map cand_provider (plan_attempts plan) = [''openai'', ''zai''] \<and>
     (\<forall>c \<in> set (plan_attempts plan). admitted (sample_resolver sample_leaf) c)"
proof -
  have "map_option (\<lambda>(res, cur, g). (map_sum (\<lambda>_. ()) (\<lambda>plan. map cand_provider (plan_attempts plan)) res, g))
      (Resolve (sample_resolver sample_leaf) (Some sample_request) ''leaf'' []) = Some (Inr [''openai'', ''zai''], [])"
    by code_simp
  then obtain plan cur where r: "Resolve (sample_resolver sample_leaf) (Some sample_request) ''leaf'' [] = Some (Inr plan, cur, [])"
    "map cand_provider (plan_attempts plan) = [''openai'', ''zai'']"
    by (cases "fst (the (Resolve (sample_resolver sample_leaf) (Some sample_request) ''leaf'' []))") auto
  have "builtin (sample_resolver sample_leaf)" by (simp add: builtin_def sample_resolver_def)
  from resolve_plan_runnable [OF this r(1)]
  have "\<forall>c \<in> set (plan_attempts plan). admitted (sample_resolver sample_leaf) c" by simp
  with r show ?thesis by (intro exI conjI)
qed

section \<open>Compatible candidates come first\<close>

lemma stableKey_ident: "ident c = ident c' \<Longrightarrow> stableKey c = stableKey c'"
  by (simp add: ident_def target_def stableKey_def)

lemma plain_key_target:
  assumes "\<forall>p \<in> set (cg_Providers cat). NUL \<notin> set p"
    and "plain cat req e" "plain cat req e'" "ex_key e = ex_key e'"
  shows "ex_target e = ex_target e'"
proof -
  obtain p m p' m' where e: "ex_candidate e = mk_candidate p m" "ex_candidate e' = mk_candidate p' m'"
    using assms(2,3) by (metis plain_def)
  with assms(2,3) have "p \<in> set (cg_Providers cat)" "p' \<in> set (cg_Providers cat)"
    by (simp_all add: plain_def declared_target_def mk_candidate_def)
  with assms(1) have "NUL \<notin> set p" "NUL \<notin> set p'" by blast+
  with assms(4) e have "p = p' \<and> m @ [NUL] = m' @ [NUL]"
    by (simp add: ex_key_def stableKey_def mk_candidate_def sep_inject)
  with e show ?thesis by (simp add: target_def mk_candidate_def)
qed

lemma compat_map_last:
  assumes "\<forall>e \<in> set ins. ex_key e = k \<longrightarrow> ex_compatible e = v" "m k = v \<or> k \<in> ex_key ` set ins"
  shows "compat_map ins m k = v"
  using assms
proof (induction ins arbitrary: m)
  case (Cons e es)
  show ?case unfolding compat_map.simps
    by (rule Cons.IH) (use Cons.prems in \<open>auto simp: ex_key_def\<close>)
qed auto

lemma compat_map_plain:
  assumes "\<forall>p \<in> set (cg_Providers cat). NUL \<notin> set p" "\<forall>e \<in> set ins. plain cat req e" "ident c \<in> ex_ident ` set ins"
  shows "compat_map ins (\<lambda>_. False) (stableKey c) = fits cat req (target c)"
proof (rule compat_map_last)
  from assms(3) obtain e where e: "e \<in> set ins" "ident c = ex_ident e" by blast
  then have key: "stableKey c = ex_key e" and tgt: "target c = ex_target e"
    by (auto simp: ex_key_def ident_def target_def stableKey_def)
  show "\<forall>e' \<in> set ins. ex_key e' = stableKey c \<longrightarrow> ex_compatible e' = fits cat req (target c)"
  proof (intro ballI impI)
    fix e' assume e': "e' \<in> set ins" "ex_key e' = stableKey c"
    with plain_key_target [OF assms(1)] assms(2) e(1) key have "ex_target e' = ex_target e" by metis
    with assms(2) e' tgt show "ex_compatible e' = fits cat req (target c)" by (simp add: plain_def)
  qed
  show "False = fits cat req (target c) \<or> stableKey c \<in> ex_key ` set ins" using e(1) key by blast
qed

lemma demote_sorted:
  "sorted_wrt (\<lambda>a b. compat_map ins (\<lambda>_. False) (stableKey b) \<longrightarrow> compat_map ins (\<lambda>_. False) (stableKey a))
     (demote order ins)"
proof -
  let ?key = "\<lambda>c. \<not> compat_map ins (\<lambda>_. False) (stableKey c)"
  have "sorted (map ?key (demote order ins))"
    unfolding demote_def Let_def by (rule sorted_slice_stable_key) auto
  then have "sorted_wrt (\<lambda>a b. ?key a \<le> ?key b) (demote order ins)" by (simp only: sorted_map)
  then show ?thesis by (rule sorted_wrt_mono_rel [rotated]) auto
qed

context stable_strategy
begin

lemma envelope_compatible_first:
  assumes "\<forall>p \<in> set (cg_Providers cat). NUL \<notin> set p" "\<forall>e \<in> set ins. plain cat req e"
    and env: "orderEnvelope r order nm ins g = Some (cs, ins', cur, g')"
  shows "sorted_wrt (\<lambda>a b. fits cat req (target b) \<longrightarrow> fits cat req (target a)) cs"
proof -
  let ?ec = "\<lparr>ev_cursor = Some (rv_cursor r), ev_rng = rv_rng r, ev_combo = nm,
        ev_cred = rv_cred r, ev_cost = rv_cost r, ev_signals = rv_signals r\<rparr>"
  obtain o' where o': "order ins ?ec g = Some o'"
    using env unfolding orderEnvelope_def by (cases "order ins ?ec g") simp_all
  with env have cs: "cs = demote (or_candidates o') (or_in o')"
    unfolding orderEnvelope_def by auto
  have same: "set (or_in o') = set ins" using keeps_in [OF o'] by (rule mset_eq_setD)
  have "set cs = set (or_candidates o')" using mset_demote mset_eq_setD cs by metis
  then have "ident c \<in> ex_ident ` set (or_in o')" if "c \<in> set cs" for c
    using order_idents [OF o'] that same by (metis imageI)
  then have "compat_map (or_in o') (\<lambda>_. False) (stableKey c) = fits cat req (target c)" if "c \<in> set cs" for c
    using compat_map_plain [OF assms(1), of "or_in o'" req c] assms(2) that same by blast
  then show ?thesis
    using demote_sorted [of "or_in o'" "or_candidates o'"] unfolding cs [symmetric]
    by (auto elim: sorted_wrt_mono_rel [rotated])
qed

end

lemma default_strategy_stable:
  "(k, f) \<in> set defaultStrategies \<Longrightarrow> k \<noteq> StrategyFillFirst \<Longrightarrow> stable_strategy f"
  by (auto simp: defaultStrategies_def stable_strategies)

lemma preflight_subset: "e \<in> set (fst (preflight pf ins g)) \<Longrightarrow> e \<in> set ins"
  by (drule set_preflight) simp

text \<open>Under every built-in strategy but fill first, a plan tries no candidate that lacks something
  the request needs before one that has it all, for a catalog whose provider ids hold no NUL.\<close>

theorem resolve_compatible_first:
  assumes "builtin r" and "Resolve r (Some req) combo g = Some (Inr plan, cur, g')"
    and "plan_strategy plan \<noteq> StrategyFillFirst" and "\<forall>p \<in> set (cg_Providers (rv_catalog r)). NUL \<notin> set p"
  shows "sorted_wrt (\<lambda>a b. fits (rv_catalog r) (Some req) (target b) \<longrightarrow> fits (rv_catalog r) (Some req) (target a))
    (plan_attempts plan)"
proof (cases "combo = ''''")
  case True
  with assms(2) have auto: "Resolve r (Some req) '''' g = Some (Inr plan, cur, g')" by simp
  obtain f ex ins where *: "registry_Get (rv_registry r) StrategyAuto = Inr f"
    "\<forall>e \<in> set ex. plain (rv_catalog r) (Some req) e"
    "orderEnvelope r f '''' (fst (preflight (rv_preflight r) ex g)) (snd (preflight (rv_preflight r) ex g)) = Some (plan_attempts plan, ins, cur, g')"
    "plan_strategy plan = StrategyAuto"
    by (rule Resolve_auto [OF auto])
  have f: "stable_strategy f"
    using builtin_Get [OF assms(1) *(1)] assms(3) *(4) by (intro default_strategy_stable) auto
  have "\<forall>e \<in> set (fst (preflight (rv_preflight r) ex g)). plain (rv_catalog r) (Some req) e"
    using *(2) by (auto dest: preflight_subset)
  from stable_strategy.envelope_compatible_first [OF f assms(4) this *(3)] show ?thesis .
next
  case False
  obtain c byID f ex order ins where *: "rv_Get r combo = Inr c"
    "registry_Get (rv_registry r) (defaultStrategy (cb_strategy c)) = Inr f"
    "expand (rv_catalog r) byID (Some req) (nat MaxDepth + 1) [] c = Inr ex" "ex \<noteq> []"
    "orderEnvelope r f (cb_name c) (fst (preflight (rv_preflight r) ex g)) (snd (preflight (rv_preflight r) ex g)) = Some (order, ins, cur, g')" "order \<noteq> []"
    "add_shape r req (cb_name c) (defaultStrategy (cb_strategy c)) order ins (cb_id c)
       (maxRoundsFor (defaultStrategy (cb_strategy c)) c (int (length (fst (preflight (rv_preflight r) ex g))))) = Inr plan"
    by (rule Resolve_combo [OF assms(2) False])
  have f: "stable_strategy f"
    using builtin_Get [OF assms(1) *(2)] assms(3) add_shape_plan [OF *(7)] by (intro default_strategy_stable) auto
  have "\<forall>e \<in> set (fst (preflight (rv_preflight r) ex g)). plain (rv_catalog r) (Some req) e"
    using expand_plain(1) [OF *(3)] by (auto dest: preflight_subset)
  from stable_strategy.envelope_compatible_first [OF f assms(4) this *(5)] add_shape_plan [OF *(7)] show ?thesis
    by simp
qed

definition vision_catalog :: catalog where
  "vision_catalog = sample_catalog\<lparr>cg_Capabilities := (\<lambda>p m. if m = ''m'' then Some (if p = ''zai'' then 1 else 0) else None)\<rparr>"

definition vision_request :: request where
  "vision_request = sample_request\<lparr>req_capabilities := 1\<rparr>"

definition vision_resolver :: "strategy_kind \<Rightarrow> int list resolver" where
  "vision_resolver k = (sample_resolver (sample_leaf\<lparr>cb_strategy := k\<rparr>))
     \<lparr>rv_catalog := vision_catalog, rv_cred := Some (\<lambda>p. [''key-'' @ p])\<rparr>"

definition attempt_targets :: "((go_error + route_plan) \<times> cursor \<times> 'g) option \<Rightarrow> (string \<times> string) list" where
  "attempt_targets res = (case res of Some (Inr plan, _) \<Rightarrow>
     map (\<lambda>c. (cand_provider c, cand_credential c)) (plan_attempts plan) | _ \<Rightarrow> [])"

lemma vision_priority:
  "attempt_targets (Resolve (vision_resolver StrategyPriority) (Some vision_request) ''leaf'' []) =
     [(''zai'', ''''), (''openai'', '''')]"
  by code_simp

lemma resolve_compatible_first_witness:
  "\<exists>plan cur g. Resolve (vision_resolver StrategyPriority) (Some vision_request) ''leaf'' [] = Some (Inr plan, cur, g) \<and>
     sorted_wrt (\<lambda>a b. fits vision_catalog (Some vision_request) (target b) \<longrightarrow>
       fits vision_catalog (Some vision_request) (target a)) (plan_attempts plan)"
proof -
  obtain plan cur g where r: "Resolve (vision_resolver StrategyPriority) (Some vision_request) ''leaf'' [] = Some (Inr plan, cur, g)"
    using vision_priority by (auto simp: attempt_targets_def split: option.splits sum.splits)
  have b: "builtin (vision_resolver StrategyPriority)"
    by (simp add: builtin_def vision_resolver_def sample_resolver_def)
  have cat: "rv_catalog (vision_resolver k) = vision_catalog" for k by (simp add: vision_resolver_def)
  have "map_option (\<lambda>(res, _). map_sum (\<lambda>_. ()) plan_strategy res)
      (Resolve (vision_resolver StrategyPriority) (Some vision_request) ''leaf'' []) = Some (Inr StrategyPriority)"
    by code_simp
  with r have "plan_strategy plan \<noteq> StrategyFillFirst" by (simp add: strategy_defs)
  moreover have "\<forall>p \<in> set (cg_Providers vision_catalog). NUL \<notin> set p"
    by (simp add: vision_catalog_def sample_catalog_def NUL_def)
  ultimately show ?thesis
    using resolve_compatible_first [OF b r] r unfolding cat by blast
qed

text \<open>Under fill first the demotion is lost.  It looks compatibility up by provider, model and
  credential, but the credential is filled in by then, so no attempt is found and none is
  demoted: for a request only \<open>zai\<close> can serve, the plan tries \<open>openai\<close> first, where the same
  combo under the priority strategy tries \<open>zai\<close> first.\<close>

theorem fill_first_loses_demotion:
  "fits vision_catalog (Some vision_request) (''zai'', ''m'') \<and>
   \<not> fits vision_catalog (Some vision_request) (''openai'', ''m'') \<and>
   attempt_targets (Resolve (vision_resolver StrategyPriority) (Some vision_request) ''leaf'' []) =
     [(''zai'', ''''), (''openai'', '''')] \<and>
   attempt_targets (Resolve (vision_resolver StrategyFillFirst) (Some vision_request) ''leaf'' []) =
     [(''openai'', ''key-openai''), (''zai'', ''key-zai'')]"
proof (intro conjI)
  show "fits vision_catalog (Some vision_request) (''zai'', ''m'')" by code_simp
  show "\<not> fits vision_catalog (Some vision_request) (''openai'', ''m'')" by code_simp
  show "attempt_targets (Resolve (vision_resolver StrategyPriority) (Some vision_request) ''leaf'' []) =
     [(''zai'', ''''), (''openai'', '''')]" by (rule vision_priority)
  show "attempt_targets (Resolve (vision_resolver StrategyFillFirst) (Some vision_request) ''leaf'' []) =
     [(''openai'', ''key-openai''), (''zai'', ''key-zai'')]" by code_simp
qed

definition two_stage :: combo where
  "two_stage = NewCombo ''two'' StrategyPipeline (map (\<lambda>prompt. \<lparr>st_kind = StepModel, st_ref = ''m'',
     st_weight = 0, st_prompt = prompt, st_allowed = [], st_fallback_only_on_quota = False\<rparr>) [''draft'', ''refine''])"

text \<open>A pipeline whose two steps use the same model is not run as two steps.  The steps are found
  again through a map keyed by provider and model, where the later step overwrites the earlier
  one, so the chain has one stage instead of two, with the model's candidates listed twice; and a
  step's prompt is in no attempt at all.\<close>

theorem pipeline_same_model_collapses:
  "length (cb_steps two_stage) = 2 \<and> ValidateGraph two_stage [] None = Some (Inr 0) \<and>
   (case Resolve (sample_resolver two_stage) (Some sample_request) ''two'' [] of
      Some (Inr plan, _) \<Rightarrow> map (\<lambda>p. map cand_provider (plan_attempts p)) (plan_chain plan) | _ \<Rightarrow> []) =
     [[''openai'', ''zai'', ''openai'', ''zai'']]"
proof (intro conjI)
  show "length (cb_steps two_stage) = 2" by code_simp
  show "ValidateGraph two_stage [] None = Some (Inr 0)" by code_simp
  show "(case Resolve (sample_resolver two_stage) (Some sample_request) ''two'' [] of
      Some (Inr plan, _) \<Rightarrow> map (\<lambda>p. map cand_provider (plan_attempts p)) (plan_chain plan) | _ \<Rightarrow> []) =
     [[''openai'', ''zai'', ''openai'', ''zai'']]" by code_simp
qed

end
