(* ===== verification/Quota.thy ===== *)
theory Quota
  imports Contracts
begin

text \<open>
  The quota filter and the usage recorder of \<open>internal/quota\<close>.  The recorder's state is the
  window state of each credential and the usage last applied for each attempt key; its mutexes
  make each operation one step, so the operations are functions of the recorder and of the
  clock's reading \<open>now\<close>.  The durable half is reached through a record of functions over a
  world, and what the recorder needs of it is the locale \<open>quota_persistence\<close>.
\<close>

section \<open>Configuration\<close>

datatype unit_kind = UnitTokens | UnitRequests | UnitCost

primrec unit_value :: "unit_kind \<Rightarrow> usage \<Rightarrow> float64" where
  "unit_value UnitTokens u = float_of_int (u_tokens u)"
| "unit_value UnitRequests u = float_of_int (u_requests u)"
| "unit_value UnitCost u = float_of_int (u_cost_micros u)"

record window_spec =
  ws_kind :: window_kind
  ws_unit :: unit_kind
  ws_limit :: float64
  ws_duration :: duration

definition hour :: duration where "hour = 3600000000000"
definition shortWindow :: duration where "shortWindow = 5 * hour"
definition longWindow :: duration where "longWindow = 7 * 24 * hour"
definition costWindow :: duration where "costWindow = 7 * 24 * hour"

definition DefaultWindows :: "window_spec list" where
  "DefaultWindows =
     [\<lparr>ws_kind = WindowShort, ws_unit = UnitTokens, ws_limit = 0, ws_duration = shortWindow\<rparr>,
      \<lparr>ws_kind = WindowLong, ws_unit = UnitTokens, ws_limit = 0, ws_duration = longWindow\<rparr>,
      \<lparr>ws_kind = WindowCost, ws_unit = UnitCost, ws_limit = 0, ws_duration = costWindow\<rparr>]"

definition DefaultCutoff :: float64 where "DefaultCutoff = fl (5 / 100)"

record quota_config =
  qc_cutoff :: float64
  qc_cutoffs :: "(window_kind \<rightharpoonup> float64) option"
  qc_windows :: "window_spec list"

definition QuotaDefaultConfig :: quota_config where
  "QuotaDefaultConfig = \<lparr>qc_cutoff = DefaultCutoff, qc_cutoffs = None, qc_windows = DefaultWindows\<rparr>"

definition normalise :: "quota_config \<Rightarrow> quota_config" where
  "normalise c =
     (let c = (if qc_cutoff c < 0 then c\<lparr>qc_cutoff := 0\<rparr> else c);
          c = (if qc_cutoff c > 1 then c\<lparr>qc_cutoff := 1\<rparr> else c)
      in if qc_windows c = [] then c\<lparr>qc_windows := qc_windows QuotaDefaultConfig\<rparr> else c)"

definition cutoffFor :: "quota_config \<Rightarrow> window_kind \<Rightarrow> float64" where
  "cutoffFor c k = (case qc_cutoffs c of
      None \<Rightarrow> qc_cutoff c
    | Some m \<Rightarrow> (case m k of Some v \<Rightarrow> v | None \<Rightarrow> qc_cutoff c))"

definition specFor :: "quota_config \<Rightarrow> window_kind \<Rightarrow> window_spec \<times> bool" where
  "specFor c k = (case find (\<lambda>s. ws_kind s = k) (qc_windows c) of
      Some s \<Rightarrow> (s, True)
    | None \<Rightarrow> (\<lparr>ws_kind = k, ws_unit = UnitTokens, ws_limit = 0, ws_duration = shortWindow\<rparr>, False))"

section \<open>The durable port\<close>

record 'w quota_port =
  qp_Snapshot :: "'w \<Rightarrow> credential_id \<Rightarrow> domain_error + quota_state option"
  qp_UpsertWindow :: "'w \<Rightarrow> credential_id \<Rightarrow> quota_window \<Rightarrow> 'w \<times> domain_error option"
  qp_GetAttempt :: "'w \<Rightarrow> string \<Rightarrow> domain_error + usage option"
  qp_RecordAttempt :: "'w \<Rightarrow> usage \<Rightarrow> string \<Rightarrow> 'w \<times> (domain_error + bool)"

section \<open>The recorder's state\<close>

record cred_state = quota_state +
  cs_loaded :: bool

record 'w recorder =
  rc_cfg :: quota_config
  rc_per :: "'w quota_port option"
  rc_world :: 'w
  rc_state :: "credential_id \<rightharpoonup> cred_state"
  rc_applied :: "string \<rightharpoonup> usage"

definition NewRecorder :: "'w quota_port option \<Rightarrow> 'w \<Rightarrow> quota_config \<Rightarrow> 'w recorder" where
  "NewRecorder per w cfg = \<lparr>rc_cfg = normalise cfg, rc_per = per, rc_world = w,
     rc_state = Map.empty, rc_applied = Map.empty\<rparr>"

definition empty_cred_state :: "credential_id \<Rightarrow> cred_state" where
  "empty_cred_state c = \<lparr>qs_credential = c, qs_windows = [], qs_terminal_code = '''', cs_loaded = False\<rparr>"

definition find_window :: "cred_state \<Rightarrow> window_kind \<Rightarrow> quota_window option" where
  "find_window st k = find (\<lambda>w. qw_kind w = k) (qs_windows st)"

text \<open>The pointer to a window: the first window of a kind is updated in place; when there is none,
  a new one is appended and updated.\<close>

fun update_window :: "window_kind \<Rightarrow> quota_window \<Rightarrow> (quota_window \<Rightarrow> quota_window)
    \<Rightarrow> quota_window list \<Rightarrow> quota_window list" where
  "update_window k new f [] = [f new]"
| "update_window k new f (w # ws) = (if qw_kind w = k then f w # ws else w # update_window k new f ws)"

definition zero_window :: "window_kind \<Rightarrow> quota_window" where
  "zero_window k = \<lparr>qw_kind = k, qw_limit = 0, qw_used = 0, qw_remaining = 0, qw_resets_at = 0,
     qw_source = SourceLocalCounter, qw_updated_at = 0\<rparr>"

definition stateLocked :: "credential_id \<Rightarrow> 'w recorder \<Rightarrow> cred_state \<times> 'w recorder" where
  "stateLocked c r =
     (let st = (case rc_state r c of Some st \<Rightarrow> st | None \<Rightarrow> empty_cred_state c);
          st' = (if cs_loaded st then st
                 else (case rc_per r of
                     None \<Rightarrow> st\<lparr>cs_loaded := True\<rparr>
                   | Some per \<Rightarrow> (case qp_Snapshot per (rc_world r) c of
                       Inr (Some p) \<Rightarrow> st\<lparr>cs_loaded := True, qs_windows := qs_windows p,
                          qs_terminal_code := qs_terminal_code p\<rparr>
                     | _ \<Rightarrow> st\<lparr>cs_loaded := True\<rparr>)))
      in (st', r\<lparr>rc_state := (rc_state r)(c \<mapsto> st')\<rparr>))"

definition put_state :: "credential_id \<Rightarrow> cred_state \<Rightarrow> 'w recorder \<Rightarrow> 'w recorder" where
  "put_state c st r = r\<lparr>rc_state := (rc_state r)(c \<mapsto> st)\<rparr>"

section \<open>The window arithmetic\<close>

definition setRemaining :: "quota_window \<Rightarrow> quota_window" where
  "setRemaining w =
     (if qw_limit w > 0 then
        (let w = (if qw_used w > qw_limit w then w\<lparr>qw_used := qw_limit w\<rparr> else w);
             rem = fl (fl (qw_limit w - qw_used w) / qw_limit w)
         in w\<lparr>qw_remaining := (if rem > 1 then 1 else rem)\<rparr>)
      else w\<lparr>qw_remaining := 1\<rparr>)"

definition created_window :: "gotime \<Rightarrow> window_spec \<Rightarrow> quota_window" where
  "created_window now' s = \<lparr>qw_kind = ws_kind s, qw_limit = ws_limit s, qw_used = 0, qw_remaining = 1,
     qw_resets_at = (if ws_duration s > 0 then now' + ws_duration s else 0),
     qw_source = SourceLocalCounter, qw_updated_at = now'\<rparr>"

definition apply_window :: "gotime \<Rightarrow> window_spec \<Rightarrow> usage \<Rightarrow> quota_window \<Rightarrow> quota_window" where
  "apply_window now' s u w =
     (let w = (if qw_resets_at w \<noteq> 0 \<and> \<not> now' < qw_resets_at w
               then w\<lparr>qw_used := 0, qw_resets_at := now' + ws_duration s\<rparr> else w)
      in if qw_source w = SourceHeader \<or> qw_source w = SourceRetryHint then w
         else setRemaining (w\<lparr>qw_used := fl (qw_used w + unit_value (ws_unit s) u),
                qw_source := SourceLocalCounter, qw_updated_at := now'\<rparr>))"

fun apply_specs :: "gotime \<Rightarrow> window_spec list \<Rightarrow> usage \<Rightarrow> quota_window list \<Rightarrow> quota_window list" where
  "apply_specs now' [] u ws = ws"
| "apply_specs now' (s # ss) u ws =
     apply_specs now' ss u (update_window (ws_kind s) (created_window now' s) (apply_window now' s u) ws)"

definition applyLocked :: "quota_config \<Rightarrow> gotime \<Rightarrow> usage \<Rightarrow> cred_state \<Rightarrow> cred_state" where
  "applyLocked cfg now' u st = st\<lparr>qs_windows := apply_specs now' (qc_windows cfg) u (qs_windows st)\<rparr>"

section \<open>Persisting\<close>

fun upsert_all :: "'w quota_port \<Rightarrow> credential_id \<Rightarrow> quota_window list \<Rightarrow> 'w \<Rightarrow> 'w" where
  "upsert_all per c [] w = w"
| "upsert_all per c (x # xs) w = upsert_all per c xs (fst (qp_UpsertWindow per w c x))"

definition persistWindows :: "cred_state \<Rightarrow> 'w recorder \<Rightarrow> 'w recorder" where
  "persistWindows st r = (case rc_per r of
      None \<Rightarrow> r
    | Some per \<Rightarrow> r\<lparr>rc_world := upsert_all per (qs_credential st) (qs_windows st) (rc_world r)\<rparr>)"

definition outcomeName :: "attempt_outcome \<Rightarrow> usage \<Rightarrow> string" where
  "outcomeName o' u = (if u_aborted u then ''aborted''
     else if o' = OutcomeSuccess then ''ok'' else ''error'')"

definition persistAttempt :: "attempt_outcome \<Rightarrow> usage \<Rightarrow> 'w recorder \<Rightarrow> 'w recorder" where
  "persistAttempt o' u r = (case rc_per r of
      None \<Rightarrow> r
    | Some per \<Rightarrow> if u_attempt_key u = '''' then r
        else r\<lparr>rc_world := fst (qp_RecordAttempt per (rc_world r) u (outcomeName o' u))\<rparr>)"

section \<open>The recorder's operations\<close>

definition RecordUsage :: "gotime \<Rightarrow> attempt_outcome \<Rightarrow> usage \<Rightarrow> 'w recorder \<Rightarrow> 'w recorder" where
  "RecordUsage now' o' u r =
     (if u_credential u = '''' then r
      else if rc_applied r (u_attempt_key u) \<noteq> None \<and> u_attempt_key u \<noteq> '''' then persistAttempt o' u r
      else let (st, r1) = stateLocked (u_credential u) r;
               st' = applyLocked (rc_cfg r) now' u st;
               r2 = persistWindows st' (put_state (u_credential u) st' r1);
               r3 = (if u_attempt_key u \<noteq> '''' then r2\<lparr>rc_applied := (rc_applied r2)(u_attempt_key u \<mapsto> u)\<rparr> else r2)
           in persistAttempt o' u r3)"

definition header_window :: "gotime \<Rightarrow> quota_window \<Rightarrow> quota_window \<Rightarrow> quota_window" where
  "header_window now' hw w = w\<lparr>qw_limit := qw_limit hw, qw_used := qw_used hw, qw_remaining := qw_remaining hw,
     qw_resets_at := qw_resets_at hw, qw_source := SourceHeader, qw_updated_at := now'\<rparr>"

fun apply_headers :: "gotime \<Rightarrow> quota_window list \<Rightarrow> quota_window list \<Rightarrow> quota_window list" where
  "apply_headers now' [] ws = ws"
| "apply_headers now' (hw # hws) ws =
     apply_headers now' hws (update_window (qw_kind hw) (zero_window (qw_kind hw)) (header_window now' hw) ws)"

definition ApplyHeader :: "gotime \<Rightarrow> credential_id \<Rightarrow> quota_window list \<Rightarrow> 'w recorder \<Rightarrow> 'w recorder" where
  "ApplyHeader now' c windows r =
     (if c = '''' \<or> windows = [] then r
      else let (st, r1) = stateLocked c r;
               st' = st\<lparr>qs_windows := apply_headers now' windows (qs_windows st)\<rparr>
           in persistWindows st' (put_state c st' r1))"

definition hint_window :: "gotime \<Rightarrow> gotime \<Rightarrow> quota_window \<Rightarrow> quota_window" where
  "hint_window now' resetsAt w = (if qw_source w = SourceHeader then w
     else w\<lparr>qw_resets_at := resetsAt, qw_remaining := 0, qw_source := SourceRetryHint, qw_updated_at := now'\<rparr>)"

definition ApplyRetryHint :: "gotime \<Rightarrow> credential_id \<Rightarrow> window_kind \<Rightarrow> gotime \<Rightarrow> 'w recorder \<Rightarrow> 'w recorder" where
  "ApplyRetryHint now' c k resetsAt r =
     (if c = '''' \<or> resetsAt = 0 then r
      else let (st, r1) = stateLocked c r;
               st' = st\<lparr>qs_windows := update_window k (zero_window k) (hint_window now' resetsAt) (qs_windows st)\<rparr>
           in persistWindows st' (put_state c st' r1))"

definition clone :: "cred_state \<Rightarrow> quota_state" where
  "clone st = \<lparr>qs_credential = qs_credential st, qs_windows = qs_windows st,
     qs_terminal_code = qs_terminal_code st\<rparr>"

definition Snapshot :: "credential_id \<Rightarrow> 'w recorder \<Rightarrow> quota_state option \<times> 'w recorder" where
  "Snapshot c r =
     (if c = '''' then (None, r)
      else let (st, r1) = stateLocked c r
           in (if qs_windows st = [] \<and> qs_terminal_code st = '''' then None else Some (clone st), r1))"

definition SetTerminal :: "credential_id \<Rightarrow> string \<Rightarrow> 'w recorder \<Rightarrow> 'w recorder" where
  "SetTerminal c code r =
     (if c = '''' \<or> code = '''' then r
      else let st = (case rc_state r c of Some st \<Rightarrow> st | None \<Rightarrow> (empty_cred_state c)\<lparr>cs_loaded := True\<rparr>)
           in put_state c (st\<lparr>qs_terminal_code := code\<rparr>) r)"

section \<open>The filter\<close>

text \<open>The reader the filter is built over; a nil reader is \<^const>\<open>None\<close>.\<close>

type_synonym 's quota_reader = "(credential_id \<Rightarrow> 's \<Rightarrow> quota_state option \<times> 's) option"

definition quotaCode :: "window_kind \<Rightarrow> string" where
  "quotaCode k = (if k = WindowCost then CodeQuotaCostCap else CodeQuotaExhausted)"

fun check_windows :: "quota_config \<Rightarrow> candidate \<Rightarrow> quota_window list \<Rightarrow> skip option" where
  "check_windows cfg c [] = None"
| "check_windows cfg c (w # ws) =
     (if qw_limit w \<le> 0 then check_windows cfg c ws
      else if qw_remaining w \<le> cutoffFor cfg (qw_kind w)
        then Some \<lparr>sk_candidate = c, sk_reason = ''quota_remaining_below_cutoff'', sk_code = quotaCode (qw_kind w)\<rparr>
      else check_windows cfg c ws)"

definition check_state :: "quota_config \<Rightarrow> candidate \<Rightarrow> quota_state option \<Rightarrow> skip option" where
  "check_state cfg c st = (case st of
      None \<Rightarrow> None
    | Some st \<Rightarrow> if qs_terminal_code st \<noteq> ''''
        then Some \<lparr>sk_candidate = c, sk_reason = ''quota_terminal'', sk_code = qs_terminal_code st\<rparr>
        else check_windows cfg c (qs_windows st))"

definition check :: "quota_config \<Rightarrow> (credential_id \<Rightarrow> 's \<Rightarrow> quota_state option \<times> 's) \<Rightarrow> candidate \<Rightarrow> 's
    \<Rightarrow> skip option \<times> 's" where
  "check cfg snap c s =
     (if cand_credential c = '''' then (None, s)
      else let (st, s') = snap (cand_credential c) s in (check_state cfg c st, s'))"

fun filter_loop :: "quota_config \<Rightarrow> (credential_id \<Rightarrow> 's \<Rightarrow> quota_state option \<times> 's) \<Rightarrow> candidate list \<Rightarrow> 's
    \<Rightarrow> candidate list \<times> skip list \<times> 's" where
  "filter_loop cfg snap [] s = ([], [], s)"
| "filter_loop cfg snap (c # cs) s =
     (case check cfg snap c s of (blocked, s1) \<Rightarrow>
      (case filter_loop cfg snap cs s1 of (kept, skips, s2) \<Rightarrow>
        (case blocked of Some k \<Rightarrow> (kept, k # skips, s2) | None \<Rightarrow> (c # kept, skips, s2))))"

definition with_attempts :: "candidate list \<Rightarrow> route_plan \<Rightarrow> route_plan" where
  "with_attempts cs p = RoutePlan (plan_combo p) cs (plan_max_rounds p) (plan_strategy p)
     (plan_panels p) (plan_judge p) (plan_chain p)"

definition FilterPlan :: "quota_config \<Rightarrow> 's quota_reader \<Rightarrow> route_plan \<Rightarrow> 's \<Rightarrow> route_plan \<times> skip list \<times> 's" where
  "FilterPlan cfg reader plan s = (case reader of
      None \<Rightarrow> (plan, [], s)
    | Some snap \<Rightarrow> (case filter_loop (normalise cfg) snap (plan_attempts plan) s of
        (kept, skips, s') \<Rightarrow> (with_attempts kept plan, skips, s')))"

definition latest_reset :: "quota_window list \<Rightarrow> gotime" where
  "latest_reset ws = foldl (\<lambda>latest w. if qw_resets_at w > latest then qw_resets_at w else latest) 0 ws"

definition QuotaRetryAfter :: "'s quota_reader \<Rightarrow> gotime \<Rightarrow> credential_id \<Rightarrow> 's \<Rightarrow> duration \<times> 's" where
  "QuotaRetryAfter reader now' c s = (case reader of
      None \<Rightarrow> (0, s)
    | Some snap \<Rightarrow> if c = '''' then (0, s)
        else (case snap c s of
            (None, s') \<Rightarrow> (0, s')
          | (Some st, s') \<Rightarrow>
              (let latest = latest_reset (qs_windows st)
               in (if latest = 0 \<or> \<not> latest > now' then 0 else time_sub latest now', s'))))"

end
