(* ===== verification/Quota_Laws.thy ===== *)
theory Quota_Laws
  imports Quota
begin

text \<open>
  What the recorder promises.  The operations are given names, so that a history is a list; a
  credential's part of the recorder is a small machine of its own (\<open>cred_op\<close>), which the whole
  recorder refines one credential at a time (\<open>load_exec\<close>).  The durable port enters as the locale
  \<open>quota_persistence\<close>.
\<close>

section \<open>Windows\<close>

definition win :: "window_kind \<Rightarrow> quota_window list \<Rightarrow> quota_window option" where
  "win k ws = find (\<lambda>w. qw_kind w = k) ws"

lemma win_Nil [simp]: "win k [] = None"
  by (simp add: win_def)

lemma win_Cons: "win k (w # ws) = (if qw_kind w = k then Some w else win k ws)"
  by (simp add: win_def)

lemma win_kind: "win k ws = Some w \<Longrightarrow> qw_kind w = k"
  by (auto simp: win_def find_Some_iff)

lemma win_in_set: "win k ws = Some w \<Longrightarrow> w \<in> set ws"
  by (auto simp: win_def find_Some_iff)

lemma win_None_iff: "win k ws = None \<longleftrightarrow> k \<notin> qw_kind ` set ws"
  by (auto simp: win_def find_None_iff)

definition windows_ok :: "quota_window list \<Rightarrow> bool" where
  "windows_ok ws \<longleftrightarrow> distinct (map qw_kind ws) \<and> list_all (\<lambda>w. 0 \<le> qw_remaining w \<and> qw_remaining w \<le> 1) ws"

lemma windows_ok_Nil [simp]: "windows_ok []"
  by (simp add: windows_ok_def)

lemma win_update_window:
  assumes "\<And>w. qw_kind (f w) = qw_kind w" and "qw_kind new = k"
  shows "win k' (update_window k new f ws) =
    (if k' = k then Some (f (case win k ws of Some w \<Rightarrow> w | None \<Rightarrow> new)) else win k' ws)"
  using assms by (induction ws) (auto simp: win_Cons)

lemma kinds_update_window:
  assumes "\<And>w. qw_kind (f w) = qw_kind w" and "qw_kind new = k"
  shows "map qw_kind (update_window k new f ws) =
    (if k \<in> set (map qw_kind ws) then map qw_kind ws else map qw_kind ws @ [k])"
  using assms by (induction ws) auto

lemma list_all_update_window:
  assumes "list_all P ws" and "\<And>w. P w \<Longrightarrow> P (f w)" and "P (f new)"
  shows "list_all P (update_window k new f ws)"
  using assms by (induction ws) auto

lemma windows_ok_update:
  assumes "windows_ok ws" and "\<And>w. qw_kind (f w) = qw_kind w" and "qw_kind new = k"
    and "\<And>w. 0 \<le> qw_remaining w \<and> qw_remaining w \<le> 1 \<Longrightarrow> 0 \<le> qw_remaining (f w) \<and> qw_remaining (f w) \<le> 1"
    and "0 \<le> qw_remaining (f new) \<and> qw_remaining (f new) \<le> 1"
  shows "windows_ok (update_window k new f ws)"
  using assms by (auto simp: windows_ok_def kinds_update_window intro!: list_all_update_window)

text \<open>The fraction \<open>setRemaining\<close> computes is one, whatever was recorded.\<close>

lemma setRemaining_range: "0 \<le> qw_remaining (setRemaining w) \<and> qw_remaining (setRemaining w) \<le> 1"
proof (cases "qw_limit w > 0")
  case True
  define u where "u = (if qw_used w > qw_limit w then qw_limit w else qw_used w)"
  have "0 \<le> fl (qw_limit w - u)" by (rule fl_nonneg) (simp add: u_def)
  then have "0 \<le> fl (fl (qw_limit w - u) / qw_limit w)"
    using True by (intro fl_nonneg) simp
  then show ?thesis using True by (auto simp: setRemaining_def Let_def u_def)
qed (simp add: setRemaining_def)

lemma setRemaining_frame [simp]:
  "qw_kind (setRemaining w) = qw_kind w" "qw_limit (setRemaining w) = qw_limit w"
  "qw_resets_at (setRemaining w) = qw_resets_at w" "qw_source (setRemaining w) = qw_source w"
  by (simp_all add: setRemaining_def Let_def)

lemma apply_window_frame [simp]:
  "qw_kind (apply_window now' s u w) = qw_kind w" "qw_limit (apply_window now' s u w) = qw_limit w"
  "qw_source (apply_window now' s u w) = qw_source w"
  by (cases "qw_source w"; simp add: apply_window_def Let_def)+

lemma apply_window_authoritative:
  "qw_source w = SourceHeader \<or> qw_source w = SourceRetryHint \<Longrightarrow>
   qw_remaining (apply_window now' s u w) = qw_remaining w"
  by (auto simp: apply_window_def Let_def)

lemma apply_window_range:
  "0 \<le> qw_remaining w \<and> qw_remaining w \<le> 1 \<Longrightarrow>
   0 \<le> qw_remaining (apply_window now' s u w) \<and> qw_remaining (apply_window now' s u w) \<le> 1"
  using setRemaining_range by (auto simp: apply_window_def Let_def)

lemma created_window_simps [simp]:
  "qw_kind (created_window now' s) = ws_kind s" "qw_limit (created_window now' s) = ws_limit s"
  "qw_remaining (created_window now' s) = 1" "qw_source (created_window now' s) = SourceLocalCounter"
  by (simp_all add: created_window_def)

lemma zero_window_simps [simp]:
  "qw_kind (zero_window k) = k" "qw_limit (zero_window k) = 0" "qw_remaining (zero_window k) = 0"
  "qw_source (zero_window k) = SourceLocalCounter"
  by (simp_all add: zero_window_def)

lemma header_window_simps [simp]:
  "qw_kind (header_window now' hw w) = qw_kind w" "qw_limit (header_window now' hw w) = qw_limit hw"
  "qw_remaining (header_window now' hw w) = qw_remaining hw"
  "qw_source (header_window now' hw w) = SourceHeader"
  by (simp_all add: header_window_def)

lemma hint_window_simps [simp]:
  "qw_kind (hint_window now' t w) = qw_kind w" "qw_limit (hint_window now' t w) = qw_limit w"
  "qw_remaining (hint_window now' t w) = (if qw_source w = SourceHeader then qw_remaining w else 0)"
  "qw_source (hint_window now' t w) = (if qw_source w = SourceHeader then SourceHeader else SourceRetryHint)"
  by (simp_all add: hint_window_def)

lemma windows_ok_apply_specs: "windows_ok ws \<Longrightarrow> windows_ok (apply_specs now' ss u ws)"
proof (induction ss arbitrary: ws)
  case (Cons s ss)
  have "windows_ok (update_window (ws_kind s) (created_window now' s) (apply_window now' s u) ws)"
    by (rule windows_ok_update [OF Cons.prems]) (simp_all add: apply_window_range)
  then show ?case by (simp add: Cons.IH)
qed simp

lemma windows_ok_apply_headers:
  assumes "windows_ok ws" and "list_all (\<lambda>h. 0 \<le> qw_remaining h \<and> qw_remaining h \<le> 1) hs"
  shows "windows_ok (apply_headers now' hs ws)"
  using assms
proof (induction hs arbitrary: ws)
  case (Cons h hs)
  have "windows_ok (update_window (qw_kind h) (zero_window (qw_kind h)) (header_window now' h) ws)"
    by (rule windows_ok_update [OF Cons.prems(1)]) (use Cons.prems(2) in simp_all)
  with Cons show ?case by simp
qed simp

section \<open>Histories\<close>

datatype quota_op =
  OpRecord gotime attempt_outcome usage
| OpHeader gotime credential_id "quota_window list"
| OpHint gotime credential_id window_kind gotime
| OpTerminal credential_id string
| OpRead credential_id

primrec quota_exec :: "quota_op \<Rightarrow> 'w recorder \<Rightarrow> 'w recorder" where
  "quota_exec (OpRecord now' o' u) r = RecordUsage now' o' u r"
| "quota_exec (OpHeader now' c ws) r = ApplyHeader now' c ws r"
| "quota_exec (OpHint now' c k t) r = ApplyRetryHint now' c k t r"
| "quota_exec (OpTerminal c code) r = SetTerminal c code r"
| "quota_exec (OpRead c) r = snd (Snapshot c r)"

definition quota_run :: "quota_op list \<Rightarrow> 'w recorder \<Rightarrow> 'w recorder" where
  "quota_run ops r = foldl (\<lambda>r op. quota_exec op r) r ops"

lemma quota_run_Nil [simp]: "quota_run [] r = r"
  by (simp add: quota_run_def)

lemma quota_run_Cons [simp]: "quota_run (op # ops) r = quota_run ops (quota_exec op r)"
  by (simp add: quota_run_def)

lemma quota_run_append: "quota_run (xs @ ys) r = quota_run ys (quota_run xs r)"
  by (simp add: quota_run_def)

primrec op_cred :: "quota_op \<Rightarrow> credential_id" where
  "op_cred (OpRecord now' o' u) = u_credential u"
| "op_cred (OpHeader now' c ws) = c"
| "op_cred (OpHint now' c k t) = c"
| "op_cred (OpTerminal c code) = c"
| "op_cred (OpRead c) = c"

text \<open>An upstream header carries fractions.\<close>

primrec op_ok :: "quota_op \<Rightarrow> bool" where
  "op_ok (OpRecord now' o' u) = True"
| "op_ok (OpHeader now' c ws) = list_all (\<lambda>w. 0 \<le> qw_remaining w \<and> qw_remaining w \<le> 1) ws"
| "op_ok (OpHint now' c k t) = True"
| "op_ok (OpTerminal c code) = True"
| "op_ok (OpRead c) = True"

text \<open>One credential's part: \<open>seen\<close> says the attempt key was applied before.\<close>

primrec cred_op :: "quota_config \<Rightarrow> bool \<Rightarrow> quota_op \<Rightarrow> cred_state \<Rightarrow> cred_state" where
  "cred_op cfg seen (OpRecord now' o' u) st = (if seen then st else applyLocked cfg now' u st)"
| "cred_op cfg seen (OpHeader now' c ws) st = st\<lparr>qs_windows := apply_headers now' ws (qs_windows st)\<rparr>"
| "cred_op cfg seen (OpHint now' c k t) st =
     (if t = 0 then st
      else st\<lparr>qs_windows := update_window k (zero_window k) (hint_window now' t) (qs_windows st)\<rparr>)"
| "cred_op cfg seen (OpTerminal c code) st = (if code = '''' then st else st\<lparr>qs_terminal_code := code\<rparr>)"
| "cred_op cfg seen (OpRead c) st = st"

primrec op_seen :: "'w recorder \<Rightarrow> quota_op \<Rightarrow> bool" where
  "op_seen r (OpRecord now' o' u) = (rc_applied r (u_attempt_key u) \<noteq> None \<and> u_attempt_key u \<noteq> '''')"
| "op_seen r (OpHeader now' c ws) = False"
| "op_seen r (OpHint now' c k t) = False"
| "op_seen r (OpTerminal c code) = False"
| "op_seen r (OpRead c) = False"

definition is_terminal_op :: "quota_op \<Rightarrow> bool" where
  "is_terminal_op op = (case op of OpTerminal c code \<Rightarrow> code \<noteq> '''' | _ \<Rightarrow> False)"

section \<open>A credential's state\<close>

definition load :: "credential_id \<Rightarrow> 'w recorder \<Rightarrow> cred_state" where
  "load c r = fst (stateLocked c r)"

definition recorder_ok :: "'w recorder \<Rightarrow> bool" where
  "recorder_ok r \<longleftrightarrow> (\<forall>c st. rc_state r c = Some st \<longrightarrow>
     cs_loaded st \<and> qs_credential st = c \<and> windows_ok (qs_windows st))"

lemma recorder_okD:
  "recorder_ok r \<Longrightarrow> rc_state r c = Some st \<Longrightarrow> cs_loaded st \<and> qs_credential st = c \<and> windows_ok (qs_windows st)"
  by (simp add: recorder_ok_def)

lemma recorder_ok_New [simp]: "recorder_ok (NewRecorder per w cfg)"
  by (simp add: recorder_ok_def NewRecorder_def)

lemma stateLocked_eq: "stateLocked c r = (load c r, put_state c (load c r) r)"
  by (simp add: load_def stateLocked_def put_state_def Let_def)

lemma load_known: "recorder_ok r \<Longrightarrow> rc_state r c = Some st \<Longrightarrow> load c r = st"
  by (simp add: load_def stateLocked_def Let_def recorder_ok_def)

lemma load_self: "rc_state r c = Some st \<Longrightarrow> cs_loaded st \<Longrightarrow> load c r = st"
  by (simp add: load_def stateLocked_def Let_def)

lemma load_cong:
  "rc_state r c = rc_state r' c \<Longrightarrow> rc_per r = rc_per r' \<Longrightarrow> rc_world r = rc_world r' \<Longrightarrow> load c r = load c r'"
  by (simp add: load_def stateLocked_def Let_def cong: option.case_cong)

lemma load_unknown:
  "rc_state r c = None \<Longrightarrow> load c r =
     (case rc_per r of
        Some per \<Rightarrow> (case qp_Snapshot per (rc_world r) c of
            Inr (Some p) \<Rightarrow> \<lparr>qs_credential = c, qs_windows = qs_windows p, qs_terminal_code = qs_terminal_code p, cs_loaded = True\<rparr>
          | _ \<Rightarrow> (empty_cred_state c)\<lparr>cs_loaded := True\<rparr>)
      | None \<Rightarrow> (empty_cred_state c)\<lparr>cs_loaded := True\<rparr>)"
  by (simp add: load_def stateLocked_def Let_def empty_cred_state_def split: option.splits sum.splits)

lemma load_basic:
  assumes "recorder_ok r"
  shows "cs_loaded (load c r) \<and> qs_credential (load c r) = c"
proof (cases "rc_state r c")
  case None
  then show ?thesis by (simp add: load_unknown empty_cred_state_def split: option.splits sum.splits)
next
  case (Some st)
  with assms show ?thesis by (simp add: load_known recorder_okD)
qed

lemma load_put [simp]:
  "recorder_ok (put_state c st r) \<Longrightarrow> load c (put_state c st r) = st"
  by (rule load_known) (simp_all add: put_state_def)

lemma Snapshot_load:
  "Snapshot c r = (if c = '''' then (None, r)
     else (if qs_windows (load c r) = [] \<and> qs_terminal_code (load c r) = '''' then None
           else Some (clone (load c r)), put_state c (load c r) r))"
  by (simp add: Snapshot_def stateLocked_eq)

lemma rc_state_put [simp]: "rc_state (put_state c st r) = (rc_state r)(c \<mapsto> st)"
  and rc_world_put [simp]: "rc_world (put_state c st r) = rc_world r"
  and rc_per_put [simp]: "rc_per (put_state c st r) = rc_per r"
  and rc_cfg_put [simp]: "rc_cfg (put_state c st r) = rc_cfg r"
  and rc_applied_put [simp]: "rc_applied (put_state c st r) = rc_applied r"
  by (simp_all add: put_state_def)

lemma persist_frame [simp]:
  "rc_state (persistWindows st r) = rc_state r" "rc_cfg (persistWindows st r) = rc_cfg r"
  "rc_per (persistWindows st r) = rc_per r" "rc_applied (persistWindows st r) = rc_applied r"
  "rc_state (persistAttempt o' u r) = rc_state r" "rc_cfg (persistAttempt o' u r) = rc_cfg r"
  "rc_per (persistAttempt o' u r) = rc_per r" "rc_applied (persistAttempt o' u r) = rc_applied r"
  by (simp_all add: persistWindows_def persistAttempt_def split: option.splits)

lemma quota_exec_frame [simp]:
  "rc_cfg (quota_exec op r) = rc_cfg r" "rc_per (quota_exec op r) = rc_per r"
  by (cases op; simp add: RecordUsage_def ApplyHeader_def ApplyRetryHint_def SetTerminal_def
    Snapshot_def stateLocked_eq Let_def)+

lemma quota_run_frame [simp]:
  "rc_cfg (quota_run ops r) = rc_cfg r" "rc_per (quota_run ops r) = rc_per r"
  by (induction ops arbitrary: r) simp_all

text \<open>What an operation puts into the map of states.\<close>

definition knows :: "credential_id \<Rightarrow> 'w recorder \<Rightarrow> bool" where
  "knows c r \<longleftrightarrow> rc_state r c \<noteq> None"

definition exec_state :: "quota_op \<Rightarrow> 'w recorder \<Rightarrow> cred_state" where
  "exec_state op r = (if is_terminal_op op \<and> \<not> knows (op_cred op) r
     then cred_op (rc_cfg r) False op ((empty_cred_state (op_cred op))\<lparr>cs_loaded := True\<rparr>)
     else cred_op (rc_cfg r) (op_seen r op) op (load (op_cred op) r))"

lemma rc_state_exec:
  assumes "recorder_ok r"
  shows "rc_state (quota_exec op r) = rc_state r \<or>
    rc_state (quota_exec op r) = (rc_state r)(op_cred op \<mapsto> exec_state op r)"
proof (cases op)
  case (OpTerminal c code)
  then show ?thesis using assms
    by (auto simp: SetTerminal_def exec_state_def is_terminal_op_def knows_def load_known split: option.splits)
qed (auto simp: RecordUsage_def ApplyHeader_def ApplyRetryHint_def Snapshot_def stateLocked_eq Let_def
    exec_state_def is_terminal_op_def)

text \<open>An operation that stores nothing changes nothing for a credential.\<close>

lemma windows_ok_cred_op:
  "windows_ok (qs_windows st) \<Longrightarrow> op_ok op \<Longrightarrow> windows_ok (qs_windows (cred_op cfg seen op st))"
  by (cases op) (auto simp: applyLocked_def windows_ok_apply_specs windows_ok_apply_headers
    intro!: windows_ok_update)

lemma cred_op_frame [simp]:
  "cs_loaded (cred_op cfg seen op st) = cs_loaded st"
  "qs_credential (cred_op cfg seen op st) = qs_credential st"
  by (cases op; simp add: applyLocked_def)+

section \<open>Over a durable port\<close>

definition over :: "'w quota_port \<Rightarrow> 'w recorder \<Rightarrow> bool" where
  "over port r \<longleftrightarrow> rc_per r = None \<or> rc_per r = Some port"

lemma over_exec [simp]: "over port (quota_exec op r) = over port r"
  by (simp add: over_def)

lemma over_run [simp]: "over port (quota_run ops r) = over port r"
  by (simp add: over_def)

locale quota_persistence =
  fixes port :: "'w quota_port"
  assumes upsert_other: "c' \<noteq> c \<Longrightarrow> qp_Snapshot port (fst (qp_UpsertWindow port w c x)) c' = qp_Snapshot port w c'"
    and attempt_frame: "qp_Snapshot port (fst (qp_RecordAttempt port w u n)) c = qp_Snapshot port w c"
    and snapshot_ok: "qp_Snapshot port w c = Inr (Some st) \<Longrightarrow> windows_ok (qs_windows st)"
begin

lemma upsert_all_other: "c' \<noteq> c \<Longrightarrow> qp_Snapshot port (upsert_all port c xs w) c' = qp_Snapshot port w c'"
  by (induction xs arbitrary: w) (simp_all add: upsert_other)

lemma load_ok:
  assumes "recorder_ok r" "over port r"
  shows "windows_ok (qs_windows (load c r))"
proof (cases "rc_state r c")
  case None
  then show ?thesis using assms(2)
    by (auto simp: load_unknown over_def empty_cred_state_def dest: snapshot_ok split: option.splits sum.splits)
next
  case (Some st)
  with assms show ?thesis by (simp add: load_known recorder_okD)
qed

lemma exec_state_ok:
  assumes "recorder_ok r" "over port r" "op_ok op"
  shows "cs_loaded (exec_state op r) \<and> qs_credential (exec_state op r) = op_cred op \<and>
    windows_ok (qs_windows (exec_state op r))"
  using assms load_basic [OF assms(1)] load_ok [OF assms(1,2)]
  by (simp add: exec_state_def windows_ok_cred_op empty_cred_state_def)

lemma recorder_ok_exec:
  assumes "recorder_ok r" "over port r" "op_ok op"
  shows "recorder_ok (quota_exec op r)"
proof -
  have "rc_state r c = Some st \<Longrightarrow> cs_loaded st \<and> qs_credential st = c \<and> windows_ok (qs_windows st)" for c st
    using assms(1) by (rule recorder_okD)
  then show ?thesis
    using rc_state_exec [OF assms(1), of op] exec_state_ok [OF assms]
    unfolding recorder_ok_def by (metis fun_upd_apply option.inject)
qed

lemma recorder_ok_run:
  assumes "recorder_ok r" "over port r" "list_all op_ok ops"
  shows "recorder_ok (quota_run ops r)"
  using assms by (induction ops arbitrary: r) (simp_all add: recorder_ok_exec)

text \<open>An operation writes no other credential's windows.\<close>

lemma world_exec_other:
  assumes "recorder_ok r" "over port r" "rc_per r = Some port" "c \<noteq> op_cred op"
  shows "qp_Snapshot port (rc_world (quota_exec op r)) c = qp_Snapshot port (rc_world r) c"
proof -
  have cred: "qs_credential (load d r) = d" for d using load_basic [OF assms(1)] by simp
  show ?thesis
    using assms(3,4) cred
    by (cases op) (auto simp: RecordUsage_def ApplyHeader_def ApplyRetryHint_def SetTerminal_def Snapshot_def
      stateLocked_eq Let_def persistWindows_def persistAttempt_def attempt_frame upsert_all_other applyLocked_def)
qed

lemma load_exec_other:
  assumes "recorder_ok r" "over port r" "op_ok op" "c \<noteq> op_cred op"
  shows "load c (quota_exec op r) = load c r"
proof (cases "rc_state r c")
  case None
  then have "rc_state (quota_exec op r) c = None"
    using rc_state_exec [OF assms(1), of op] assms(4) by auto
  with None show ?thesis
    using world_exec_other [OF assms(1,2) _ assms(4)] assms(2)
    by (auto simp: load_unknown over_def)
next
  case (Some st)
  then have "rc_state (quota_exec op r) c = Some st"
    using rc_state_exec [OF assms(1), of op] assms(4) by auto
  then show ?thesis
    using load_known [OF recorder_ok_exec [OF assms(1-3)]] load_known [OF assms(1) Some] by simp
qed

text \<open>The recorder refines the machine of one credential.\<close>

lemma load_attempt:
  assumes "over port r"
  shows "load c (persistAttempt o' u r) = load c r"
proof -
  have "rc_per r = Some port \<Longrightarrow>
      qp_Snapshot port (rc_world (persistAttempt o' u r)) c = qp_Snapshot port (rc_world r) c"
    by (simp add: persistAttempt_def attempt_frame)
  then show ?thesis using assms
    by (auto simp: load_def stateLocked_def Let_def over_def split: option.splits)
qed

lemma load_exec_same:
  assumes "recorder_ok r" "over port r" "op_ok op" "op_cred op \<noteq> ''''"
  shows "load (op_cred op) (quota_exec op r) = exec_state op r"
proof (cases "rc_state (quota_exec op r) = (rc_state r)(op_cred op \<mapsto> exec_state op r)")
  case True
  then show ?thesis by (intro load_known recorder_ok_exec assms) simp
next
  case False
  then show ?thesis using assms(2,4)
  proof (cases op)
    case (OpRecord now' o' u)
    with False assms(4) have seen: "op_seen r op"
      by (auto simp: RecordUsage_def stateLocked_eq Let_def exec_state_def is_terminal_op_def)
    with OpRecord assms(4) have "quota_exec op r = persistAttempt o' u r"
      by (simp add: RecordUsage_def)
    with OpRecord seen show ?thesis
      by (simp add: exec_state_def is_terminal_op_def load_attempt [OF assms(2)])
  next
    case (OpTerminal c code)
    with False assms(1,4) show ?thesis
      by (auto simp: SetTerminal_def exec_state_def is_terminal_op_def knows_def load_known split: option.splits)
  qed (auto simp: ApplyHeader_def ApplyRetryHint_def Snapshot_def stateLocked_eq Let_def
    exec_state_def is_terminal_op_def)
qed

lemma load_exec:
  assumes "recorder_ok r" "over port r" "op_ok op" "c \<noteq> ''''"
  shows "load c (quota_exec op r) = (if op_cred op = c then exec_state op r else load c r)"
  using load_exec_same [OF assms(1-3)] load_exec_other [OF assms(1-3)] assms(4) by auto

end

end
