(* ===== verification/Quota_Store.thy ===== *)
theory Quota_Store
  imports Quota_Laws
begin

text \<open>
  The durable quota state, \<open>internal/store/quota_store.go\<close>, as the port the recorder writes
  through, and the properties of the recorder and the filter over it.  The tables are
  \<open>quota_windows\<close>, keyed by credential and kind, and \<open>usage_attempts\<close>, keyed by attempt key; the
  column \<open>created_at\<close>, which nothing here reads, is left out.  The wall clock is read only for
  a window that was never observed; its reading is the parameter \<open>wall\<close>.  A failing disk and the
  overflow of an SQL sum are not modelled.
\<close>

section \<open>The tables\<close>

record quota_row =
  qr_used :: float64
  qr_limit :: float64
  qr_resets_at :: "gotime option"
  qr_source :: quota_source
  qr_updated_at :: gotime

record attempt_row =
  ar_credential :: credential_id
  ar_provider :: provider_id
  ar_model :: model_id
  ar_tokens :: int
  ar_requests :: int
  ar_cost_micros :: int
  ar_outcome :: string

record quota_tables =
  qt_windows :: "credential_id \<times> window_kind \<rightharpoonup> quota_row"
  qt_attempts :: "(string \<times> attempt_row) list"

definition empty_tables :: quota_tables where
  "empty_tables = \<lparr>qt_windows = Map.empty, qt_attempts = []\<rparr>"

definition row_window :: "window_kind \<Rightarrow> quota_row \<Rightarrow> quota_window" where
  "row_window k r = \<lparr>qw_kind = k, qw_limit = qr_limit r, qw_used = qr_used r, qw_remaining = 0,
     qw_resets_at = (case qr_resets_at r of Some t \<Rightarrow> t | None \<Rightarrow> 0), qw_source = qr_source r,
     qw_updated_at = qr_updated_at r\<rparr>"

text \<open>\<open>ORDER BY kind ASC\<close>, the kinds in the order of their numbers.\<close>

definition kinds_in_order :: "window_kind list" where
  "kinds_in_order = [WindowShort, WindowLong, WindowCost]"

definition store_windows :: "quota_tables \<Rightarrow> credential_id \<Rightarrow> quota_window list" where
  "store_windows tb c =
     List.map_filter (\<lambda>k. map_option (row_window k) (qt_windows tb (c, k))) kinds_in_order"

definition store_Snapshot :: "quota_tables \<Rightarrow> credential_id \<Rightarrow> domain_error + quota_state option" where
  "store_Snapshot tb c = (let ws = store_windows tb c
     in Inr (if ws = [] then None else Some \<lparr>qs_credential = c, qs_windows = ws, qs_terminal_code = ''''\<rparr>))"

definition window_row :: "gotime \<Rightarrow> quota_window \<Rightarrow> quota_row" where
  "window_row wall w = \<lparr>qr_used = qw_used w, qr_limit = qw_limit w,
     qr_resets_at = (if qw_resets_at w = 0 then None else Some (qw_resets_at w)), qr_source = qw_source w,
     qr_updated_at = (if qw_updated_at w = 0 then wall else qw_updated_at w)\<rparr>"

definition UpsertWindow :: "gotime \<Rightarrow> quota_tables \<Rightarrow> credential_id \<Rightarrow> quota_window
    \<Rightarrow> quota_tables \<times> domain_error option" where
  "UpsertWindow wall tb c w =
     (tb\<lparr>qt_windows := (qt_windows tb)((c, qw_kind w) \<mapsto> window_row wall w)\<rparr>, None)"

definition attempt_of :: "usage \<Rightarrow> string \<Rightarrow> attempt_row" where
  "attempt_of u outcome = \<lparr>ar_credential = u_credential u, ar_provider = u_provider u, ar_model = u_model u,
     ar_tokens = u_tokens u, ar_requests = u_requests u, ar_cost_micros = u_cost_micros u, ar_outcome = outcome\<rparr>"

definition RecordAttempt :: "quota_tables \<Rightarrow> usage \<Rightarrow> string \<Rightarrow> quota_tables \<times> (domain_error + bool)" where
  "RecordAttempt tb u outcome =
     (tb\<lparr>qt_attempts := AList.update (u_attempt_key u) (attempt_of u outcome) (qt_attempts tb)\<rparr>, Inr False)"

definition GetAttempt :: "quota_tables \<Rightarrow> string \<Rightarrow> domain_error + usage option" where
  "GetAttempt tb key = Inr (case map_of (qt_attempts tb) key of
      None \<Rightarrow> None
    | Some a \<Rightarrow> Some \<lparr>u_attempt_key = key, u_provider = ar_provider a, u_credential = ar_credential a,
        u_model = ar_model a, u_tokens = ar_tokens a, u_input_tokens = 0, u_output_tokens = 0,
        u_requests = ar_requests a, u_cost_micros = ar_cost_micros a, u_aborted = False\<rparr>)"

definition quota_store :: "gotime \<Rightarrow> quota_tables quota_port" where
  "quota_store wall = \<lparr>qp_Snapshot = store_Snapshot, qp_UpsertWindow = UpsertWindow wall,
     qp_GetAttempt = GetAttempt, qp_RecordAttempt = RecordAttempt\<rparr>"

section \<open>Aggregation\<close>

record usage_rollup =
  ur_key :: string
  ur_tokens :: int
  ur_requests :: int
  ur_cost_micros :: int
  ur_attempts :: int

definition rollup :: "string \<Rightarrow> attempt_row list \<Rightarrow> usage_rollup" where
  "rollup key rows = \<lparr>ur_key = key, ur_tokens = sum_list (map ar_tokens rows),
     ur_requests = sum_list (map ar_requests rows), ur_cost_micros = sum_list (map ar_cost_micros rows),
     ur_attempts = int (length rows)\<rparr>"

definition attempt_rows :: "quota_tables \<Rightarrow> attempt_row list" where
  "attempt_rows tb = map snd (qt_attempts tb)"

definition usageTotal :: "quota_tables \<Rightarrow> usage_rollup" where
  "usageTotal tb = rollup ''total'' (attempt_rows tb)"

definition usageGrouped :: "(attempt_row \<Rightarrow> string) \<Rightarrow> quota_tables \<Rightarrow> usage_rollup list" where
  "usageGrouped column tb =
     map (\<lambda>k. rollup k (filter (\<lambda>a. column a = k) (attempt_rows tb)))
       (slice_stable (<) (remdups (map column (attempt_rows tb))))"

definition AggregateUsage :: "quota_tables \<Rightarrow> usage_rollup \<times> usage_rollup list \<times> usage_rollup list" where
  "AggregateUsage tb = (usageTotal tb, usageGrouped ar_provider tb, usageGrouped ar_credential tb)"

section \<open>The store is a lawful port\<close>

lemma store_windows_simps:
  "store_windows tb c =
     (case qt_windows tb (c, WindowShort) of None \<Rightarrow> [] | Some r \<Rightarrow> [row_window WindowShort r]) @
     (case qt_windows tb (c, WindowLong) of None \<Rightarrow> [] | Some r \<Rightarrow> [row_window WindowLong r]) @
     (case qt_windows tb (c, WindowCost) of None \<Rightarrow> [] | Some r \<Rightarrow> [row_window WindowCost r])"
  by (simp add: store_windows_def kinds_in_order_def List.map_filter_def split: option.splits)

lemma row_window_simps [simp]:
  "qw_kind (row_window k r) = k" "qw_limit (row_window k r) = qr_limit r"
  "qw_remaining (row_window k r) = 0" "qw_source (row_window k r) = qr_source r"
  by (simp_all add: row_window_def)

lemma windows_ok_store: "windows_ok (store_windows tb c)"
  by (simp add: store_windows_simps windows_ok_def split: option.splits)

lemma win_store: "win k (store_windows tb c) = map_option (row_window k) (qt_windows tb (c, k))"
  by (cases k) (simp_all add: store_windows_simps win_Cons split: option.splits)

lemma quota_store_simps [simp]:
  "qp_Snapshot (quota_store wall) = store_Snapshot" "qp_UpsertWindow (quota_store wall) = UpsertWindow wall"
  "qp_GetAttempt (quota_store wall) = GetAttempt" "qp_RecordAttempt (quota_store wall) = RecordAttempt"
  by (simp_all add: quota_store_def)

lemma store_windows_cong:
  "(\<And>k. qt_windows tb (c, k) = qt_windows tb' (c, k)) \<Longrightarrow> store_windows tb c = store_windows tb' c"
  by (simp add: store_windows_def)

interpretation durable: quota_persistence "quota_store wall" for wall
proof unfold_locales
  fix c c' w x
  assume "(c' :: credential_id) \<noteq> c"
  then show "qp_Snapshot (quota_store wall) (fst (qp_UpsertWindow (quota_store wall) w c x)) c' =
      qp_Snapshot (quota_store wall) w c'"
    using store_windows_cong [of "fst (UpsertWindow wall w c x)" c' w]
    by (simp add: store_Snapshot_def UpsertWindow_def)
next
  fix w u n c
  show "qp_Snapshot (quota_store wall) (fst (qp_RecordAttempt (quota_store wall) w u n)) c =
      qp_Snapshot (quota_store wall) w c"
    using store_windows_cong [of "fst (RecordAttempt w u n)" c w]
    by (simp add: store_Snapshot_def RecordAttempt_def)
next
  fix w c st
  assume "qp_Snapshot (quota_store wall) w c = Inr (Some st)"
  then show "windows_ok (qs_windows st)"
    using windows_ok_store [of w c] by (auto simp: store_Snapshot_def Let_def split: if_splits)
qed

section \<open>Reachable recorders\<close>

text \<open>A recorder of a run, with or without the durable store.\<close>

definition fresh :: "gotime \<Rightarrow> quota_tables \<Rightarrow> quota_config \<Rightarrow> bool \<Rightarrow> quota_tables recorder" where
  "fresh wall tb cfg durable = NewRecorder (if durable then Some (quota_store wall) else None) tb cfg"

lemma fresh_simps [simp]:
  "rc_cfg (fresh wall tb cfg d) = normalise cfg" "rc_world (fresh wall tb cfg d) = tb"
  "rc_state (fresh wall tb cfg d) = Map.empty" "rc_applied (fresh wall tb cfg d) = Map.empty"
  "over (quota_store wall) (fresh wall tb cfg d)" "recorder_ok (fresh wall tb cfg d)"
  by (simp_all add: fresh_def over_def) (simp_all add: NewRecorder_def)

lemma reached_ok:
  assumes "list_all op_ok ops"
  shows "recorder_ok (quota_run ops (fresh wall tb cfg d))"
    "over (quota_store wall) (quota_run ops (fresh wall tb cfg d))"
  using durable.recorder_ok_run [OF _ _ assms, of _ wall] by simp_all

lemma reached_load_ok:
  assumes "list_all op_ok ops"
  shows "windows_ok (qs_windows (load c (quota_run ops (fresh wall tb cfg d))))"
  using durable.load_ok reached_ok [OF assms] by blast

text \<open>C12: in every recorder a run reaches, over any stored tables, each credential has one window of a
  kind at most and every window's remaining fraction lies between 0 and 1, as the filter's
  comparison with the cutoff presumes.\<close>

theorem quota_fractions:
  assumes "list_all op_ok ops"
  shows "case fst (Snapshot c (quota_run ops (fresh wall tb cfg d))) of
      None \<Rightarrow> True
    | Some st \<Rightarrow> distinct (map qw_kind (qs_windows st)) \<and>
        list_all (\<lambda>w. 0 \<le> qw_remaining w \<and> qw_remaining w \<le> 1) (qs_windows st)"
  using reached_load_ok [OF assms, of c wall tb cfg d]
  by (simp add: Snapshot_load clone_def windows_ok_def)

definition u1 :: "string \<Rightarrow> credential_id \<Rightarrow> int \<Rightarrow> usage" where
  "u1 key c n = \<lparr>u_attempt_key = key, u_provider = ''openai'', u_credential = c, u_model = ''gpt'',
     u_tokens = n, u_input_tokens = n, u_output_tokens = 0, u_requests = 1, u_cost_micros = 0,
     u_aborted = False\<rparr>"

definition capped :: "float64 \<Rightarrow> quota_config" where
  "capped limit = \<lparr>qc_cutoff = 0, qc_cutoffs = None, qc_windows =
     [\<lparr>ws_kind = WindowShort, ws_unit = UnitTokens, ws_limit = limit, ws_duration = shortWindow\<rparr>]\<rparr>"

section \<open>Replays and other accounts\<close>

lemma applied_exec: "rc_applied r k \<noteq> None \<Longrightarrow> rc_applied (quota_exec op r) k \<noteq> None"
  by (cases op) (auto simp: RecordUsage_def ApplyHeader_def ApplyRetryHint_def SetTerminal_def
    Snapshot_def stateLocked_eq Let_def)

lemma applied_run: "rc_applied r k \<noteq> None \<Longrightarrow> rc_applied (quota_run ops r) k \<noteq> None"
proof (induction ops arbitrary: r)
  case (Cons op ops)
  then show ?case using Cons.IH [OF applied_exec [OF Cons.prems]] by simp
qed simp

lemma applied_record:
  "u_credential u \<noteq> '''' \<Longrightarrow> u_attempt_key u \<noteq> '''' \<Longrightarrow>
   rc_applied (quota_exec (OpRecord now' o' u) r) (u_attempt_key u) \<noteq> None"
  by (auto simp: RecordUsage_def stateLocked_eq Let_def)

lemma Snapshot_cong: "load c r = load c r' \<Longrightarrow> fst (Snapshot c r) = fst (Snapshot c r')"
  by (simp add: Snapshot_load)

text \<open>a usage recorded again under an attempt key that was applied before, with whatever
  quantities and after whatever happened in between, changes no credential's windows.\<close>

theorem replay_ignored:
  assumes "list_all op_ok (ops0 @ ops)" and "u_credential u \<noteq> ''''" and "u_attempt_key u \<noteq> ''''"
    and "u_attempt_key u' = u_attempt_key u"
  shows "fst (Snapshot c (quota_run (ops0 @ OpRecord t o' u # ops @ [OpRecord t' o'' u']) (fresh wall tb cfg d))) =
    fst (Snapshot c (quota_run (ops0 @ OpRecord t o' u # ops) (fresh wall tb cfg d)))"
proof -
  define r where "r = quota_run (ops0 @ OpRecord t o' u # ops) (fresh wall tb cfg d)"
  have ok: "list_all op_ok (ops0 @ OpRecord t o' u # ops)" using assms(1) by simp
  have "rc_applied r (u_attempt_key u') \<noteq> None"
    using applied_run [OF applied_record [OF assms(2,3)]] by (simp add: r_def assms(4) quota_run_append)
  then have seen: "op_seen r (OpRecord t' o'' u')" using assms(3,4) by simp
  have "load c (quota_exec (OpRecord t' o'' u') r) = load c r" if "c \<noteq> ''''"
    using durable.load_exec [OF reached_ok [OF ok] _ that, of "OpRecord t' o'' u'"] seen
    by (simp add: r_def exec_state_def is_terminal_op_def)
  then have "fst (Snapshot c (quota_exec (OpRecord t' o'' u') r)) = fst (Snapshot c r)"
    by (cases "c = ''''") (simp_all add: Snapshot_load)
  moreover have "quota_run (ops0 @ OpRecord t o' u # ops @ [OpRecord t' o'' u']) (fresh wall tb cfg d) =
      quota_exec (OpRecord t' o'' u') r"
    by (simp add: r_def quota_run_append)
  ultimately show ?thesis by (simp add: r_def)
qed

text \<open>the accounts are independent: no operation on one credential changes what is known of
  another.\<close>

theorem accounts_independent:
  assumes "list_all op_ok ops" and "op_ok op" and "op_cred op \<noteq> c"
  shows "fst (Snapshot c (quota_exec op (quota_run ops (fresh wall tb cfg d)))) =
    fst (Snapshot c (quota_run ops (fresh wall tb cfg d)))"
  by (rule Snapshot_cong, rule durable.load_exec_other [OF reached_ok [OF assms(1)] assms(2)])
    (use assms(3) in simp)

section \<open>The filter\<close>

definition quota_skip :: "quota_config \<Rightarrow> 'w recorder \<Rightarrow> candidate \<Rightarrow> skip option" where
  "quota_skip cfg r c = (if cand_credential c = '''' then None
     else check_state (normalise cfg) c (fst (Snapshot (cand_credential c) r)))"

lemma load_put_load [simp]: "load c' (put_state c (load c r) r) = load c' r"
proof -
  have "cs_loaded (load c r)"
    by (simp add: load_def stateLocked_def Let_def split: option.splits sum.splits)
  then show ?thesis
    by (cases "c' = c") (simp_all add: load_self load_cong [of "put_state c (load c r) r" c' r])
qed

lemma Snapshot_stable: "fst (Snapshot c' (snd (Snapshot c r))) = fst (Snapshot c' r)"
  by (simp add: Snapshot_load)

lemma check_quota_skip: "check (normalise cfg) Snapshot c r =
    (quota_skip cfg r c, if cand_credential c = '''' then r else snd (Snapshot (cand_credential c) r))"
  by (simp add: check_def quota_skip_def split: prod.splits)

lemma quota_skip_stable: "quota_skip cfg (snd (Snapshot c' r)) c = quota_skip cfg r c"
  by (simp add: quota_skip_def Snapshot_stable)

lemma filter_loop_exact:
  "fst (filter_loop (normalise cfg) Snapshot cs r) = filter (\<lambda>c. quota_skip cfg r c = None) cs \<and>
   fst (snd (filter_loop (normalise cfg) Snapshot cs r)) = List.map_filter (quota_skip cfg r) cs"
proof (induction cs arbitrary: r)
  case Nil
  then show ?case by (simp add: List.map_filter_simps)
next
  case (Cons c cs)
  define r1 where "r1 = (if cand_credential c = '''' then r else snd (Snapshot (cand_credential c) r))"
  have st: "quota_skip cfg r1 x = quota_skip cfg r x" for x
    by (simp add: r1_def quota_skip_stable)
  obtain kept skips r2 where loop: "filter_loop (normalise cfg) Snapshot cs r1 = (kept, skips, r2)"
    by (cases "filter_loop (normalise cfg) Snapshot cs r1")
  then have "kept = filter (\<lambda>c. quota_skip cfg r c = None) cs" "skips = List.map_filter (quota_skip cfg r) cs"
    using Cons.IH [of r1] by (simp_all add: st)
  with loop show ?case
    by (simp add: check_quota_skip flip: r1_def)
      (simp add: List.map_filter_simps split: option.splits)
qed

lemma check_windows_iff:
  "check_windows cfg c ws \<noteq> None \<longleftrightarrow>
   (\<exists>w \<in> set ws. 0 < qw_limit w \<and> qw_remaining w \<le> cutoffFor cfg (qw_kind w))"
  by (induction ws) auto

lemma quota_skip_iff:
  "quota_skip cfg r c \<noteq> None \<longleftrightarrow> cand_credential c \<noteq> '''' \<and>
   (qs_terminal_code (load (cand_credential c) r) \<noteq> '''' \<or>
    (\<exists>w \<in> set (qs_windows (load (cand_credential c) r)).
       0 < qw_limit w \<and> qw_remaining w \<le> cutoffFor (normalise cfg) (qw_kind w)))"
  using check_windows_iff [of "normalise cfg" c "qs_windows (load (cand_credential c) r)"]
  by (cases "cand_credential c = ''''"; cases "qs_terminal_code (load (cand_credential c) r) = ''''";
      cases "qs_windows (load (cand_credential c) r) = []")
    (simp_all add: quota_skip_def Snapshot_load check_state_def clone_def del: not_None_eq)

text \<open>C13: the filter removes exactly the candidates whose account is terminal or has a window of known
  limit at or below its cutoff, keeps the others in order, changes nothing else of the plan,
  and reports one skip for each removed candidate in plan order.\<close>

theorem filter_exact:
  "fst (FilterPlan cfg (Some Snapshot) plan r) =
     with_attempts (filter (\<lambda>c. cand_credential c = '''' \<or>
       qs_terminal_code (load (cand_credential c) r) = '''' \<and>
       list_all (\<lambda>w. qw_limit w \<le> 0 \<or> cutoffFor (normalise cfg) (qw_kind w) < qw_remaining w)
         (qs_windows (load (cand_credential c) r))) (plan_attempts plan)) plan \<and>
   fst (snd (FilterPlan cfg (Some Snapshot) plan r)) =
     List.map_filter (quota_skip cfg r) (plan_attempts plan)"
proof -
  have "(quota_skip cfg r c = None) = (cand_credential c = '''' \<or>
       qs_terminal_code (load (cand_credential c) r) = '''' \<and>
       list_all (\<lambda>w. qw_limit w \<le> 0 \<or> cutoffFor (normalise cfg) (qw_kind w) < qw_remaining w)
         (qs_windows (load (cand_credential c) r)))" for c
    using quota_skip_iff [of cfg r c] by (auto simp: list_all_iff not_less not_le)
  then show ?thesis
    using filter_loop_exact [of cfg "plan_attempts plan" r]
    by (cases "filter_loop (normalise cfg) Snapshot (plan_attempts plan) r") (simp add: FilterPlan_def)
qed

section \<open>What the filter never learns\<close>

text \<open>A credential is stuck when it is terminal, or when the window of a kind was set by a header or a
  retry hint, its limit is known and its remaining fraction is at or below the cutoff.\<close>

definition stuck :: "quota_config \<Rightarrow> window_kind \<Rightarrow> cred_state \<Rightarrow> bool" where
  "stuck cfg k st \<longleftrightarrow> qs_terminal_code st \<noteq> '''' \<or>
     (\<exists>w. win k (qs_windows st) = Some w \<and> qw_source w \<noteq> SourceLocalCounter \<and> 0 < qw_limit w \<and>
        0 \<le> cutoffFor cfg k \<and> qw_remaining w \<le> cutoffFor cfg k)"

definition header_for :: "credential_id \<Rightarrow> quota_op \<Rightarrow> bool" where
  "header_for c op \<longleftrightarrow> (case op of OpHeader now' c' ws \<Rightarrow> c' = c | _ \<Rightarrow> False)"

lemma win_apply_specs_stuck:
  assumes "win k ws = Some w" "qw_source w \<noteq> SourceLocalCounter"
  shows "\<exists>w'. win k (apply_specs now' ss u ws) = Some w' \<and> qw_source w' = qw_source w \<and>
    qw_limit w' = qw_limit w \<and> qw_remaining w' = qw_remaining w"
  using assms
proof (induction ss arbitrary: ws w)
  case (Cons s ss)
  define ws' where "ws' = update_window (ws_kind s) (created_window now' s) (apply_window now' s u) ws"
  have "\<exists>v. win k ws' = Some v \<and> qw_source v = qw_source w \<and> qw_limit v = qw_limit w \<and>
      qw_remaining v = qw_remaining w"
    using Cons.prems apply_window_authoritative [of w now' s u]
    by (cases "qw_source w") (auto simp: ws'_def win_update_window)
  then obtain v where v: "win k ws' = Some v" "qw_source v = qw_source w" "qw_limit v = qw_limit w"
      "qw_remaining v = qw_remaining w" by blast
  with Cons.IH [of ws' v] Cons.prems(2) show ?case by (auto simp flip: ws'_def)
qed auto

lemma stuck_cred_op:
  assumes "stuck cfg k st" "\<not> header_for (op_cred op) op"
  shows "stuck cfg k (cred_op cfg seen op st)"
proof (cases op)
  case (OpRecord now' o' u)
  then show ?thesis using assms(1) win_apply_specs_stuck [of k "qs_windows st" _ now' "qc_windows cfg" u]
    by (fastforce simp: stuck_def applyLocked_def)
next
  case (OpHint now' c k' t)
  then show ?thesis using assms(1)
    by (auto simp: stuck_def win_update_window)
qed (use assms in \<open>auto simp: stuck_def header_for_def\<close>)

lemma stuck_exec:
  assumes "recorder_ok r" "over (quota_store wall) r" "op_ok op" "c \<noteq> ''''" "\<not> header_for c op"
    and "stuck (rc_cfg r) k (load c r)"
  shows "stuck (rc_cfg r) k (load c (quota_exec op r))"
proof (cases "op_cred op = c")
  case True
  then have "stuck (rc_cfg r) k (exec_state op r)"
    using assms(5,6) stuck_cred_op [of "rc_cfg r" k "load c r" op]
    by (cases "is_terminal_op op \<and> \<not> knows c r")
      (auto simp: exec_state_def stuck_def is_terminal_op_def split: quota_op.splits)
  with True show ?thesis by (simp add: durable.load_exec [OF assms(1-4)])
next
  case False
  with assms(6) show ?thesis by (simp add: durable.load_exec [OF assms(1-4)])
qed

lemma stuck_run:
  assumes "recorder_ok r" "over (quota_store wall) r" "list_all op_ok ops" "c \<noteq> ''''"
    and "list_all (\<lambda>op. \<not> header_for c op) ops" and "stuck (rc_cfg r) k (load c r)"
  shows "stuck (rc_cfg r) k (load c (quota_run ops r))"
  using assms
proof (induction ops arbitrary: r)
  case (Cons op ops)
  then have "stuck (rc_cfg r) k (load c (quota_exec op r))" using stuck_exec by simp
  then show ?case
    using Cons.IH [of "quota_exec op r"] Cons.prems durable.recorder_ok_exec [of r wall op] by simp
qed simp

lemma stuck_skips:
  assumes "stuck (normalise cfg) k (load c r)" "c \<noteq> ''''" "cand_credential x = c"
  shows "quota_skip cfg r x \<noteq> None"
  unfolding quota_skip_iff assms(3) using assms(1,2) win_kind win_in_set
  by (fastforce simp: stuck_def)

text \<open>a window exhausted by a header or a retry hint is never given back by the passing of time:
  whatever is recorded afterwards, at whatever times, however long after its reset, the account
  stays blocked until another header arrives for it.\<close>

theorem exhausted_window_never_recovers:
  assumes "list_all op_ok (ops0 @ ops)" and "c \<noteq> ''''" and "list_all (\<lambda>op. \<not> header_for c op) ops"
    and "win k (qs_windows (load c (quota_run ops0 (fresh wall tb cfg d)))) = Some w"
    and "qw_source w \<noteq> SourceLocalCounter" and "0 < qw_limit w"
    and "0 \<le> cutoffFor (normalise cfg) k" and "qw_remaining w \<le> cutoffFor (normalise cfg) k"
    and "cand_credential x = c"
  shows "quota_skip cfg (quota_run (ops0 @ ops) (fresh wall tb cfg d)) x \<noteq> None"
proof -
  define r where "r = quota_run ops0 (fresh wall tb cfg d)"
  have ok: "recorder_ok r" "over (quota_store wall) r"
    using reached_ok [of ops0] assms(1) by (simp_all add: r_def)
  have "stuck (rc_cfg r) k (load c r)" using assms(4-8) by (auto simp: stuck_def r_def)
  then have "stuck (rc_cfg r) k (load c (quota_run ops r))"
    using stuck_run [OF ok _ assms(2,3)] assms(1) by simp
  then have "quota_skip cfg (quota_run ops r) x \<noteq> None"
    using assms(2,9) by (intro stuck_skips) (simp_all add: r_def)
  then show ?thesis by (simp add: r_def quota_run_append)
qed

section \<open>Restarts\<close>

lemma windows_upsert_all:
  assumes "distinct (map qw_kind ws)"
  shows "qt_windows (upsert_all (quota_store wall) c ws tb) (c, k) =
    (case win k ws of Some w \<Rightarrow> Some (window_row wall w) | None \<Rightarrow> qt_windows tb (c, k))"
  using assms
proof (induction ws arbitrary: tb)
  case (Cons w ws)
  then have IH: "qt_windows (upsert_all (quota_store wall) c ws tb') (c, k) =
      (case win k ws of Some w \<Rightarrow> Some (window_row wall w) | None \<Rightarrow> qt_windows tb' (c, k))" for tb' by simp
  have "qw_kind w = k \<Longrightarrow> win k ws = None" using Cons.prems by (auto simp: win_None_iff)
  then show ?case by (auto simp: win_Cons IH UpsertWindow_def split: option.splits)
qed simp

lemma qt_windows_RecordAttempt [simp]: "qt_windows (fst (RecordAttempt tb u n)) = qt_windows tb"
  by (simp add: RecordAttempt_def)

lemma load_fresh:
  "load c (fresh wall tb cfg True) = \<lparr>qs_credential = c, qs_windows = store_windows tb c,
     qs_terminal_code = '''', cs_loaded = True\<rparr>"
  by (subst load_unknown) (simp_all add: fresh_def NewRecorder_def store_Snapshot_def Let_def empty_cred_state_def)

lemma row_limit [simp]: "qr_limit (window_row wall w) = qw_limit w"
  by (simp add: window_row_def)

text \<open>C14: the remaining fraction is not stored and not recomputed when a window is read back, it is zero:
  once a usage was recorded for an account, a restart blocks the account as soon as one of its
  windows has a known limit, however little of it was used.\<close>

theorem restart_blocks:
  assumes "list_all op_ok ops" and "u_credential u \<noteq> ''''"
    and "\<not> op_seen (quota_run ops (fresh wall tb cfg True)) (OpRecord t o' u)"
    and "r = quota_exec (OpRecord t o' u) (quota_run ops (fresh wall tb cfg True))"
    and "w \<in> set (qs_windows (load (u_credential u) r))" and "0 < qw_limit w"
    and "0 \<le> cutoffFor (normalise cfg) (qw_kind w)" and "cand_credential x = u_credential u"
  shows "quota_skip cfg (fresh wall (rc_world r) cfg True) x \<noteq> None"
proof -
  define r0 where "r0 = quota_run ops (fresh wall tb cfg True)"
  define c where "c = u_credential u"
  define st where "st = applyLocked (rc_cfg r0) t u (load c r0)"
  have ok: "recorder_ok r0" "over (quota_store wall) r0"
    using reached_ok [OF assms(1)] by (simp_all add: r0_def)
  have per: "rc_per r0 = Some (quota_store wall)"
    by (simp add: r0_def fresh_def NewRecorder_def)
  have r: "r = quota_exec (OpRecord t o' u) r0" by (simp add: assms(4) r0_def)
  have "load c r = exec_state (OpRecord t o' u) r0"
    using durable.load_exec_same [OF ok, of "OpRecord t o' u"] assms(2) by (simp add: r c_def)
  then have load: "load c r = st"
    using assms(3) by (auto simp: exec_state_def is_terminal_op_def st_def c_def r0_def)
  have good: "windows_ok (qs_windows st)"
    using durable.load_ok [OF ok, of c] by (simp add: st_def applyLocked_def windows_ok_apply_specs)
  have cred: "qs_credential st = c" using load_basic [OF ok(1), of c] by (simp add: st_def applyLocked_def)
  have windows: "qt_windows (rc_world r) (c, k) =
      qt_windows (upsert_all (quota_store wall) c (qs_windows st) (rc_world r0)) (c, k)" for k
  proof -
    have "\<not> (rc_applied r0 (u_attempt_key u) \<noteq> None \<and> u_attempt_key u \<noteq> '''')"
      using assms(3) by (simp add: r0_def)
    then show ?thesis using assms(2)
      by (auto simp: r RecordUsage_def stateLocked_eq Let_def persistAttempt_def persistWindows_def per
        cred c_def [symmetric] st_def [symmetric])
  qed
  define k where "k = qw_kind w"
  have "win k (qs_windows st) \<noteq> None" using assms(5) load by (auto simp: win_None_iff k_def c_def)
  then obtain v where v: "win k (qs_windows st) = Some v" by blast
  have "v = w"
    using good v win_in_set [OF v] win_kind [OF v] assms(5) load
    by (auto simp: windows_ok_def distinct_map inj_on_def k_def c_def)
  with v have "qt_windows (rc_world r) (c, k) = Some (window_row wall w)"
    using good by (simp add: windows windows_upsert_all windows_ok_def)
  then have "win k (store_windows (rc_world r) c) = Some (row_window k (window_row wall w))"
    by (simp add: win_store)
  then have "row_window k (window_row wall w) \<in> set (store_windows (rc_world r) c)" by (rule win_in_set)
  then show ?thesis
    unfolding quota_skip_iff assms(8) load_fresh using assms(2,6,7)
    by (auto simp: c_def k_def intro!: bexI [of _ "row_window (qw_kind w) (window_row wall w)"])
qed

section \<open>The default configuration\<close>

text \<open>What the running program does to the recorder: it records, it reads, at most it would hint.\<close>

definition observes :: "quota_op \<Rightarrow> bool" where
  "observes op = (case op of OpRecord now' o' u \<Rightarrow> True | OpHint now' c k t \<Rightarrow> True | OpRead c \<Rightarrow> True | _ \<Rightarrow> False)"

lemma observes_ok: "observes op \<Longrightarrow> op_ok op"
  by (cases op) (simp_all add: observes_def)

definition unlimited :: "cred_state \<Rightarrow> bool" where
  "unlimited st \<longleftrightarrow> qs_terminal_code st = '''' \<and> list_all (\<lambda>w. qw_limit w = 0) (qs_windows st)"

lemma unlimited_apply_specs:
  "list_all (\<lambda>w. qw_limit w = 0) ws \<Longrightarrow> list_all (\<lambda>s. ws_limit s = 0) ss \<Longrightarrow>
   list_all (\<lambda>w. qw_limit w = 0) (apply_specs now' ss u ws)"
  by (induction ss arbitrary: ws) (simp_all add: list_all_update_window)

lemma unlimited_cred_op:
  assumes "unlimited st" "observes op" "list_all (\<lambda>s. ws_limit s = 0) (qc_windows cfg)"
  shows "unlimited (cred_op cfg seen op st)"
  using assms by (cases op)
    (auto simp: unlimited_def observes_def applyLocked_def unlimited_apply_specs intro!: list_all_update_window)

lemma unlimited_exec:
  assumes "recorder_ok r" "over (quota_store wall) r" "observes op"
    and "list_all (\<lambda>s. ws_limit s = 0) (qc_windows (rc_cfg r))" and "c \<noteq> ''''" and "unlimited (load c r)"
  shows "unlimited (load c (quota_exec op r))"
proof -
  have "\<not> is_terminal_op op" using assms(3) by (cases op) (simp_all add: observes_def is_terminal_op_def)
  then show ?thesis
    using durable.load_exec [OF assms(1,2) observes_ok [OF assms(3)] assms(5)] unlimited_cred_op assms
    by (simp add: exec_state_def)
qed

lemma unlimited_run:
  assumes "recorder_ok r" "over (quota_store wall) r" "list_all observes ops"
    and "list_all (\<lambda>s. ws_limit s = 0) (qc_windows (rc_cfg r))" and "c \<noteq> ''''" and "unlimited (load c r)"
  shows "unlimited (load c (quota_run ops r))"
  using assms
proof (induction ops arbitrary: r)
  case (Cons op ops)
  then show ?case
    using Cons.IH [of "quota_exec op r"] durable.recorder_ok_exec [of r wall op] observes_ok [of op]
      unlimited_exec [of r wall op c] by simp
qed simp

lemma normalise_default: "normalise QuotaDefaultConfig = QuotaDefaultConfig"
proof -
  have "fl (5 / 100) \<le> fl 1" "fl 0 \<le> fl (5 / 100)" by (rule fl_mono, simp)+
  then show ?thesis
    by (simp add: normalise_def QuotaDefaultConfig_def DefaultCutoff_def DefaultWindows_def Let_def)
qed

lemma load_empty: "unlimited (load c (fresh wall empty_tables cfg d))"
  by (cases d) (simp add: load_fresh store_windows_simps empty_tables_def unlimited_def,
    subst load_unknown, simp_all add: fresh_def NewRecorder_def empty_cred_state_def unlimited_def)

text \<open>in the configuration the program runs with no quota is ever enforced: starting from an empty
  store, whatever is recorded or hinted, the filter passes every plan unchanged.\<close>

theorem default_config_never_blocks:
  assumes "list_all observes ops"
  shows "fst (FilterPlan QuotaDefaultConfig (Some Snapshot) plan
      (quota_run ops (fresh wall empty_tables QuotaDefaultConfig d))) = plan"
proof -
  define r where "r = quota_run ops (fresh wall empty_tables QuotaDefaultConfig d)"
  have "quota_skip QuotaDefaultConfig r x = None" for x
  proof (cases "cand_credential x = ''''")
    case False
    have "unlimited (load (cand_credential x) r)"
      unfolding r_def using assms False
      by (intro unlimited_run [of _ wall])
        (simp_all add: load_empty normalise_default, simp add: QuotaDefaultConfig_def DefaultWindows_def)
    then have "\<not> (quota_skip QuotaDefaultConfig r x \<noteq> None)"
      unfolding quota_skip_iff by (auto simp: unlimited_def list_all_iff)
    then show ?thesis by simp
  qed (simp add: quota_skip_def)
  then have "fst (filter_loop (normalise QuotaDefaultConfig) Snapshot (plan_attempts plan) r) = plan_attempts plan"
    by (simp add: filter_loop_exact)
  then show ?thesis
    by (cases "filter_loop (normalise QuotaDefaultConfig) Snapshot (plan_attempts plan) r"; cases plan)
      (simp add: FilterPlan_def with_attempts_def flip: r_def)
qed

section \<open>The local counter\<close>

text \<open>What a history of usages spends on one account: a usage counts once per attempt key, one without
  a key always, one without an account never.\<close>

fun spent :: "(usage \<Rightarrow> int) \<Rightarrow> credential_id \<Rightarrow> string set \<Rightarrow> usage list \<Rightarrow> int" where
  "spent f c seen [] = 0"
| "spent f c seen (u # us) =
     (if u_credential u = '''' \<or> (u_attempt_key u \<in> seen \<and> u_attempt_key u \<noteq> '''') then spent f c seen us
      else (if u_credential u = c then f u else 0) + spent f c (insert (u_attempt_key u) seen) us)"

primrec unit_count :: "unit_kind \<Rightarrow> usage \<Rightarrow> int" where
  "unit_count UnitTokens = u_tokens"
| "unit_count UnitRequests = u_requests"
| "unit_count UnitCost = u_cost_micros"

lemma unit_value_count: "unit_value k u = float_of_int (unit_count k u)"
  by (cases k) simp_all

lemma spent_nonneg: "list_all (\<lambda>u. 0 \<le> f u) us \<Longrightarrow> 0 \<le> spent f c seen us"
  by (induction us arbitrary: seen) simp_all

definition counter_at :: "int \<Rightarrow> int \<Rightarrow> gotime \<Rightarrow> quota_window option \<Rightarrow> bool" where
  "counter_at L n T w \<longleftrightarrow> (case w of
      None \<Rightarrow> n = 0
    | Some w \<Rightarrow> qw_source w = SourceLocalCounter \<and> qw_limit w = of_int L \<and> T \<le> qw_resets_at w \<and>
        qw_used w = of_int (if L = 0 then n else min L n))"

lemma counter_step:
  assumes "counter_at L n T w" "ws_limit s = of_int L" "0 \<le> L" "L \<le> 2 ^ 53" "0 \<le> n" "0 \<le> m" "n + m \<le> 2 ^ 53"
    and "t < T" "T \<le> t + ws_duration s" "0 < ws_duration s" "unit_count (ws_unit s) u = m"
  shows "counter_at L (n + m) T (Some (apply_window t s u (case w of Some w \<Rightarrow> w | None \<Rightarrow> created_window t s)))"
proof -
  define v where "v = (case w of Some w \<Rightarrow> w | None \<Rightarrow> created_window t s)"
  have v: "qw_source v = SourceLocalCounter" "qw_limit v = of_int L" "T \<le> qw_resets_at v"
      "qw_used v = of_int (if L = 0 then n else min L n)"
    using assms by (auto simp: v_def counter_at_def created_window_def split: option.splits)
  have val: "unit_value (ws_unit s) u = of_int m"
    using assms(6,7,11) assms(5) by (simp add: unit_value_count float_of_int_def)
  define a where "a = (if L = 0 then n else min L n)"
  have a: "0 \<le> a" "a + m \<le> 2 ^ 53" "a \<le> n" using assms(3-7) by (auto simp: a_def)
  have "fl (of_int (a + m)) = of_int (a + m)" using a assms(6) by (intro fl_of_int) simp
  then have "fl (qw_used v + unit_value (ws_unit s) u) = of_int (a + m)"
    by (simp add: v(4) val a_def)
  moreover have "\<not> (qw_resets_at v \<noteq> 0 \<and> \<not> t < qw_resets_at v)" using v(3) assms(8) by simp
  ultimately have w: "apply_window t s u v = setRemaining (v\<lparr>qw_used := of_int (a + m),
      qw_source := SourceLocalCounter, qw_updated_at := t\<rparr>)"
    using v(1) by (auto simp: apply_window_def Let_def)
  have "qw_used (apply_window t s u v) = of_int (if L = 0 then n + m else min L (n + m))"
  proof (cases "L = 0")
    case True
    then show ?thesis by (simp add: w setRemaining_def v(2) a_def)
  next
    case False
    have "(of_int L < (of_int a + of_int m :: rat)) = (L < a + m)"
      by (metis of_int_add of_int_less_iff)
    with False assms(3) show ?thesis
      using assms(5,6) by (auto simp: w setRemaining_def v(2) a_def Let_def min_def)
  qed
  then show ?thesis using v by (simp add: counter_at_def w v_def [symmetric])
qed

lemma win_apply_specs:
  assumes "distinct (map ws_kind ss)" "s \<in> set ss"
  shows "win (ws_kind s) (apply_specs t ss u ws) =
    Some (apply_window t s u (case win (ws_kind s) ws of Some w \<Rightarrow> w | None \<Rightarrow> created_window t s))"
  using assms
proof (induction ss arbitrary: ws)
  case (Cons x ss)
  have other: "ws_kind s \<notin> set (map ws_kind ss) \<Longrightarrow> win (ws_kind s) (apply_specs t ss u ws') = win (ws_kind s) ws'" for ws'
  proof (induction ss arbitrary: ws')
    case (Cons y ys)
    then show ?case by (simp add: win_update_window)
  qed simp
  show ?case
  proof (cases "s = x")
    case True
    then have "win (ws_kind x) (apply_specs t ss u ws') = win (ws_kind x) ws'" for ws'
      using other [of ws'] Cons.prems(1) by simp
    then show ?thesis unfolding True by (simp add: win_update_window)
  next
    case False
    with Cons.prems have "s \<in> set ss" by simp
    moreover from this Cons.prems(1) have "ws_kind s \<noteq> ws_kind x" by (auto simp: image_iff)
    ultimately show ?thesis using Cons.IH Cons.prems(1) by (simp add: win_update_window)
  qed
qed simp

definition timely :: "window_spec \<Rightarrow> gotime \<Rightarrow> gotime \<times> attempt_outcome \<times> usage \<Rightarrow> bool" where
  "timely s T x \<longleftrightarrow> fst x < T \<and> T \<le> fst x + ws_duration s \<and> 0 \<le> unit_count (ws_unit s) (snd (snd x))"

definition rec_op :: "gotime \<times> attempt_outcome \<times> usage \<Rightarrow> quota_op" where
  "rec_op x = OpRecord (fst x) (fst (snd x)) (snd (snd x))"

lemma counter_run:
  assumes "recorder_ok r" "over (quota_store wall) r" "c \<noteq> ''''"
    and "s \<in> set (qc_windows (rc_cfg r))" "distinct (map ws_kind (qc_windows (rc_cfg r)))"
    and "ws_limit s = of_int L" "0 \<le> L" "L \<le> 2 ^ 53"
    and "list_all (timely s T) xs" and "0 < ws_duration s"
    and "n + spent (unit_count (ws_unit s)) c seen (map (snd \<circ> snd) xs) \<le> 2 ^ 53" "0 \<le> n"
    and "\<And>k. k \<noteq> '''' \<Longrightarrow> (rc_applied r k \<noteq> None) = (k \<in> seen)"
    and "counter_at L n T (win (ws_kind s) (qs_windows (load c r)))"
  shows "counter_at L (n + spent (unit_count (ws_unit s)) c seen (map (snd \<circ> snd) xs)) T
    (win (ws_kind s) (qs_windows (load c (quota_run (map rec_op xs) r))))"
  using assms
proof (induction xs arbitrary: r n seen)
  case (Cons x xs)
  obtain t o' u where x: "x = (t, o', u)" by (cases x)
  define f where "f = unit_count (ws_unit s)"
  define op where "op = OpRecord t o' u"
  define r' where "r' = quota_exec op r"
  define us where "us = map (snd \<circ> snd) xs"
  have ok': "recorder_ok r'" "over (quota_store wall) r'"
    using durable.recorder_ok_exec [OF Cons.prems(1,2), of op] Cons.prems(2)
    by (simp add: r'_def op_def) (simp add: r'_def Cons.prems(2))
  have frame: "rc_cfg r' = rc_cfg r" by (simp add: r'_def)
  have run: "quota_run (map rec_op (x # xs)) r = quota_run (map rec_op xs) r'"
    by (simp add: rec_op_def x r'_def op_def)
  have timely: "timely s T x" "list_all (timely s T) xs" using Cons.prems(9) by simp_all
  have rest: "0 \<le> spent f c seen' us" for seen'
    using timely(2) by (intro spent_nonneg) (auto simp: list_all_iff timely_def us_def f_def)
  have load: "load c r' = (if op_cred op = c then exec_state op r else load c r)"
    unfolding r'_def using Cons.prems(1-3) by (intro durable.load_exec) (simp_all add: op_def)
  note IH = Cons.IH [OF ok' Cons.prems(3), unfolded frame, OF Cons.prems(4-8) timely(2) Cons.prems(10),
    folded f_def us_def]
  show ?case
  proof (cases "u_credential u = '''' \<or> (u_attempt_key u \<in> seen \<and> u_attempt_key u \<noteq> '''')")
    case True
    then have skip: "u_credential u = '''' \<or> op_seen r op" using Cons.prems(13) by (auto simp: op_def)
    then have applied: "rc_applied r' = rc_applied r" by (auto simp: r'_def op_def RecordUsage_def)
    have same: "load c r' = load c r"
      using skip Cons.prems(3) by (auto simp: load exec_state_def is_terminal_op_def op_def)
    have sp: "spent f c seen (map (snd \<circ> snd) (x # xs)) = spent f c seen us"
      using True by (simp add: x us_def)
    show ?thesis
      using IH [of n seen, unfolded applied same] Cons.prems(11-14)
      unfolding run f_def [symmetric] sp by blast
  next
    case False
    then have fresh: "\<not> op_seen r op" using Cons.prems(13) [of "u_attempt_key u"] by (auto simp: op_def)
    define m where "m = (if u_credential u = c then f u else 0)"
    define seen' where "seen' = insert (u_attempt_key u) seen"
    have sp: "spent f c seen (map (snd \<circ> snd) (x # xs)) = m + spent f c seen' us"
      using False by (auto simp: x m_def seen'_def us_def)
    have m0: "0 \<le> m" using timely(1) by (simp add: m_def f_def x timely_def)
    have total: "n + m + spent f c seen' us \<le> 2 ^ 53"
      using Cons.prems(11) unfolding f_def [symmetric] sp by simp
    have keys: "(rc_applied r' k \<noteq> None) = (k \<in> seen')" if "k \<noteq> ''''" for k
      using False fresh Cons.prems(13) [OF that] that
      by (auto simp: r'_def op_def RecordUsage_def seen'_def stateLocked_eq Let_def)
    have "counter_at L (n + m) T (win (ws_kind s) (qs_windows (load c r')))"
    proof (cases "u_credential u = c")
      case True
      with fresh have "load c r' = applyLocked (rc_cfg r) t u (load c r)"
        by (auto simp: load exec_state_def is_terminal_op_def op_def)
      then have win: "win (ws_kind s) (qs_windows (load c r')) = Some (apply_window t s u
          (case win (ws_kind s) (qs_windows (load c r)) of Some w \<Rightarrow> w | None \<Rightarrow> created_window t s))"
        by (simp add: applyLocked_def win_apply_specs [OF Cons.prems(5,4)])
      have "n + m \<le> 2 ^ 53" using total rest [of seen'] by simp
      moreover have "t < T" "T \<le> t + ws_duration s" using timely(1) by (simp_all add: timely_def x)
      moreover have "unit_count (ws_unit s) u = m" using True by (simp add: m_def f_def)
      ultimately show ?thesis
        unfolding win using Cons.prems(10) by (intro counter_step [OF Cons.prems(14,6,7,8,12) m0])
    next
      case False
      then show ?thesis using Cons.prems(14) by (simp add: load m_def op_def)
    qed
    then show ?thesis
      using IH [OF total _ keys] m0 Cons.prems(12)
      unfolding run f_def [symmetric] sp by (simp add: add.assoc)
  qed
qed (simp add: quota_run_def)

text \<open>before its reset a locally counted window of an account shows exactly what the account spent,
  each attempt key counted once, clamped to the limit where one is known.\<close>

theorem local_counter_exact:
  assumes "c \<noteq> ''''" and "s \<in> set (qc_windows (normalise cfg))" and "distinct (map ws_kind (qc_windows (normalise cfg)))"
    and "ws_limit s = of_int L" and "0 \<le> L" and "L \<le> 2 ^ 53"
    and "list_all (timely s T) xs" and "0 < ws_duration s"
    and "n = spent (unit_count (ws_unit s)) c {} (map (snd \<circ> snd) xs)" and "n \<le> 2 ^ 53"
  shows "case win (ws_kind s) (qs_windows (load c (quota_run (map rec_op xs) (fresh wall empty_tables cfg d)))) of
      None \<Rightarrow> n = 0
    | Some w \<Rightarrow> qw_used w = of_int (if L = 0 then n else min L n)"
proof -
  have none: "win k (qs_windows (load c (fresh wall empty_tables cfg d))) = None" for k
    by (cases d) (simp add: load_fresh store_windows_simps empty_tables_def,
      subst load_unknown, simp_all add: fresh_def NewRecorder_def empty_cred_state_def)
  have "counter_at L (0 + n) T (win (ws_kind s) (qs_windows (load c
      (quota_run (map rec_op xs) (fresh wall empty_tables cfg d)))))"
    unfolding assms(9)
    by (rule counter_run [of _ wall]) (use assms in \<open>simp_all add: none counter_at_def\<close>)
  then show ?thesis by (simp add: counter_at_def split: option.splits)
qed

section \<open>The usage log\<close>

lemma sum_list_partition:
  fixes f :: "'a \<Rightarrow> int"
  assumes "distinct ks" "g ` set xs \<subseteq> set ks"
  shows "sum_list (map (\<lambda>k. sum_list (map f (filter (\<lambda>x. g x = k) xs))) ks) = sum_list (map f xs)"
  using assms(2)
proof (induction xs)
  case (Cons x xs)
  have "sum_list (map (\<lambda>k. sum_list (map f (filter (\<lambda>x. g x = k) (x # xs)))) ks) =
      sum_list (map (\<lambda>k. (if k = g x then f x else 0) + sum_list (map f (filter (\<lambda>x. g x = k) xs))) ks)"
    by (intro arg_cong [of _ _ sum_list] map_cong refl) auto
  also have "\<dots> = sum_list (map (\<lambda>k. if k = g x then f x else 0) ks) +
      sum_list (map (\<lambda>k. sum_list (map f (filter (\<lambda>x. g x = k) xs))) ks)"
    by (rule sum_list_addf)
  also have "sum_list (map (\<lambda>k. if k = g x then f x else 0) ks) = f x"
    using Cons.prems assms(1) by (simp add: sum_list_distinct_conv_sum_set)
  finally show ?case using Cons by simp
qed simp

lemma sum_list_ones: "int (length xs) = sum_list (map (\<lambda>x. 1) xs)"
  by (induction xs) simp_all

lemma grouped_total:
  "sum_list (map ur_tokens (usageGrouped column tb)) = ur_tokens (usageTotal tb) \<and>
   sum_list (map ur_requests (usageGrouped column tb)) = ur_requests (usageTotal tb) \<and>
   sum_list (map ur_cost_micros (usageGrouped column tb)) = ur_cost_micros (usageTotal tb) \<and>
   sum_list (map ur_attempts (usageGrouped column tb)) = ur_attempts (usageTotal tb)"
proof -
  define ks where "ks = slice_stable (<) (remdups (map column (attempt_rows tb)))"
  have "distinct ks" "column ` set (attempt_rows tb) \<subseteq> set ks" by (simp_all add: ks_def)
  note part = sum_list_partition [OF this]
  show ?thesis
    using part [of ar_tokens] part [of ar_requests] part [of ar_cost_micros] part [of "\<lambda>x. 1"]
    by (simp add: usageGrouped_def usageTotal_def rollup_def comp_def sum_list_ones flip: ks_def)
qed

definition log_ok :: "quota_tables \<Rightarrow> bool" where
  "log_ok tb \<longleftrightarrow> distinct (map fst (qt_attempts tb))"

text \<open>the usage report is consistent and counts every attempt once: the sums over the providers and
  over the accounts equal the total, and writing an attempt again under its key replaces its row,
  so that the total becomes what one write of the new quantities alone would give.\<close>

theorem usage_report_consistent:
  assumes "log_ok tb" and "u_attempt_key u = u_attempt_key u'"
  shows "sum_list (map ur_tokens (fst (snd (AggregateUsage tb)))) = ur_tokens (fst (AggregateUsage tb)) \<and>
    sum_list (map ur_tokens (snd (snd (AggregateUsage tb)))) = ur_tokens (fst (AggregateUsage tb)) \<and>
    AggregateUsage (fst (RecordAttempt (fst (RecordAttempt tb u o1)) u' o2)) =
      AggregateUsage (fst (RecordAttempt tb u' o2)) \<and>
    ur_tokens (fst (AggregateUsage (fst (RecordAttempt tb u' o2)))) = u_tokens u' +
      ur_tokens (fst (AggregateUsage tb)) -
      (case map_of (qt_attempts tb) (u_attempt_key u') of Some a \<Rightarrow> ar_tokens a | None \<Rightarrow> 0)"
proof -
  have twice: "AList.update k b (AList.update k a al) = AList.update k b al" for k :: string and a b :: attempt_row and al
    by (induction al) auto
  have sum: "distinct (map fst al) \<Longrightarrow> sum_list (map (ar_tokens \<circ> snd) (AList.update k a al)) =
      ar_tokens a + sum_list (map (ar_tokens \<circ> snd) al) -
      (case map_of al k of Some b \<Rightarrow> ar_tokens b | None \<Rightarrow> 0)" for k :: string and a and al
    by (induction al) (auto split: option.splits simp: rev_image_eqI)
  show ?thesis
    using grouped_total [of ar_provider tb] grouped_total [of ar_credential tb] assms
      sum [of "qt_attempts tb" "u_attempt_key u'" "attempt_of u' o2"]
    by (simp add: AggregateUsage_def RecordAttempt_def twice usageTotal_def rollup_def attempt_rows_def
      log_ok_def attempt_of_def)
qed

text \<open>A terminal mark on an account that was not touched before hides its stored windows: they are
  not loaded afterwards, and the next usage overwrites them.\<close>

lemma terminal_hides_stored_windows:
  assumes "c \<noteq> ''''" "code \<noteq> ''''"
  shows "qs_windows (load c (SetTerminal c code (fresh wall tb cfg True))) = []"
  using assms by (subst load_self) (auto simp: SetTerminal_def empty_cred_state_def)

section \<open>Witnesses\<close>

definition w_full :: quota_window where
  "w_full = \<lparr>qw_kind = WindowShort, qw_limit = 100, qw_used = 0, qw_remaining = 1, qw_resets_at = 900,
     qw_source = SourceHeader, qw_updated_at = 0\<rparr>"

lemma normalise_capped [simp]: "normalise (capped n) = capped n"
  by (simp add: normalise_def capped_def Let_def)

lemma capped_simps [simp]:
  "cutoffFor (capped n) k = 0"
  "qc_windows (capped n) = [\<lparr>ws_kind = WindowShort, ws_unit = UnitTokens, ws_limit = n, ws_duration = shortWindow\<rparr>]"
  by (simp_all add: capped_def cutoffFor_def)

lemma load_memory: "load c (fresh wall tb cfg False) = (empty_cred_state c)\<lparr>cs_loaded := True\<rparr>"
  by (subst load_unknown) (simp_all add: fresh_def NewRecorder_def)

lemma ops_ok_example:
  "list_all op_ok [OpHeader 5 ''acc'' [w_full], OpRecord 6 OutcomeSuccess (u1 ''k1'' ''acc'' 10)]"
  by (simp add: w_full_def)

theorem quota_fractions_witness:
  "case fst (Snapshot ''acc'' (quota_run [OpHeader 5 ''acc'' [w_full], OpRecord 6 OutcomeSuccess (u1 ''k1'' ''acc'' 10)]
      (fresh 0 empty_tables (capped 100) True))) of
      None \<Rightarrow> True
    | Some st \<Rightarrow> distinct (map qw_kind (qs_windows st)) \<and>
        list_all (\<lambda>w. 0 \<le> qw_remaining w \<and> qw_remaining w \<le> 1) (qs_windows st)"
  by (rule quota_fractions [OF ops_ok_example])

theorem replay_ignored_witness:
  "fst (Snapshot ''acc'' (quota_run ([] @ OpRecord 5 OutcomeSuccess (u1 ''k1'' ''acc'' 10) # [OpRead ''acc''] @
      [OpRecord 9 OutcomeSuccess (u1 ''k1'' ''acc'' 70)]) (fresh 0 empty_tables (capped 100) True))) =
   fst (Snapshot ''acc'' (quota_run ([] @ OpRecord 5 OutcomeSuccess (u1 ''k1'' ''acc'' 10) # [OpRead ''acc''])
      (fresh 0 empty_tables (capped 100) True)))"
  by (rule replay_ignored) (simp_all add: u1_def)

theorem accounts_independent_witness:
  "fst (Snapshot ''other'' (quota_exec (OpRecord 6 OutcomeSuccess (u1 ''k1'' ''acc'' 10))
      (quota_run [OpHeader 5 ''other'' [w_full]] (fresh 0 empty_tables (capped 100) True)))) =
   fst (Snapshot ''other'' (quota_run [OpHeader 5 ''other'' [w_full]] (fresh 0 empty_tables (capped 100) True)))"
  by (rule accounts_independent) (simp_all add: u1_def w_full_def)

text \<open>A header says the window is spent until 900; at one million the account is still refused.\<close>

theorem exhausted_window_never_recovers_witness:
  "quota_skip (capped 100) (quota_run ([OpHeader 5 ''acc'' [w_full\<lparr>qw_remaining := 0\<rparr>]] @
      [OpRecord 1000000 OutcomeSuccess (u1 ''k1'' ''acc'' 10)]) (fresh 0 empty_tables (capped 100) False))
     ((mk_candidate ''openai'' ''gpt'')\<lparr>cand_credential := ''acc''\<rparr>) \<noteq> None"
proof (rule exhausted_window_never_recovers [where c = "''acc''" and k = WindowShort
      and w = "header_window 5 (w_full\<lparr>qw_remaining := 0\<rparr>) (zero_window WindowShort)"])
  have "load ''acc'' (quota_exec (OpHeader 5 ''acc'' [w_full\<lparr>qw_remaining := 0\<rparr>]) (fresh 0 empty_tables (capped 100) False)) =
      cred_op (capped 100) False (OpHeader 5 ''acc'' [w_full\<lparr>qw_remaining := 0\<rparr>])
        (load ''acc'' (fresh 0 empty_tables (capped 100) False))"
    using durable.load_exec_same [of "fresh 0 empty_tables (capped 100) False" 0
      "OpHeader 5 ''acc'' [w_full\<lparr>qw_remaining := 0\<rparr>]"]
    by (simp add: exec_state_def is_terminal_op_def w_full_def)
  then show "win WindowShort (qs_windows (load ''acc'' (quota_run [OpHeader 5 ''acc'' [w_full\<lparr>qw_remaining := 0\<rparr>]]
      (fresh 0 empty_tables (capped 100) False)))) =
      Some (header_window 5 (w_full\<lparr>qw_remaining := 0\<rparr>) (zero_window WindowShort))"
    by (simp add: load_memory empty_cred_state_def w_full_def win_Cons)
qed (simp_all add: w_full_def header_for_def mk_candidate_def)

text \<open>One tenth of the window is used, nine tenths remain; after the restart the account is refused.\<close>

theorem restart_blocks_witness:
  "quota_skip (capped 100) (fresh 0 (rc_world (quota_exec (OpRecord 6 OutcomeSuccess (u1 ''k1'' ''acc'' 10))
      (quota_run [] (fresh 0 empty_tables (capped 100) True)))) (capped 100) True)
     ((mk_candidate ''openai'' ''gpt'')\<lparr>cand_credential := ''acc''\<rparr>) \<noteq> None"
proof -
  define r where "r = fresh 0 empty_tables (capped 100) True"
  define s where "s = hd (qc_windows (capped 100))"
  have cr: "u_credential (u1 k c n) = c" for k c n by (simp add: u1_def)
  have "load ''acc'' (quota_exec (OpRecord 6 OutcomeSuccess (u1 ''k1'' ''acc'' 10)) r) =
      applyLocked (capped 100) 6 (u1 ''k1'' ''acc'' 10) (load ''acc'' r)"
    using durable.load_exec_same [of r 0 "OpRecord 6 OutcomeSuccess (u1 ''k1'' ''acc'' 10)"]
    by (simp add: exec_state_def is_terminal_op_def r_def cr)
  then have ws: "qs_windows (load ''acc'' (quota_exec (OpRecord 6 OutcomeSuccess (u1 ''k1'' ''acc'' 10)) r)) =
      [apply_window 6 s (u1 ''k1'' ''acc'' 10) (created_window 6 s)]"
    by (simp add: applyLocked_def s_def r_def load_fresh store_windows_simps empty_tables_def)
  show ?thesis
    unfolding r_def [symmetric]
    by (rule restart_blocks [of "[]" "u1 ''k1'' ''acc'' 10" 0 empty_tables "capped 100" 6 OutcomeSuccess _
        "apply_window 6 s (u1 ''k1'' ''acc'' 10) (created_window 6 s)"])
      (simp_all add: cr ws [simplified] r_def [symmetric], simp_all add: r_def s_def mk_candidate_def)
qed

theorem default_config_never_blocks_witness:
  "fst (FilterPlan QuotaDefaultConfig (Some Snapshot) (linear_plan [(mk_candidate ''openai'' ''gpt'')\<lparr>cand_credential := ''acc''\<rparr>] 1)
      (quota_run [OpRecord 6 OutcomeProviderError (u1 ''k1'' ''acc'' 10), OpHint 7 ''acc'' WindowShort 900]
        (fresh 0 empty_tables QuotaDefaultConfig True))) =
    linear_plan [(mk_candidate ''openai'' ''gpt'')\<lparr>cand_credential := ''acc''\<rparr>] 1"
  by (rule default_config_never_blocks) (simp add: observes_def)

text \<open>Two attempts of 70 and 20 tokens, the first delivered twice, one of another account: 90 are used.\<close>

theorem local_counter_exact_witness:
  "case win WindowShort (qs_windows (load ''acc'' (quota_run (map rec_op
      [(5, OutcomeSuccess, u1 ''k1'' ''acc'' 70), (6, OutcomeSuccess, u1 ''k1'' ''acc'' 70),
       (7, OutcomeSuccess, u1 ''k2'' ''other'' 50), (8, OutcomeSuccess, u1 ''k3'' ''acc'' 20)])
      (fresh 0 empty_tables (capped 100) True)))) of
      None \<Rightarrow> (90 :: int) = 0
    | Some w \<Rightarrow> qw_used w = of_int (if (100 :: int) = 0 then 90 else min 100 90)"
  by (rule local_counter_exact [of _ "\<lparr>ws_kind = WindowShort, ws_unit = UnitTokens, ws_limit = 100, ws_duration = shortWindow\<rparr>"
        _ _ 1000, simplified])
    (simp_all add: u1_def timely_def shortWindow_def hour_def)

theorem usage_report_consistent_witness:
  "log_ok (fst (RecordAttempt empty_tables (u1 ''k0'' ''acc'' 5) ''ok'')) \<and>
   AggregateUsage (fst (RecordAttempt (fst (RecordAttempt (fst (RecordAttempt empty_tables (u1 ''k0'' ''acc'' 5) ''ok''))
     (u1 ''k1'' ''acc'' 7) ''ok'')) (u1 ''k1'' ''acc'' 9) ''aborted'')) =
   AggregateUsage (fst (RecordAttempt (fst (RecordAttempt empty_tables (u1 ''k0'' ''acc'' 5) ''ok''))
     (u1 ''k1'' ''acc'' 9) ''aborted''))"
  using usage_report_consistent [of "fst (RecordAttempt empty_tables (u1 ''k0'' ''acc'' 5) ''ok'')"
    "u1 ''k1'' ''acc'' 7" "u1 ''k1'' ''acc'' 9" "''ok''" "''aborted''"]
  by (simp add: log_ok_def RecordAttempt_def empty_tables_def u1_def)

end
