(* ===== verification/Core.thy ===== *)
theory Core
  imports Dispatcher_Laws Router_Laws Quota_Store
begin

text \<open>
  The composition of \<open>wireRouting\<close> in \<open>internal/app/app.go\<close>: one breaker and one quota recorder
  shared by the router's preflight and the dispatcher.  What lies outside, the credential vault,
  the upstreams and the request's context, is the record \<open>upstream\<close> over its own state; each of
  its calls says how much time it took.  The list \<open>co_calls\<close> notes the candidates the upstreams were
  called for; no component reads it.
\<close>

section \<open>The wiring\<close>

record 'e core =
  co_breaker :: breaker
  co_recorder :: "quota_tables recorder"
  co_now :: gotime
  co_calls :: "candidate list"
  co_env :: 'e

record ('e, 'c, 's) upstream =
  up_NewRequestID :: "'e \<Rightarrow> request_id \<times> 'e"
  up_Get :: "credential_id \<Rightarrow> 'e \<Rightarrow> (go_error + 'c) \<times> 'e"
  up_Credentials :: "provider_id \<Rightarrow> 'e \<Rightarrow> (go_error + credential_id list) \<times> 'e"
  up_Build :: "candidate \<Rightarrow> 'c \<Rightarrow> 'e \<Rightarrow> go_error option \<times> 'e"
  up_Do :: "candidate \<Rightarrow> wire_request \<Rightarrow> 'c \<Rightarrow> 'e \<Rightarrow> (go_error + wire_response) \<times> duration \<times> 'e"
  up_DoStream :: "candidate \<Rightarrow> wire_request \<Rightarrow> 'c \<Rightarrow> 'e \<Rightarrow> (go_error + 's) \<times> duration \<times> 'e"
  up_Wait :: "duration \<Rightarrow> 'e \<Rightarrow> go_error option \<times> duration \<times> 'e"
  up_Err :: "'e \<Rightarrow> go_error option"
  up_jitter :: "'e \<Rightarrow> float64"

definition core_allow :: "candidate \<Rightarrow> 'e core \<Rightarrow> bool \<times> 'e core" where
  "core_allow c w = (case Allow (co_now w) c (co_breaker w) of (ok, b) \<Rightarrow> (ok, w\<lparr>co_breaker := b\<rparr>))"

definition core_filter :: "route_plan \<Rightarrow> 'e core \<Rightarrow> route_plan \<times> skip list \<times> 'e core" where
  "core_filter plan w = (case FilterPlan QuotaDefaultConfig (Some Snapshot) plan (co_recorder w) of
     (p, skips, r) \<Rightarrow> (p, skips, w\<lparr>co_recorder := r\<rparr>))"

definition lift_env :: "('e \<Rightarrow> 'a \<times> 'e) \<Rightarrow> 'e core \<Rightarrow> 'a \<times> 'e core" where
  "lift_env f w = (case f (co_env w) of (x, e) \<Rightarrow> (x, w\<lparr>co_env := e\<rparr>))"

definition lift_timed :: "('e \<Rightarrow> 'a \<times> duration \<times> 'e) \<Rightarrow> 'e core \<Rightarrow> 'a \<times> 'e core" where
  "lift_timed f w = (case f (co_env w) of (x, t, e) \<Rightarrow> (x, w\<lparr>co_env := e, co_now := co_now w + t\<rparr>))"

definition core_executor :: "('e, 'c, 's) upstream \<Rightarrow> candidate \<Rightarrow> ('e core, 'c, 's) executor" where
  "core_executor up c = \<lparr>
     xe_Do = (\<lambda>req cred w. lift_timed (up_Do up c req cred) (w\<lparr>co_calls := co_calls w @ [c]\<rparr>)),
     xe_DoStream = (\<lambda>req cred w. lift_timed (up_DoStream up c req cred) (w\<lparr>co_calls := co_calls w @ [c]\<rparr>))\<rparr>"

definition core_dispatcher :: "('e, 'c, 's) upstream \<Rightarrow> ('e core, 'c, 's) dispatcher" where
  "core_dispatcher up = \<lparr>
     dp_NewRequestID = lift_env (up_NewRequestID up),
     dp_Build = (\<lambda>c cred w. case lift_env (up_Build up c cred) w of
        (Some err, w1) \<Rightarrow> (Inl err, w1) | (None, w1) \<Rightarrow> (Inr (core_executor up c), w1)),
     dp_Get = (\<lambda>i. lift_env (up_Get up i)),
     dp_Credentials = (\<lambda>p. lift_env (up_Credentials up p)),
     dp_Allow = core_allow,
     dp_Record = (\<lambda>c o' w. w\<lparr>co_breaker :=
        Record (DefaultConfig (up_jitter up (co_env w))) (co_now w) c o' (co_breaker w)\<rparr>),
     dp_quota = Some core_filter,
     dp_recorder = Some (\<lambda>oc u w. w\<lparr>co_recorder := RecordUsage (co_now w) oc u (co_recorder w)\<rparr>),
     dp_Wait = (\<lambda>t. lift_timed (up_Wait up t)),
     dp_Err = (\<lambda>w. up_Err up (co_env w)),
     dp_max_cooldown = max_cooldown_or_default 0\<rparr>"

text \<open>The preflight port of the router.\<close>

definition quotaSkipReason :: "skip list \<Rightarrow> string" where
  "quotaSkipReason skips = (case skips of [] \<Rightarrow> ''quota_exhausted'' | s # _ \<Rightarrow> sk_reason s)"

definition AllowCandidate :: "candidate \<Rightarrow> 'e core \<Rightarrow> (bool \<times> string) \<times> 'e core" where
  "AllowCandidate c w = (case core_allow c w of (ok, w1) \<Rightarrow>
     if \<not> ok then ((False, ''breaker_open''), w1)
     else (case core_filter (single_plan c) w1 of (p, skips, w2) \<Rightarrow>
       if plan_attempts p = [] then ((False, quotaSkipReason skips), w2) else ((True, ''''), w2)))"

text \<open>One request: the router answers a plan, the dispatcher runs it.\<close>

record client_request =
  cl_request :: request
  cl_combo :: combo_id
  cl_wire :: wire_request
  cl_stream :: bool

definition serve :: "('e, 'c, 's) upstream \<Rightarrow> 'e core resolver \<Rightarrow> client_request \<Rightarrow> cursor \<times> 'e core \<Rightarrow> cursor \<times> 'e core" where
  "serve up r q cw = (case Resolve (r\<lparr>rv_cursor := fst cw\<rparr>) (Some (cl_request q)) (cl_combo q) (snd cw) of
      None \<Rightarrow> cw
    | Some (Inl e, cur, w) \<Rightarrow> (cur, w)
    | Some (Inr plan, cur, w) \<Rightarrow> (cur, snd (run (core_dispatcher up) (cl_wire q) plan (cl_stream q) w)))"

definition serve_all :: "('e, 'c, 's) upstream \<Rightarrow> 'e core resolver \<Rightarrow> client_request list \<Rightarrow> cursor \<times> 'e core
    \<Rightarrow> cursor \<times> 'e core" where
  "serve_all up r qs cw = foldl (\<lambda>cw q. serve up r q cw) cw qs"

section \<open>What the ports leave alone\<close>

lemma lift_env_frame [simp]:
  "co_breaker (snd (lift_env f w)) = co_breaker w" "co_calls (snd (lift_env f w)) = co_calls w"
  "co_recorder (snd (lift_env f w)) = co_recorder w"
  by (simp_all add: lift_env_def split: prod.splits)

lemma lift_timed_frame [simp]:
  "co_breaker (snd (lift_timed f w)) = co_breaker w" "co_calls (snd (lift_timed f w)) = co_calls w"
  "co_recorder (snd (lift_timed f w)) = co_recorder w"
  by (simp_all add: lift_timed_def split: prod.splits)

lemma core_filter_frame [simp]:
  "co_breaker (snd (snd (core_filter p w))) = co_breaker w" "co_calls (snd (snd (core_filter p w))) = co_calls w"
  by (simp_all add: core_filter_def split: prod.splits)

lemma core_allow_frame [simp]:
  "co_calls (snd (core_allow c w)) = co_calls w"
  "co_breaker (snd (core_allow c w)) = snd (Allow (co_now w) c (co_breaker w))"
  "fst (core_allow c w) = fst (Allow (co_now w) c (co_breaker w))"
  by (simp_all add: core_allow_def split: prod.splits)

lemma core_dispatcher_simps [simp]:
  "dp_NewRequestID (core_dispatcher up) = lift_env (up_NewRequestID up)"
  "dp_Get (core_dispatcher up) i = lift_env (up_Get up i)"
  "dp_Credentials (core_dispatcher up) p = lift_env (up_Credentials up p)"
  "dp_Allow (core_dispatcher up) = core_allow"
  "dp_quota (core_dispatcher up) = Some core_filter"
  "dp_Wait (core_dispatcher up) t = lift_timed (up_Wait up t)"
  "dp_recorder (core_dispatcher up) =
     Some (\<lambda>oc u w. w\<lparr>co_recorder := RecordUsage (co_now w) oc u (co_recorder w)\<rparr>)"
  "dp_Record (core_dispatcher up) = (\<lambda>c o' w. w\<lparr>co_breaker :=
        Record (DefaultConfig (up_jitter up (co_env w))) (co_now w) c o' (co_breaker w)\<rparr>)"
  by (simp_all add: core_dispatcher_def)

lemma core_Build:
  "co_breaker (snd (dp_Build (core_dispatcher up) c cred w)) = co_breaker w"
  "co_calls (snd (dp_Build (core_dispatcher up) c cred w)) = co_calls w"
  by (simp_all add: core_dispatcher_def lift_env_def split: prod.splits option.splits)

lemma core_Build_executor:
  "dp_Build (core_dispatcher up) c cred w = (Inr ex, w') \<Longrightarrow> ex = core_executor up c"
  by (auto simp: core_dispatcher_def split: prod.splits option.splits)

lemma core_executor_frame [simp]:
  "co_breaker (snd (xe_Do (core_executor up c) req cr v)) = co_breaker v"
  "co_breaker (snd (xe_DoStream (core_executor up c) req cr v)) = co_breaker v"
  "co_calls (snd (xe_Do (core_executor up c) req cr v)) = co_calls v @ [c]"
  "co_calls (snd (xe_DoStream (core_executor up c) req cr v)) = co_calls v @ [c]"
  by (simp_all add: core_executor_def)

section \<open>A circuit that admits nobody\<close>

text \<open>A circuit is stuck when it is terminal, or half-open with its probe taken: no time and no
  operation on another candidate changes that.\<close>

definition stuck_key :: "key_state \<Rightarrow> bool" where
  "stuck_key ks \<longleftrightarrow> ks_status ks = BreakerTerminal \<or> (ks_status ks = BreakerHalfOpen \<and> ks_probe_in_flight ks)"

lemma stuck_transition: "stuck_key ks \<Longrightarrow> transition_locked now' ks = ks"
  by (auto simp: stuck_key_def transition_locked_def)

lemma stuck_refuses: "stuck_key ks \<Longrightarrow> \<not> key_allows now' ks"
  by (auto simp: stuck_key_def key_allows_def transition_locked_def reserve_locked_def)

lemma stuck_Allow:
  assumes "stuck_key (key_of b k)"
  shows "key_of (snd (Allow now' c b)) k = key_of b k"
    and "fst (Allow now' c b) \<Longrightarrow> k \<notin> set (all_keys_for c)"
proof -
  show *: "fst (Allow now' c b) \<Longrightarrow> k \<notin> set (all_keys_for c)"
    using stuck_refuses [OF assms] by (auto simp: fst_Allow)
  show "key_of (snd (Allow now' c b)) k = key_of b k"
  proof (cases "fst (Allow now' c b)")
    case True
    with * show ?thesis by (simp add: key_of_Allow_true)
  next
    case False
    from key_of_Allow_false [OF this, of k] show ?thesis by (simp add: stuck_transition [OF assms])
  qed
qed

lemma Record_other:
  assumes "k \<notin> set (all_keys_for c)"
  shows "key_of (Record cfg now' c o' b) k = key_of b k"
proof -
  have "k \<notin> set (keys_for c (bo_scope o'))" using assms keys_for_subset by blast
  with assms show ?thesis by (simp add: key_of_Record)
qed

text \<open>The calls on the candidates that touch a circuit.\<close>

definition calls_on :: "breaker_key \<Rightarrow> 'e core \<Rightarrow> candidate list" where
  "calls_on k w = filter (\<lambda>c. k \<in> set (all_keys_for c)) (co_calls w)"

definition stuck_world :: "breaker_key \<Rightarrow> candidate list \<Rightarrow> 'e core \<Rightarrow> bool" where
  "stuck_world k L w \<longleftrightarrow> stuck_key (key_of (co_breaker w) k) \<and> calls_on k w = L"

lemma stuck_world_cong:
  "stuck_world k L w \<Longrightarrow> key_of (co_breaker w') k = key_of (co_breaker w) k \<Longrightarrow> co_calls w' = co_calls w \<Longrightarrow>
   stuck_world k L w'"
  by (simp add: stuck_world_def calls_on_def)

interpretation stuck: guarded_dispatcher "core_dispatcher up" "stuck_world k L" "\<lambda>c. k \<notin> set (all_keys_for c)" "\<lambda>_. True"
  for up k L
proof (unfold_locales, goal_cases)
  case (2 c w w')
  have "fst (Allow (co_now w) c (co_breaker w))" using 2(3) core_allow_frame(3) [of c w] by simp
  then show ?case using 2(2) stuck_Allow(2) by (auto simp: stuck_world_def)
next
  case (3 w c)
  then show ?case by (intro stuck_world_cong [OF 3]) (simp_all add: stuck_world_def stuck_Allow)
next
  case (9 w c cred)
  then show ?case by (intro stuck_world_cong [OF 9(1)]) (simp_all add: core_Build)
next
  case (10 c cred w ex w' v req cr)
  then show ?case using core_Build_executor [OF 10(2)] by (simp add: stuck_world_def calls_on_def)
next
  case (11 c cred w ex w' v req cr)
  then show ?case using core_Build_executor [OF 11(2)] by (simp add: stuck_world_def calls_on_def)
next
  case (12 w c bo)
  then show ?case by (intro stuck_world_cong [OF 12(1)]) (simp_all add: Record_other)
qed (auto elim!: stuck_world_cong)

text \<open>C2: a circuit that is terminal, or half-open with its probe out, is respected by every plan the
  dispatcher runs: no candidate that touches it is called, whatever the upstreams answer and
  however long it takes, and the circuit is as before.\<close>

theorem stuck_circuit_never_called:
  assumes "stuck_key (key_of (co_breaker w) k)"
  shows "stuck_key (key_of (co_breaker (snd (run (core_dispatcher up) req plan stream w))) k) \<and>
    calls_on k (snd (run (core_dispatcher up) req plan stream w)) = calls_on k w"
proof -
  have "plan_all (\<lambda>_. True) plan"
    by (induction plan rule: plan_induct) (auto simp: list_all_iff split: option.splits)
  then show ?thesis
    using stuck.I_run [of plan k "calls_on k w" w up req stream] assms by (simp add: stuck_world_def)
qed

section \<open>What the router leaves in the plan\<close>

lemma default_seed:
  assumes "(k, f) \<in> set defaultStrategies" "ev_rng ec = None" "f ins ec g = Some o'"
  shows "or_seed o' = g"
  using assms by (auto simp: defaultStrategies_def ordered_pure_def priority_Order_def fallback_Order_def
    roundRobin_Order_def weighted_Order_def weightedDraw_def fillFirst_Order_def cost_Order_def p2c_Order_def
    fusion_Order_def pipeline_Order_def auto_Order_def Let_def split: prod.splits)

lemma envelope_seed:
  assumes "(k, f) \<in> set defaultStrategies" "rv_rng r = None"
    and "orderEnvelope r f nm ins g = Some (cs, ins', cur, g')"
  shows "g' = g"
proof -
  let ?ec = "\<lparr>ev_cursor = Some (rv_cursor r), ev_rng = rv_rng r, ev_combo = nm,
        ev_cred = rv_cred r, ev_cost = rv_cost r, ev_signals = rv_signals r\<rparr>"
  obtain o' where o': "f ins ?ec g = Some o'"
    using assms(3) unfolding orderEnvelope_def by (cases "f ins ?ec g") simp_all
  with assms(3) have "g' = or_seed o'" unfolding orderEnvelope_def by auto
  with default_seed [OF assms(1) _ o'] assms(2) show ?thesis by simp
qed

definition plan_providers_in :: "provider_id set \<Rightarrow> route_plan \<Rightarrow> bool" where
  "plan_providers_in P plan = plan_all (\<lambda>c. cand_provider c \<in> P) plan"

lemma groups_all: "list_all Q order \<Longrightarrow> list_all (list_all Q) (groupByStep order ins)"
  by (auto simp: groupByStep_def Let_def list_all_iff)

lemma step_plan_all [simp]: "plan_all Q (step_plan cs) = list_all Q cs"
  by (simp add: step_plan_def linear_plan_def)

lemma panels_all: "list_all (list_all Q) groups \<Longrightarrow> list_all (\<lambda>x. plan_all Q (snd x)) (panels_from n groups)"
  by (induction groups arbitrary: n) simp_all

lemma add_shape_all:
  assumes "add_shape r req name kind order ins cid rounds = Inr plan" "rv_judge r = None" "list_all Q order"
  shows "plan_all Q plan"
proof -
  have "list_all (plan_all Q) (pipelineChain (groupByStep order ins))"
    using groups_all [OF assms(3), of ins] by (auto simp: pipelineChain_def list_all_iff)
  moreover have "list_all (\<lambda>x. plan_all Q (snd x)) (panelsFromGroups (groupByStep order ins))"
    using groups_all [OF assms(3)] by (simp add: panelsFromGroups_def panels_all)
  ultimately show ?thesis using assms
    by (auto simp: add_shape_def buildFusionPlans_def split: if_splits sum.splits option.splits)
qed

lemma envelope_providers:
  assumes "strategy f" "orderEnvelope r f nm ins g = Some (cs, ins', cur, g')"
  shows "list_all (\<lambda>c. cand_provider c \<in> (cand_provider \<circ> ex_candidate) ` set ins) cs"
proof -
  have "target ` set cs = ex_target ` set ins" using strategy.envelope_target_set [OF assms] .
  then have "fst ` target ` set cs = fst ` ex_target ` set ins" by simp
  then have "cand_provider ` set cs = (cand_provider \<circ> ex_candidate) ` set ins"
    by (simp add: image_image target_def comp_def)
  then show ?thesis by (auto simp: list_all_iff)
qed

text \<open>Whatever \<open>Resolve\<close> answers, the world after it is the one the preflight left; and a plan names
  providers the preflight let through only.\<close>

lemma Resolve_world:
  assumes "builtin r" "rv_rng r = None" "Resolve r (Some req) combo w = Some (res, cur, w1)"
  shows "\<exists>ex. w1 = snd (preflight (rv_preflight r) ex w)"
proof -
  have "v = snd (preflight (rv_preflight r) [] v)" for v by (simp add: preflight_def split: option.splits)
  then have none: "\<exists>ex. v = snd (preflight (rv_preflight r) ex v)" for v by blast
  have env: "\<exists>ex. g' = snd (preflight (rv_preflight r) ex w)"
    if "registry_Get (rv_registry r) k = Inr f"
      "orderEnvelope r f nm ins (snd (preflight (rv_preflight r) ex w)) = Some (cs, ins', cur, g')" for k f nm ins cs ins' cur g' ex
    using envelope_seed [OF builtin_Get [OF assms(1) that(1)] assms(2) that(2)] by blast
  show ?thesis
  proof (cases "combo = ''''")
    case True
    with assms(3) show ?thesis
      unfolding Resolve_def resolveAuto_def Let_def
      by (auto split: option.splits if_splits sum.splits intro: none env)
  next
    case False
    define k where "k = nat MaxDepth + 1"
    from False assms(3) show ?thesis
      unfolding Resolve_def Let_def k_def [symmetric]
      by (auto split: option.splits if_splits sum.splits intro: none env)
  qed
qed

lemma Resolve_providers:
  assumes "builtin r" "rv_rng r = None" "rv_judge r = None" "Resolve r (Some req) combo w = Some (Inr plan, cur, w1)"
  shows "\<exists>ex. w1 = snd (preflight (rv_preflight r) ex w) \<and>
    plan_providers_in ((cand_provider \<circ> ex_candidate) ` set (fst (preflight (rv_preflight r) ex w))) plan"
proof (cases "combo = ''''")
  case True
  with assms(4) have auto: "Resolve r (Some req) '''' w = Some (Inr plan, cur, w1)" by simp
  obtain f ex ins where *: "registry_Get (rv_registry r) StrategyAuto = Inr f"
    "\<forall>e \<in> set ex. plain (rv_catalog r) (Some req) e"
    "orderEnvelope r f '''' (fst (preflight (rv_preflight r) ex w)) (snd (preflight (rv_preflight r) ex w)) =
       Some (plan_attempts plan, ins, cur, w1)"
    "plan = RoutePlan '''' (plan_attempts plan) 1 StrategyAuto [] None []"
    by (rule Resolve_auto [OF auto])
  note mem = builtin_Get [OF assms(1) *(1)]
  have "plan_providers_in ((cand_provider \<circ> ex_candidate) ` set (fst (preflight (rv_preflight r) ex w))) plan"
    unfolding plan_providers_in_def
    using envelope_providers [OF default_strategy_lawful [OF mem] *(3)] by (subst *(4)) simp
  with envelope_seed [OF mem assms(2) *(3)] show ?thesis by blast
next
  case False
  obtain c byID f ex order ins where *: "rv_Get r combo = Inr c"
    "registry_Get (rv_registry r) (defaultStrategy (cb_strategy c)) = Inr f"
    "expand (rv_catalog r) byID (Some req) (nat MaxDepth + 1) [] c = Inr ex" "ex \<noteq> []"
    "orderEnvelope r f (cb_name c) (fst (preflight (rv_preflight r) ex w)) (snd (preflight (rv_preflight r) ex w)) =
       Some (order, ins, cur, w1)" "order \<noteq> []"
    "add_shape r req (cb_name c) (defaultStrategy (cb_strategy c)) order ins (cb_id c)
       (maxRoundsFor (defaultStrategy (cb_strategy c)) c (int (length (fst (preflight (rv_preflight r) ex w))))) = Inr plan"
    by (rule Resolve_combo [OF assms(4) False])
  note mem = builtin_Get [OF assms(1) *(2)]
  have "plan_providers_in ((cand_provider \<circ> ex_candidate) ` set (fst (preflight (rv_preflight r) ex w))) plan"
    unfolding plan_providers_in_def
    by (rule add_shape_all [OF *(7) assms(3) envelope_providers [OF default_strategy_lawful [OF mem] *(5)]])
  with envelope_seed [OF mem assms(2) *(5)] show ?thesis by blast
qed

section \<open>A provider whose circuit has opened\<close>

definition provider_key :: "provider_id \<Rightarrow> breaker_key" where
  "provider_key p = \<lparr>bk_scope = BreakerProvider, bk_provider = p, bk_credential = '''', bk_model = ''''\<rparr>"

lemma provider_key_touched: "provider_key p \<in> set (all_keys_for c) \<longleftrightarrow> cand_provider c = p"
  by (auto simp: all_keys_for_def provider_key_def KeyFor_def)

text \<open>The circuit of the provider is not closed, and \<open>L\<close> are the calls on the provider so far.\<close>

definition opened :: "provider_id \<Rightarrow> candidate list \<Rightarrow> 'e core \<Rightarrow> bool" where
  "opened p L w \<longleftrightarrow> ks_status (key_of (co_breaker w) (provider_key p)) \<noteq> BreakerClosed \<and> calls_on (provider_key p) w = L"

lemma opened_Allow:
  assumes "ks_status (key_of b k) \<noteq> BreakerClosed"
  shows "ks_status (key_of (snd (Allow now' c b)) k) \<noteq> BreakerClosed"
    and "fst (Allow now' c b) \<Longrightarrow> k \<in> set (all_keys_for c) \<Longrightarrow> stuck_key (key_of (snd (Allow now' c b)) k)"
proof -
  have tr: "ks_status (transition_locked now' ks) \<noteq> BreakerClosed"
    and rs: "ks_status (snd (reserve_locked (transition_locked now' ks))) \<noteq> BreakerClosed"
    if "ks_status ks \<noteq> BreakerClosed" for ks
    using that by (cases "ks_status ks"; auto simp: transition_locked_def reserve_locked_def)+
  show "ks_status (key_of (snd (Allow now' c b)) k) \<noteq> BreakerClosed"
  proof (cases "fst (Allow now' c b)")
    case True
    with assms rs show ?thesis by (simp add: key_of_Allow_true)
  next
    case False
    then have "key_of (snd (Allow now' c b)) k = key_of b k \<or>
        key_of (snd (Allow now' c b)) k = transition_locked now' (key_of b k)"
      using key_of_Allow_false [of now' c b k] by simp
    with assms tr [OF assms] show ?thesis by (elim disjE) (simp_all only: not_False_eq_True)
  qed
  assume "fst (Allow now' c b)" "k \<in> set (all_keys_for c)"
  moreover from this have "key_allows now' (key_of b k)" by (simp add: fst_Allow)
  with assms have "stuck_key (snd (reserve_locked (transition_locked now' (key_of b k))))"
    by (cases "ks_status (key_of b k)")
      (auto simp: key_allows_def transition_locked_def reserve_locked_def stuck_key_def split: if_splits)
  ultimately show "stuck_key (key_of (snd (Allow now' c b)) k)" by (simp add: key_of_Allow_true)
qed

lemma AllowCandidate_frame:
  "co_calls (snd (AllowCandidate c w)) = co_calls w"
  "co_breaker (snd (AllowCandidate c w)) = snd (Allow (co_now w) c (co_breaker w))"
  "fst (fst (AllowCandidate c w)) \<Longrightarrow> fst (Allow (co_now w) c (co_breaker w))"
proof -
  obtain ok w1 where a: "core_allow c w = (ok, w1)" by fastforce
  obtain p skips w2 where f: "core_filter (single_plan c) w1 = (p, skips, w2)" by (metis prod.exhaust)
  have "co_calls w1 = co_calls w" "co_breaker w1 = snd (Allow (co_now w) c (co_breaker w))"
    "ok = fst (Allow (co_now w) c (co_breaker w))"
    using core_allow_frame [of c w] a by simp_all
  moreover have "co_calls w2 = co_calls w1" "co_breaker w2 = co_breaker w1"
    using core_filter_frame [of "single_plan c" w1] f by simp_all
  ultimately show "co_calls (snd (AllowCandidate c w)) = co_calls w"
    "co_breaker (snd (AllowCandidate c w)) = snd (Allow (co_now w) c (co_breaker w))"
    "fst (fst (AllowCandidate c w)) \<Longrightarrow> fst (Allow (co_now w) c (co_breaker w))"
    using a f by (auto simp: AllowCandidate_def split: if_splits)
qed

text \<open>A preflight that lets the provider through takes its probe.\<close>

lemma preflight_stuck:
  "stuck_world k L w \<Longrightarrow> stuck_world k L (snd (preflight_loop AllowCandidate ex w))"
proof (induction ex arbitrary: w)
  case (Cons e es)
  have "stuck_world k L (snd (AllowCandidate (ex_candidate e) w))"
    using Cons.prems by (simp add: stuck_world_def calls_on_def stuck_Allow(1) AllowCandidate_frame(1,2))
  then show ?case using Cons.IH by (simp add: split_beta)
qed simp

lemma preflight_opened:
  assumes "opened p L w"
  shows "opened p L (snd (preflight_loop AllowCandidate ex w)) \<and>
    (p \<in> (cand_provider \<circ> ex_candidate) ` set (fst (preflight_loop AllowCandidate ex w)) \<longrightarrow>
     stuck_world (provider_key p) L (snd (preflight_loop AllowCandidate ex w)))"
  using assms
proof (induction ex arbitrary: w)
  case (Cons e es)
  let ?c = "ex_candidate e" and ?k = "provider_key p"
  obtain ok reason w1 where a: "AllowCandidate ?c w = ((ok, reason), w1)" by (metis prod.exhaust)
  have w1: "co_calls w1 = co_calls w" "co_breaker w1 = snd (Allow (co_now w) ?c (co_breaker w))"
    "ok \<Longrightarrow> fst (Allow (co_now w) ?c (co_breaker w))"
    using AllowCandidate_frame [of ?c w] a by simp_all
  have op: "opened p L w1"
    using Cons.prems opened_Allow(1) w1 by (simp add: opened_def calls_on_def)
  have "stuck_world ?k L w1" if "ok" "cand_provider ?c = p"
    using Cons.prems opened_Allow(2) [OF _ w1(3) [OF that(1)]] that w1
    by (simp add: opened_def stuck_world_def calls_on_def provider_key_touched)
  then have "stuck_world ?k L (snd (preflight_loop AllowCandidate es w1))" if "ok" "cand_provider ?c = p"
    using preflight_stuck that by blast
  with Cons.IH [OF op] a show ?case by (auto simp: split_beta)
qed simp

interpretation untouched: guarded_dispatcher "core_dispatcher up" "opened p L" "\<lambda>c. cand_provider c \<noteq> p" "\<lambda>c. cand_provider c \<noteq> p"
  for up p L
proof (unfold_locales, goal_cases)
  case (3 w c)
  then show ?case by (simp add: opened_def calls_on_def opened_Allow)
next
  case (9 w c cred)
  then show ?case by (simp add: opened_def calls_on_def core_Build)
next
  case (10 c cred w ex w' v req cr)
  then show ?case using core_Build_executor [OF 10(2)] by (simp add: opened_def calls_on_def provider_key_touched)
next
  case (11 c cred w ex w' v req cr)
  then show ?case using core_Build_executor [OF 11(2)] by (simp add: opened_def calls_on_def provider_key_touched)
next
  case (12 w c bo)
  then show ?case by (simp add: opened_def calls_on_def Record_other provider_key_touched)
qed (auto simp: opened_def calls_on_def)

text \<open>The router as \<open>wireRouting\<close> builds it.\<close>

definition wired :: "'e core resolver \<Rightarrow> bool" where
  "wired r \<longleftrightarrow> builtin r \<and> rv_preflight r = Some AllowCandidate \<and> rv_rng r = None \<and> rv_judge r = None"

lemma plan_all_mono: "plan_all Q plan \<Longrightarrow> (\<And>c. Q c \<Longrightarrow> Q' c) \<Longrightarrow> plan_all Q' plan"
  by (induction plan rule: plan_induct) (auto simp: list_all_iff split: option.splits)

lemma serve_opened:
  assumes "wired r" "opened p L (snd cw)"
  shows "opened p L (snd (serve up r q cw))"
proof -
  let ?r = "r\<lparr>rv_cursor := fst cw\<rparr>"
  have r: "builtin ?r" "rv_rng ?r = None" "rv_judge ?r = None" "rv_preflight ?r = Some AllowCandidate"
    using assms(1) by (simp_all add: wired_def builtin_def)
  show ?thesis
  proof (cases "Resolve ?r (Some (cl_request q)) (cl_combo q) (snd cw)")
    case None
    with assms(2) show ?thesis by (simp add: serve_def)
  next
    case (Some res)
    obtain x cur w1 where res: "res = (x, cur, w1)" by (metis prod.exhaust)
    show ?thesis
    proof (cases x)
      case (Inl e)
      obtain ex where "w1 = snd (preflight (rv_preflight ?r) ex (snd cw))"
        using Resolve_world [OF r(1,2) Some [unfolded res]] by blast
      then have "opened p L w1" using preflight_opened [OF assms(2)] r(4) by (simp add: preflight_def)
      with Some res Inl show ?thesis by (simp add: serve_def)
    next
      case (Inr plan)
      obtain ex where ex: "w1 = snd (preflight_loop AllowCandidate ex (snd cw))"
        "plan_providers_in ((cand_provider \<circ> ex_candidate) ` set (fst (preflight_loop AllowCandidate ex (snd cw)))) plan"
        using Resolve_providers [OF r(1,2,3) Some [unfolded res Inr]] r(4) by (auto simp: preflight_def)
      note pre = preflight_opened [OF assms(2), of ex]
      let ?w2 = "snd (run (core_dispatcher up) (cl_wire q) plan (cl_stream q) w1)"
      have "opened p L ?w2"
      proof (cases "p \<in> (cand_provider \<circ> ex_candidate) ` set (fst (preflight_loop AllowCandidate ex (snd cw)))")
        case True
        with pre ex have "stuck_world (provider_key p) L w1" by simp
        moreover have "plan_all (\<lambda>_. True) plan"
          using ex(2) unfolding plan_providers_in_def by (rule plan_all_mono) simp
        ultimately have "stuck_world (provider_key p) L ?w2" by (intro stuck.I_run)
        then show ?thesis by (auto simp: stuck_world_def opened_def stuck_key_def)
      next
        case False
        have "plan_all (\<lambda>c. cand_provider c \<noteq> p) plan"
          by (rule plan_all_mono [OF ex(2) [unfolded plan_providers_in_def]]) (use False in blast)
        moreover have "opened p L w1" using pre ex(1) by simp
        ultimately show ?thesis by (rule untouched.I_run)
      qed
      with Some res Inr show ?thesis by (simp add: serve_def)
    qed
  qed
qed

lemma serve_all_opened:
  "wired r \<Longrightarrow> opened p L (snd cw) \<Longrightarrow> opened p L (snd (serve_all up r qs cw))"
  unfolding serve_all_def
proof (induction qs arbitrary: cw)
  case (Cons q qs)
  have "opened p L (snd (serve up r q cw))" using Cons.prems by (rule serve_opened)
  with Cons show ?case by simp
qed simp

text \<open>C1: once the circuit of a provider has opened, and the request that opened it is over, the provider
  is never called again, however many requests follow and however long they wait.  The preflight
  of the router asks the breaker first; when the cooldown is over that question itself takes the
  half-open probe, so that the dispatcher, asking the same breaker again, is refused, nothing is
  called, no result is recorded and the probe is never given back.\<close>

theorem opened_provider_never_called_again:
  assumes "wired r" and "ks_status (key_of (co_breaker w) (provider_key p)) \<noteq> BreakerClosed"
  shows "calls_on (provider_key p) (snd (serve_all up r qs (cur, w))) = calls_on (provider_key p) w"
proof -
  have "opened p (calls_on (provider_key p) w) (snd (cur, w))" using assms(2) by (simp add: opened_def)
  then have "opened p (calls_on (provider_key p) w) (snd (serve_all up r qs (cur, w)))"
    by (rule serve_all_opened [OF assms(1)])
  then show ?thesis by (simp add: opened_def)
qed

section \<open>The cost of a request\<close>

interpretation counted: counting_dispatcher "core_dispatcher up" "\<lambda>w. length (co_calls w)" for up
proof (unfold_locales, goal_cases)
  case (7 c cred w)
  then show ?case by (simp add: core_Build)
next
  case (8 c cred w ex w' req cr v)
  then show ?case using core_Build_executor [OF 8] by simp
next
  case (9 c cred w ex w' req cr v)
  then show ?case using core_Build_executor [OF 9] by simp
qed auto

text \<open>C3: running a plan costs at most \<open>plan_calls\<close> upstream calls: for a linear plan the smaller of its
  loop bound and its number of attempts, for a fusion the sum over the panels and the judge, for a
  pipeline the sum over the stages; whatever fails, in whatever order.\<close>

theorem plan_calls_bound:
  "length (co_calls (snd (run (core_dispatcher up) req plan stream w))) \<le> length (co_calls w) + plan_calls plan"
  by (rule counted.k_run)

section \<open>What is recorded of a failure\<close>

text \<open>A failed attempt is recorded without a key: the windows count it, but the usage log, and so the
  usage report, never sees it.\<close>

lemma failed_attempt_unlogged:
  assumes "rc_per (co_recorder w) = Some (quota_store wall)"
  shows "qt_attempts (rc_world (co_recorder (record_failure (core_dispatcher up) c oc bo w))) =
    qt_attempts (rc_world (co_recorder w))"
proof -
  have "qt_attempts (upsert_all (quota_store wall) i ws tb) = qt_attempts tb" for i ws tb
    by (induction ws arbitrary: tb) (simp_all add: UpsertWindow_def)
  then show ?thesis using assms
    by (simp add: record_failure_def RecordUsage_def failed_usage_def persistAttempt_def persistWindows_def
      stateLocked_eq Let_def split: option.splits)
qed

text \<open>A client error is recorded on no circuit.\<close>

lemma client_error_keeps_circuits:
  assumes "de_scope de = ScopeRequest"
  shows "key_of (co_breaker (record_failure (core_dispatcher up) c oc (breakerFrom de) w)) k = key_of (co_breaker w) k"
  using assms by (simp add: record_failure_def Let_def breakerFrom_def key_of_Record keys_for_def)

text \<open>A stream that opens is recorded on no circuit: its success resets no failure count and gives back
  no probe.\<close>

lemma stream_success_keeps_breaker:
  assumes "attempt (core_dispatcher up) req True (core_executor up cc) cred cc key n w = (Inl (Inr oc), w')"
  shows "co_breaker w' = co_breaker w"
proof (cases "xe_DoStream (core_executor up cc) (rewriteModel req (cand_model cc)) cred w")
  case (Pair res v)
  then have v: "co_breaker v = co_breaker w"
    using core_executor_frame(2) [of up cc "rewriteModel req (cand_model cc)" cred w] by simp
  show ?thesis
  proof (cases res)
    case (Inl err)
    with assms Pair show ?thesis by (simp add: attempt_def Let_def split: prod.splits option.splits)
  next
    case (Inr s)
    with assms Pair v show ?thesis by (simp add: attempt_def Let_def)
  qed
qed

section \<open>Witnesses\<close>

definition down :: "(unit, unit, unit) upstream" where
  "down = \<lparr>up_NewRequestID = (\<lambda>e. (''r1'', e)), up_Get = (\<lambda>i e. (Inr (), e)), up_Credentials = (\<lambda>p e. (Inr [''acc''], e)),
     up_Build = (\<lambda>c cred e. (None, e)),
     up_Do = (\<lambda>c req cred e. (Inr \<lparr>wr_status = 200, wr_headers = [], wr_body = nil_body\<rparr>, 1, e)),
     up_DoStream = (\<lambda>c req cred e. (Inr (), 1, e)), up_Wait = (\<lambda>t e. (None, t, e)), up_Err = (\<lambda>e. None),
     up_jitter = (\<lambda>e. 0)\<rparr>"

definition half_open_core :: "unit core" where
  "half_open_core = \<lparr>co_breaker = Map.empty(provider_key ''openai'' \<mapsto>
       fresh_key\<lparr>ks_status := BreakerHalfOpen, ks_probe_in_flight := True\<rparr>),
     co_recorder = NewRecorder None empty_tables QuotaDefaultConfig, co_now = 5, co_calls = [], co_env = ()\<rparr>"

definition opened_core :: "unit core" where
  "opened_core = half_open_core\<lparr>co_breaker := Map.empty(provider_key ''openai'' \<mapsto>
       fresh_key\<lparr>ks_status := BreakerOpen, ks_open_until := 3\<rparr>)\<rparr>"

definition sample_wire :: wire_request where
  "sample_wire = \<lparr>wq_body = Json (JObj [(''model'', JStr ''m'')]), wq_model = ''m'', wq_stream = False, wq_headers = []\<rparr>"

theorem stuck_circuit_never_called_witness:
  "stuck_key (key_of (co_breaker half_open_core) (provider_key ''openai'')) \<and>
   calls_on (provider_key ''openai'') (snd (run (core_dispatcher down) sample_wire
     (linear_plan [mk_candidate ''openai'' ''m'', mk_candidate ''zai'' ''m''] 2) False half_open_core)) = []"
proof -
  have s: "stuck_key (key_of (co_breaker half_open_core) (provider_key ''openai''))"
    by (simp add: half_open_core_def key_of_def stuck_key_def)
  moreover have "calls_on (provider_key ''openai'') half_open_core = []" by (simp add: half_open_core_def calls_on_def)
  ultimately show ?thesis
    using stuck_circuit_never_called [OF s, of down sample_wire
      "linear_plan [mk_candidate ''openai'' ''m'', mk_candidate ''zai'' ''m''] 2" False] by simp
qed

definition wired_resolver :: "unit core resolver" where
  "wired_resolver = \<lparr>rv_Get = (\<lambda>i. Inl (Dom ErrNotFound)), rv_List = Inr [], rv_catalog = sample_catalog,
     rv_registry = map_of defaultStrategies, rv_registry_err = None, rv_preflight = Some AllowCandidate,
     rv_rng = None, rv_cred = None, rv_cost = None, rv_signals = None, rv_judge = None, rv_cursor = empty_cursor\<rparr>"

text \<open>The cooldown of \<open>openai\<close> ended at 3, it is 5, and \<open>openai\<close> would answer every call.\<close>

theorem opened_provider_never_called_again_witness:
  "calls_on (provider_key ''openai'') (snd (serve_all down wired_resolver
     (replicate 100 \<lparr>cl_request = sample_request, cl_combo = '''', cl_wire = sample_wire, cl_stream = False\<rparr>)
     (empty_cursor, opened_core))) = []"
proof -
  have "wired wired_resolver" by (simp add: wired_def builtin_def wired_resolver_def)
  moreover have "ks_status (key_of (co_breaker opened_core) (provider_key ''openai'')) \<noteq> BreakerClosed"
    by (simp add: opened_core_def key_of_def)
  ultimately show ?thesis
    using opened_provider_never_called_again [of wired_resolver opened_core "''openai''" down]
    by (simp add: opened_core_def half_open_core_def calls_on_def)
qed

end
