(* ===== verification/Gates.thy ===== *)
theory Gates
  imports Contracts Json_Body
begin

text \<open>
  The gate contract of \<open>internal/contracts/gate.go\<close> and \<open>gate_graph.go\<close>, and the boot-time registry
  of \<open>internal/gates/registry.go\<close> that orders the gates of each stage by what they read and write.
  A gate is a record of what its methods answer.  Its calls act on the exchange: the scratch map
  \<open>Meta\<close>, the shared map \<open>Derived.Fields\<close> (none before \<open>Derive\<close> allocates it) and a world of the
  gate's own.  A Go map that is iterated is an association list; that the iteration order does not
  matter is a theorem.
\<close>

section \<open>The contract\<close>

datatype gate_stage = StagePreRequest | StageOnResponseChunk | StagePostResponse

primrec stage_bit :: "gate_stage \<Rightarrow> nat" where
  "stage_bit StagePreRequest = 0"
| "stage_bit StageOnResponseChunk = 1"
| "stage_bit StagePostResponse = 2"

type_synonym gate_stage_set = "8 word"

definition StageSet :: "gate_stage list \<Rightarrow> gate_stage_set" where
  "StageSet stages = foldl (\<lambda>s st. or s (push_bit (stage_bit st) 1)) 0 stages"

definition StageSet_Has :: "gate_stage_set \<Rightarrow> gate_stage \<Rightarrow> bool" where
  "StageSet_Has s st \<longleftrightarrow> and s (push_bit (stage_bit st) 1) \<noteq> 0"

definition StageSet_Empty :: "gate_stage_set \<Rightarrow> bool" where
  "StageSet_Empty s \<longleftrightarrow> s = 0"

datatype failure_policy = FailClosed | FailOpen

datatype data_field = FieldModality | FieldCacheLookup | FieldContext | FieldPromptText
  | FieldPrefixRange | FieldPII | FieldInjectionFlag | FieldBudget | FieldRoute

record declared =
  dc_stages :: gate_stage_set
  dc_reads :: "data_field list"
  dc_writes :: "data_field list"
  dc_after :: "string list"

definition no_declared :: declared where
  "no_declared = \<lparr>dc_stages = 0, dc_reads = [], dc_writes = [], dc_after = []\<rparr>"

type_synonym http_header = "(string \<times> string list) list"

record derived =
  dr_request_id :: request_id
  dr_provider :: provider_id
  dr_credential :: credential_id
  dr_model :: model_id
  dr_header_names :: string

record reroute_target =
  rt_provider :: provider_id
  rt_model :: model_id

record synthetic_response =
  sy_status :: int
  sy_headers :: http_header
  sy_body :: body
  sy_cache_hit :: bool

text \<open>\<open>DecisionKind\<close> is a Go \<open>uint8\<close>; a value outside the vocabulary is \<open>DecisionUnknown\<close>.  A nil
  slice or map is \<open>None\<close>.\<close>

datatype decision_kind = DecisionContinue | DecisionModify | DecisionBlock | DecisionReroute | DecisionUnknown

record decision =
  dn_kind :: decision_kind
  dn_body :: "body option"
  dn_headers :: "http_header option"
  dn_synthetic :: "synthetic_response option"
  dn_reroute :: "reroute_target option"
  dn_code :: string
  dn_params :: "(string \<times> string) list"
  dn_derived :: "derived option"

definition plain_decision :: "decision_kind \<Rightarrow> decision" where
  "plain_decision k = \<lparr>dn_kind = k, dn_body = None, dn_headers = None, dn_synthetic = None, dn_reroute = None,
     dn_code = '''', dn_params = [], dn_derived = None\<rparr>"

datatype chunk_kind = ChunkPassThrough | ChunkReplace | ChunkDrop | ChunkUnknown

record chunk_decision =
  cd_kind :: chunk_kind
  cd_body :: body

definition pass_through :: chunk_decision where
  "pass_through = \<lparr>cd_kind = ChunkPassThrough, cd_body = nil_body\<rparr>"

record gate_input =
  gi_request_id :: request_id
  gi_provider :: provider_id
  gi_credential :: credential_id
  gi_model :: model_id
  gi_headers :: "http_header option"
  gi_body :: "body option"
  gi_committed :: bool
  gi_derived :: "derived option"

record chunk_input =
  ci_request_id :: request_id
  ci_provider :: provider_id
  ci_credential :: credential_id
  ci_model :: model_id
  ci_headers :: "http_header option"
  ci_body :: body
  ci_size :: int
  ci_index :: int
  ci_committed :: bool
  ci_derived :: "derived option"

record 'w exchange =
  xc_meta :: "string \<Rightarrow> string option"
  xc_fields :: "(string \<Rightarrow> string option) option"
  xc_world :: 'w

record 'w gate =
  gt_ID :: string
  gt_Stages :: gate_stage_set
  gt_RequiredCaps :: capabilities
  gt_FailurePolicy :: failure_policy
  gt_Declare :: "declared option"
  gt_NeedsBody :: "bool option"
  gt_PreRequest :: "gate_input \<Rightarrow> 'w exchange \<Rightarrow> (go_error + decision) \<times> 'w exchange"
  gt_OnResponseChunk :: "chunk_input \<Rightarrow> 'w exchange \<Rightarrow> (go_error + chunk_decision) \<times> 'w exchange"
  gt_PostResponse :: "gate_input \<Rightarrow> 'w exchange \<Rightarrow> go_error option \<times> 'w exchange"
  gt_Close :: "'w exchange \<Rightarrow> go_error option \<times> 'w exchange"

definition ConsumesBody :: "'w gate option \<Rightarrow> bool" where
  "ConsumesBody g = (case g of None \<Rightarrow> False | Some g \<Rightarrow> gt_NeedsBody g = Some True)"

definition AnyConsumesBody :: "'w gate option list \<Rightarrow> bool" where
  "AnyConsumesBody gs = list_ex ConsumesBody gs"

section \<open>The registry\<close>

record 'w gate_registry =
  rg_names :: "string \<Rightarrow> bool"
  rg_gates :: "'w gate list"
  rg_declared :: "(string \<times> declared) list"

definition NewRegistry :: "'w gate_registry" where
  "NewRegistry = \<lparr>rg_names = (\<lambda>_. False), rg_gates = [], rg_declared = []\<rparr>"

text \<open>\<open>strings.TrimSpace(s) == ""\<close>: the text consists of Unicode white space, in UTF-8.\<close>

fun blank :: "string \<Rightarrow> bool" where
  "blank [] = True"
| "blank (c # cs) =
     (let n = of_char c :: nat in
      if n \<in> {9, 10, 11, 12, 13, 32} then blank cs
      else (case cs of
          [] \<Rightarrow> False
        | d # ds \<Rightarrow> (let m = of_char d :: nat in
            if n = 194 \<and> m \<in> {133, 160} then blank ds
            else (case ds of
                [] \<Rightarrow> False
              | e # es \<Rightarrow> (let k = of_char e :: nat in
                  if (n = 225 \<and> m = 154 \<and> k = 128) \<or> (n = 226 \<and> m = 129 \<and> k = 159) \<or> (n = 227 \<and> m = 128 \<and> k = 128)
                    \<or> (n = 226 \<and> m = 128 \<and> (128 \<le> k \<and> k \<le> 138 \<or> k \<in> {168, 169, 175}))
                  then blank es else False)))))"

definition boot_error :: "string \<Rightarrow> string list \<Rightarrow> domain_error" where
  "boot_error reason names = New CodeInternal [WithHTTPStatus 500, WithScope ScopeRequest,
     WithParams ((''reason'', reason) # (if names = [] then [] else [(''gates'', join '','' names)]))]"

definition writesSecurityField :: "data_field list \<Rightarrow> bool" where
  "writesSecurityField ws = list_ex (\<lambda>f. f = FieldPII \<or> f = FieldInjectionFlag) ws"

definition isPostOnly :: "gate_stage_set \<Rightarrow> bool" where
  "isPostOnly s \<longleftrightarrow> StageSet_Has s StagePostResponse \<and> \<not> StageSet_Has s StagePreRequest
     \<and> \<not> StageSet_Has s StageOnResponseChunk"

text \<open>A factory is nil, or answers a gate that may be nil.\<close>

definition RegisterGate :: "string \<Rightarrow> 'w gate option option \<Rightarrow> 'w gate_registry \<Rightarrow> domain_error + 'w gate_registry" where
  "RegisterGate name factory r =
     (if blank name then Inl (boot_error ''gate name must not be empty'' [])
      else case factory of
        None \<Rightarrow> Inl (boot_error (''gate '' @ name @ '' has a nil factory'') [])
      | Some fg \<Rightarrow>
          if rg_names r name then Inl (boot_error (''gate '' @ name @ '' is already registered'') [])
          else (case fg of
              None \<Rightarrow> Inl (boot_error (''gate '' @ name @ '' factory returned nil'') [])
            | Some g \<Rightarrow>
                if gt_ID g \<noteq> name then Inl (boot_error (''gate registered as '' @ name @ '' reports ID '' @ gt_ID g) [])
                else if StageSet_Empty (gt_Stages g) then Inl (boot_error (''gate '' @ name @ '' declares no stage'') [])
                else (let d = (case gt_Declare g of Some d \<Rightarrow> d | None \<Rightarrow> no_declared\<lparr>dc_stages := gt_Stages g\<rparr>) in
                  if dc_stages d \<noteq> gt_Stages g
                    then Inl (boot_error (''gate '' @ name @ '' declares stages that do not match Stages()'') [])
                  else if gt_FailurePolicy g = FailOpen \<and> writesSecurityField (dc_writes d)
                    then Inl (boot_error (''gate '' @ name @ '' writes a security field but is FailOpen'') [])
                  else if isPostOnly (dc_stages d) \<and> gt_FailurePolicy g = FailClosed
                    then Inl (boot_error (''gate '' @ name @ '' is a FailClosed post-response-only gate'') [])
                  else Inr (r\<lparr>rg_names := (rg_names r)(name := True), rg_gates := rg_gates r @ [g],
                         rg_declared := AList.update name d (rg_declared r)\<rparr>))))"

section \<open>The order of a stage\<close>

text \<open>\<open>r.declared[name]\<close>, the zero value when it is absent, and \<open>byID[name]\<close>.\<close>

definition declared_of :: "'w gate_registry \<Rightarrow> string \<Rightarrow> declared" where
  "declared_of r name = (case map_of (rg_declared r) name of Some d \<Rightarrow> d | None \<Rightarrow> no_declared)"

definition gate_of :: "'w gate list \<Rightarrow> string \<Rightarrow> 'w gate" where
  "gate_of gs name = the (map_of (rev (map (\<lambda>g. (gt_ID g, g)) gs)) name)"

definition stage_nodes :: "'w gate_registry \<Rightarrow> gate_stage \<Rightarrow> 'w gate list" where
  "stage_nodes r stage = filter (\<lambda>g. StageSet_Has (dc_stages (declared_of r (gt_ID g))) stage) (rg_gates r)"

definition stage_declared :: "'w gate_registry \<Rightarrow> gate_stage \<Rightarrow> (string \<times> declared) list" where
  "stage_declared r stage = filter (\<lambda>(i, d). StageSet_Has (dc_stages d) stage) (rg_declared r)"

definition writers :: "(string \<times> declared) list \<Rightarrow> data_field \<Rightarrow> string list" where
  "writers ds f = concat (map (\<lambda>(i, d). map (\<lambda>_. i) (filter (\<lambda>g. g = f) (dc_writes d))) ds)"

text \<open>The edges as a set, each pair listed once; \<open>addEdge\<close> drops a pair of equal ends.\<close>

definition edges_into :: "(string \<times> declared) list \<Rightarrow> string list \<Rightarrow> string \<times> declared \<Rightarrow> (string \<times> string) list" where
  "edges_into ds ids = (\<lambda>(i, d). map (\<lambda>a. (a, i)) (filter (\<lambda>a. a \<noteq> i)
     (concat (map (writers ds) (dc_reads d)) @ filter (\<lambda>a. a \<in> set ids) (dc_after d))))"

definition stage_edges :: "'w gate_registry \<Rightarrow> gate_stage \<Rightarrow> (string \<times> string) list" where
  "stage_edges r stage = (let ds = stage_declared r stage; ids = map gt_ID (stage_nodes r stage)
     in remdups (concat (map (edges_into ds ids) ds)))"

text \<open>Kahn's algorithm.  Placing a node lowers the in-degree of its successors and makes those that
  reach zero ready.\<close>

definition indegree :: "(string \<times> string) list \<Rightarrow> string \<Rightarrow> int" where
  "indegree edges i = int (length (filter (\<lambda>e. snd e = i) edges))"

definition successors :: "(string \<times> string) list \<Rightarrow> string \<Rightarrow> string list" where
  "successors edges i = map snd (filter (\<lambda>e. fst e = i) edges)"

fun relax :: "string list \<Rightarrow> (string \<Rightarrow> int) \<Rightarrow> string list \<Rightarrow> (string \<Rightarrow> int) \<times> string list" where
  "relax [] deg ready = (deg, ready)"
| "relax (t # ts) deg ready =
     (let deg' = deg(t := deg t - 1) in relax ts deg' (if deg' t = 0 then ready @ [t] else ready))"

definition positive :: "(string \<times> string) list \<Rightarrow> (string \<Rightarrow> int) \<Rightarrow> string set" where
  "positive edges deg = {t \<in> snd ` set edges. deg t > 0}"

lemma relax_measure:
  assumes "set ts \<subseteq> snd ` set edges" "relax ts deg ready = (deg', ready')"
  shows "length ready' + card (positive edges deg') \<le> length ready + card (positive edges deg)"
  using assms
proof (induction ts arbitrary: deg ready)
  case (Cons t ts)
  let ?deg = "deg(t := deg t - 1)"
  have fin: "finite (positive edges d)" for d by (simp add: positive_def)
  have step: "length (if ?deg t = 0 then ready @ [t] else ready) + card (positive edges ?deg)
      \<le> length ready + card (positive edges deg)"
  proof (cases "deg t = 1")
    case True
    then have "positive edges ?deg = positive edges deg - {t}" "t \<in> positive edges deg"
      using Cons.prems(1) by (auto simp: positive_def)
    then have "card (positive edges deg) = Suc (card (positive edges ?deg))"
      using card_Suc_Diff1 [OF fin \<open>t \<in> positive edges deg\<close>] by simp
    with True show ?thesis by simp
  next
    case False
    have "positive edges ?deg \<subseteq> positive edges deg" by (auto simp: positive_def)
    then have "card (positive edges ?deg) \<le> card (positive edges deg)" using fin card_mono by blast
    with False show ?thesis by simp
  qed
  have "set ts \<subseteq> snd ` set edges" using Cons.prems(1) by simp
  moreover have "relax ts ?deg (if ?deg t = 0 then ready @ [t] else ready) = (deg', ready')"
    using Cons.prems(2) unfolding relax.simps Let_def .
  ultimately show ?case using step Cons.IH [of ?deg] le_trans by blast
qed simp

function kahn_loop :: "(string \<times> string) list \<Rightarrow> string list \<Rightarrow> (string \<Rightarrow> int) \<Rightarrow> string list
    \<Rightarrow> (string \<Rightarrow> int) \<times> string list" where
  "kahn_loop edges ready deg out =
     (case sort ready of
        [] \<Rightarrow> (deg, out)
      | i # rest \<Rightarrow> (case relax (successors edges i) deg rest of
          (deg', ready') \<Rightarrow> kahn_loop edges ready' deg' (out @ [i])))"
  by pat_completeness auto
termination
proof (relation "measure (\<lambda>(edges, ready, deg, out). length ready + card (positive edges deg))", goal_cases)
  case (2 edges ready deg out i rest deg' ready')
  have "length ready = Suc (length rest)" using 2(1) by (metis length_Cons length_sort)
  moreover have "length ready' + card (positive edges deg') \<le> length rest + card (positive edges deg)"
    by (rule relax_measure) (use 2 in \<open>auto simp: successors_def\<close>)
  ultimately show ?case by simp
qed simp

declare kahn_loop.simps [simp del]

definition kahn :: "string list \<Rightarrow> (string \<times> string) list \<Rightarrow> domain_error + string list" where
  "kahn ids edges =
     (let deg0 = indegree edges in
      case kahn_loop edges (filter (\<lambda>i. deg0 i = 0) ids) deg0 [] of
        (deg, out) \<Rightarrow>
          if length out \<noteq> length ids then
            (let cycle = sort (filter (\<lambda>i. deg i > 0) ids) in
             Inl (boot_error (''gate dependency cycle among: '' @ join '', '' cycle) cycle))
          else Inr out)"

definition orderStage :: "'w gate_registry \<Rightarrow> gate_stage \<Rightarrow> domain_error + 'w gate list" where
  "orderStage r stage =
     (let nodes = stage_nodes r stage in
      if nodes = [] then Inr []
      else map_sum id (map (gate_of nodes)) (kahn (remdups (map gt_ID nodes)) (stage_edges r stage)))"

record 'w gate_order =
  od_pre :: "'w gate list"
  od_chunk :: "'w gate list"
  od_post :: "'w gate list"
  od_all :: "'w gate list"

text \<open>Every \<open>After\<close> must name a registered gate.\<close>

definition missing_after :: "'w gate_registry \<Rightarrow> string list \<Rightarrow> (string \<times> string) option" where
  "missing_after r names = find (\<lambda>(n, a). \<not> rg_names r a)
     (concat (map (\<lambda>n. map (\<lambda>a. (n, a)) (dc_after (declared_of r n))) names))"

definition Build :: "'w gate_registry \<Rightarrow> domain_error + 'w gate_order" where
  "Build r =
     (let names = sort (map gt_ID (rg_gates r)) in
      case missing_after r names of
        Some (n, a) \<Rightarrow> Inl (boot_error (''gate '' @ n @ '' declares After['' @ a @ ''] which is not registered'') [])
      | None \<Rightarrow> (case orderStage r StagePreRequest of Inl e \<Rightarrow> Inl e
      | Inr pre \<Rightarrow> (case orderStage r StageOnResponseChunk of Inl e \<Rightarrow> Inl e
      | Inr chunk \<Rightarrow> (case orderStage r StagePostResponse of Inl e \<Rightarrow> Inl e
      | Inr post \<Rightarrow> Inr \<lparr>od_pre = pre, od_chunk = chunk, od_post = post,
          od_all = map (gate_of (rg_gates r)) names\<rparr>))))"

section \<open>The built-in gates\<close>

text \<open>What each gate of the program answers for \<open>ID\<close>, \<open>FailurePolicy\<close>, \<open>NeedsBody\<close> and \<open>Declare\<close>; its
  \<open>Stages\<close> are the declared ones, and none requires a capability.\<close>

record gate_profile =
  gp_id :: string
  gp_policy :: failure_policy
  gp_needs_body :: "bool option"
  gp_declared :: declared

definition declare_in :: "gate_stage list \<Rightarrow> data_field list \<Rightarrow> data_field list \<Rightarrow> declared" where
  "declare_in stages rs ws = \<lparr>dc_stages = StageSet stages, dc_reads = rs, dc_writes = ws, dc_after = []\<rparr>"

definition logger_profile :: gate_profile where
  "logger_profile = \<lparr>gp_id = ''logger'', gp_policy = FailOpen, gp_needs_body = None,
     gp_declared = declare_in [StagePreRequest, StageOnResponseChunk, StagePostResponse] [] []\<rparr>"

definition token_profile :: gate_profile where
  "token_profile = \<lparr>gp_id = ''token'', gp_policy = FailOpen, gp_needs_body = Some True,
     gp_declared = declare_in [StagePreRequest] [FieldContext, FieldCacheLookup] [FieldPromptText, FieldPrefixRange]\<rparr>"

definition retriever_profile :: gate_profile where
  "retriever_profile = \<lparr>gp_id = ''memory-retriever'', gp_policy = FailOpen, gp_needs_body = Some True,
     gp_declared = declare_in [StagePreRequest] [FieldCacheLookup] [FieldContext]\<rparr>"

definition writer_profile :: gate_profile where
  "writer_profile = \<lparr>gp_id = ''memory-writer'', gp_policy = FailOpen, gp_needs_body = Some True,
     gp_declared = declare_in [StagePostResponse] [] []\<rparr>"

definition masker_profile :: gate_profile where
  "masker_profile = \<lparr>gp_id = ''credential-masker'', gp_policy = FailClosed, gp_needs_body = Some True,
     gp_declared = declare_in [StagePreRequest] [] [FieldPromptText]\<rparr>"

datatype inject_policy = InjectBlock | InjectFlag

definition injection_profile :: "inject_policy \<Rightarrow> gate_profile" where
  "injection_profile p = \<lparr>gp_id = ''injection-guard'', gp_policy = (if p = InjectFlag then FailOpen else FailClosed), gp_needs_body = Some True,
     gp_declared = declare_in [StagePreRequest] [FieldContext, FieldPromptText]
       (if p = InjectBlock then [FieldInjectionFlag] else [])\<rparr>"

definition pii_profile :: gate_profile where
  "pii_profile = \<lparr>gp_id = ''pii-masker'', gp_policy = FailClosed, gp_needs_body = Some True,
     gp_declared = declare_in [StagePreRequest] [FieldPromptText] [FieldPII]\<rparr>"

definition rate_limit_profile :: gate_profile where
  "rate_limit_profile = \<lparr>gp_id = ''rate-limit'', gp_policy = FailOpen, gp_needs_body = None,
     gp_declared = declare_in [StagePreRequest] [] []\<rparr>"

definition ssrf_profile :: gate_profile where
  "ssrf_profile = \<lparr>gp_id = ''ssrf-guard'', gp_policy = FailClosed, gp_needs_body = Some True,
     gp_declared = declare_in [StagePreRequest] [] []\<rparr>"

definition builtin_profiles :: "inject_policy \<Rightarrow> gate_profile list" where
  "builtin_profiles p = [logger_profile, token_profile, masker_profile, injection_profile p, pii_profile,
     rate_limit_profile, ssrf_profile, retriever_profile, writer_profile]"

end
