(* ===== verification/Pipeline.thy ===== *)
theory Pipeline
  imports Gates
begin

text \<open>
  The gate chain of \<open>internal/pipeline/chain.go\<close>: the gates of each stage in the order the registry
  computed, run with their failure policies.  An error that a gate's method answers is a Go error of
  \<open>Domain_Errors\<close>; \<open>errors.Join\<close> is a foreign error that unwraps to all its parts.
\<close>

section \<open>Construction\<close>

record 'w chain =
  ch_pre :: "'w gate list"
  ch_chunk :: "'w gate list"
  ch_post :: "'w gate list"
  ch_all :: "'w gate list"

definition partition_stage :: "gate_stage \<Rightarrow> 'w gate list \<Rightarrow> 'w gate list" where
  "partition_stage st gs = filter (\<lambda>g. StageSet_Has (gt_Stages g) st) gs"

definition nil_gate :: "string \<Rightarrow> int \<Rightarrow> domain_error" where
  "nil_gate what i = New CodeInternal [WithHTTPStatus 500, WithParams [(''reason'', what @ '' '' @ itoa i @ '' is nil'')]]"

fun first_nil :: "int \<Rightarrow> 'w gate option list \<Rightarrow> int option" where
  "first_nil i [] = None"
| "first_nil i (g # gs) = (if g = None then Some i else first_nil (i + 1) gs)"

definition chain_New :: "'w gate option list \<Rightarrow> domain_error + 'w chain" where
  "chain_New gs = (case first_nil 0 gs of
      Some i \<Rightarrow> Inl (nil_gate ''gate'' i)
    | None \<Rightarrow> (let gs' = map the gs in
        Inr \<lparr>ch_pre = partition_stage StagePreRequest gs', ch_chunk = partition_stage StageOnResponseChunk gs',
             ch_post = partition_stage StagePostResponse gs', ch_all = gs'\<rparr>))"

definition NewOrdered :: "'w gate option list \<Rightarrow> 'w gate option list \<Rightarrow> 'w gate option list \<Rightarrow> domain_error + 'w chain" where
  "NewOrdered pre chunk post = (case map_option (nil_gate ''ordered gate'') (List.find (\<lambda>_. True)
        (List.map_filter (first_nil 0) [pre, chunk, post])) of
      Some e \<Rightarrow> Inl e
    | None \<Rightarrow> (let pre' = map the pre; chunk' = map the chunk; post' = map the post;
                  seen = pre' @ chunk' @ post'
        in Inr \<lparr>ch_pre = pre', ch_chunk = chunk', ch_post = post',
             ch_all = map (gate_of seen) (sort (remdups (map gt_ID seen)))\<rparr>))"

definition ConsumesRequestBody :: "'w chain \<Rightarrow> bool" where
  "ConsumesRequestBody c = AnyConsumesBody (map Some (ch_pre c))"

section \<open>Derived metadata\<close>

definition headerNames :: "http_header option \<Rightarrow> string" where
  "headerNames h = (case h of None \<Rightarrow> '''' | Some hs \<Rightarrow> join '','' (sort (map fst hs)))"

definition derived_fields :: "derived \<Rightarrow> string \<Rightarrow> string option" where
  "derived_fields d = (let m = [''request_id'' \<mapsto> dr_request_id d, ''provider'' \<mapsto> dr_provider d,
       ''credential'' \<mapsto> dr_credential d, ''model'' \<mapsto> dr_model d]
     in if dr_header_names d = '''' then m else m(''header_names'' \<mapsto> dr_header_names d))"

definition Derive :: "gate_input \<Rightarrow> derived" where
  "Derive i = \<lparr>dr_request_id = gi_request_id i, dr_provider = gi_provider i, dr_credential = gi_credential i,
     dr_model = gi_model i, dr_header_names = headerNames (gi_headers i)\<rparr>"

text \<open>\<open>if in.Derived == nil { in.Derived = Derive(in) }\<close>, which allocates the shared map.\<close>

definition ensure_derived :: "gate_input \<Rightarrow> 'w exchange \<Rightarrow> gate_input \<times> 'w exchange" where
  "ensure_derived i w = (case gi_derived i of
      Some d \<Rightarrow> (i, w)
    | None \<Rightarrow> (let d = Derive i in (i\<lparr>gi_derived := Some d\<rparr>, w\<lparr>xc_fields := Some (derived_fields d)\<rparr>)))"

definition stampChunkScalars :: "derived option \<Rightarrow> int \<Rightarrow> int \<Rightarrow> 'w exchange \<Rightarrow> 'w exchange" where
  "stampChunkScalars d index n w = (if d = None then w else
     (case xc_fields w of None \<Rightarrow> w
      | Some m \<Rightarrow> w\<lparr>xc_fields := Some (m(''chunk_index'' \<mapsto> itoa index, ''chunk_bytes'' \<mapsto> itoa n))\<rparr>))"

definition clearChunkScalars :: "derived option \<Rightarrow> 'w exchange \<Rightarrow> 'w exchange" where
  "clearChunkScalars d w = (if d = None then w else
     (case xc_fields w of None \<Rightarrow> w
      | Some m \<Rightarrow> w\<lparr>xc_fields := Some (m(''chunk_index'' := None, ''chunk_bytes'' := None))\<rparr>))"

section \<open>Running the stages\<close>

definition contractError :: "string \<Rightarrow> string \<Rightarrow> go_error" where
  "contractError i reason = Dom (New CodeInternal [WithHTTPStatus 500, WithScope ScopeRequest,
     WithParams [(''reason'', ''gate '' @ i @ '' '' @ reason)]])"

text \<open>\<open>modified\<close> remembers that a gate rewrote the request, so that the rewrite reaches the caller.\<close>

fun pre_loop :: "'w gate list \<Rightarrow> gate_input \<Rightarrow> bool \<Rightarrow> 'w exchange \<Rightarrow> (go_error + decision) \<times> 'w exchange" where
  "pre_loop [] i modified w =
     (Inr (if modified then (plain_decision DecisionModify)\<lparr>dn_body := gi_body i, dn_headers := gi_headers i, dn_derived := gi_derived i\<rparr>
           else (plain_decision DecisionContinue)\<lparr>dn_derived := gi_derived i\<rparr>), w)"
| "pre_loop (g # gs) i modified w =
     (case gt_PreRequest g i w of
        (Inl err, w1) \<Rightarrow> if gt_FailurePolicy g = FailClosed then (Inl err, w1) else pre_loop gs i modified w1
      | (Inr d, w1) \<Rightarrow> (case dn_kind d of
          DecisionContinue \<Rightarrow> pre_loop gs i modified w1
        | DecisionModify \<Rightarrow> pre_loop gs
            (i\<lparr>gi_body := (case dn_body d of None \<Rightarrow> gi_body i | Some b \<Rightarrow> Some b),
               gi_headers := (case dn_headers d of None \<Rightarrow> gi_headers i | Some h \<Rightarrow> Some h)\<rparr>)
            (modified \<or> dn_body d \<noteq> None \<or> dn_headers d \<noteq> None) w1
        | DecisionBlock \<Rightarrow> if dn_synthetic d = None
            then (Inl (contractError (gt_ID g) ''blocked without a synthetic response''), w1)
            else (Inr (d\<lparr>dn_derived := gi_derived i\<rparr>), w1)
        | DecisionReroute \<Rightarrow> if dn_reroute d = None
            then (Inl (contractError (gt_ID g) ''rerouted without a target''), w1)
            else (Inr (d\<lparr>dn_derived := gi_derived i\<rparr>), w1)
        | DecisionUnknown \<Rightarrow> (Inl (contractError (gt_ID g) ''returned an unknown decision''), w1)))"

definition PreRequest :: "'w chain \<Rightarrow> gate_input \<Rightarrow> 'w exchange \<Rightarrow> (go_error + decision) \<times> 'w exchange" where
  "PreRequest c i w = (case ensure_derived (i\<lparr>gi_committed := False\<rparr>) w of (i1, w1) \<Rightarrow> pre_loop (ch_pre c) i1 False w1)"

fun chunk_loop :: "'w gate list \<Rightarrow> chunk_input \<Rightarrow> 'w exchange \<Rightarrow> (go_error + chunk_decision) \<times> 'w exchange" where
  "chunk_loop [] i w = (Inr pass_through, w)"
| "chunk_loop (g # gs) i w =
     (case gt_OnResponseChunk g i w of
        (Inl err, w1) \<Rightarrow> if gt_FailurePolicy g = FailClosed then (Inl err, w1) else chunk_loop gs i w1
      | (Inr d, w1) \<Rightarrow> (case cd_kind d of
          ChunkPassThrough \<Rightarrow> chunk_loop gs i w1
        | ChunkReplace \<Rightarrow> (Inr d, w1)
        | ChunkDrop \<Rightarrow> (Inr d, w1)
        | ChunkUnknown \<Rightarrow> (Inl (contractError (gt_ID g) ''returned an unknown chunk decision''), w1)))"

definition OnResponseChunk :: "'w chain \<Rightarrow> chunk_input \<Rightarrow> 'w exchange \<Rightarrow> (go_error + chunk_decision) \<times> 'w exchange" where
  "OnResponseChunk c i w =
     chunk_loop (ch_chunk c) (i\<lparr>ci_committed := True\<rparr>) (stampChunkScalars (ci_derived i) (ci_index i) (ci_size i) w)"

text \<open>Every gate of the list is called; the first error is kept.\<close>

fun post_loop :: "'w gate list \<Rightarrow> gate_input \<Rightarrow> go_error option \<Rightarrow> 'w exchange \<Rightarrow> go_error option \<times> 'w exchange" where
  "post_loop [] i first w = (first, w)"
| "post_loop (g # gs) i first w = (case gt_PostResponse g i w of
     (err, w1) \<Rightarrow> post_loop gs i (if err \<noteq> None \<and> first = None then err else first) w1)"

definition PostResponse :: "'w chain \<Rightarrow> gate_input \<Rightarrow> 'w exchange \<Rightarrow> go_error option \<times> 'w exchange" where
  "PostResponse c i w = (case ensure_derived i w of
     (i1, w1) \<Rightarrow> post_loop (ch_post c) i1 None (clearChunkScalars (gi_derived i1) w1))"

fun close_loop :: "'w gate list \<Rightarrow> 'w exchange \<Rightarrow> go_error list \<times> 'w exchange" where
  "close_loop [] w = ([], w)"
| "close_loop (g # gs) w = (case gt_Close g w of (err, w1) \<Rightarrow> (case close_loop gs w1 of
     (errs, w2) \<Rightarrow> ((case err of None \<Rightarrow> errs | Some e \<Rightarrow> e # errs), w2)))"

definition errors_join :: "go_error list \<Rightarrow> go_error option" where
  "errors_join errs = (if errs = [] then None else Some (Foreign (join [CHR 10] (map go_error_string errs)) errs))"

definition chain_Close :: "'w chain \<Rightarrow> 'w exchange \<Rightarrow> go_error option \<times> 'w exchange" where
  "chain_Close c w = (case close_loop (ch_all c) w of (errs, w1) \<Rightarrow> (errors_join errs, w1))"

end
