(* ===== verification/Pipeline_Laws.thy ===== *)
theory Pipeline_Laws
  imports Pipeline
begin

text \<open>
  What the gate chain promises: its decisions are well formed, gates compose in sequence, a failing
  FailOpen gate is as good as absent, and a property of the request that the gates keep survives to
  the request that goes upstream.
\<close>

section \<open>The chain as a sequence\<close>

text \<open>Running some gates either ends the stage or goes on with a rewritten input.\<close>

datatype stage_result = Ended "go_error + decision" | Ongoing gate_input bool

definition rewritten :: "decision \<Rightarrow> gate_input \<Rightarrow> gate_input" where
  "rewritten d i = i\<lparr>gi_body := (case dn_body d of None \<Rightarrow> gi_body i | Some b \<Rightarrow> Some b),
     gi_headers := (case dn_headers d of None \<Rightarrow> gi_headers i | Some h \<Rightarrow> Some h)\<rparr>"

definition gate_step :: "'w gate \<Rightarrow> gate_input \<Rightarrow> bool \<Rightarrow> 'w exchange \<Rightarrow> stage_result \<times> 'w exchange" where
  "gate_step g i m w = (case gt_PreRequest g i w of
      (Inl err, w1) \<Rightarrow> (if gt_FailurePolicy g = FailClosed then Ended (Inl err) else Ongoing i m, w1)
    | (Inr d, w1) \<Rightarrow> (case dn_kind d of
        DecisionContinue \<Rightarrow> Ongoing i m
      | DecisionModify \<Rightarrow> Ongoing (rewritten d i) (m \<or> dn_body d \<noteq> None \<or> dn_headers d \<noteq> None)
      | DecisionBlock \<Rightarrow> Ended (if dn_synthetic d = None then Inl (contractError (gt_ID g) ''blocked without a synthetic response'')
          else Inr (d\<lparr>dn_derived := gi_derived i\<rparr>))
      | DecisionReroute \<Rightarrow> Ended (if dn_reroute d = None then Inl (contractError (gt_ID g) ''rerouted without a target'')
          else Inr (d\<lparr>dn_derived := gi_derived i\<rparr>))
      | DecisionUnknown \<Rightarrow> Ended (Inl (contractError (gt_ID g) ''returned an unknown decision'')), w1))"

fun run_gates :: "'w gate list \<Rightarrow> gate_input \<Rightarrow> bool \<Rightarrow> 'w exchange \<Rightarrow> stage_result \<times> 'w exchange" where
  "run_gates [] i m w = (Ongoing i m, w)"
| "run_gates (g # gs) i m w = (case gate_step g i m w of
     (Ended r, w1) \<Rightarrow> (Ended r, w1) | (Ongoing i1 m1, w1) \<Rightarrow> run_gates gs i1 m1 w1)"

definition verdict :: "stage_result \<Rightarrow> go_error + decision" where
  "verdict s = (case s of Ended r \<Rightarrow> r
    | Ongoing i m \<Rightarrow> Inr (if m then (plain_decision DecisionModify)\<lparr>dn_body := gi_body i, dn_headers := gi_headers i, dn_derived := gi_derived i\<rparr>
        else (plain_decision DecisionContinue)\<lparr>dn_derived := gi_derived i\<rparr>))"

lemma pre_loop_run: "pre_loop gs i m w = map_prod verdict id (run_gates gs i m w)"
proof (induction gs arbitrary: i m w)
  case (Cons g gs)
  obtain res w1 where g: "gt_PreRequest g i w = (res, w1)" by fastforce
  show ?case
  proof (cases res)
    case (Inl err)
    with g Cons show ?thesis by (simp add: gate_step_def verdict_def)
  next
    case (Inr d)
    with g Cons show ?thesis
      by (cases "dn_kind d") (simp_all add: gate_step_def verdict_def rewritten_def)
  qed
qed (simp add: verdict_def)

lemma run_gates_append:
  "run_gates (gs @ hs) i m w = (case run_gates gs i m w of
     (Ended r, w1) \<Rightarrow> (Ended r, w1) | (Ongoing i1 m1, w1) \<Rightarrow> run_gates hs i1 m1 w1)"
proof (induction gs arbitrary: i m w)
  case (Cons g gs)
  obtain s w1 where "gate_step g i m w = (s, w1)" by fastforce
  with Cons show ?case by (cases s) simp_all
qed simp

lemma PreRequest_run:
  "PreRequest c i w = (case ensure_derived (i\<lparr>gi_committed := False\<rparr>) w of (i1, w1) \<Rightarrow>
     map_prod verdict id (run_gates (ch_pre c) i1 False w1))"
  by (simp add: PreRequest_def pre_loop_run)

text \<open>a chain is the sequence of its gates: running \<open>gs @ hs\<close> is running \<open>gs\<close> and, unless a gate of
  \<open>gs\<close> ended the stage, running \<open>hs\<close> on the input and the exchange \<open>gs\<close> left; so a Block, a Reroute or
  a fail-closed error is final and no later gate is asked, and a rewrite is seen by all later gates
  and by the caller.\<close>

theorem chain_sequential:
  "PreRequest (c\<lparr>ch_pre := gs @ hs\<rparr>) i w =
     (case ensure_derived (i\<lparr>gi_committed := False\<rparr>) w of (i1, w1) \<Rightarrow>
       (case run_gates gs i1 False w1 of
          (Ended r, w2) \<Rightarrow> (r, w2)
        | (Ongoing i2 m, w2) \<Rightarrow> map_prod verdict id (run_gates hs i2 m w2)))"
  by (simp add: PreRequest_run run_gates_append verdict_def split: prod.splits stage_result.splits)

section \<open>Failure policies\<close>

text \<open>a FailOpen gate that fails, without touching the exchange, is as good as absent: the chain
  decides what it decides without the gate, and no part of a rewrite the gate had in mind is
  published.\<close>

theorem fail_open_is_absence:
  assumes "gt_FailurePolicy g = FailOpen" and "\<And>i w. snd (gt_PreRequest g i w) = w \<and> isl (fst (gt_PreRequest g i w))"
  shows "PreRequest (c\<lparr>ch_pre := gs @ g # hs\<rparr>) = PreRequest (c\<lparr>ch_pre := gs @ hs\<rparr>)"
proof -
  have "gate_step g i m w = (Ongoing i m, w)" for i m w
  proof -
    obtain e where "gt_PreRequest g i w = (Inl e, w)"
      using assms(2) [of i w] by (cases "gt_PreRequest g i w"; cases "fst (gt_PreRequest g i w)") auto
    then show ?thesis using assms(1) by (simp add: gate_step_def)
  qed
  then have "run_gates (gs @ g # hs) i m w = run_gates (gs @ hs) i m w" for i m w
    by (simp add: run_gates_append split: prod.splits stage_result.splits)
  then show ?thesis by (simp add: fun_eq_iff PreRequest_run)
qed

text \<open>a FailClosed gate that fails ends the request with its error, whatever gates come after it.\<close>

theorem fail_closed_aborts:
  assumes "gt_FailurePolicy g = FailClosed" and "gt_PreRequest g i2 w2 = (Inl err, w3)"
    and "ensure_derived (i\<lparr>gi_committed := False\<rparr>) w = (i1, w1)" and "run_gates gs i1 False w1 = (Ongoing i2 m, w2)"
  shows "PreRequest (c\<lparr>ch_pre := gs @ g # hs\<rparr>) i w = (Inl err, w3)"
  using assms by (simp add: PreRequest_run run_gates_append gate_step_def verdict_def)

section \<open>Well-formed decisions\<close>

definition decision_ok :: "decision \<Rightarrow> bool" where
  "decision_ok d \<longleftrightarrow> dn_derived d \<noteq> None \<and> (case dn_kind d of
      DecisionContinue \<Rightarrow> dn_body d = None \<and> dn_headers d = None
    | DecisionModify \<Rightarrow> dn_body d \<noteq> None \<or> dn_headers d \<noteq> None
    | DecisionBlock \<Rightarrow> dn_synthetic d \<noteq> None
    | DecisionReroute \<Rightarrow> dn_reroute d \<noteq> None
    | DecisionUnknown \<Rightarrow> False)"

definition result_ok :: "stage_result \<Rightarrow> bool" where
  "result_ok s \<longleftrightarrow> (case s of Ended (Inl e) \<Rightarrow> True | Ended (Inr d) \<Rightarrow> decision_ok d
    | Ongoing i m \<Rightarrow> gi_derived i \<noteq> None \<and> (m \<longrightarrow> gi_body i \<noteq> None \<or> gi_headers i \<noteq> None))"

lemma gate_step_ok:
  "result_ok (Ongoing i m) \<Longrightarrow> result_ok (fst (gate_step g i m w))"
  by (auto simp: gate_step_def result_ok_def decision_ok_def rewritten_def
      split: prod.splits sum.splits decision_kind.splits option.splits)

lemma run_gates_ok: "result_ok (Ongoing i m) \<Longrightarrow> result_ok (fst (run_gates gs i m w))"
proof (induction gs arbitrary: i m w)
  case (Cons g gs)
  obtain s w1 where s: "gate_step g i m w = (s, w1)" by fastforce
  then have "result_ok s" using gate_step_ok [OF Cons.prems, of g w] by simp
  with s Cons.IH show ?case by (cases s) simp_all
qed simp

text \<open>C21: whatever the gates answer, the chain answers an error or a well-formed decision: it carries the
  request's metadata, a Block carries the response to send, a Reroute its target, a Modify something
  to modify, a Continue nothing, and no decision outside the vocabulary gets through.\<close>

theorem chain_decisions_typed:
  "case fst (PreRequest c i w) of Inl e \<Rightarrow> True | Inr d \<Rightarrow> decision_ok d"
proof -
  obtain i1 w1 where e: "ensure_derived (i\<lparr>gi_committed := False\<rparr>) w = (i1, w1)" by fastforce
  then have "result_ok (Ongoing i1 False)"
    by (auto simp: ensure_derived_def result_ok_def Let_def split: option.splits)
  from run_gates_ok [OF this, of "ch_pre c" w1]
  have "result_ok (fst (run_gates (ch_pre c) i1 False w1))" .
  then have "case verdict (fst (run_gates (ch_pre c) i1 False w1)) of Inl e \<Rightarrow> True | Inr d \<Rightarrow> decision_ok d"
    by (auto simp: verdict_def result_ok_def decision_ok_def plain_decision_def split: stage_result.splits sum.splits)
  with e show ?thesis by (cases "run_gates (ch_pre c) i1 False w1") (simp add: PreRequest_run)
qed

section \<open>Witnesses\<close>

definition toy_gate :: "string \<Rightarrow> failure_policy \<Rightarrow> (go_error + decision) \<Rightarrow> unit gate" where
  "toy_gate n p ans = \<lparr>gt_ID = n, gt_Stages = StageSet [StagePreRequest], gt_RequiredCaps = 0,
     gt_FailurePolicy = p, gt_Declare = None, gt_NeedsBody = None, gt_PreRequest = (\<lambda>i w. (ans, w)),
     gt_OnResponseChunk = (\<lambda>i w. (Inr pass_through, w)), gt_PostResponse = (\<lambda>i w. (None, w)), gt_Close = (\<lambda>w. (None, w))\<rparr>"

definition toy_chain :: "unit chain" where
  "toy_chain = \<lparr>ch_pre = [], ch_chunk = [], ch_post = [], ch_all = []\<rparr>"

definition toy_input :: gate_input where
  "toy_input = \<lparr>gi_request_id = ''r1'', gi_provider = '''', gi_credential = '''', gi_model = ''m'', gi_headers = None,
     gi_body = None, gi_committed = False, gi_derived = None\<rparr>"

definition toy_exchange :: "unit exchange" where
  "toy_exchange = \<lparr>xc_meta = Map.empty, xc_fields = None, xc_world = ()\<rparr>"

definition rewrite :: decision where
  "rewrite = (plain_decision DecisionModify)\<lparr>dn_body := Some (NotJson ''x'')\<rparr>"

theorem fail_open_is_absence_witness:
  "map_sum id dn_body (fst (PreRequest (toy_chain\<lparr>ch_pre := [toy_gate ''a'' FailOpen (Inr rewrite)] @
       toy_gate ''b'' FailOpen (Inl (Foreign ''boom'' [])) # []\<rparr>) toy_input toy_exchange)) = Inr (Some (NotJson ''x''))"
proof -
  have "gt_FailurePolicy (toy_gate ''b'' FailOpen (Inl (Foreign ''boom'' []))) = FailOpen"
    "\<And>i w. snd (gt_PreRequest (toy_gate ''b'' FailOpen (Inl (Foreign ''boom'' []))) i w) = w \<and>
       isl (fst (gt_PreRequest (toy_gate ''b'' FailOpen (Inl (Foreign ''boom'' []))) i w))"
    by (simp_all add: toy_gate_def)
  then show ?thesis
    using fail_open_is_absence [where g = "toy_gate ''b'' FailOpen (Inl (Foreign ''boom'' []))" and c = toy_chain
      and gs = "[toy_gate ''a'' FailOpen (Inr rewrite)]" and hs = "[]"]
    by (simp add: PreRequest_def ensure_derived_def toy_gate_def toy_input_def rewrite_def plain_decision_def Let_def)
qed

theorem fail_closed_aborts_witness:
  "\<exists>w'. PreRequest (toy_chain\<lparr>ch_pre := [toy_gate ''a'' FailOpen (Inr rewrite)] @
       toy_gate ''b'' FailClosed (Inl (Foreign ''boom'' [])) # [toy_gate ''c'' FailOpen (Inr rewrite)]\<rparr>) toy_input toy_exchange =
     (Inl (Foreign ''boom'' []), w')"
proof -
  obtain i1 w1 where e: "ensure_derived (toy_input\<lparr>gi_committed := False\<rparr>) toy_exchange = (i1, w1)" by fastforce
  have "run_gates [toy_gate ''a'' FailOpen (Inr rewrite)] i1 False w1 = (Ongoing (rewritten rewrite i1) True, w1)"
    by (simp add: gate_step_def toy_gate_def rewrite_def plain_decision_def)
  moreover have "gt_PreRequest (toy_gate ''b'' FailClosed (Inl (Foreign ''boom'' []))) (rewritten rewrite i1) w1 =
      (Inl (Foreign ''boom'' []), w1)" "gt_FailurePolicy (toy_gate ''b'' FailClosed (Inl (Foreign ''boom'' []))) = FailClosed"
    by (simp_all add: toy_gate_def)
  ultimately show ?thesis using fail_closed_aborts [OF _ _ e] by blast
qed

end
