(* ===== verification/Executor.thy ===== *)
theory Executor
  imports Dispatcher Gates
begin

text \<open>
  The OpenAI-compatible executor of \<open>internal/executors\<close> (\<open>executor.go\<close>, \<open>helpers.go\<close>): building a request
  with the credential's header, reading a bounded answer, and the classification of transport and
  upstream failures.  The HTTP client, the secret store, the clock, \<open>http.ParseTime\<close>, the URL parser and
  the JSON decoder are ports; a response body is its bytes and the way it ends.
\<close>

section \<open>Headers\<close>

text \<open>The canonical form of a header name: tokens are capitalised at the start and after a dash, a name
  that is no token is left alone.\<close>

definition upper :: "char \<Rightarrow> char" where
  "upper c = (let n = of_char c :: nat in if 97 \<le> n \<and> n \<le> 122 then char_of (n - 32) else c)"

definition token_char :: "char \<Rightarrow> bool" where
  "token_char c \<longleftrightarrow> (let n = of_char c :: nat in
     48 \<le> n \<and> n \<le> 57 \<or> 65 \<le> n \<and> n \<le> 90 \<or> 97 \<le> n \<and> n \<le> 122 \<or>
     n \<in> {33, 35, 36, 37, 38, 39, 42, 43, 45, 46, 94, 95, 96, 124, 126})"

fun capitalise :: "bool \<Rightarrow> string \<Rightarrow> string" where
  "capitalise up [] = []"
| "capitalise up (c # cs) = (if up then upper c else lower c) # capitalise (c = CHR 0x2D) cs"

definition CanonicalHeaderKey :: "string \<Rightarrow> string" where
  "CanonicalHeaderKey s = (if list_all token_char s then capitalise True s else s)"

definition Header_values :: "http_header \<Rightarrow> string \<Rightarrow> string list" where
  "Header_values h k = (case map_of h (CanonicalHeaderKey k) of None \<Rightarrow> [] | Some vs \<Rightarrow> vs)"

definition Header_Get :: "http_header \<Rightarrow> string \<Rightarrow> string" where
  "Header_Get h k = (case Header_values h k of [] \<Rightarrow> '''' | v # _ \<Rightarrow> v)"

definition Header_Set :: "string \<Rightarrow> string \<Rightarrow> http_header \<Rightarrow> http_header" where
  "Header_Set k v h = AList.update (CanonicalHeaderKey k) [v] h"

definition Header_Add :: "string \<Rightarrow> string \<Rightarrow> http_header \<Rightarrow> http_header" where
  "Header_Add k v h = AList.update (CanonicalHeaderKey k) (Header_values h k @ [v]) h"

definition Header_Del :: "string \<Rightarrow> http_header \<Rightarrow> http_header" where
  "Header_Del k h = AList.delete (CanonicalHeaderKey k) h"

section \<open>Requests and responses\<close>

record http_request =
  hq_method :: string
  hq_url :: string
  hq_header :: http_header
  hq_body :: body

datatype body_end = EndEOF | EndError go_error

record http_response =
  hr_status :: int
  hr_header :: http_header
  hr_bytes :: string
  hr_end :: body_end

datatype auth_style = AuthBearer | AuthAPIKeyHeader

record executor_config =
  xf_Family :: provider_id
  xf_BaseURL :: string
  xf_AllowLoopback :: bool
  xf_AuthStyle :: auth_style
  xf_ResponseHeaderTimeout :: duration
  xf_IdleTimeout :: duration
  xf_MaxResponseBytes :: int
  xf_CountTokensEndpoint :: string

record credential =
  cr_ID :: credential_id
  cr_AuthMode :: auth_mode
  cr_Sealed :: string

record 'w executor_ports =
  xp_Open :: "(string \<Rightarrow> go_error + string) option"
  xp_client :: "http_request \<Rightarrow> 'w \<Rightarrow> (go_error + http_response) \<times> 'w"
  xp_url_error :: "string \<Rightarrow> go_error option"
  xp_now :: "'w \<Rightarrow> gotime"
  xp_ParseTime :: "string \<Rightarrow> gotime option"
  xp_timeout :: "go_error \<Rightarrow> bool"
  xp_json :: "string \<Rightarrow> body"

definition DefaultMaxResponseBytes :: int where "DefaultMaxResponseBytes = 32 * 2 ^ 20"
definition MaxErrorBodyBytes :: int where "MaxErrorBodyBytes = 8 * 2 ^ 10"
definition DefaultResponseHeaderTimeout :: duration where "DefaultResponseHeaderTimeout = 60000000000"

section \<open>Errors\<close>

definition CodeUpstreamUnavailable :: string where "CodeUpstreamUnavailable = ''error.upstream_unavailable''"
definition CodeBadUpstreamResponse :: string where "CodeBadUpstreamResponse = ''error.bad_upstream_response''"
definition CodeUpstreamResponseTooLarge :: string where "CodeUpstreamResponseTooLarge = ''error.upstream_response_too_large''"
definition CodeUpstreamInsecureURL :: string where "CodeUpstreamInsecureURL = ''error.upstream_insecure_url''"
definition CodeUpstreamDestinationDenied :: string where "CodeUpstreamDestinationDenied = ''error.upstream_destination_denied''"
definition CodeAuthSecretMissing :: string where "CodeAuthSecretMissing = ''auth.secret_missing''"
definition CodeCredentialInvalidAuthMode :: string where "CodeCredentialInvalidAuthMode = ''credential.invalid_auth_mode''"
definition CodeProviderAuthModeUnsupported :: string where "CodeProviderAuthModeUnsupported = ''provider.auth_mode_unsupported''"
definition CodeProviderInvalid :: string where "CodeProviderInvalid = ''provider.invalid''"
definition CodeProviderNoExecutor :: string where "CodeProviderNoExecutor = ''provider.executor_unavailable''"

text \<open>\<open>errors.Is(err, target)\<close>: the target is met in the error tree.  The sentinels are told apart by their
  text.\<close>

fun errors_is :: "go_error \<Rightarrow> go_error \<Rightarrow> bool" where
  "errors_is t (Dom (DomainError c ps st rt sc ra cause)) =
     (t = Dom (DomainError c ps st rt sc ra cause) \<or> (case cause of None \<Rightarrow> False | Some e \<Rightarrow> errors_is t e))"
| "errors_is t (Foreign m ws) = (t = Foreign m ws \<or> list_ex (errors_is t) ws)"

definition ctxCanceled :: go_error where "ctxCanceled = Foreign ''context canceled'' []"
definition ctxDeadlineExceeded :: go_error where "ctxDeadlineExceeded = Foreign ''context deadline exceeded'' []"
definition errIdleTimeout :: go_error where "errIdleTimeout = Foreign ''sse stream idle timeout'' []"

definition isCanceledOrDeadline :: "go_error \<Rightarrow> bool" where
  "isCanceledOrDeadline e \<longleftrightarrow> errors_is ctxCanceled e \<or> errors_is ctxDeadlineExceeded e"

definition egressPolicyError :: "go_error \<Rightarrow> domain_error option" where
  "egressPolicyError e = (case errors_as e of None \<Rightarrow> None
     | Some de \<Rightarrow> if de_code de = CodeUpstreamDestinationDenied \<or> de_code de = CodeUpstreamInsecureURL then Some de else None)"

definition transportError :: "(go_error \<Rightarrow> bool) \<Rightarrow> go_error \<Rightarrow> domain_error" where
  "transportError timeout e = (case egressPolicyError e of Some de \<Rightarrow> de
     | None \<Rightarrow>
        if isCanceledOrDeadline e then
          New CodeUpstreamTimeout [WithHTTPStatus 504, WithScope ScopeProvider, WithCause e]
        else if errors_is errIdleTimeout e \<or> timeout e then
          New CodeUpstreamTimeout [WithHTTPStatus 504, Retry, WithScope ScopeProvider, WithCause e]
        else New CodeUpstreamUnavailable [WithHTTPStatus 502, Retry, WithScope ScopeProvider, WithCause e])"

text \<open>\<open>strconv.Atoi\<close>: an optional sign and digits within 64 bits.\<close>

definition all_digits :: "string \<Rightarrow> bool" where
  "all_digits s \<longleftrightarrow> s \<noteq> [] \<and> list_all (\<lambda>c. 48 \<le> (of_char c :: nat) \<and> (of_char c :: nat) \<le> 57) s"

definition int64 :: "int \<Rightarrow> int option" where
  "int64 n = (if - (2 ^ 63) \<le> n \<and> n < 2 ^ 63 then Some n else None)"

definition Atoi :: "string \<Rightarrow> int option" where
  "Atoi s = (case s of
      [] \<Rightarrow> None
    | c # cs \<Rightarrow>
        if c = CHR ''+'' then (if all_digits cs then int64 (int (read_nat cs)) else None)
        else if c = CHR ''-'' then (if all_digits cs then int64 (- int (read_nat cs)) else None)
        else if all_digits s then int64 (int (read_nat s)) else None)"

definition blank_or_tab :: "char \<Rightarrow> bool" where
  "blank_or_tab c \<longleftrightarrow> c = CHR 0x20 \<or> c = CHR 0x09"

definition stringsTrim :: "string \<Rightarrow> string" where
  "stringsTrim s = rev (dropWhile blank_or_tab (rev (dropWhile blank_or_tab s)))"

definition parseRetryAfter :: "(string \<Rightarrow> gotime option) \<Rightarrow> string \<Rightarrow> gotime \<Rightarrow> duration" where
  "parseRetryAfter parseTime v now = (let value = stringsTrim v in
     if value = '''' then 0
     else case Atoi value of
       Some seconds \<Rightarrow> if seconds < 0 then 0 else wrap64 (seconds * 1000000000)
     | None \<Rightarrow> (case parseTime value of
         Some t \<Rightarrow> if time_sub t now > 0 then time_sub t now else 0
       | None \<Rightarrow> 0))"

definition upstreamError :: "'w executor_ports \<Rightarrow> http_response \<Rightarrow> 'w \<Rightarrow> domain_error" where
  "upstreamError xp resp w =
     (let status = hr_status resp; bad = WithHTTPStatus 502;
          params = WithParams [(''status'', itoa status)] in
      if status = 429 then
        (let ra = parseRetryAfter (xp_ParseTime xp) (Header_Get (hr_header resp) ''Retry-After'') (xp_now xp w) in
         New CodeUpstreamUnavailable ([bad, Retry, WithScope ScopeCredential] @ (if ra > 0 then [WithRetryAfter ra] else [])))
      else if status = 401 \<or> status = 403 then
        New CodeUpstreamUnavailable [bad, WithScope ScopeCredential, params]
      else if status = 408 \<or> status \<ge> 500 then
        New CodeUpstreamUnavailable [bad, Retry, WithScope ScopeProvider, params]
      else New CodeBadUpstreamResponse [bad, WithScope ScopeRequest, WithHTTPStatus 400, params])"

section \<open>Building a request\<close>

definition secretMissing :: domain_error where
  "secretMissing = New CodeAuthSecretMissing [WithHTTPStatus 500, WithScope ScopeCredential]"

definition openCredential :: "executor_config \<Rightarrow> 'w executor_ports \<Rightarrow> credential \<Rightarrow> domain_error + string" where
  "openCredential cfg xp cred = (case cr_AuthMode cred of
      AuthNone \<Rightarrow> Inr ''''
    | AuthAPIKey \<Rightarrow> (case xp_Open xp of
          None \<Rightarrow> Inl secretMissing
        | Some open_secret \<Rightarrow>
            if cr_Sealed cred = '''' then Inl secretMissing
            else (case open_secret (cr_Sealed cred) of Inl e \<Rightarrow> Inl secretMissing | Inr plaintext \<Rightarrow> Inr plaintext))
    | AuthOAuth \<Rightarrow> Inl (New CodeProviderAuthModeUnsupported [WithHTTPStatus 501, WithScope ScopeCredential,
        WithParams [(''provider'', xf_Family cfg), (''mode'', auth_mode_string AuthOAuth)]])
    | AuthOther n \<Rightarrow> Inl (New CodeCredentialInvalidAuthMode [WithHTTPStatus 500, WithScope ScopeCredential,
        WithParams [(''id'', cr_ID cred), (''mode'', auth_mode_string (AuthOther n))]]))"

definition applyAuth :: "auth_style \<Rightarrow> string \<Rightarrow> http_header \<Rightarrow> http_header" where
  "applyAuth style secret h =
     (if secret = '''' then h
      else (let h1 = Header_Del ''x-api-key'' (Header_Del ''Authorization'' h) in
        case style of
          AuthAPIKeyHeader \<Rightarrow> Header_Set ''x-api-key'' secret h1
        | AuthBearer \<Rightarrow> Header_Set ''Authorization'' (''Bearer '' @ secret) h1))"

definition endpoint :: "executor_config \<Rightarrow> string \<Rightarrow> string" where
  "endpoint cfg path = rev (dropWhile (\<lambda>c. c = CHR ''/'') (rev (xf_BaseURL cfg))) @ path"

definition NewRequest :: "'w executor_ports \<Rightarrow> string \<Rightarrow> string \<Rightarrow> body \<Rightarrow> domain_error + http_request" where
  "NewRequest xp meth url b = (case xp_url_error xp url of
      Some e \<Rightarrow> Inl (New CodeInvalidRequest [WithHTTPStatus 400, WithScope ScopeRequest, WithCause e,
        WithParams [(''reason'', ''could not build the upstream request'')]])
    | None \<Rightarrow> Inr \<lparr>hq_method = meth, hq_url = url, hq_header = [], hq_body = b\<rparr>)"

definition add_headers :: "http_header \<Rightarrow> http_header \<Rightarrow> http_header" where
  "add_headers extra h = foldl (\<lambda>h (name, vs). foldl (\<lambda>h v. Header_Add name v h) h vs) h extra"

definition buildRequest :: "executor_config \<Rightarrow> 'w executor_ports \<Rightarrow> wire_request \<Rightarrow> credential \<Rightarrow> domain_error + http_request" where
  "buildRequest cfg xp req cred = (case openCredential cfg xp cred of Inl e \<Rightarrow> Inl e
     | Inr secret \<Rightarrow> (case NewRequest xp ''POST'' (endpoint cfg ''/chat/completions'') (wq_body req) of Inl e \<Rightarrow> Inl e
     | Inr q \<Rightarrow> Inr (q\<lparr>hq_header := applyAuth (xf_AuthStyle cfg) secret
         (add_headers (wq_headers req) (Header_Set ''Content-Type'' ''application/json'' (hq_header q)))\<rparr>)))"

section \<open>Calls\<close>

definition success_status :: "int \<Rightarrow> bool" where
  "success_status n \<longleftrightarrow> 200 \<le> n \<and> n < 300"

text \<open>\<open>io.ReadAll(io.LimitReader(body, limit))\<close>: an error that comes before the limit is reported, one after
  it is not seen, and with no positive limit nothing is read.  A body that never ends has no value here:
  its read does not return.\<close>

definition read_limited :: "int \<Rightarrow> http_response \<Rightarrow> go_error + string" where
  "read_limited limit resp =
     (if int (length (hr_bytes resp)) \<ge> limit then Inr (take (nat limit) (hr_bytes resp))
      else case hr_end resp of EndError e \<Rightarrow> Inl e | EndEOF \<Rightarrow> Inr (hr_bytes resp))"

text \<open>The limit is an \<open>int64\<close>, and \<open>Do\<close> reads one byte more than it.\<close>

definition max_response :: "executor_config \<Rightarrow> int" where
  "max_response cfg = (if xf_MaxResponseBytes cfg \<le> 0 then DefaultMaxResponseBytes else xf_MaxResponseBytes cfg)"

definition executor_Do :: "executor_config \<Rightarrow> 'w executor_ports \<Rightarrow> wire_request \<Rightarrow> credential \<Rightarrow> 'w
    \<Rightarrow> (domain_error + wire_response) \<times> 'w" where
  "executor_Do cfg xp req cred w = (case buildRequest cfg xp req cred of Inl e \<Rightarrow> (Inl e, w)
     | Inr q \<Rightarrow>
       (case xp_client xp (if wq_stream req then q\<lparr>hq_header := Header_Set ''Accept'' ''text/event-stream'' (hq_header q)\<rparr> else q) w of
          (Inl e, w1) \<Rightarrow> (Inl (transportError (xp_timeout xp) e), w1)
        | (Inr resp, w1) \<Rightarrow>
            if \<not> success_status (hr_status resp) then (Inl (upstreamError xp resp w1), w1)
            else (case read_limited (wrap64 (max_response cfg + 1)) resp of
                Inl e \<Rightarrow> (Inl (transportError (xp_timeout xp) e), w1)
              | Inr bs \<Rightarrow>
                  if int (length bs) > max_response cfg then
                    (Inl (New CodeUpstreamResponseTooLarge [WithHTTPStatus 502, WithScope ScopeProvider,
                       WithParams [(''limit'', itoa (max_response cfg))]]), w1)
                  else (Inr \<lparr>wr_status = hr_status resp, wr_headers = hr_header resp, wr_body = xp_json xp bs\<rparr>, w1))))"

text \<open>A stream is opened with its response; the decoder is in \<open>Sse\<close>.\<close>

definition executor_DoStream :: "executor_config \<Rightarrow> 'w executor_ports \<Rightarrow> wire_request \<Rightarrow> credential \<Rightarrow> 'w
    \<Rightarrow> (domain_error + http_response) \<times> 'w" where
  "executor_DoStream cfg xp req cred w = (case buildRequest cfg xp req cred of Inl e \<Rightarrow> (Inl e, w)
     | Inr q \<Rightarrow> (case xp_client xp (q\<lparr>hq_header := Header_Set ''Accept'' ''text/event-stream'' (hq_header q)\<rparr>) w of
          (Inl e, w1) \<Rightarrow> (Inl (transportError (xp_timeout xp) e), w1)
        | (Inr resp, w1) \<Rightarrow>
            if \<not> success_status (hr_status resp) then (Inl (upstreamError xp resp w1), w1) else (Inr resp, w1)))"

text \<open>\<open>Probe\<close> answers the status beside its error.\<close>

definition Probe :: "executor_config \<Rightarrow> 'w executor_ports \<Rightarrow> credential \<Rightarrow> 'w \<Rightarrow> (int \<times> domain_error option) \<times> 'w" where
  "Probe cfg xp cred w = (case openCredential cfg xp cred of Inl e \<Rightarrow> ((0, Some e), w)
     | Inr secret \<Rightarrow> (case NewRequest xp ''GET'' (endpoint cfg ''/models'') nil_body of Inl e \<Rightarrow> ((0, Some e), w)
     | Inr q \<Rightarrow> (case xp_client xp (q\<lparr>hq_header := applyAuth (xf_AuthStyle cfg) secret
           (Header_Set ''Accept'' ''application/json'' (hq_header q))\<rparr>) w of
          (Inl e, w1) \<Rightarrow> ((0, Some (transportError (xp_timeout xp) e)), w1)
        | (Inr resp, w1) \<Rightarrow> ((hr_status resp,
            if success_status (hr_status resp) then None else Some (upstreamError xp resp w1)), w1))))"

text \<open>The error of \<open>encoding/json\<close>, whose text is not modelled.\<close>

definition jsonError :: go_error where "jsonError = Foreign ''json'' []"

definition CountTokens :: "executor_config \<Rightarrow> 'w executor_ports \<Rightarrow> wire_request \<Rightarrow> 'w \<Rightarrow> (domain_error + int) \<times> 'w" where
  "CountTokens cfg xp req w =
     (if xf_CountTokensEndpoint cfg = '''' then
        (Inl (New CodeProviderNoExecutor [WithHTTPStatus 501, WithScope ScopeRequest, WithParams [(''provider'', xf_Family cfg)]]), w)
      else (case NewRequest xp ''POST'' (endpoint cfg (xf_CountTokensEndpoint cfg)) (wq_body req) of Inl e \<Rightarrow> (Inl e, w)
     | Inr q \<Rightarrow> (case xp_client xp (q\<lparr>hq_header := Header_Set ''Content-Type'' ''application/json'' (hq_header q)\<rparr>) w of
          (Inl e, w1) \<Rightarrow> (Inl (transportError (xp_timeout xp) e), w1)
        | (Inr resp, w1) \<Rightarrow>
            if \<not> success_status (hr_status resp) then (Inl (upstreamError xp resp w1), w1)
            else (case read_limited MaxErrorBodyBytes resp of
                Inl e \<Rightarrow> (Inl (transportError (xp_timeout xp) e), w1)
              | Inr bs \<Rightarrow> (case Option.bind (body_struct (xp_json xp bs)) (int_field ''input_tokens'') of
                  None \<Rightarrow> (Inl (New CodeBadUpstreamResponse [WithHTTPStatus 502, WithScope ScopeProvider, WithCause jsonError]), w1)
                | Some n \<Rightarrow> (Inr n, w1))))))"

end
