(* ===== verification/Sse.thy ===== *)
theory Sse
  imports Executor
begin

text \<open>
  Server-sent events: the decoder of \<open>internal/executors/stream.go\<close> with the sentinel of
  \<open>internal/contracts/sse.go\<close>, and the frames the gateway writes (\<open>internal/gateway/gateway.go\<close>).  A body is
  the bytes that arrived and a peer, which may send for ever, end, fail or fall silent; each of its
  packets carries the time a read waits for it, so that the idle watcher is a bound on the time of one
  event.  \<open>bufio.Scanner\<close> is the line splitter below, its buffer the length bound.  The context is asked by
  number of the check.  A receive that does not return has no result.
\<close>

section \<open>The sentinel\<close>

definition SSEDone :: string where "SSEDone = ''[DONE]''"

text \<open>\<open>bytes.Equal(bytes.TrimSpace(s), SSEDone)\<close>.\<close>

definition IsSSEDone :: "string \<Rightarrow> bool" where
  "IsSSEDone s \<longleftrightarrow> list_ex (\<lambda>k. blank (take k s) \<and> take 6 (drop k s) = SSEDone \<and> blank (drop (k + 6) s)) [0..<length s + 1]"

section \<open>Frames\<close>

record raw_chunk =
  rw_data :: string
  rw_event :: string
  rw_id :: string

definition writeSSEChunk :: "raw_chunk \<Rightarrow> string" where
  "writeSSEChunk ch =
     (if rw_event ch \<noteq> '''' \<and> rw_event ch \<noteq> ''message'' then ''event: '' @ rw_event ch @ newline else '''') @
     (if rw_id ch \<noteq> '''' then ''id: '' @ rw_id ch @ newline else '''') @
     ''data: '' @ rw_data ch @ newline @ newline"

definition writeSSEDone :: string where
  "writeSSEDone = ''data: [DONE]'' @ newline @ newline"

definition writeSSEError :: "string \<Rightarrow> string" where
  "writeSSEError payload = ''event: error'' @ newline @ ''data: '' @ payload @ newline @ newline"

section \<open>The body\<close>

text \<open>
  What still comes of a body, for ever if the peer goes on for ever: a packet of at least one byte that a
  read has waited for, the end of the body or a read error, or silence.
\<close>

codatatype peer = Packet duration char string peer | Ends body_end | Silent

datatype raw_recv = RawChunk raw_chunk | RawEOF | RawError go_error

text \<open>\<open>ss_rest\<close> holds the bytes that have arrived and were not scanned yet, \<open>ss_elapsed\<close> the time the event
  being read has waited so far, against which the idle watcher runs.\<close>

record sse_stream =
  ss_rest :: string
  ss_peer :: peer
  ss_elapsed :: duration
  ss_idleTimeout :: duration
  ss_ctx :: "nat \<Rightarrow> go_error option"
  ss_checks :: nat
  ss_terminal :: "raw_recv option"
  ss_closed :: bool
  ss_idleFired :: bool

definition errTooLong :: go_error where "errTooLong = Foreign ''bufio.Scanner: token too long'' []"
definition errClosedBody :: go_error where "errClosedBody = Foreign ''http: read on closed response body'' []"

definition ctx_err :: "sse_stream \<Rightarrow> go_error option \<times> sse_stream" where
  "ctx_err s = (ss_ctx s (ss_checks s), s\<lparr>ss_checks := ss_checks s + 1\<rparr>)"

definition readError :: "(go_error \<Rightarrow> bool) \<Rightarrow> go_error \<Rightarrow> sse_stream \<Rightarrow> go_error" where
  "readError timeout e s = Dom (transportError timeout
     (if ss_idleFired s then errIdleTimeout else if ss_closed s then ctxCanceled else e))"

text \<open>The watcher is armed when an event read starts.  When it expires it closes the body, so that the read
  that waits for the peer fails.\<close>

definition arm_idle :: "sse_stream \<Rightarrow> sse_stream" where
  "arm_idle s = s\<lparr>ss_elapsed := 0\<rparr>"

definition fire_idle :: "sse_stream \<Rightarrow> sse_stream" where
  "fire_idle s = s\<lparr>ss_idleFired := True, ss_closed := True, ss_peer := Ends (EndError errClosedBody)\<rparr>"

section \<open>Lines\<close>

definition maxSSEEventBytes :: int where "maxSSEEventBytes = 2 ^ 20"

definition drop_cr :: "string \<Rightarrow> string" where
  "drop_cr l = (if l \<noteq> [] \<and> last l = CHR 0x0D then butlast l else l)"

datatype scan = ScanLine string | ScanEnd | ScanFail go_error | ScanTooLong | ScanBlocked

definition first_line :: "string \<Rightarrow> string" where
  "first_line s = takeWhile (\<lambda>c. c \<noteq> CHR 0x0A) s"

text \<open>One \<open>Scan\<close>: a line without its terminator.  A line that does not fit the buffer with its newline stops
  the scanner; while the line is not complete the peer is read; what is left at the end of the body,
  or before a read error, is a line.  Against a silent peer only the watcher helps; a packet that
  comes with the expiry is taken.\<close>

function scan_line :: "sse_stream \<Rightarrow> scan \<times> sse_stream" where
  "scan_line s = (let l = first_line (ss_rest s) in
     if int (length l) \<ge> maxSSEEventBytes then (ScanTooLong, s)
     else if length l < length (ss_rest s) then (ScanLine (drop_cr l), s\<lparr>ss_rest := drop (length l + 1) (ss_rest s)\<rparr>)
     else (case ss_peer s of
        Packet wait c cs p \<Rightarrow>
          (if ss_idleTimeout s > 0 \<and> ss_elapsed s + wait > ss_idleTimeout s then scan_line (fire_idle s)
           else scan_line (s\<lparr>ss_rest := ss_rest s @ c # cs, ss_peer := p, ss_elapsed := ss_elapsed s + wait\<rparr>))
      | Silent \<Rightarrow> (if ss_idleTimeout s > 0 then scan_line (fire_idle s) else (ScanBlocked, s))
      | Ends e \<Rightarrow>
          (if ss_rest s \<noteq> [] then (ScanLine (drop_cr (ss_rest s)), s\<lparr>ss_rest := []\<rparr>)
           else (case e of EndEOF \<Rightarrow> (ScanEnd, s) | EndError err \<Rightarrow> (ScanFail err, s)))))"
  by pat_completeness auto
termination
proof (relation "measure (\<lambda>s. case ss_peer s of Ends e \<Rightarrow> 0 | _ \<Rightarrow> Suc (nat maxSSEEventBytes - length (ss_rest s)))")
  have eq: "first_line r = r" if "\<not> length (first_line r) < length r" for r
    using that by (metis first_line_def length_takeWhile_le le_neq_implies_less takeWhile_eq_take take_all_iff not_less)
  fix s l wait c cs p
  assume a: "l = first_line (ss_rest s)" "\<not> maxSSEEventBytes \<le> int (length l)" "\<not> length l < length (ss_rest s)"
    "ss_peer s = Packet wait c cs p"
  then have "length (ss_rest s) < nat maxSSEEventBytes" using eq [of "ss_rest s"] by simp
  then show "(s\<lparr>ss_rest := ss_rest s @ c # cs, ss_peer := p, ss_elapsed := ss_elapsed s + wait\<rparr>, s)
      \<in> measure (\<lambda>s. case ss_peer s of Ends e \<Rightarrow> 0 | _ \<Rightarrow> Suc (nat maxSSEEventBytes - length (ss_rest s)))"
    by (auto simp: a(4) split: peer.splits)
qed (auto simp: fire_idle_def)

declare scan_line.simps [simp del]

definition splitField :: "string \<Rightarrow> string \<times> string" where
  "splitField line = (let f = takeWhile (\<lambda>c. c \<noteq> CHR '':'') line in
     if length f = length line then (line, '''')
     else (f, (case drop (length f + 1) line of [] \<Rightarrow> [] | c # cs \<Rightarrow> if c = CHR 0x20 then cs else c # cs)))"

definition joinData :: "string list \<Rightarrow> string" where
  "joinData ls = join newline ls"

section \<open>Reading an event\<close>

datatype event_read = EventRead string string string | EventNone | EventFail go_error

text \<open>What a line that is not blank does to the event name, the id and the data lines.\<close>

definition take_field :: "string \<Rightarrow> string \<times> string \<times> string list \<Rightarrow> string \<times> string \<times> string list" where
  "take_field line acc = (case acc of (event, i, dataLines) \<Rightarrow>
     if hd line = CHR '':'' then (event, i, dataLines)
     else (case splitField line of (field, value) \<Rightarrow>
       if field = ''event'' then (value, i, dataLines)
       else if field = ''id'' then (event, value, dataLines)
       else if field = ''data'' then (event, i, dataLines @ [value])
       else (event, i, dataLines)))"

text \<open>No result stands for a read that does not return, because it waits for ever or reads for ever.\<close>

partial_function (option) readEvent :: "(go_error \<Rightarrow> bool) \<Rightarrow> string \<times> string \<times> string list \<Rightarrow> bool \<Rightarrow> sse_stream
    \<Rightarrow> (event_read \<times> sse_stream) option" where
  "readEvent timeout acc sawField s =
     (case ctx_err s of
        (Some e, s1) \<Rightarrow> Some (EventFail (Dom (transportError timeout e)), s1)
      | (None, s1) \<Rightarrow> (case acc of (event, i, dataLines) \<Rightarrow> (case scan_line s1 of
            (ScanBlocked, s2) \<Rightarrow> None
          | (ScanTooLong, s2) \<Rightarrow> Some (EventFail (readError timeout errTooLong s2), s2)
          | (ScanFail e, s2) \<Rightarrow> Some (EventFail (readError timeout e s2), s2)
          | (ScanEnd, s2) \<Rightarrow> Some (if dataLines \<noteq> [] \<or> sawField then EventRead event i (joinData dataLines) else EventNone, s2)
          | (ScanLine line, s2) \<Rightarrow>
              (if line = [] then
                 Some (if sawField then EventRead event i (joinData dataLines) else EventRead '''' '''' '''', s2)
               else readEvent timeout (take_field line acc) True s2))))"

declare readEvent.simps [code]

section \<open>Receiving\<close>

definition record_terminal :: "raw_recv \<Rightarrow> sse_stream \<Rightarrow> raw_recv \<times> sse_stream" where
  "record_terminal t s = (case ss_terminal s of Some u \<Rightarrow> (u, s) | None \<Rightarrow> (t, s\<lparr>ss_terminal := Some t\<rparr>))"

partial_function (option) recv_loop :: "(go_error \<Rightarrow> bool) \<Rightarrow> sse_stream \<Rightarrow> (raw_recv \<times> sse_stream) option" where
  "recv_loop timeout s =
     (case ctx_err s of
        (Some e, s1) \<Rightarrow> Some (record_terminal (RawError (Dom (transportError timeout e))) s1)
      | (None, s1) \<Rightarrow> Option.bind (readEvent timeout ('''', '''', []) False (arm_idle s1)) (\<lambda>x. case x of
            (EventFail e, s2) \<Rightarrow> Some (record_terminal (RawError e) s2)
          | (EventNone, s2) \<Rightarrow> Some (record_terminal RawEOF s2)
          | (EventRead event i d, s2) \<Rightarrow>
              if d = '''' \<and> event = '''' \<and> i = '''' then recv_loop timeout s2
              else if event = '''' \<and> IsSSEDone d then Some (record_terminal RawEOF s2)
              else Some (RawChunk \<lparr>rw_data = d, rw_event = event, rw_id = i\<rparr>, s2)))"

declare recv_loop.simps [code]

definition sse_Recv :: "(go_error \<Rightarrow> bool) \<Rightarrow> sse_stream \<Rightarrow> (raw_recv \<times> sse_stream) option" where
  "sse_Recv timeout s = (case ss_terminal s of Some t \<Rightarrow> Some (t, s) | None \<Rightarrow> recv_loop timeout s)"

text \<open>\<open>Close\<close>: the scanner still holds some of the bytes, the rest cannot be read any more.\<close>

definition sse_Close :: "nat \<Rightarrow> sse_stream \<Rightarrow> sse_stream" where
  "sse_Close buffered s = (if ss_closed s then s
     else s\<lparr>ss_closed := True, ss_rest := take buffered (ss_rest s), ss_peer := Ends (EndError errClosedBody)\<rparr>)"

definition open_stream :: "executor_config \<Rightarrow> peer \<Rightarrow> (nat \<Rightarrow> go_error option) \<Rightarrow> sse_stream" where
  "open_stream cfg body ctx = \<lparr>ss_rest = [], ss_peer = body, ss_elapsed = 0,
     ss_idleTimeout = xf_IdleTimeout cfg, ss_ctx = ctx, ss_checks = 0, ss_terminal = None, ss_closed = False,
     ss_idleFired = False\<rparr>"

end
