(* ===== verification/Gateway.thy ===== *)
theory Gateway
  imports Pipeline_Laws Sse
begin

text \<open>
  The inference gateway of \<open>internal/gateway\<close>: \<open>POST /v1/chat/completions\<close>.  The router, the dispatcher,
  the combo store and the gate chain are ports over a world \<open>'w\<close>; a live stream is its state
  \<open>'s\<close>.  No value means that no reply is completed: the router panicked or the stream never ended.  What is written to the client is a value: an error envelope, a synthetic
  or an upstream response, or the frames of an event stream.  A write to a client that has gone is
  ignored by the code, so it is not an outcome here.
\<close>

section \<open>Ports\<close>

record chunk =
  ck_data :: body
  ck_event :: string
  ck_id :: string

datatype stream_recv = RecvChunk chunk | RecvEOF | RecvError go_error

record ('w, 's) gateway =
  gw_NewRequestID :: "'w \<Rightarrow> request_id \<times> 'w"
  gw_Get :: "(combo_id \<Rightarrow> 'w \<Rightarrow> bool \<times> 'w) option"
  gw_Resolve :: "request \<Rightarrow> combo_id \<Rightarrow> 'w \<Rightarrow> ((go_error + route_plan) \<times> 'w) option"
  gw_Do :: "wire_request \<Rightarrow> route_plan \<Rightarrow> 'w \<Rightarrow> (go_error + wire_response) \<times> 'w"
  gw_DoStream :: "wire_request \<Rightarrow> route_plan \<Rightarrow> 'w \<Rightarrow> (go_error + 's) \<times> 'w"
  gw_Recv :: "'s \<Rightarrow> 'w \<Rightarrow> stream_recv \<times> 's \<times> 'w"
  gw_Close :: "'s \<Rightarrow> 'w \<Rightarrow> 'w"
  gw_chain :: "'w chain option"

text \<open>What the HTTP layer hands over: the body as far as it was read with its length in bytes, the headers,
  the path and the authenticated client.\<close>

record http_call =
  hc_read_error :: bool
  hc_body :: body
  hc_size :: int
  hc_headers :: http_header
  hc_path :: string
  hc_client_key :: string

datatype frame = DataFrame chunk | DoneFrame | ErrorFrame string "(string \<times> string) list"

datatype reply =
    ErrorReply domain_error
  | SyntheticReply synthetic_response
  | UpstreamReply int body
  | StreamReply "frame list"

section \<open>Errors\<close>

definition CodeProviderRerouteUnsupported :: string where
  "CodeProviderRerouteUnsupported = ''provider.reroute_unsupported''"

definition invalidBody :: "string \<Rightarrow> domain_error" where
  "invalidBody reason = New CodeInvalidRequest [WithHTTPStatus 400, WithScope ScopeRequest, WithParams [(''reason'', reason)]]"

definition errInternal :: "string \<Rightarrow> domain_error" where
  "errInternal reason = New CodeInternal [WithHTTPStatus 500, WithScope ScopeRequest, WithParams [(''reason'', reason)]]"

definition rerouteUnsupported :: domain_error where
  "rerouteUnsupported = New CodeProviderRerouteUnsupported [WithHTTPStatus 501, WithScope ScopeRequest,
     WithParams [(''reason'', ''gateway reroute is not enabled in this build'')]]"

definition gateway_asDomain :: "go_error \<Rightarrow> domain_error" where
  "gateway_asDomain err = (case errors_as err of Some d \<Rightarrow> d
    | None \<Rightarrow> New CodeInternal [WithHTTPStatus 500, WithScope ScopeRequest, WithParams [(''reason'', ''internal'')]])"

section \<open>The request\<close>

definition MaxRequestBytes :: int where "MaxRequestBytes = 32 * 2 ^ 20"

definition parse_head :: "body \<Rightarrow> (model_id \<times> bool) option" where
  "parse_head b = (case body_struct b of None \<Rightarrow> None | Some ms \<Rightarrow>
     (case string_field ''model'' ms of None \<Rightarrow> None | Some m \<Rightarrow>
     (case bool_field ''stream'' ms of None \<Rightarrow> None | Some st \<Rightarrow> Some (m, st))))"

definition resolveTarget :: "('w, 's) gateway \<Rightarrow> model_id \<Rightarrow> 'w \<Rightarrow> (combo_id \<times> model_id) \<times> 'w" where
  "resolveTarget gw m w = (case gw_Get gw of None \<Rightarrow> (('''', m), w)
     | Some get \<Rightarrow> (case get m w of (ok, w1) \<Rightarrow> (if ok then (m, '''') else ('''', m), w1)))"

definition headerNamesOnly :: "http_header \<Rightarrow> http_header" where
  "headerNamesOnly hs = map (\<lambda>(n, _). (n, [])) hs"

definition gateway_meta :: "http_call \<Rightarrow> string \<Rightarrow> string option" where
  "gateway_meta hc = (if hc_client_key hc = '''' then [''http.path'' \<mapsto> hc_path hc]
     else [''http.path'' \<mapsto> hc_path hc, ''client.key'' \<mapsto> hc_client_key hc])"

definition gateway_input :: "('w, 's) gateway \<Rightarrow> http_call \<Rightarrow> request_id \<Rightarrow> model_id \<Rightarrow> gate_input" where
  "gateway_input gw hc rid m = \<lparr>gi_request_id = rid, gi_provider = '''', gi_credential = '''', gi_model = m,
     gi_headers = Some (headerNamesOnly (hc_headers hc)),
     gi_body = (case gw_chain gw of None \<Rightarrow> None | Some c \<Rightarrow> if ConsumesRequestBody c then Some (hc_body hc) else None),
     gi_committed = False, gi_derived = None\<rparr>"

section \<open>The event stream\<close>

text \<open>The trimmed data are the sentinel; a JSON text never is.\<close>

definition body_is_done :: "body \<Rightarrow> bool" where
  "body_is_done b = (case b of NotJson s \<Rightarrow> IsSSEDone s | Json _ \<Rightarrow> False)"

definition chunk_input_of :: "gate_input \<Rightarrow> body \<Rightarrow> int \<Rightarrow> int \<Rightarrow> chunk_input" where
  "chunk_input_of i b n index = \<lparr>ci_request_id = gi_request_id i, ci_provider = '''', ci_credential = '''',
     ci_model = gi_model i, ci_headers = gi_headers i, ci_body = b, ci_size = n, ci_index = index,
     ci_committed = True, ci_derived = gi_derived i\<rparr>"

definition error_frame :: "go_error \<Rightarrow> frame" where
  "error_frame e = (let de = gateway_asDomain e in ErrorFrame (de_code de) (de_params de))"

text \<open>The relay of one chunk: a frame, nothing, or the terminal error.  \<open>bytes\<close> is the length of a body.\<close>

definition relay_chunk :: "(body \<Rightarrow> int) \<Rightarrow> ('w, 's) gateway \<Rightarrow> gate_input \<Rightarrow> int \<Rightarrow> chunk \<Rightarrow> 'w exchange
    \<Rightarrow> (frame + chunk option) \<times> 'w exchange" where
  "relay_chunk bytes gw i index ch w = (case gw_chain gw of
      None \<Rightarrow> (Inr (Some ch), w)
    | Some c \<Rightarrow> (case OnResponseChunk c (chunk_input_of i (ck_data ch) (bytes (ck_data ch)) index) w of
          (Inl e, w1) \<Rightarrow> (Inl (error_frame e), w1)
        | (Inr d, w1) \<Rightarrow> (Inr (case cd_kind d of
              ChunkDrop \<Rightarrow> None
            | ChunkReplace \<Rightarrow> Some (ch\<lparr>ck_data := cd_body d\<rparr>)
            | _ \<Rightarrow> Some ch), w1)))"

text \<open>The loop of \<open>Handler.stream\<close>; no value when the stream never ends.\<close>

partial_function (option) relay :: "(body \<Rightarrow> int) \<Rightarrow> ('w, 's) gateway \<Rightarrow> gate_input \<Rightarrow> int \<Rightarrow> bool \<Rightarrow> frame list
    \<Rightarrow> 's \<Rightarrow> 'w exchange \<Rightarrow> (frame list \<times> 's \<times> 'w exchange) option" where
  "relay bytes gw i index doneRelayed out s w =
     (case gw_Recv gw s (xc_world w) of
        (RecvEOF, s1, v) \<Rightarrow> Some (out @ (if doneRelayed then [] else [DoneFrame]), s1, w\<lparr>xc_world := v\<rparr>)
      | (RecvError e, s1, v) \<Rightarrow> Some (out @ [error_frame e], s1, w\<lparr>xc_world := v\<rparr>)
      | (RecvChunk ch, s1, v) \<Rightarrow> (case relay_chunk bytes gw i index ch (w\<lparr>xc_world := v\<rparr>) of
            (Inl f, w1) \<Rightarrow> Some (out @ [f], s1, w1)
          | (Inr None, w1) \<Rightarrow> relay bytes gw i (index + 1) doneRelayed out s1 w1
          | (Inr (Some ch'), w1) \<Rightarrow> relay bytes gw i (index + 1) (doneRelayed \<or> body_is_done (ck_data ch'))
              (out @ [DataFrame ch']) s1 w1))"

section \<open>The handler\<close>

definition gateway_post :: "('w, 's) gateway \<Rightarrow> gate_input \<Rightarrow> 'w exchange \<Rightarrow> 'w exchange" where
  "gateway_post gw i w = (case gw_chain gw of None \<Rightarrow> w | Some c \<Rightarrow> snd (PostResponse c i w))"

definition lift_world :: "('w \<Rightarrow> 'a \<times> 'w) \<Rightarrow> 'w exchange \<Rightarrow> 'a \<times> 'w exchange" where
  "lift_world f w = (case f (xc_world w) of (x, v) \<Rightarrow> (x, w\<lparr>xc_world := v\<rparr>))"

text \<open>The dispatch of a resolved plan, with the deferred \<open>Close\<close> and \<open>PostResponse\<close>.\<close>

definition dispatch :: "(body \<Rightarrow> int) \<Rightarrow> ('w, 's) gateway \<Rightarrow> bool \<Rightarrow> wire_request \<Rightarrow> route_plan \<Rightarrow> gate_input
    \<Rightarrow> 'w exchange \<Rightarrow> (reply \<times> 'w exchange) option" where
  "dispatch bytes gw stream wire plan i w =
     (if stream then
        (case lift_world (gw_DoStream gw wire plan) w of
           (Inl e, w1) \<Rightarrow> Some (ErrorReply (gateway_asDomain e), gateway_post gw i w1)
         | (Inr s, w1) \<Rightarrow> (case relay bytes gw i 0 False [] s w1 of
               None \<Rightarrow> None
             | Some (frames, s1, w2) \<Rightarrow> Some (StreamReply frames,
                 gateway_post gw i (w2\<lparr>xc_world := gw_Close gw s1 (xc_world w2)\<rparr>))))
      else
        (case lift_world (gw_Do gw wire plan) w of
           (Inl e, w1) \<Rightarrow> Some (ErrorReply (gateway_asDomain e), gateway_post gw i w1)
         | (Inr resp, w1) \<Rightarrow> Some (UpstreamReply (if wr_status resp \<noteq> 0 then wr_status resp else 200) (wr_body resp),
             gateway_post gw i w1)))"

definition routed :: "(body \<Rightarrow> int) \<Rightarrow> ('w, 's) gateway \<Rightarrow> bool \<Rightarrow> wire_request \<Rightarrow> request \<Rightarrow> combo_id \<Rightarrow> gate_input
    \<Rightarrow> 'w exchange \<Rightarrow> (reply \<times> 'w exchange) option" where
  "routed bytes gw stream wire req combo i w =
     (case gw_Resolve gw req combo (xc_world w) of
        None \<Rightarrow> None
      | Some (Inl e, v) \<Rightarrow> Some (ErrorReply (gateway_asDomain e), w\<lparr>xc_world := v\<rparr>)
      | Some (Inr plan, v) \<Rightarrow> dispatch bytes gw stream wire plan i (w\<lparr>xc_world := v\<rparr>))"

text \<open>A Modify rewrites the body, with it the model of the wire request and of the routing request, and the
  forwarded headers.\<close>

definition apply_modify :: "decision \<Rightarrow> wire_request \<times> request \<Rightarrow> wire_request \<times> request" where
  "apply_modify d x = (let (wire, req) = x;
       (wire1, req1) = (case dn_body d of None \<Rightarrow> (wire, req)
         | Some b \<Rightarrow> (case parse_head b of None \<Rightarrow> (wire\<lparr>wq_body := b\<rparr>, req)
             | Some (m, _) \<Rightarrow> (wire\<lparr>wq_body := b, wq_model := m\<rparr>, req\<lparr>req_model := m\<rparr>)))
     in ((case dn_headers d of None \<Rightarrow> wire1 | Some h \<Rightarrow> wire1\<lparr>wq_headers := h\<rparr>), req1))"

definition gated :: "(body \<Rightarrow> int) \<Rightarrow> ('w, 's) gateway \<Rightarrow> bool \<Rightarrow> wire_request \<Rightarrow> request \<Rightarrow> combo_id \<Rightarrow> gate_input
    \<Rightarrow> 'w exchange \<Rightarrow> (reply \<times> 'w exchange) option" where
  "gated bytes gw stream wire req combo i w = (case gw_chain gw of
      None \<Rightarrow> routed bytes gw stream wire req combo i w
    | Some c \<Rightarrow> (case PreRequest c i w of
        (Inl e, w1) \<Rightarrow> Some (ErrorReply (gateway_asDomain e), w1)
      | (Inr d, w1) \<Rightarrow> (let i1 = (if dn_derived d = None then i else i\<lparr>gi_derived := dn_derived d\<rparr>) in
          (case dn_kind d of
             DecisionBlock \<Rightarrow> Some (case dn_synthetic d of
                 None \<Rightarrow> ErrorReply (errInternal ''gate blocked without a synthetic'') | Some s \<Rightarrow> SyntheticReply s, w1)
           | DecisionReroute \<Rightarrow> Some (ErrorReply rerouteUnsupported, w1)
           | DecisionModify \<Rightarrow> (case apply_modify d (wire, req) of
                 (wire1, req1) \<Rightarrow> routed bytes gw stream wire1 req1 combo i1 w1)
           | _ \<Rightarrow> routed bytes gw stream wire req combo i1 w1))))"

definition chat :: "(body \<Rightarrow> int) \<Rightarrow> ('w, 's) gateway \<Rightarrow> http_call \<Rightarrow> 'w \<Rightarrow> (reply \<times> 'w) option" where
  "chat bytes gw hc w =
     (if hc_read_error hc then Some (ErrorReply (invalidBody ''could not read the body''), w)
      else if hc_size hc > MaxRequestBytes then Some (ErrorReply (invalidBody ''body too large''), w)
      else (case parse_head (hc_body hc) of
          None \<Rightarrow> Some (ErrorReply (invalidBody ''invalid JSON body''), w)
        | Some (model, stream) \<Rightarrow>
            if model = '''' then Some (ErrorReply (invalidBody ''missing model''), w)
            else (case gw_NewRequestID gw w of (rid, w1) \<Rightarrow>
              (case resolveTarget gw model w1 of ((combo, reqModel), w2) \<Rightarrow>
                (let req = \<lparr>req_id = rid, req_model = reqModel, req_combo = combo, req_modalities = 0,
                       req_capabilities = 0, req_headers = headerNamesOnly (hc_headers hc)\<rparr>;
                     wire = \<lparr>wq_body = hc_body hc, wq_model = model, wq_stream = stream, wq_headers = []\<rparr>;
                     x = \<lparr>xc_meta = gateway_meta hc, xc_fields = None, xc_world = w2\<rparr>
                 in map_option (map_prod id xc_world)
                      (gated bytes gw stream wire req combo (gateway_input gw hc rid model) x))))))"

end
