(* ===== verification/Gateway_Laws.thy ===== *)
theory Gateway_Laws
  imports Gateway
begin

text \<open>
  What the gateway promises of a request: the shape of a relayed event stream, that a reply is always
  completed, that a request the gates stop reaches neither the router nor an upstream, and when the
  post-exchange hooks run.
\<close>

section \<open>The relayed stream\<close>

text \<open>How a stream may end: with an error frame, with the terminator, or with none when a relayed chunk
  already was one.\<close>

definition terminated :: "bool \<Rightarrow> frame list \<Rightarrow> bool" where
  "terminated doneRelayed t = (case t of
      [] \<Rightarrow> doneRelayed
    | [DoneFrame] \<Rightarrow> \<not> doneRelayed
    | [ErrorFrame code params] \<Rightarrow> True
    | _ \<Rightarrow> False)"

definition relays_done :: "chunk list \<Rightarrow> bool" where
  "relays_done = list_ex (\<lambda>ch. body_is_done (ck_data ch))"

lemma terminated_simps [simp]:
  "terminated dr [] = dr" "terminated dr [DoneFrame] = (\<not> dr)" "terminated dr [ErrorFrame c p] = True"
  "terminated dr [error_frame e] = True" "terminated dr (if dr then [] else [DoneFrame])"
  by (auto simp: terminated_def error_frame_def Let_def)

lemma relays_done_simps [simp]:
  "relays_done [] = False" "relays_done (c # cs) = (body_is_done (ck_data c) \<or> relays_done cs)"
  by (simp_all add: relays_done_def)

definition closed_after :: "frame list \<Rightarrow> bool \<Rightarrow> frame list \<Rightarrow> bool" where
  "closed_after out doneRelayed frames \<longleftrightarrow>
     (\<exists>ds t. frames = out @ map DataFrame ds @ t \<and> terminated (doneRelayed \<or> relays_done ds) t)"

lemma closed_now: "terminated dr t \<Longrightarrow> closed_after out dr (out @ t)"
  unfolding closed_after_def by (intro exI [of _ "[]"] exI [of _ t]) simp

lemma closed_end: "dr \<Longrightarrow> closed_after out dr out"
  using closed_now [of dr "[]"] by simp

lemma closed_later:
  assumes "closed_after (out @ [DataFrame c]) (dr \<or> body_is_done (ck_data c)) frames"
  shows "closed_after out dr frames"
proof -
  from assms obtain ds t where "frames = out @ map DataFrame (c # ds) @ t" "terminated (dr \<or> relays_done (c # ds)) t"
    by (auto simp: closed_after_def disj_assoc)
  then show ?thesis unfolding closed_after_def by blast
qed

lemma relay_chunk_frame: "relay_chunk bytes gw i index ch w = (Inl f, w1) \<Longrightarrow> terminated dr [f]"
  by (auto simp: relay_chunk_def split: option.splits prod.splits sum.splits)

lemma relay_closed:
  "relay bytes gw i index dr out s w = Some y \<Longrightarrow> closed_after out dr (fst y)"
proof (induction rule: relay.raw_induct [rotated, consumes 1, case_names step])
  case (step rec bytes gw i index dr out s w y)
  obtain r s' v where r: "gw_Recv gw s (xc_world w) = (r, s', v)" by (cases "gw_Recv gw s (xc_world w)") auto
  show ?case
  proof (cases r)
    case (RecvChunk ch)
    obtain d w' where d: "relay_chunk bytes gw i index ch (w\<lparr>xc_world := v\<rparr>) = (d, w')" by fastforce
    show ?thesis
    proof (cases d)
      case (Inl f)
      with step(2) r RecvChunk d have "fst y = out @ [f]" by auto
      with closed_now [OF relay_chunk_frame [OF d [unfolded Inl]]] show ?thesis by simp
    next
      case (Inr o')
      show ?thesis
      proof (cases o')
        case None
        with step(2) r RecvChunk d Inr show ?thesis by (auto dest!: step(1))
      next
        case (Some c)
        with step(2) r RecvChunk d Inr show ?thesis by (auto dest!: step(1) intro: closed_later)
      qed
    qed
  qed (use step(2) r in \<open>auto intro!: closed_end closed_now\<close>)
qed

text \<open>C17: a relayed event stream is well terminated: it is data frames in order and then either one error
  frame, or one \<open>[DONE]\<close> terminator when no relayed chunk was one, or nothing more when one was; so a
  client never sees two terminators, frames after an error, or a clean end without a terminator.\<close>

theorem stream_well_terminated:
  assumes "chat bytes gw hc w = Some (StreamReply frames, w1)"
  shows "\<exists>ds t. frames = map DataFrame ds @ t \<and> terminated (relays_done ds) t"
proof -
  have disp: "\<exists>ds t. frames = map DataFrame ds @ t \<and> terminated (relays_done ds) t"
    if "dispatch bytes gw stream wire plan i x = Some (StreamReply frames, x1)" for stream wire plan i x x1
  proof -
    from that obtain s y s1 y1 where "relay bytes gw i 0 False [] s y = Some (frames, s1, y1)"
      by (auto simp: dispatch_def split: if_splits prod.splits sum.splits option.splits)
    from relay_closed [OF this] show ?thesis by (simp add: closed_after_def)
  qed
  have rout: "\<exists>ds t. frames = map DataFrame ds @ t \<and> terminated (relays_done ds) t"
    if "routed bytes gw stream wire req combo i x = Some (StreamReply frames, x1)" for stream wire req combo i x x1
    using that disp by (auto simp: routed_def split: prod.splits sum.splits option.splits)
  from assms obtain stream wire req combo i x x1 where
    "gated bytes gw stream wire req combo i x = Some (StreamReply frames, x1)"
    by (auto simp: chat_def Let_def split: if_splits option.splits prod.splits)
  then show ?thesis
    using rout by (auto simp: gated_def Let_def split: option.splits prod.splits sum.splits decision_kind.splits if_splits)
qed

section \<open>A reply is completed\<close>

text \<open>The stream ends within \<open>n\<close> receives, whatever happens to the world between them.\<close>

inductive stream_ends :: "('w, 's) gateway \<Rightarrow> 's \<Rightarrow> bool" for gw where
  ends: "(\<And>w s1 w1 ch. gw_Recv gw s w = (RecvChunk ch, s1, w1) \<Longrightarrow> stream_ends gw s1) \<Longrightarrow> stream_ends gw s"

lemma relay_answers: "stream_ends gw s \<Longrightarrow> \<exists>y. relay bytes gw i index dr out s w = Some y"
proof (induction arbitrary: index dr out w rule: stream_ends.induct)
  case (ends s)
  obtain r s' v where r: "gw_Recv gw s (xc_world w) = (r, s', v)" by (cases "gw_Recv gw s (xc_world w)") auto
  show ?case
  proof (cases r)
    case (RecvChunk ch)
    obtain d w' where d: "relay_chunk bytes gw i index ch (w\<lparr>xc_world := v\<rparr>) = (d, w')" by fastforce
    note ih = ends.IH [OF r [unfolded RecvChunk]]
    show ?thesis
      using r RecvChunk d ih by (cases d; cases "projr d") (auto simp: relay.simps [of bytes gw i index dr out s w])
  qed (use r in \<open>auto simp: relay.simps [of bytes gw i index dr out s w]\<close>)
qed

text \<open>C18: a request is answered: if the router answers and every stream the dispatcher opens ends after
  some number of receives, then the handler completes a reply, whatever the request, the gates and the
  chunks are.\<close>

theorem chat_answers:
  assumes "\<And>req combo w. gw_Resolve gw req combo w \<noteq> None"
    and "\<And>wire plan w s w1. gw_DoStream gw wire plan w = (Inr s, w1) \<Longrightarrow> stream_ends gw s"
  shows "\<exists>r w1. chat bytes gw hc w = Some (r, w1)"
proof -
  have disp: "dispatch bytes gw stream wire plan i x \<noteq> None" for stream wire plan i x
  proof (cases stream)
    case True
    obtain r v where d: "gw_DoStream gw wire plan (xc_world x) = (r, v)" by fastforce
    show ?thesis
    proof (cases r)
      case (Inr s)
      with assms(2) d have "stream_ends gw s" by blast
      from relay_answers [OF this, of bytes i 0 False "[]" "x\<lparr>xc_world := v\<rparr>"] d Inr True
      show ?thesis by (auto simp: dispatch_def lift_world_def)
    qed (use d True in \<open>simp add: dispatch_def lift_world_def\<close>)
  qed (auto simp: dispatch_def split: prod.splits sum.splits)
  have rout: "routed bytes gw stream wire req combo i x \<noteq> None" for stream wire req combo i x
    using disp assms(1) by (auto simp: routed_def split: option.splits prod.splits sum.splits)
  have "gated bytes gw stream wire req combo i x \<noteq> None" for stream wire req combo i x
    using rout by (auto simp: gated_def Let_def split: option.splits prod.splits sum.splits decision_kind.splits)
  then show ?thesis
    by (auto simp: chat_def Let_def split: if_splits option.splits prod.splits)
qed

section \<open>A stopped request\<close>

text \<open>The gates' answer to the request as the handler asks them.\<close>

definition asked :: "('w, 's) gateway \<Rightarrow> http_call \<Rightarrow> 'w chain \<Rightarrow> model_id \<Rightarrow> 'w \<Rightarrow> (go_error + decision) \<times> 'w exchange" where
  "asked gw hc c m w = (case gw_NewRequestID gw w of (rid, w1) \<Rightarrow> (case resolveTarget gw m w1 of (_, w2) \<Rightarrow>
     PreRequest c (gateway_input gw hc rid m) \<lparr>xc_meta = gateway_meta hc, xc_fields = None, xc_world = w2\<rparr>))"

definition stops :: "go_error + decision \<Rightarrow> bool" where
  "stops r = (case r of Inl _ \<Rightarrow> True | Inr d \<Rightarrow> dn_kind d \<in> {DecisionBlock, DecisionReroute})"

text \<open>C16: a request that a gate blocks, reroutes or fails is answered at once: the world is exactly what the
  gates left, so no route is resolved, no upstream is called and nothing is recorded, and the reply is
  the gate's response, the 501 of an unsupported reroute, or the gate's error.\<close>

theorem stopped_request_costs_nothing:
  assumes "gw_chain gw = Some c" and "\<not> hc_read_error hc" and "hc_size hc \<le> MaxRequestBytes"
    and "parse_head (hc_body hc) = Some (m, st)" and "m \<noteq> ''''" and "stops (fst (asked gw hc c m w))"
  shows "chat bytes gw hc w = Some (case fst (asked gw hc c m w) of
      Inl e \<Rightarrow> ErrorReply (gateway_asDomain e)
    | Inr d \<Rightarrow> (if dn_kind d = DecisionReroute then ErrorReply rerouteUnsupported
        else case dn_synthetic d of Some s \<Rightarrow> SyntheticReply s
             | None \<Rightarrow> ErrorReply (errInternal ''gate blocked without a synthetic'')),
    xc_world (snd (asked gw hc c m w)))"
proof -
  obtain rid w1 where n: "gw_NewRequestID gw w = (rid, w1)" by fastforce
  obtain t w2 where t: "resolveTarget gw m w1 = (t, w2)" by fastforce
  obtain r x where p: "PreRequest c (gateway_input gw hc rid m)
      \<lparr>xc_meta = gateway_meta hc, xc_fields = None, xc_world = w2\<rparr> = (r, x)" by fastforce
  have a: "asked gw hc c m w = (r, x)" by (simp add: asked_def n t p)
  show ?thesis
  proof (cases r)
    case (Inl e)
    with assms(1-5) n t p a show ?thesis by (cases t) (simp add: chat_def gated_def)
  next
    case (Inr d)
    with assms(6) a have "dn_kind d = DecisionBlock \<or> dn_kind d = DecisionReroute" by (simp add: stops_def)
    with assms(1-5) n t p a Inr show ?thesis
      by (cases t) (auto simp: chat_def gated_def split: option.splits)
  qed
qed

section \<open>The post-exchange hooks\<close>

text \<open>the hooks of \<open>PostResponse\<close> do not run for a request whose route cannot be resolved: the reply and
  everything the request leaves behind are the same whatever hooks the chain has.\<close>

theorem resolve_failure_skips_post:
  assumes "gw_chain gw = Some c" and "\<And>req combo w. \<exists>e w1. gw_Resolve gw req combo w = Some (Inl e, w1)"
  shows "chat bytes gw hc w = chat bytes (gw\<lparr>gw_chain := Some (c\<lparr>ch_post := gs\<rparr>)\<rparr>) hc w"
proof -
  let ?gw = "gw\<lparr>gw_chain := Some (c\<lparr>ch_post := gs\<rparr>)\<rparr>"
  have "routed bytes ?gw stream wire req combo i x = routed bytes gw stream wire req combo i x" for stream wire req combo i x
    using assms(2) [of req combo "xc_world x"] by (auto simp: routed_def)
  moreover have "PreRequest (c\<lparr>ch_post := gs\<rparr>) = PreRequest c"
    by (simp add: fun_eq_iff PreRequest_def)
  ultimately have "gated bytes ?gw stream wire req combo i x = gated bytes gw stream wire req combo i x" for stream wire req combo i x
    using assms(1) by (simp add: gated_def Let_def split: prod.splits sum.splits decision_kind.splits)
  moreover have "gateway_input ?gw = gateway_input gw"
    using assms(1) by (simp add: fun_eq_iff gateway_input_def ConsumesRequestBody_def)
  moreover have "resolveTarget ?gw = resolveTarget gw" by (simp add: fun_eq_iff resolveTarget_def)
  ultimately show ?thesis by (simp add: chat_def Let_def split: option.splits prod.splits)
qed

section \<open>Witnesses\<close>

text \<open>A gateway whose streams are lists of chunks, and a small body that asks for a stream.\<close>

definition toy_gateway :: "unit chain option \<Rightarrow> (unit, chunk list) gateway" where
  "toy_gateway c = \<lparr>gw_NewRequestID = (\<lambda>w. (''r'', w)), gw_Get = None,
     gw_Resolve = (\<lambda>req combo w. Some (Inr (linear_plan [] 1), w)),
     gw_Do = (\<lambda>wire plan w. (Inr empty_wire, w)),
     gw_DoStream = (\<lambda>wire plan w. (Inr [\<lparr>ck_data = NotJson ''x'', ck_event = '''', ck_id = ''''\<rparr>], w)),
     gw_Recv = (\<lambda>s w. case s of [] \<Rightarrow> (RecvEOF, [], w) | ch # cs \<Rightarrow> (RecvChunk ch, cs, w)),
     gw_Close = (\<lambda>s w. w), gw_chain = c\<rparr>"

definition toy_call :: "http_call" where
  "toy_call = \<lparr>hc_read_error = False, hc_body = Json (JObj [(''model'', JStr ''m''), (''stream'', JBool True)]),
     hc_size = 28, hc_headers = [], hc_path = ''/v1/chat/completions'', hc_client_key = ''''\<rparr>"

lemma toy_parse: "parse_head (hc_body toy_call) = Some (''m'', True)"
  by code_simp

lemma toy_stream_ends: "stream_ends (toy_gateway c) s"
proof (induction s)
  case Nil
  show ?case by (rule stream_ends.ends) (simp add: toy_gateway_def)
next
  case (Cons ch cs)
  show ?case by (rule stream_ends.ends) (use Cons in \<open>simp add: toy_gateway_def\<close>)
qed

theorem chat_answers_witness: "\<exists>r w1. chat (\<lambda>_. 0) (toy_gateway None) toy_call () = Some (r, w1)"
  by (rule chat_answers) (simp add: toy_gateway_def, rule toy_stream_ends)

lemma toy_fields:
  "gw_NewRequestID (toy_gateway c) = Pair ''r''" "gw_Get (toy_gateway c) = None"
  "gw_Resolve (toy_gateway c) req combo w = Some (Inr (linear_plan [] 1), w)"
  "gw_DoStream (toy_gateway c) wire plan w = (Inr [\<lparr>ck_data = NotJson ''x'', ck_event = '''', ck_id = ''''\<rparr>], w)"
  "gw_Recv (toy_gateway c) [] w = (RecvEOF, [], w)" "gw_Recv (toy_gateway c) (ch # cs) w = (RecvChunk ch, cs, w)"
  "gw_chain (toy_gateway c) = c" "\<not> hc_read_error toy_call" "hc_size toy_call = 28"
  by (simp_all add: toy_gateway_def toy_call_def)

lemma toy_reply:
  "chat (\<lambda>_. 0) (toy_gateway None) toy_call () =
     Some (StreamReply [DataFrame \<lparr>ck_data = NotJson ''x'', ck_event = '''', ck_id = ''''\<rparr>, DoneFrame], ())"
proof -
  have "\<not> body_is_done (NotJson ''x'')" by code_simp
  then show ?thesis
    by (simp add: chat_def toy_parse gated_def routed_def dispatch_def lift_world_def gateway_post_def
        relay.simps [of _ "toy_gateway None"] relay_chunk_def resolveTarget_def MaxRequestBytes_def toy_fields)
qed

theorem stream_well_terminated_witness:
  "\<exists>ds t. [DataFrame \<lparr>ck_data = NotJson ''x'', ck_event = '''', ck_id = ''''\<rparr>, DoneFrame] = map DataFrame ds @ t \<and>
     terminated (relays_done ds) t"
  by (rule stream_well_terminated [OF toy_reply])

definition blocker :: "(go_error + decision) \<Rightarrow> unit chain" where
  "blocker ans = toy_chain\<lparr>ch_pre := [toy_gate ''b'' FailClosed ans]\<rparr>"

theorem stopped_request_costs_nothing_witness:
  "chat (\<lambda>_. 0) (toy_gateway (Some (blocker (Inl (Foreign ''no'' []))))) toy_call () =
     Some (ErrorReply (gateway_asDomain (Foreign ''no'' [])), ())"
proof -
  let ?gw = "toy_gateway (Some (blocker (Inl (Foreign ''no'' []))))"
  have a: "fst (asked ?gw toy_call (blocker (Inl (Foreign ''no'' []))) ''m'' ()) = Inl (Foreign ''no'' [])"
    by (simp add: asked_def toy_gateway_def blocker_def toy_chain_def toy_gate_def PreRequest_def ensure_derived_def
        gateway_input_def resolveTarget_def Let_def)
  have "gw_chain ?gw = Some (blocker (Inl (Foreign ''no'' [])))" "\<not> hc_read_error toy_call" "hc_size toy_call \<le> MaxRequestBytes"
    by (simp_all add: toy_fields MaxRequestBytes_def)
  from stopped_request_costs_nothing [OF this toy_parse, of "()" "\<lambda>_. 0"] a show ?thesis by (simp add: stops_def)
qed

theorem resolve_failure_skips_post_witness:
  "chat (\<lambda>_. 0) ((toy_gateway (Some toy_chain))\<lparr>gw_Resolve := (\<lambda>req combo w. Some (Inl (Foreign ''no'' []), w))\<rparr>) toy_call () =
   chat (\<lambda>_. 0) (((toy_gateway (Some toy_chain))\<lparr>gw_Resolve := (\<lambda>req combo w. Some (Inl (Foreign ''no'' []), w))\<rparr>)
     \<lparr>gw_chain := Some (toy_chain\<lparr>ch_post := [toy_gate ''b'' FailClosed (Inl (Foreign ''no'' []))]\<rparr>)\<rparr>) toy_call ()"
  by (rule resolve_failure_skips_post) (simp_all add: toy_gateway_def)

end
