(* ===== verification/Core_Gateway.thy ===== *)
theory Core_Gateway
  imports Core Gateway_Laws
begin

text \<open>
  The inference path as \<open>wireRouting\<close> in \<open>internal/app/app.go\<close> builds it: the gateway over the router, the
  dispatcher with its accounting streams, the combo store and the gate chain, all on the world of
  \<open>Core\<close> with the router's cursor.  Reading and closing an upstream stream are ports.
\<close>

section \<open>The composition\<close>

record ('e, 's) stream_ports =
  sp_Recv :: "'s \<Rightarrow> 'e \<Rightarrow> (stream_recv \<times> 's) \<times> duration \<times> 'e"
  sp_Close :: "'s \<Rightarrow> 'e \<Rightarrow> unit \<times> duration \<times> 'e"

text \<open>A live stream: the upstream's own, the accounting wrapper around it, or the one-chunk stream of a
  fusion without a judge.\<close>

datatype 's live = LiveInner 's | LiveWrapped 's wrapping | LiveSingle single_chunk

definition live_of :: "'s stream_value \<Rightarrow> 's live" where
  "live_of s = (case s of Inner u \<Rightarrow> LiveInner u | Wrapped u wr \<Rightarrow> LiveWrapped u wr
    | SingleChunk b \<Rightarrow> LiveSingle \<lparr>sc_body = b, sc_emitted = False, sc_closed = False\<rparr>)"

definition recv_of :: "stream_recv \<Rightarrow> recv" where
  "recv_of r = (case r of RecvChunk ch \<Rightarrow> RChunk (ck_data ch) | RecvEOF \<Rightarrow> REOF | RecvError e \<Rightarrow> RErr e)"

definition single_answer :: "recv \<Rightarrow> stream_recv" where
  "single_answer r = (case r of RChunk b \<Rightarrow> RecvChunk \<lparr>ck_data = b, ck_event = '''', ck_id = ''''\<rparr>
    | REOF \<Rightarrow> RecvEOF | RErr e \<Rightarrow> RecvError e)"

definition core_record :: "attempt_outcome \<Rightarrow> usage \<Rightarrow> 'e core \<Rightarrow> 'e core" where
  "core_record oc u w = w\<lparr>co_recorder := RecordUsage (co_now w) oc u (co_recorder w)\<rparr>"

definition core_Recv :: "('e, 's) stream_ports \<Rightarrow> 's live \<Rightarrow> 'e core \<Rightarrow> stream_recv \<times> 's live \<times> 'e core" where
  "core_Recv sp s w = (case s of
      LiveInner u \<Rightarrow> (case lift_timed (sp_Recv sp u) w of ((r, inner), w1) \<Rightarrow> (r, LiveInner inner, w1))
    | LiveWrapped u wr \<Rightarrow> (case lift_timed (sp_Recv sp u) w of ((r, inner), w1) \<Rightarrow>
        (case wrap_Recv core_record (recv_of r) wr w1 of (wr1, w2) \<Rightarrow> (r, LiveWrapped inner wr1, w2)))
    | LiveSingle sc \<Rightarrow> (case single_Recv sc of (r, sc1) \<Rightarrow> (single_answer r, LiveSingle sc1, w)))"

definition core_Close :: "('e, 's) stream_ports \<Rightarrow> 's live \<Rightarrow> 'e core \<Rightarrow> 'e core" where
  "core_Close sp s w = (case s of
      LiveInner u \<Rightarrow> snd (lift_timed (sp_Close sp u) w)
    | LiveWrapped u wr \<Rightarrow> snd (wrap_Close core_record wr (snd (lift_timed (sp_Close sp u) w)))
    | LiveSingle sc \<Rightarrow> w)"

text \<open>The world of the gateway is the router's cursor and the core.  A streaming run always opens a stream
  (\<open>run_opens_stream\<close>), so the error for a missing one is not taken.\<close>

definition on_core :: "('e core \<Rightarrow> 'a \<times> 'e core) \<Rightarrow> cursor \<times> 'e core \<Rightarrow> 'a \<times> cursor \<times> 'e core" where
  "on_core f x = (case f (snd x) of (a, w) \<Rightarrow> (a, fst x, w))"

definition core_gateway :: "('e, 'c, 's) upstream \<Rightarrow> ('e, 's) stream_ports \<Rightarrow> 'e core resolver
    \<Rightarrow> (cursor \<times> 'e core) chain option \<Rightarrow> (cursor \<times> 'e core, 's live) gateway" where
  "core_gateway up sp r c = \<lparr>
     gw_NewRequestID = on_core (lift_env (up_NewRequestID up)),
     gw_Get = Some (\<lambda>m x. (\<not> isl (rv_Get r m), x)),
     gw_Resolve = (\<lambda>req combo x. Resolve (r\<lparr>rv_cursor := fst x\<rparr>) (Some req) combo (snd x)),
     gw_Do = (\<lambda>wire plan. on_core (\<lambda>w. case Do (core_dispatcher up) wire plan w of
        (res, w1) \<Rightarrow> (map_sum Dom (\<lambda>(cand, resp, n). resp) res, w1))),
     gw_DoStream = (\<lambda>wire plan. on_core (\<lambda>w. case DoStream (core_dispatcher up) wire plan w of
        (Inl e, w1) \<Rightarrow> (Inl (Dom e), w1)
      | (Inr None, w1) \<Rightarrow> (Inl (Foreign ''no stream'' []), w1)
      | (Inr (Some s), w1) \<Rightarrow> (Inr (live_of s), w1))),
     gw_Recv = (\<lambda>s x. case core_Recv sp s (snd x) of (r, s1, w) \<Rightarrow> (r, s1, fst x, w)),
     gw_Close = (\<lambda>s x. (fst x, core_Close sp s (snd x))),
     gw_chain = c\<rparr>"

lemma core_gateway_fields:
  "gw_NewRequestID (core_gateway up sp r c) = on_core (lift_env (up_NewRequestID up))"
  "gw_Get (core_gateway up sp r c) = Some (\<lambda>m x. (\<not> isl (rv_Get r m), x))"
  "gw_Resolve (core_gateway up sp r c) req combo x = Resolve (r\<lparr>rv_cursor := fst x\<rparr>) (Some req) combo (snd x)"
  "gw_Do (core_gateway up sp r c) wire plan = on_core (\<lambda>w. case Do (core_dispatcher up) wire plan w of
     (res, w1) \<Rightarrow> (map_sum Dom (\<lambda>(cand, resp, n). resp) res, w1))"
  "gw_chain (core_gateway up sp r c) = c"
  by (simp_all add: core_gateway_def)

section \<open>A streaming run opens a stream\<close>

definition opened_stream :: "domain_error + 's outcome \<Rightarrow> bool" where
  "opened_stream res \<longleftrightarrow> (case res of Inl _ \<Rightarrow> True | Inr r \<Rightarrow> oc_stream r \<noteq> None)"

lemma opened_stream_simps [simp]:
  "opened_stream (Inl e)" "opened_stream (Inr r) \<longleftrightarrow> oc_stream r \<noteq> None"
  "opened_stream (add_attempts n res) = opened_stream res"
  by (auto simp: opened_stream_def add_attempts_def split: sum.splits)

lemma attempt_opens:
  "attempt d req True ex cred cc key n w = (Inl res, w1) \<Longrightarrow> opened_stream res"
  by (auto simp: attempt_def Let_def split: sum.splits prod.splits option.splits)

lemma attempt_loop_opens:
  "opened_stream (fst (attempt_loop d req rid cnt k True cs st w))"
proof (induction cs arbitrary: st w)
  case (Cons c cs)
  obtain r w1 where r: "resolve d c w = (r, w1)" by fastforce
  show ?case
  proof (cases r)
    case (Inr x)
    obtain cred cc where x: "x = (cred, cc)" by fastforce
    obtain b w2 where b: "dp_Build d cc cred w1 = (b, w2)" by fastforce
    show ?thesis
    proof (cases b)
      case (Inr ex)
      let ?n = "ls_attempts st + 1"
      obtain a w3 where a: "attempt d req True ex cred cc (attempt_key rid cc ?n) ?n w2 = (a, w3)" by fastforce
      have "opened_stream res" if "a = Inl res" for res using attempt_opens [OF a [unfolded that]] .
      with r \<open>r = Inr x\<close> x b Inr a Cons.IH show ?thesis
        by (cases a) (simp_all add: Let_def split: option.splits)
    qed (use r \<open>r = Inr x\<close> x b Cons.IH in \<open>simp add: Let_def split: option.splits\<close>)
  qed (use r Cons.IH in simp)
qed simp

lemma first_panel_opens: "find pr_ok outputs \<noteq> None \<Longrightarrow> oc_stream (firstSuccessfulPanel outputs True) \<noteq> None"
  by (auto simp: firstSuccessfulPanel_def)

lemma runPipeline_opens:
  assumes "\<And>p req w. p \<in> set ps \<Longrightarrow> opened_stream (fst (run d req p True w))"
  shows "opened_stream (fst (runPipeline d req ps acc True w))"
  using assms
proof (induction ps arbitrary: req acc w rule: induct_list012)
  case (3 p q ps)
  have "opened_stream (fst (runPipeline d req' (q # ps) acc' True w1))" for req' acc' w1
    using "3.prems" by (intro "3.IH"(2)) simp_all
  then show ?case by (simp split: prod.splits sum.splits)
qed (simp_all add: split_beta)

lemma run_opens: "opened_stream (fst (run d req plan True w))"
proof (induction plan arbitrary: req w rule: plan_induct)
  case (RoutePlan combo attempts rounds strategy panels judge chain)
  have pipe: "opened_stream (fst (runPipeline d req chain 0 True w))"
    by (rule runPipeline_opens) (rule RoutePlan.IH(3))
  obtain outputs w1 where o': "runPanels d req panels w = (outputs, w1)" by fastforce
  have first: "oc_stream (firstSuccessfulPanel outputs True) \<noteq> None" if "filter pr_ok outputs \<noteq> []"
    using that by (intro first_panel_opens) (auto simp: find_None_iff filter_empty_conv)
  have judge: "opened_stream (fst (run d req' j True w1))" if "judge = Some j" for j req'
    using RoutePlan.IH(2) that by blast
  have linear: "opened_stream (fst (run_linear d req plan True w))" for plan
    by (cases "dp_NewRequestID d w") (simp add: run_linear_def Let_def attempt_loop_opens)
  show ?case
    using pipe o' first judge linear by (auto simp: split_beta split: option.splits)
qed

lemma run_opens_stream: "DoStream d req plan w \<noteq> (Inr None, w1)"
  using run_opens [of d req plan w]
  by (auto simp: DoStream_def opened_stream_def map_sum_def split: prod.splits sum.splits)

section \<open>Capabilities and the gateway\<close>

text \<open>Two catalogs that know the same models may tell different capabilities and modalities of them.\<close>

definition same_models :: "catalog \<Rightarrow> catalog \<Rightarrow> bool" where
  "same_models a b \<longleftrightarrow> cg_Providers a = cg_Providers b \<and> cg_Models a = cg_Models b \<and>
     (\<forall>p m. (cg_Capabilities a p m = None) = (cg_Capabilities b p m = None))"

definition undemanding :: "request option \<Rightarrow> bool" where
  "undemanding ro \<longleftrightarrow> (case ro of None \<Rightarrow> True | Some req \<Rightarrow> req_modalities req = 0 \<and> req_capabilities req = 0)"

lemma undemanding_fit: "undemanding ro \<Longrightarrow> ft_compatible (ComputeFit spec ro)"
proof (cases ro)
  case (Some req)
  assume "undemanding ro"
  then show ?thesis
    by (simp add: Some ComputeFit_ok undemanding_def Capabilities_Has_iff ModalitySet_Has_bit)
qed (simp add: ComputeFit_def)

lemma mkExpanded_undemanding:
  "undemanding ro \<Longrightarrow> mkExpanded ro i s p m caps mods = mkExpanded ro i s p m caps' mods'"
  by (simp add: mkExpanded_def undemanding_fit)

lemma expand_model_undemanding:
  assumes "undemanding ro" "same_models a b"
  shows "expand_model a ro i s ps = expand_model b ro i s ps"
proof (induction ps)
  case (Cons p ps)
  have "(cg_Capabilities a p (st_ref s) = None) = (cg_Capabilities b p (st_ref s) = None)"
    using assms(2) by (simp add: same_models_def)
  with Cons show ?case
    using mkExpanded_undemanding [OF assms(1)] by (auto split: option.splits)
qed simp

lemma expand_wildcard_undemanding:
  assumes "undemanding ro" "same_models a b"
  shows "expand_wildcard a ro i s = expand_wildcard b ro i s"
  using assms(2) mkExpanded_undemanding [OF assms(1)] by (simp add: expand_wildcard_def same_models_def)

lemma expand_undemanding:
  "undemanding ro \<Longrightarrow> same_models a b \<Longrightarrow> expand a byID ro k ch c = expand b byID ro k ch c"
  "undemanding ro \<Longrightarrow> same_models a b \<Longrightarrow> expand_steps a byID ro k ch c i ss = expand_steps b byID ro k ch c i ss"
proof (induction a byID ro k ch c and a byID ro k ch c i ss rule: expand_expand_steps.induct)
  case (4 a byID ro k ch c i s ss)
  let ?here = "\<lambda>cat. if st_kind s = StepModel then Inr (expand_model cat ro i s (cg_Providers cat))
        else if st_kind s = StepProviderWildcard then
          (if st_ref s \<notin> set (cg_Providers cat) then Inl (unknownProvider (cb_name c) (st_ref s))
           else Inr (expand_wildcard cat ro i s))
        else if st_kind s = StepComboRef then
          (case byID (st_ref s) of
             None \<Rightarrow> Inl (invalidCombo (cb_name c) (''reference to unknown combo '' @ st_ref s))
           | Some ref \<Rightarrow> (case expand cat byID ro k ch ref of
                 Inl e \<Rightarrow> Inl e
               | Inr nested \<Rightarrow> Inr (map (\<lambda>e. e\<lparr>ex_step := i, ex_weight := WeightOrOne s\<rparr>) nested)))
        else Inl (invalidCombo (cb_name c) (''unknown step kind '' @ st_kind s))"
  have here: "?here b = ?here a"
    using 4(1) [OF _ _ _ _ "4.prems"] "4.prems" expand_model_undemanding [OF "4.prems"] expand_wildcard_undemanding [OF "4.prems"]
    by (auto simp: same_models_def split: option.splits)
  show ?case
  proof (cases "?here a")
    case (Inr xs)
    have "expand_steps a byID ro k ch c (i + 1) ss = expand_steps b byID ro k ch c (i + 1) ss"
      by (rule 4(2) [OF refl Inr "4.prems"])
    with here Inr show ?thesis by (simp only: expand_steps.simps Let_def sum.case)
  qed (use here in \<open>simp only: expand_steps.simps Let_def sum.case\<close>)
qed simp_all

lemma Resolve_undemanding:
  assumes "undemanding (Some req)" "same_models a b"
  shows "Resolve (r\<lparr>rv_catalog := a\<rparr>) (Some req) combo g = Resolve (r\<lparr>rv_catalog := b\<rparr>) (Some req) combo g"
proof -
  let ?a = "r\<lparr>rv_catalog := a\<rparr>" and ?b = "r\<lparr>rv_catalog := b\<rparr>"
  have env: "orderEnvelope ?a = orderEnvelope ?b" by (simp add: fun_eq_iff orderEnvelope_def split: option.splits)
  have shape: "add_shape ?a = add_shape ?b" by (simp add: fun_eq_iff add_shape_def)
  have ps: "cg_Providers a = cg_Providers b" using assms(2) by (simp add: same_models_def)
  have auto: "resolveAuto ?a req g = resolveAuto ?b req g"
    by (simp add: resolveAuto_def env ps expand_model_undemanding [OF assms] Let_def cong: sum.case_cong option.case_cong if_cong)
  show ?thesis
    by (simp add: Resolve_def auto env shape expand_undemanding [OF assms] Let_def
        cong: sum.case_cong option.case_cong if_cong prod.case_cong)
qed

text \<open>Two gateways that differ in how they resolve a request relay alike.\<close>

definition same_but_Resolve :: "('w, 's) gateway \<Rightarrow> ('w, 's) gateway \<Rightarrow> bool" where
  "same_but_Resolve a b \<longleftrightarrow> b = a\<lparr>gw_Resolve := gw_Resolve b\<rparr>"

lemma same_but_Resolve_fields:
  assumes "same_but_Resolve a b"
  shows "gw_Recv b = gw_Recv a" "gw_chain b = gw_chain a" "gw_Do b = gw_Do a" "gw_DoStream b = gw_DoStream a"
    "gw_Close b = gw_Close a" "gw_NewRequestID b = gw_NewRequestID a" "gw_Get b = gw_Get a"
  by (subst assms [unfolded same_but_Resolve_def], simp)+

lemma relay_carries_over:
  "relay bytes a i index dr out s w = Some y \<Longrightarrow> same_but_Resolve a b \<Longrightarrow> relay bytes b i index dr out s w = Some y"
proof (induction rule: relay.raw_induct [rotated, consumes 1, case_names step])
  case (step rec bytes a i index dr out s w y)
  note same = same_but_Resolve_fields [OF step(3)]
  have "relay_chunk bytes b = relay_chunk bytes a" by (simp add: fun_eq_iff relay_chunk_def same)
  then show ?case
    using step by (subst relay.simps) (auto simp: same split: stream_recv.splits prod.splits sum.splits option.splits)
qed

lemma relay_same:
  assumes "same_but_Resolve a b"
  shows "relay bytes a i index dr out s w = relay bytes b i index dr out s w"
proof -
  have converse: "same_but_Resolve b a"
    using assms by (cases a; cases b) (simp add: same_but_Resolve_def)
  show ?thesis
  proof (cases "relay bytes a i index dr out s w")
    case None
    then show ?thesis
      using relay_carries_over [OF _ converse, of bytes i index dr out s w] by (cases "relay bytes b i index dr out s w") simp_all
  qed (use relay_carries_over [OF _ assms] in simp)
qed

lemma routed_same:
  assumes "same_but_Resolve a b" "gw_Resolve a req combo (xc_world w) = gw_Resolve b req combo (xc_world w)"
  shows "routed bytes a stream wire req combo i w = routed bytes b stream wire req combo i w"
proof -
  note same = same_but_Resolve_fields [OF assms(1)]
  have "gateway_post b = gateway_post a" by (simp add: fun_eq_iff gateway_post_def same)
  then have "dispatch bytes a stream wire plan i w = dispatch bytes b stream wire plan i w" for plan w
    by (simp add: dispatch_def same relay_same [OF assms(1)] split: option.splits sum.splits prod.splits)
  then show ?thesis using assms(2) by (simp add: routed_def split: option.splits sum.splits prod.splits)
qed

text \<open>the capabilities and modalities of the catalog play no part in a request that comes through the
  gateway: two catalogs that list the same models give the same reply and leave the same state,
  whatever they say the models can do, because the gateway never fills in what a request needs.\<close>

theorem gateway_ignores_capabilities:
  assumes "same_models a b"
  shows "chat bytes (core_gateway up sp (r\<lparr>rv_catalog := a\<rparr>) c) hc w =
     chat bytes (core_gateway up sp (r\<lparr>rv_catalog := b\<rparr>) c) hc w"
proof -
  let ?a = "core_gateway up sp (r\<lparr>rv_catalog := a\<rparr>) c" and ?b = "core_gateway up sp (r\<lparr>rv_catalog := b\<rparr>) c"
  have same: "same_but_Resolve ?a ?b" by (simp add: same_but_Resolve_def core_gateway_def)
  note fields = same_but_Resolve_fields [OF same]
  have res: "gw_Resolve ?a req combo v = gw_Resolve ?b req combo v" if "undemanding (Some req)" for req combo v
    using Resolve_undemanding [OF that assms, of "r\<lparr>rv_cursor := fst v\<rparr>" combo "snd v"] by (cases r) (simp add: core_gateway_def)
  have rout: "routed bytes ?a stream wire req combo i x = routed bytes ?b stream wire req combo i x"
    if "undemanding (Some req)" for stream wire req combo i x
    by (rule routed_same [OF same res [OF that]])
  have modified: "undemanding (Some req')" if "apply_modify d (wire, req) = (wire', req')" "undemanding (Some req)" for d wire req wire' req'
    using that by (auto simp: apply_modify_def Let_def undemanding_def split: option.splits)
  have "gated bytes ?a stream wire req combo i x = gated bytes ?b stream wire req combo i x"
    if "undemanding (Some req)" for stream wire req combo i x
    using that by (auto simp: gated_def Let_def fields rout modified
        split: option.splits prod.splits sum.splits decision_kind.splits)
  moreover have "gateway_input ?b = gateway_input ?a" "resolveTarget ?b = resolveTarget ?a"
    by (simp_all add: fun_eq_iff gateway_input_def resolveTarget_def fields)
  ultimately show ?thesis
    by (simp add: chat_def Let_def fields undemanding_def split: option.splits prod.splits)
qed

section \<open>The gateway serves requests as the core does\<close>

text \<open>The request the gateway hands to the core for a call: its target, its wire request and its stream flag.\<close>

definition gateway_request :: "'e core resolver \<Rightarrow> http_call \<Rightarrow> request_id \<Rightarrow> model_id \<Rightarrow> bool \<Rightarrow> client_request" where
  "gateway_request r hc rid m stream = (let named = \<not> isl (rv_Get r m); combo = (if named then m else '''') in
     \<lparr>cl_request = \<lparr>req_id = rid, req_model = (if named then '''' else m), req_combo = combo, req_modalities = 0,
        req_capabilities = 0, req_headers = headerNamesOnly (hc_headers hc)\<rparr>,
      cl_combo = combo,
      cl_wire = \<lparr>wq_body = hc_body hc, wq_model = m, wq_stream = stream, wq_headers = []\<rparr>,
      cl_stream = stream\<rparr>)"

text \<open>C15: without gates a non-streaming call is served exactly as the core serves the request the gateway
  makes of it: the cursor, the circuits, the windows, the clock and the upstream calls after the reply
  are those of \<open>serve\<close>, so what \<open>Core\<close> proves of every sequence of served requests holds of the calls of
  the gateway.\<close>

theorem chat_serves:
  assumes "\<not> hc_read_error hc" and "hc_size hc \<le> MaxRequestBytes" and "parse_head (hc_body hc) = Some (m, False)"
    and "m \<noteq> ''''" and "lift_env (up_NewRequestID up) w = (rid, w1)"
    and "chat bytes (core_gateway up sp r None) hc (cur, w) = Some (rep, x)"
  shows "x = serve up r (gateway_request r hc rid m False) (cur, w1)"
proof -
  let ?q = "gateway_request r hc rid m False"
  obtain res where res: "Resolve (r\<lparr>rv_cursor := cur\<rparr>) (Some (cl_request ?q)) (cl_combo ?q) w1 = res" by simp
  from assms(1-5) have "chat bytes (core_gateway up sp r None) hc (cur, w) = map_option (map_prod id xc_world)
      (routed bytes (core_gateway up sp r None) False (cl_wire ?q) (cl_request ?q) (cl_combo ?q)
        (gateway_input (core_gateway up sp r None) hc rid m)
        \<lparr>xc_meta = gateway_meta hc, xc_fields = None, xc_world = (cur, w1)\<rparr>)"
    by (cases "isl (rv_Get r m)")
      (simp_all add: chat_def gated_def core_gateway_fields resolveTarget_def on_core_def gateway_request_def Let_def)
  with assms(6) have "map_option (map_prod id xc_world)
      (routed bytes (core_gateway up sp r None) False (cl_wire ?q) (cl_request ?q) (cl_combo ?q)
        (gateway_input (core_gateway up sp r None) hc rid m)
        \<lparr>xc_meta = gateway_meta hc, xc_fields = None, xc_world = (cur, w1)\<rparr>) = Some (rep, x)" by simp
  moreover have "cl_stream ?q = False" by (simp add: gateway_request_def Let_def)
  ultimately show ?thesis
    by (auto simp: routed_def dispatch_def gateway_post_def core_gateway_fields lift_world_def on_core_def serve_def Do_def
        split: option.splits sum.splits prod.splits)
qed

section \<open>Witnesses\<close>

definition idle :: "(unit, unit) stream_ports" where
  "idle = \<lparr>sp_Recv = (\<lambda>s e. ((RecvEOF, s), 1, e)), sp_Close = (\<lambda>s e. ((), 1, e))\<rparr>"

definition plain_call :: http_call where
  "plain_call = toy_call\<lparr>hc_body := Json (JObj [(''model'', JStr ''m'')])\<rparr>"

definition simple_resolver :: "unit core resolver" where
  "simple_resolver = wired_resolver\<lparr>rv_registry := [StrategyAuto \<mapsto> priority_Order]\<rparr>"

lemma plain_parse: "parse_head (hc_body plain_call) = Some (''m'', False)"
  by code_simp

lemma simple_resolves: "Resolve (simple_resolver\<lparr>rv_cursor := cur\<rparr>) (Some req) combo w \<noteq> None"
  by (simp add: Resolve_def resolveAuto_def simple_resolver_def wired_resolver_def orderEnvelope_def priority_Order_def
      registry_Get_def ordered_pure_def Let_def)

lemma plain_reply:
  "\<exists>rep x. chat (\<lambda>_. 0) (core_gateway down idle simple_resolver None) plain_call (empty_cursor, opened_core) = Some (rep, x)"
proof -
  have "dispatch (\<lambda>_. 0) gw False wire plan i v \<noteq> None" for gw :: "(cursor \<times> unit core, unit live) gateway" and wire plan i v
    by (auto simp: dispatch_def split: prod.splits sum.splits)
  then have "routed (\<lambda>_. 0) (core_gateway down idle simple_resolver None) False wire req combo i v \<noteq> None" for wire req combo i v
    using simple_resolves by (auto simp: routed_def core_gateway_fields split: option.splits prod.splits sum.splits)
  then have "chat (\<lambda>_. 0) (core_gateway down idle simple_resolver None) plain_call (empty_cursor, opened_core) \<noteq> None"
    using plain_parse by (auto simp: chat_def gated_def core_gateway_fields Let_def simp del: not_None_eq split: prod.splits)
  then show ?thesis by auto
qed

theorem chat_serves_witness:
  "\<exists>rep x. chat (\<lambda>_. 0) (core_gateway down idle simple_resolver None) plain_call (empty_cursor, opened_core) = Some (rep, x) \<and>
     x = serve down simple_resolver (gateway_request simple_resolver plain_call ''r1'' ''m'' False) (empty_cursor, opened_core)"
proof -
  obtain rep x where c: "chat (\<lambda>_. 0) (core_gateway down idle simple_resolver None) plain_call (empty_cursor, opened_core) = Some (rep, x)"
    using plain_reply by blast
  have "\<not> hc_read_error plain_call" "hc_size plain_call \<le> MaxRequestBytes" "''m'' \<noteq> ''''"
    by (simp_all add: plain_call_def toy_fields MaxRequestBytes_def)
  moreover have "lift_env (up_NewRequestID down) opened_core = (''r1'', opened_core)"
    by (simp add: lift_env_def down_def)
  ultimately have "x = serve down simple_resolver (gateway_request simple_resolver plain_call ''r1'' ''m'' False) (empty_cursor, opened_core)"
    using chat_serves [OF _ _ plain_parse _ _ c] by blast
  with c show ?thesis by blast
qed

definition bare_catalog :: catalog where
  "bare_catalog = sample_catalog\<lparr>cg_Capabilities := (\<lambda>p m. map_option (\<lambda>_. 0) (cg_Capabilities sample_catalog p m)),
     cg_Modalities := (\<lambda>p m. None)\<rparr>"

theorem gateway_ignores_capabilities_witness:
  "chat (\<lambda>_. 0) (core_gateway down idle (wired_resolver\<lparr>rv_catalog := bare_catalog\<rparr>) None) plain_call (empty_cursor, opened_core) =
   chat (\<lambda>_. 0) (core_gateway down idle (wired_resolver\<lparr>rv_catalog := sample_catalog\<rparr>) None) plain_call (empty_cursor, opened_core)"
  by (rule gateway_ignores_capabilities) (simp add: same_models_def bare_catalog_def)

end
