(* ===== verification/Gate_Laws.thy ===== *)
theory Gate_Laws
  imports Gates
begin

text \<open>
  The order the gate registry computes: Kahn's algorithm against the relation "must run before", and
  what every registry that boot-time registration can build has in common.
\<close>

section \<open>Kahn's algorithm\<close>

definition avail :: "string set \<Rightarrow> (string \<times> string) set \<Rightarrow> string list \<Rightarrow> string set" where
  "avail V E out = {n \<in> V. n \<notin> set out \<and> (\<forall>a. (a, n) \<in> E \<longrightarrow> a \<in> set out)}"

text \<open>The order in which each step takes the smallest node whose predecessors are all placed.\<close>

definition smallest_first :: "string set \<Rightarrow> (string \<times> string) set \<Rightarrow> string list \<Rightarrow> bool" where
  "smallest_first V E out \<longleftrightarrow> (\<forall>ys x zs. out = ys @ x # zs \<longrightarrow> x \<in> avail V E ys \<and> (\<forall>y \<in> avail V E ys. x \<le> y))"

lemma smallest_first_Nil [simp]: "smallest_first V E []"
  by (simp add: smallest_first_def)

lemma smallest_first_snoc:
  "smallest_first V E (out @ [x]) \<longleftrightarrow>
     smallest_first V E out \<and> x \<in> avail V E out \<and> (\<forall>y \<in> avail V E out. x \<le> y)"
proof
  assume s: "smallest_first V E (out @ [x])"
  show "smallest_first V E out \<and> x \<in> avail V E out \<and> (\<forall>y \<in> avail V E out. x \<le> y)"
  proof (intro conjI)
    show "smallest_first V E out" unfolding smallest_first_def
    proof (intro allI impI)
      fix ys z zs assume "out = ys @ z # zs"
      then have "out @ [x] = ys @ z # (zs @ [x])" by simp
      with s show "z \<in> avail V E ys \<and> (\<forall>y \<in> avail V E ys. z \<le> y)" unfolding smallest_first_def by blast
    qed
  qed (use s in \<open>auto simp: smallest_first_def\<close>)
next
  assume s: "smallest_first V E out \<and> x \<in> avail V E out \<and> (\<forall>y \<in> avail V E out. x \<le> y)"
  show "smallest_first V E (out @ [x])" unfolding smallest_first_def
  proof (intro allI impI)
    fix ys z zs assume e: "out @ [x] = ys @ z # zs"
    show "z \<in> avail V E ys \<and> (\<forall>y \<in> avail V E ys. z \<le> y)"
    proof (cases zs rule: rev_cases)
      case Nil
      with e s show ?thesis by simp
    next
      case (snoc zs' w)
      with e have "out = ys @ z # zs'" by simp
      with s show ?thesis unfolding smallest_first_def by blast
    qed
  qed
qed

lemma smallest_first_facts:
  assumes "smallest_first V E out"
  shows "set out \<subseteq> V" "distinct out" "b \<in> set out \<Longrightarrow> (a, b) \<in> E \<Longrightarrow> a \<in> set out"
  using assms
proof (induction out rule: rev_induct)
  case (snoc x out)
  { case 1 then show ?case using snoc by (auto simp: smallest_first_snoc avail_def) }
  { case 2 then show ?case using snoc by (auto simp: smallest_first_snoc avail_def) }
  { case 3 then show ?case using snoc by (auto simp: smallest_first_snoc avail_def) }
qed auto

lemma smallest_first_prefix:
  assumes "smallest_first V E out" "avail V E out = {}" "smallest_first V E out'"
  shows "\<exists>zs. out = out' @ zs"
  using assms(3)
proof (induction out' rule: rev_induct)
  case (snoc x out')
  then obtain zs where zs: "out = out' @ zs" by (auto simp: smallest_first_snoc)
  from snoc.prems have x: "x \<in> avail V E out'" "\<forall>y \<in> avail V E out'. x \<le> y" by (simp_all add: smallest_first_snoc)
  show ?case
  proof (cases zs)
    case Nil
    with zs assms(2) x(1) show ?thesis by auto
  next
    case (Cons z zs')
    with zs assms(1) have "z \<in> avail V E out'" "\<forall>y \<in> avail V E out'. z \<le> y"
      unfolding smallest_first_def by blast+
    with x have "z = x" by (auto intro: antisym)
    with zs Cons show ?thesis by simp
  qed
qed simp

lemma smallest_first_unique:
  assumes "smallest_first V E out" "avail V E out = {}" "smallest_first V E out'" "avail V E out' = {}"
  shows "out = out'"
  using smallest_first_prefix [OF assms(1-3)] smallest_first_prefix [OF assms(3,4,1)] by auto

lemma relax_eq:
  "distinct ts \<Longrightarrow> relax ts deg ready =
     ((\<lambda>t. if t \<in> set ts then deg t - 1 else deg t), ready @ filter (\<lambda>t. deg t = 1) ts)"
proof (induction ts arbitrary: deg ready)
  case (Cons t ts)
  let ?deg = "deg(t := deg t - 1)"
  have "filter (\<lambda>u. ?deg u = 1) ts = filter (\<lambda>u. deg u = 1) ts"
    using Cons.prems by (intro filter_cong) auto
  moreover have "(\<lambda>u. if u \<in> set ts then ?deg u - 1 else ?deg u) = (\<lambda>u. if u \<in> set (t # ts) then deg u - 1 else deg u)"
    using Cons.prems by (intro ext) auto
  moreover have "relax (t # ts) deg ready = relax ts ?deg (if deg t = 1 then ready @ [t] else ready)"
    by (simp add: Let_def)
  moreover have "distinct ts" using Cons.prems by simp
  ultimately show ?case
    using Cons.IH [of ?deg "if deg t = 1 then ready @ [t] else ready"] by (simp del: fun_upd_apply)
qed simp

definition open_preds :: "(string \<times> string) set \<Rightarrow> string list \<Rightarrow> string \<Rightarrow> string set" where
  "open_preds E out n = {a. (a, n) \<in> E \<and> a \<notin> set out}"

text \<open>The loop invariant: what is placed is the smallest-first order so far, what is ready is what can be
  placed next, and the in-degree counts the predecessors not yet placed.\<close>

definition loop_inv :: "string set \<Rightarrow> (string \<times> string) set \<Rightarrow> string list \<Rightarrow> (string \<Rightarrow> int) \<Rightarrow> string list \<Rightarrow> bool" where
  "loop_inv V E ready deg out \<longleftrightarrow> smallest_first V E out \<and> distinct ready \<and>
     set ready = avail V E out \<and> (\<forall>n. deg n = int (card (open_preds E out n)))"

definition cycle_names :: "string set \<Rightarrow> (string \<times> string) set \<Rightarrow> string list \<Rightarrow> string list" where
  "cycle_names V E out = sorted_list_of_set {n \<in> V. open_preds E out n \<noteq> {}}"

locale kahn_graph =
  fixes V :: "string set" and edges :: "(string \<times> string) list"
  assumes fin: "finite V"
    and dist: "distinct edges"
    and sub: "set edges \<subseteq> V \<times> V"
begin

lemma finite_open_preds [simp]: "finite (open_preds (set edges) out n)"
  by (rule finite_subset [of _ "fst ` set edges"]) (force simp: open_preds_def)+

lemma indegree_open: "indegree edges n = int (card (open_preds (set edges) [] n))"
proof -
  have "distinct (filter (\<lambda>e. snd e = n) edges)" using dist by simp
  then have "indegree edges n = int (card {e \<in> set edges. snd e = n})"
    unfolding indegree_def by (metis distinct_card set_filter)
  also have "{e \<in> set edges. snd e = n} = (\<lambda>a. (a, n)) ` open_preds (set edges) [] n"
    by (auto simp: open_preds_def)
  also have "card \<dots> = card (open_preds (set edges) [] n)" by (rule card_image) (simp add: inj_on_def)
  finally show ?thesis .
qed

lemma successors_facts: "set (successors edges i) = {n. (i, n) \<in> set edges}" "distinct (successors edges i)"
proof -
  show "set (successors edges i) = {n. (i, n) \<in> set edges}" by (force simp: successors_def)
  have "inj_on snd (set (filter (\<lambda>e. fst e = i) edges))" by (auto simp: inj_on_def)
  then show "distinct (successors edges i)" using dist by (simp add: successors_def distinct_map)
qed

lemma avail_open: "n \<in> avail V (set edges) out \<longleftrightarrow> n \<in> V \<and> n \<notin> set out \<and> open_preds (set edges) out n = {}"
  by (auto simp: avail_def open_preds_def)

lemma open_preds_snoc: "open_preds (set edges) (out @ [i]) n = open_preds (set edges) out n - {i}"
  by (auto simp: open_preds_def)

lemma loop_inv_step:
  assumes inv: "loop_inv V (set edges) ready deg out" and srt: "sort ready = i # rest"
    and rel: "relax (successors edges i) deg rest = (deg', ready')"
  shows "loop_inv V (set edges) ready' deg' (out @ [i])"
proof -
  let ?E = "set edges"
  have ready: "set ready = insert i (set rest)" "i \<notin> set rest" "distinct rest" "\<forall>y \<in> set rest. i \<le> y"
  proof -
    have "set (sort ready) = insert i (set rest)" using srt by simp
    then show "set ready = insert i (set rest)" by simp
    have "distinct (sort ready)" using inv by (simp add: loop_inv_def)
    then show "i \<notin> set rest" "distinct rest" using srt by simp_all
    have "sorted (sort ready)" by simp
    then show "\<forall>y \<in> set rest. i \<le> y" using srt by simp
  qed
  have av: "set ready = avail V ?E out" and sf: "smallest_first V ?E out"
    and deg: "deg n = int (card (open_preds (set edges) out n))" for n using inv by (simp_all add: loop_inv_def)
  have i: "i \<in> V" "i \<notin> set out" "open_preds (set edges) out i = {}" using av ready(1) avail_open by blast+
  from rel have deg': "deg' = (\<lambda>t. if (i, t) \<in> ?E then deg t - 1 else deg t)"
    and ready': "ready' = rest @ filter (\<lambda>t. deg t = 1) (successors edges i)"
    by (simp_all add: relax_eq successors_facts)
  have deg'_open: "deg' n = int (card (open_preds (set edges) (out @ [i]) n))" for n
  proof (cases "(i, n) \<in> ?E")
    case True
    then have "i \<in> open_preds (set edges) out n" using i by (simp add: open_preds_def)
    then have "card (open_preds (set edges) out n) = Suc (card (open_preds (set edges) out n - {i}))"
      using card_Suc_Diff1 [of "open_preds (set edges) out n" i] by simp
    with True show ?thesis by (simp add: deg' deg open_preds_snoc)
  next
    case False
    then have "open_preds (set edges) out n - {i} = open_preds (set edges) out n" by (auto simp: open_preds_def)
    with False show ?thesis by (simp add: deg' deg open_preds_snoc)
  qed
  have mem: "n \<in> set ready' \<longleftrightarrow> n \<in> avail V ?E (out @ [i])" for n
  proof (cases "(i, n) \<in> ?E")
    case True
    then have n: "n \<in> V" "n \<notin> set out" "n \<noteq> i" "i \<in> open_preds (set edges) out n"
      using sub i smallest_first_facts(3) [OF sf] by (auto simp: open_preds_def)
    then have "n \<notin> set rest" using ready(1) av avail_open by auto
    moreover have "card (open_preds (set edges) out n) = 1 \<longleftrightarrow> open_preds (set edges) out n - {i} = {}"
      using n(4) card_Suc_Diff1 [of "open_preds (set edges) out n" i]
      by (metis One_nat_def card_eq_0_iff finite_Diff finite_open_preds nat.inject)
    ultimately show ?thesis
      using True n by (simp add: ready' successors_facts avail_open open_preds_snoc deg)
  next
    case False
    then have "open_preds (set edges) out n - {i} = open_preds (set edges) out n" by (auto simp: open_preds_def)
    moreover have "n \<in> set rest \<longleftrightarrow> n \<in> avail V ?E out \<and> n \<noteq> i" using ready(1,2) av by auto
    ultimately show ?thesis
      using False by (auto simp: ready' successors_facts avail_open open_preds_snoc)
  qed
  have "distinct ready'"
  proof -
    have "n \<notin> set rest" if "(i, n) \<in> ?E" for n
    proof -
      from that have "i \<in> open_preds (set edges) out n" using i by (simp add: open_preds_def)
      then have "n \<notin> avail V (set edges) out" by (auto simp: avail_open)
      then show ?thesis using ready(1) av by auto
    qed
    then show ?thesis using ready(3) by (auto simp: ready' successors_facts)
  qed
  moreover have "smallest_first V ?E (out @ [i])"
    using sf av ready(1,4) by (auto simp: smallest_first_snoc)
  ultimately show ?thesis using mem deg'_open by (auto simp: loop_inv_def)
qed

end

lemma kahn_loop_inv:
  assumes "kahn_graph V edges" "loop_inv V (set edges) ready deg out" "kahn_loop edges ready deg out = (deg', out')"
  shows "loop_inv V (set edges) [] deg' out'"
  using assms
proof (induction edges ready deg out rule: kahn_loop.induct)
  case (1 es ready deg out)
  show ?case
  proof (cases "sort ready")
    case Nil
    then have "ready = []" by (metis length_0_conv length_sort)
    with 1 show ?thesis by (simp add: kahn_loop.simps)
  next
    case (Cons i rest)
    obtain d r where r: "relax (successors es i) deg rest = (d, r)" by fastforce
    have "loop_inv V (set es) r d (out @ [i])"
      using kahn_graph.loop_inv_step [OF 1(2,3) Cons r] .
    moreover have "kahn_loop es r d (out @ [i]) = (deg', out')"
      using 1(4) Cons r by (subst (asm) kahn_loop.simps) simp
    ultimately show ?thesis using 1(1) [OF Cons] r 1(2) by metis
  qed
qed

context kahn_graph
begin

lemma kahn_loop_result:
  assumes "distinct ids" "set ids = V"
    and "kahn_loop edges (filter (\<lambda>i. indegree edges i = 0) ids) (indegree edges) [] = (deg, out)"
  shows "smallest_first V (set edges) out" "avail V (set edges) out = {}" "deg n = int (card (open_preds (set edges) out n))"
proof -
  have "loop_inv V (set edges) (filter (\<lambda>i. indegree edges i = 0) ids) (indegree edges) []"
    unfolding loop_inv_def set_eq_iff avail_open using assms(1,2) by (simp add: indegree_open card_eq_0_iff)
  from kahn_loop_inv [OF kahn_graph_axioms this assms(3)] have "loop_inv V (set edges) [] deg out" .
  then show "smallest_first V (set edges) out" "avail V (set edges) out = {}" "deg n = int (card (open_preds (set edges) out n))"
    by (auto simp: loop_inv_def)
qed

text \<open>All nodes are placed exactly when the edges have no cycle.\<close>

lemma complete_iff_acyclic:
  assumes "smallest_first V (set edges) out" "avail V (set edges) out = {}"
  shows "set out = V \<longleftrightarrow> acyclic (set edges)"
proof
  assume out: "set out = V"
  let ?pos = "\<lambda>n. length (takeWhile (\<lambda>x. x \<noteq> n) out)"
  have "?pos a < ?pos b" if e: "(a, b) \<in> set edges" for a b
  proof -
    have "b \<in> set out" using e sub out by auto
    then obtain ys zs where split: "out = ys @ b # zs" "b \<notin> set ys" by (meson split_list_first)
    have "b \<in> avail V (set edges) ys" using assms(1) split(1) unfolding smallest_first_def by blast
    then have "a \<in> set ys" using e by (auto simp: avail_def)
    then obtain us vs where a: "ys = us @ a # vs" "a \<notin> set us" by (meson split_list_first)
    have "?pos b = length ys"
    proof -
      have "takeWhile (\<lambda>x. x \<noteq> b) out = ys @ takeWhile (\<lambda>x. x \<noteq> b) (b # zs)"
        unfolding split(1) by (rule takeWhile_append2) (use split(2) in auto)
      then show ?thesis by simp
    qed
    moreover have "?pos a = length us"
    proof -
      have "takeWhile (\<lambda>x. x \<noteq> a) out = us @ takeWhile (\<lambda>x. x \<noteq> a) (a # vs @ b # zs)"
        unfolding split(1) a(1) append_assoc append_Cons by (rule takeWhile_append2) (use a(2) in auto)
      then show ?thesis by simp
    qed
    ultimately show ?thesis using a(1) by simp
  qed
  then have "acyclic ((set edges)\<inverse>)" by (intro acyclicI_order [where f = ?pos]) simp
  then show "acyclic (set edges)" by simp
next
  assume "acyclic (set edges)"
  then have wf: "wf (set edges)" by (simp add: finite_acyclic_wf)
  show "set out = V"
  proof (rule ccontr)
    assume "set out \<noteq> V"
    then obtain u where "u \<in> V - set out" using smallest_first_facts(1) [OF assms(1)] by auto
    from wfE_min [OF wf this] obtain z where "z \<in> V - set out" "\<And>y. (y, z) \<in> set edges \<Longrightarrow> y \<notin> V - set out"
      by blast
    then have "z \<in> avail V (set edges) out" using sub by (auto simp: avail_def)
    with assms(2) show False by simp
  qed
qed

lemma kahn_cases:
  assumes ids: "distinct ids" "set ids = V"
  obtains out where "smallest_first V (set edges) out" "avail V (set edges) out = {}"
    "kahn ids edges = (if acyclic (set edges) then Inr out
       else Inl (boot_error (''gate dependency cycle among: '' @ join '', '' (cycle_names V (set edges) out)) (cycle_names V (set edges) out)))"
proof -
  obtain deg out where l: "kahn_loop edges (filter (\<lambda>i. indegree edges i = 0) ids) (indegree edges) [] = (deg, out)"
    by fastforce
  note res = kahn_loop_result [OF ids l]
  have "length ids = card V" using ids distinct_card by fastforce
  moreover have "length out = card (set out)" using smallest_first_facts(2) [OF res(1)] by (simp add: distinct_card)
  moreover have "card (set out) = card V \<longleftrightarrow> set out = V"
    using smallest_first_facts(1) [OF res(1)] fin card_subset_eq by blast
  ultimately have len: "length out = length ids \<longleftrightarrow> acyclic (set edges)"
    using complete_iff_acyclic [OF res(1,2)] by simp
  have "sort (filter (\<lambda>i. deg i > 0) ids) = cycle_names V (set edges) out"
  proof -
    have "set (filter (\<lambda>i. deg i > 0) ids) = {n \<in> V. open_preds (set edges) out n \<noteq> {}}"
      using ids(2) by (auto simp: res(3) card_gt_0_iff)
    moreover have "distinct (filter (\<lambda>i. deg i > 0) ids)" using ids(1) by simp
    ultimately show ?thesis unfolding cycle_names_def
      by (metis distinct_sort set_sort sorted_list_of_set.idem_if_sorted_distinct sorted_sort)
  qed
  with l len have "kahn ids edges = (if acyclic (set edges) then Inr out
       else Inl (boot_error (''gate dependency cycle among: '' @ join '', '' (cycle_names V (set edges) out)) (cycle_names V (set edges) out)))"
    by (simp add: kahn_def Let_def)
  with res that show thesis by blast
qed

lemma kahn_Inr_nodes:
  assumes "distinct ids" "set ids = V" "kahn ids edges = Inr out"
  shows "set out \<subseteq> V"
proof -
  obtain out' where "smallest_first V (set edges) out'"
    "kahn ids edges = (if acyclic (set edges) then Inr out'
       else Inl (boot_error (''gate dependency cycle among: '' @ join '', '' (cycle_names V (set edges) out'))
         (cycle_names V (set edges) out')))"
    using kahn_cases [OF assms(1,2)] by blast
  with assms(3) show ?thesis using smallest_first_facts(1) by (simp split: if_splits)
qed

text \<open>The result is a function of the sets of nodes and edges alone.\<close>

lemma kahn_set_cong:
  assumes "distinct ids" "set ids = V" "distinct ids'" "set ids' = V" "distinct edges'" "set edges' = set edges"
  shows "kahn ids edges = kahn ids' edges'"
proof -
  have other: "kahn_graph V edges'" using fin sub assms(5,6) by unfold_locales auto
  obtain out where a: "smallest_first V (set edges) out" "avail V (set edges) out = {}"
    "kahn ids edges = (if acyclic (set edges) then Inr out
       else Inl (boot_error (''gate dependency cycle among: '' @ join '', '' (cycle_names V (set edges) out)) (cycle_names V (set edges) out)))"
    using kahn_cases [OF assms(1,2)] by blast
  obtain out' where b: "smallest_first V (set edges) out'" "avail V (set edges) out' = {}"
    "kahn ids' edges' = (if acyclic (set edges) then Inr out'
       else Inl (boot_error (''gate dependency cycle among: '' @ join '', '' (cycle_names V (set edges) out')) (cycle_names V (set edges) out')))"
    using kahn_graph.kahn_cases [OF other assms(3,4)] unfolding assms(6) by blast
  from smallest_first_unique [OF a(1,2) b(1,2)] a(3) b(3) show ?thesis by simp
qed

end

section \<open>Registries\<close>

text \<open>The registries the boot can build: each registration either fails or is added.\<close>

inductive boot :: "'w gate_registry \<Rightarrow> bool" where
  empty: "boot NewRegistry"
| register: "boot r \<Longrightarrow> RegisterGate name factory r = Inr r' \<Longrightarrow> boot r'"

text \<open>What a gate declares, its own stages when it declares nothing.\<close>

definition declares :: "'w gate \<Rightarrow> declared" where
  "declares g = (case gt_Declare g of Some d \<Rightarrow> d | None \<Rightarrow> no_declared\<lparr>dc_stages := gt_Stages g\<rparr>)"

definition coherent :: "'w gate \<Rightarrow> bool" where
  "coherent g \<longleftrightarrow> \<not> blank (gt_ID g) \<and> dc_stages (declares g) = gt_Stages g \<and> \<not> StageSet_Empty (gt_Stages g) \<and>
     (gt_FailurePolicy g = FailOpen \<longrightarrow> \<not> writesSecurityField (dc_writes (declares g))) \<and>
     (isPostOnly (gt_Stages g) \<longrightarrow> gt_FailurePolicy g = FailOpen)"

definition registry_ok :: "'w gate_registry \<Rightarrow> bool" where
  "registry_ok r \<longleftrightarrow> distinct (map gt_ID (rg_gates r)) \<and> rg_names r = (\<lambda>n. n \<in> set (map gt_ID (rg_gates r))) \<and>
     rg_declared r = map (\<lambda>g. (gt_ID g, declares g)) (rg_gates r) \<and> list_all coherent (rg_gates r)"

lemma update_fresh: "k \<notin> fst ` set al \<Longrightarrow> AList.update k v al = al @ [(k, v)]"
  by (induction al) auto

lemma RegisterGate_cases:
  assumes "RegisterGate name factory r = Inr r'"
  obtains g where "factory = Some (Some g)" "gt_ID g = name" "\<not> rg_names r name" "coherent g"
    "r' = r\<lparr>rg_names := (rg_names r)(name := True), rg_gates := rg_gates r @ [g],
       rg_declared := AList.update name (declares g) (rg_declared r)\<rparr>"
  using assms
  by (cases factory; cases "the factory")
    (auto simp: RegisterGate_def coherent_def declares_def Let_def intro: failure_policy.exhaust split: if_splits)

lemma boot_ok: "boot r \<Longrightarrow> registry_ok r"
proof (induction rule: boot.induct)
  case empty
  then show ?case by (simp add: registry_ok_def NewRegistry_def)
next
  case (register r name factory r')
  from register(2) obtain g where g: "gt_ID g = name" "\<not> rg_names r name" "coherent g"
    "r' = r\<lparr>rg_names := (rg_names r)(name := True), rg_gates := rg_gates r @ [g],
       rg_declared := AList.update name (declares g) (rg_declared r)\<rparr>"
    by (rule RegisterGate_cases)
  from register(3) have ok: "distinct (map gt_ID (rg_gates r))" "rg_names r = (\<lambda>n. n \<in> set (map gt_ID (rg_gates r)))"
    "rg_declared r = map (\<lambda>g. (gt_ID g, declares g)) (rg_gates r)" "list_all coherent (rg_gates r)"
    by (simp_all add: registry_ok_def)
  have "name \<notin> fst ` set (rg_declared r)" using g(2) ok(2,3) by auto
  then have "rg_declared r' = map (\<lambda>g. (gt_ID g, declares g)) (rg_gates r')"
    using g(1,4) ok(3) by (simp add: update_fresh)
  moreover have "rg_names r' = (\<lambda>n. n \<in> set (map gt_ID (rg_gates r')))"
    using g(1,4) ok(2) by (auto simp: fun_eq_iff)
  ultimately show ?case using g ok by (auto simp: registry_ok_def)
qed

text \<open>What must run before what in a stage: a writer before the readers of its fields, and a gate
  named in \<open>After\<close> before the one that names it.\<close>

definition acts_in :: "'w gate_registry \<Rightarrow> gate_stage \<Rightarrow> 'w gate \<Rightarrow> bool" where
  "acts_in r st g \<longleftrightarrow> g \<in> set (rg_gates r) \<and> StageSet_Has (gt_Stages g) st"

definition runs_before :: "'w gate_registry \<Rightarrow> gate_stage \<Rightarrow> (string \<times> string) set" where
  "runs_before r st = {(gt_ID a, gt_ID b) | a b. acts_in r st a \<and> acts_in r st b \<and> gt_ID a \<noteq> gt_ID b \<and>
     ((\<exists>f. f \<in> set (dc_writes (declares a)) \<and> f \<in> set (dc_reads (declares b))) \<or> gt_ID a \<in> set (dc_after (declares b)))}"

lemma map_of_gates:
  assumes "distinct (map gt_ID gs)" "g \<in> set gs"
  shows "map_of (map (\<lambda>g. (gt_ID g, f g)) gs) (gt_ID g) = Some (f g)"
  using assms by (intro map_of_is_SomeI) (auto simp: comp_def)

lemma gate_of_member:
  assumes "distinct (map gt_ID gs)" "g \<in> set gs"
  shows "gate_of gs (gt_ID g) = g"
proof -
  have "distinct (map gt_ID (rev gs))" using assms(1) by (simp flip: rev_map)
  then have "map_of (map (\<lambda>g. (gt_ID g, g)) (rev gs)) (gt_ID g) = Some g"
    using assms(2) by (intro map_of_gates) auto
  then show ?thesis by (simp add: gate_of_def rev_map)
qed

lemma declared_of_member: "registry_ok r \<Longrightarrow> g \<in> set (rg_gates r) \<Longrightarrow> declared_of r (gt_ID g) = declares g"
  by (simp add: registry_ok_def declared_of_def map_of_gates)

lemma coherent_member: "registry_ok r \<Longrightarrow> g \<in> set (rg_gates r) \<Longrightarrow> coherent g"
  by (simp add: registry_ok_def list_all_iff)

lemma stage_nodes_eq: "registry_ok r \<Longrightarrow> stage_nodes r st = filter (acts_in r st) (rg_gates r)"
  unfolding stage_nodes_def
  by (intro filter_cong) (auto simp: declared_of_member acts_in_def dest: coherent_member simp: coherent_def)

lemma stage_declared_eq:
  assumes "registry_ok r"
  shows "stage_declared r st = map (\<lambda>g. (gt_ID g, declares g)) (stage_nodes r st)"
proof -
  have "stage_declared r st = map (\<lambda>g. (gt_ID g, declares g)) (filter (\<lambda>g. StageSet_Has (dc_stages (declares g)) st) (rg_gates r))"
    using assms by (simp add: stage_declared_def registry_ok_def filter_map comp_def)
  also have "filter (\<lambda>g. StageSet_Has (dc_stages (declares g)) st) (rg_gates r) = stage_nodes r st"
    unfolding stage_nodes_def by (intro filter_cong) (simp_all add: declared_of_member [OF assms])
  finally show ?thesis .
qed

lemma set_stage_edges:
  assumes "registry_ok r"
  shows "set (stage_edges r st) = runs_before r st"
proof -
  let ?ns = "stage_nodes r st"
  have ns: "set ?ns = {g. acts_in r st g}" using stage_nodes_eq [OF assms] by (auto simp: acts_in_def)
  have w: "set (writers (map (\<lambda>g. (gt_ID g, declares g)) ?ns) f) =
      gt_ID ` {a. acts_in r st a \<and> f \<in> set (dc_writes (declares a))}" for f
    unfolding writers_def using ns by auto
  show ?thesis
    unfolding stage_edges_def Let_def stage_declared_eq [OF assms] edges_into_def runs_before_def
    by (auto simp: w ns image_iff) blast+
qed

lemma stage_graph:
  assumes "registry_ok r"
  shows "kahn_graph (gt_ID ` set (stage_nodes r st)) (stage_edges r st)"
proof
  show "distinct (stage_edges r st)" by (simp add: stage_edges_def Let_def)
  show "set (stage_edges r st) \<subseteq> gt_ID ` set (stage_nodes r st) \<times> gt_ID ` set (stage_nodes r st)"
    unfolding set_stage_edges [OF assms] stage_nodes_eq [OF assms] by (auto simp: runs_before_def acts_in_def)
qed simp

text \<open>The graph of every stage of every coherent registry is a Kahn graph.\<close>

definition checked :: "'w gate_registry \<Rightarrow> 'w gate_registry" where
  "checked r = (if registry_ok r then r else NewRegistry)"

lemma checked_ok: "registry_ok (checked r)"
  by (simp add: checked_def registry_ok_def NewRegistry_def)

interpretation stage: kahn_graph "gt_ID ` set (stage_nodes (checked r) st)" "stage_edges (checked r) st" for r st
  by (rule stage_graph [OF checked_ok])

lemma checked_same [simp]: "registry_ok r \<Longrightarrow> checked r = r"
  by (simp add: checked_def)

section \<open>The order of the stages\<close>

definition stage_ordered :: "'w gate_registry \<Rightarrow> gate_stage \<Rightarrow> 'w gate list \<Rightarrow> bool" where
  "stage_ordered r st gs \<longleftrightarrow> mset gs = mset (filter (acts_in r st) (rg_gates r)) \<and>
     sorted_wrt (\<lambda>a b. (gt_ID b, gt_ID a) \<notin> runs_before r st) gs"

lemma smallest_first_sorted:
  "smallest_first V E out \<Longrightarrow> sorted_wrt (\<lambda>a b. (b, a) \<notin> E) out"
proof (induction out rule: rev_induct)
  case (snoc x out)
  then have "smallest_first V E out" "x \<in> avail V E out" by (simp_all add: smallest_first_snoc)
  moreover have "(x, a) \<notin> E" if "a \<in> set out" for a
    using smallest_first_facts(3) [OF calculation(1) that] calculation(2) by (auto simp: avail_def)
  ultimately show ?case using snoc.IH by (auto simp: sorted_wrt_append)
qed simp

lemma mset_by_ids:
  assumes "distinct (map gt_ID ns)" "distinct out" "set out = gt_ID ` set ns"
  shows "mset (map (gate_of ns) out) = mset ns" "map gt_ID (map (gate_of ns) out) = out"
proof -
  have id: "gt_ID (gate_of ns n) = n" if "n \<in> set out" for n
    using that assms gate_of_member by fastforce
  then show ids: "map gt_ID (map (gate_of ns) out) = out" by (simp add: map_idI)
  have "set (map (gate_of ns) out) = set ns"
    using assms(3) gate_of_member [OF assms(1)] by (auto simp: image_image)
  moreover have "distinct (map (gate_of ns) out)" using ids assms(2) by (metis distinct_map)
  moreover have "distinct ns" using assms(1) by (simp add: distinct_map)
  ultimately show "mset (map (gate_of ns) out) = mset ns" by (metis set_eq_iff_mset_eq_distinct)
qed

lemma orderStage_cases:
  assumes ok: "registry_ok r"
  shows "if acyclic (runs_before r st) then \<exists>gs. orderStage r st = Inr gs \<and> stage_ordered r st gs
    else \<exists>e. orderStage r st = Inl e"
proof (cases "stage_nodes r st = []")
  case True
  then have "filter (acts_in r st) (rg_gates r) = []" using stage_nodes_eq [OF ok] by simp
  moreover have "runs_before r st = {}"
    using calculation by (auto simp: runs_before_def acts_in_def filter_empty_conv)
  moreover have "acyclic ({} :: (string \<times> string) set)" by (simp add: acyclic_def)
  ultimately show ?thesis using True by (simp add: orderStage_def stage_ordered_def)
next
  case False
  let ?ns = "stage_nodes r st" and ?E = "stage_edges r st"
  let ?ids = "remdups (map gt_ID ?ns)"
  have dist: "distinct (map gt_ID ?ns)"
    using ok stage_nodes_eq [OF ok, of st] by (simp add: registry_ok_def distinct_map_filter)
  note g = checked_same [OF ok]
  obtain out where out: "smallest_first (gt_ID ` set ?ns) (set ?E) out" "avail (gt_ID ` set ?ns) (set ?E) out = {}"
    "kahn ?ids ?E = (if acyclic (set ?E) then Inr out
       else Inl (boot_error (''gate dependency cycle among: '' @ join '', '' (cycle_names (gt_ID ` set ?ns) (set ?E) out))
         (cycle_names (gt_ID ` set ?ns) (set ?E) out)))"
    by (rule stage.kahn_cases [where r = r and st = st and ids = ?ids, unfolded g]) auto
  show ?thesis
  proof (cases "acyclic (runs_before r st)")
    case True
    then have "set out = gt_ID ` set ?ns"
      using stage.complete_iff_acyclic [where r = r and st = st, unfolded g, OF out(1,2)] by (simp add: set_stage_edges [OF ok])
    note ids = mset_by_ids [OF dist smallest_first_facts(2) [OF out(1)] this]
    have "sorted_wrt (\<lambda>a b. (b, a) \<notin> runs_before r st) (map gt_ID (map (gate_of ?ns) out))"
      using smallest_first_sorted [OF out(1)] unfolding ids(2) set_stage_edges [OF ok] .
    then have "stage_ordered r st (map (gate_of ?ns) out)"
      unfolding stage_ordered_def using ids(1) stage_nodes_eq [OF ok, of st] by (simp add: sorted_wrt_map)
    with True False out(3) show ?thesis by (simp add: orderStage_def Let_def set_stage_edges [OF ok])
  next
    case False
    with \<open>?ns \<noteq> []\<close> out(3) show ?thesis by (simp add: orderStage_def Let_def set_stage_edges [OF ok])
  qed
qed

definition after_registered :: "'w gate_registry \<Rightarrow> bool" where
  "after_registered r \<longleftrightarrow> (\<forall>g \<in> set (rg_gates r). set (dc_after (declares g)) \<subseteq> gt_ID ` set (rg_gates r))"

lemma missing_after_iff:
  assumes "registry_ok r"
  shows "missing_after r (sort (map gt_ID (rg_gates r))) = None \<longleftrightarrow> after_registered r"
proof -
  have names: "rg_names r a \<longleftrightarrow> a \<in> gt_ID ` set (rg_gates r)" for a
    using assms by (simp add: registry_ok_def)
  have "missing_after r (sort (map gt_ID (rg_gates r))) = None \<longleftrightarrow>
      (\<forall>g \<in> set (rg_gates r). \<forall>a \<in> set (dc_after (declared_of r (gt_ID g))). rg_names r a)"
    by (fastforce simp: missing_after_def find_None_iff)
  also have "\<dots> \<longleftrightarrow> after_registered r"
    using declared_of_member [OF assms] by (auto simp: after_registered_def names)
  finally show ?thesis .
qed

lemma Build_cases:
  assumes "registry_ok r"
  shows "if after_registered r \<and> acyclic (runs_before r StagePreRequest) \<and> acyclic (runs_before r StageOnResponseChunk)
      \<and> acyclic (runs_before r StagePostResponse)
    then \<exists>od. Build r = Inr od \<and> stage_ordered r StagePreRequest (od_pre od) \<and>
      stage_ordered r StageOnResponseChunk (od_chunk od) \<and> stage_ordered r StagePostResponse (od_post od)
    else \<exists>e. Build r = Inl e"
proof (cases "missing_after r (sort (map gt_ID (rg_gates r)))")
  case None
  then have "after_registered r" using missing_after_iff [OF assms] by simp
  with None orderStage_cases [OF assms, of StagePreRequest] orderStage_cases [OF assms, of StageOnResponseChunk]
    orderStage_cases [OF assms, of StagePostResponse]
  show ?thesis by (auto simp: Build_def split: if_splits)
next
  case (Some na)
  then have "\<not> after_registered r" using missing_after_iff [OF assms] by simp
  with Some show ?thesis by (simp add: Build_def split: prod.splits)
qed

section \<open>What the boot guarantees\<close>

text \<open>C20: the registry orders its gates exactly when it can: \<open>Build\<close> answers an order if and only if
  every \<open>After\<close> names a registered gate and in no stage the "must run before" relation has a
  cycle.\<close>

theorem build_iff_acyclic:
  assumes "boot r"
  shows "(\<exists>od. Build r = Inr od) \<longleftrightarrow> after_registered r \<and> acyclic (runs_before r StagePreRequest) \<and>
    acyclic (runs_before r StageOnResponseChunk) \<and> acyclic (runs_before r StagePostResponse)"
  using Build_cases [OF boot_ok [OF assms]] by (auto split: if_splits)

text \<open>in the order of a stage every registered gate that acts in the stage occurs exactly once, no
  other gate occurs, and no gate comes before a gate that must run before it: writers come before
  the readers of their fields.\<close>

theorem build_topological:
  assumes "boot r" and "Build r = Inr od"
  shows "stage_ordered r StagePreRequest (od_pre od) \<and> stage_ordered r StageOnResponseChunk (od_chunk od) \<and>
    stage_ordered r StagePostResponse (od_post od)"
  using Build_cases [OF boot_ok [OF assms(1)]] assms(2) by (auto split: if_splits)

lemma runs_before_cong: "set (rg_gates r) = set (rg_gates r') \<Longrightarrow> runs_before r st = runs_before r' st"
  by (simp add: runs_before_def acts_in_def)

lemma gate_of_cong:
  assumes "distinct (map gt_ID gs)" "distinct (map gt_ID gs')" "set gs = set gs'" "n \<in> gt_ID ` set gs"
  shows "gate_of gs n = gate_of gs' n"
proof -
  obtain g where "g \<in> set gs" "n = gt_ID g" using assms(4) by blast
  with assms(1-3) show ?thesis by (simp add: gate_of_member)
qed

lemma orderStage_cong:
  assumes r: "registry_ok r" and r': "registry_ok r'" and gates: "set (rg_gates r) = set (rg_gates r')"
  shows "orderStage r st = orderStage r' st"
proof (cases "stage_nodes r st = []")
  case True
  have "set (stage_nodes r st) = set (stage_nodes r' st)"
    using gates by (auto simp: stage_nodes_eq [OF r] stage_nodes_eq [OF r'] acts_in_def)
  with True show ?thesis by (simp add: orderStage_def)
next
  case False
  let ?ns = "stage_nodes r st" and ?ns' = "stage_nodes r' st"
  have ns: "set ?ns = set ?ns'"
    using gates by (auto simp: stage_nodes_eq [OF r] stage_nodes_eq [OF r'] acts_in_def)
  have dist: "distinct (map gt_ID ?ns)" "distinct (map gt_ID ?ns')"
    using r r' stage_nodes_eq [OF r, of st] stage_nodes_eq [OF r', of st]
    by (simp_all add: registry_ok_def distinct_map_filter)
  have edges: "set (stage_edges r st) = set (stage_edges r' st)"
    using runs_before_cong [OF gates] by (simp add: set_stage_edges [OF r] set_stage_edges [OF r'])
  have kahn: "kahn (remdups (map gt_ID ?ns)) (stage_edges r st) = kahn (remdups (map gt_ID ?ns')) (stage_edges r' st)"
    by (rule stage.kahn_set_cong [where r = r and st = st, unfolded checked_same [OF r]])
      (use ns edges stage.dist [where r = r' and st = st, unfolded checked_same [OF r']] in auto)
  have "map (gate_of ?ns) out = map (gate_of ?ns') out" if "kahn (remdups (map gt_ID ?ns)) (stage_edges r st) = Inr out" for out
  proof (rule map_cong [OF refl])
    have "set out \<subseteq> gt_ID ` set ?ns"
      by (rule stage.kahn_Inr_nodes [where r = r and st = st, unfolded checked_same [OF r]]) (use that in auto)
    then show "gate_of ?ns n = gate_of ?ns' n" if "n \<in> set out" for n
      using that gate_of_cong [OF dist ns] by blast
  qed
  moreover have "?ns' \<noteq> []" using False ns by auto
  ultimately show ?thesis
    using False kahn by (cases "kahn (remdups (map gt_ID ?ns')) (stage_edges r' st)") (simp_all add: orderStage_def Let_def)
qed

text \<open>the order depends on which gates are registered and on nothing else: two boots that register
  the same gates, in whatever sequence, get the same answer, the error of a bad graph included.  So
  the iteration order of Go's maps, which the registration order stands for, does not matter.\<close>

theorem build_deterministic:
  assumes "boot r" and "boot r'" and "set (rg_gates r) = set (rg_gates r')"
  shows "Build r = Build r'"
proof -
  note ok = boot_ok [OF assms(1)] and ok' = boot_ok [OF assms(2)]
  have dist: "distinct (map gt_ID (rg_gates r))" "distinct (map gt_ID (rg_gates r'))"
    using ok ok' by (simp_all add: registry_ok_def)
  have names: "sort (map gt_ID (rg_gates r)) = sort (map gt_ID (rg_gates r'))"
    by (rule sorted_distinct_set_unique) (use dist assms(3) in simp_all)
  have after: "missing_after r ns = missing_after r' ns" if "set ns \<subseteq> gt_ID ` set (rg_gates r)" for ns
  proof -
    have "declared_of r n = declared_of r' n" if "n \<in> set ns" for n
      using that \<open>set ns \<subseteq> _\<close> declared_of_member [OF ok] declared_of_member [OF ok'] assms(3) by auto
    moreover have "rg_names r = rg_names r'" using ok ok' assms(3) by (auto simp: registry_ok_def)
    ultimately show ?thesis by (simp add: missing_after_def cong: map_cong)
  qed
  have maps: "map (gate_of (rg_gates r)) (sort (map gt_ID (rg_gates r))) =
      map (gate_of (rg_gates r')) (sort (map gt_ID (rg_gates r)))"
    by (rule map_cong [OF refl], rule gate_of_cong [OF dist assms(3)]) simp
  have "missing_after r (sort (map gt_ID (rg_gates r))) = missing_after r' (sort (map gt_ID (rg_gates r)))"
    by (rule after) simp
  then show ?thesis
    unfolding Build_def Let_def names [symmetric] orderStage_cong [OF ok ok' assms(3)] maps by (rule arg_cong)
qed

text \<open>A gate that writes a security field is never FailOpen, and one that acts only after the
  response never FailClosed.\<close>

lemma booted_coherent: "boot r \<Longrightarrow> list_all coherent (rg_gates r)"
  using boot_ok by (auto simp: registry_ok_def)

section \<open>The chain of the program\<close>

definition profile :: "'w gate \<Rightarrow> gate_profile" where
  "profile g = \<lparr>gp_id = gt_ID g, gp_policy = gt_FailurePolicy g, gp_needs_body = gt_NeedsBody g, gp_declared = declares g\<rparr>"

lemmas profile_defs = builtin_profiles_def logger_profile_def token_profile_def masker_profile_def
  injection_profile_def pii_profile_def rate_limit_profile_def ssrf_profile_def retriever_profile_def
  writer_profile_def declare_in_def

text \<open>The phase of a built-in gate: what must run before has the smaller phase.\<close>

fun phase :: "string \<Rightarrow> nat" where
  "phase n = (if n \<in> {''injection-guard'', ''pii-masker''} then 2 else if n = ''token'' then 1 else 0)"

definition feeds :: "gate_profile \<Rightarrow> gate_profile \<Rightarrow> bool" where
  "feeds a b \<longleftrightarrow> gp_id a \<noteq> gp_id b \<and>
     (list_ex (\<lambda>f. f \<in> set (dc_reads (gp_declared b))) (dc_writes (gp_declared a)) \<or>
      gp_id a \<in> set (dc_after (gp_declared b)))"

definition builtin_edges :: "(string \<times> string) list" where
  "builtin_edges = [(''memory-retriever'', ''token''), (''memory-retriever'', ''injection-guard''),
     (''token'', ''injection-guard''), (''token'', ''pii-masker''), (''credential-masker'', ''injection-guard''),
     (''credential-masker'', ''pii-masker'')]"

lemma builtin_feeds:
  "list_all (\<lambda>a. list_all (\<lambda>b. feeds a b \<longrightarrow> (gp_id a, gp_id b) \<in> set builtin_edges) (builtin_profiles p)) (builtin_profiles p)"
  by (cases p; hypsubst) code_simp+

lemma builtin_edges_only:
  assumes "\<forall>g \<in> set (rg_gates r). profile g \<in> set (builtin_profiles p)" "(a, b) \<in> runs_before r st"
  shows "(a, b) \<in> set builtin_edges"
proof -
  obtain ga gb where g: "ga \<in> set (rg_gates r)" "gb \<in> set (rg_gates r)" "a = gt_ID ga" "b = gt_ID gb" "a \<noteq> b"
    "(\<exists>f. f \<in> set (dc_writes (declares ga)) \<and> f \<in> set (dc_reads (declares gb))) \<or> a \<in> set (dc_after (declares gb))"
    using assms(2) by (auto simp: runs_before_def acts_in_def)
  then have "feeds (profile ga) (profile gb)" by (auto simp: feeds_def profile_def list_ex_iff)
  moreover have "profile ga \<in> set (builtin_profiles p)" "profile gb \<in> set (builtin_profiles p)" using assms(1) g by auto
  ultimately have "(gp_id (profile ga), gp_id (profile gb)) \<in> set builtin_edges"
    using builtin_feeds [of p] by (simp add: list_all_iff)
  then show ?thesis using g(3,4) by (simp add: profile_def)
qed

lemma builtin_acyclic:
  assumes "\<forall>g \<in> set (rg_gates r). profile g \<in> set (builtin_profiles p)"
  shows "acyclic (runs_before r st)"
proof -
  have "phase a < phase b" if "(a, b) \<in> runs_before r st" for a b
    using builtin_edges_only [OF assms that] by (auto simp: builtin_edges_def)
  then have "acyclic ((runs_before r st)\<inverse>)" by (intro acyclicI_order [where f = phase]) simp
  then show ?thesis by simp
qed

lemma builtin_feeds_all:
  "list_all (\<lambda>a. dc_after (gp_declared a) = [] \<and>
     list_all (\<lambda>b. (gp_id a, gp_id b) \<in> set builtin_edges \<longrightarrow> feeds a b) (builtin_profiles p)) (builtin_profiles p)"
  by (cases p; hypsubst) code_simp+

lemma feeds_runs_before:
  "acts_in r st a \<Longrightarrow> acts_in r st b \<Longrightarrow> feeds (profile a) (profile b) \<Longrightarrow> (gt_ID a, gt_ID b) \<in> runs_before r st"
  by (auto simp: feeds_def profile_def list_ex_iff runs_before_def)

text \<open>Whichever of the built-in gates are registered, and in whatever order, the boot succeeds, and no gate
  runs before one of \<open>builtin_edges\<close> that must precede it.\<close>

lemma builtin_chain:
  assumes "boot r" and "\<forall>g \<in> set (rg_gates r). profile g \<in> set (builtin_profiles p)"
  shows "\<exists>od. Build r = Inr od \<and> stage_ordered r StagePreRequest (od_pre od) \<and>
    sorted_wrt (\<lambda>a b. (gt_ID b, gt_ID a) \<notin> set builtin_edges) (od_pre od)"
proof -
  note ok = boot_ok [OF assms(1)]
  have "after_registered r" unfolding after_registered_def
  proof
    fix g assume "g \<in> set (rg_gates r)"
    then have "dc_after (gp_declared (profile g)) = []"
      using assms(2) builtin_feeds_all [of p] by (simp add: list_all_iff)
    then show "set (dc_after (declares g)) \<subseteq> gt_ID ` set (rg_gates r)" by (simp add: profile_def)
  qed
  then obtain od where od: "Build r = Inr od" "stage_ordered r StagePreRequest (od_pre od)"
    using Build_cases [OF ok] builtin_acyclic [OF assms(2)] by auto
  have "sorted_wrt (\<lambda>a b. (gt_ID b, gt_ID a) \<notin> set builtin_edges) (od_pre od)"
  proof (rule sorted_wrt_mono_rel [rotated])
    show "sorted_wrt (\<lambda>a b. (gt_ID b, gt_ID a) \<notin> runs_before r StagePreRequest) (od_pre od)"
      using od(2) by (simp add: stage_ordered_def)
    fix a b assume ab: "a \<in> set (od_pre od)" "b \<in> set (od_pre od)" "(gt_ID b, gt_ID a) \<notin> runs_before r StagePreRequest"
    have "set (od_pre od) = set (filter (acts_in r StagePreRequest) (rg_gates r))"
      using od(2) unfolding stage_ordered_def by (metis mset_eq_setD)
    then have "set (od_pre od) = {g. acts_in r StagePreRequest g}" by (auto simp: acts_in_def)
    then have acts: "acts_in r StagePreRequest a" "acts_in r StagePreRequest b" using ab by auto
    then have "profile a \<in> set (builtin_profiles p)" "profile b \<in> set (builtin_profiles p)"
      using assms(2) by (simp_all add: acts_in_def)
    then have "(gp_id (profile b), gp_id (profile a)) \<in> set builtin_edges \<longrightarrow> feeds (profile b) (profile a)"
      using builtin_feeds_all [of p] by (simp add: list_all_iff)
    then show "(gt_ID b, gt_ID a) \<notin> set builtin_edges"
      using ab(3) feeds_runs_before [OF acts(2,1)] by (auto simp: profile_def)
  qed
  with od show ?thesis by blast
qed

section \<open>Witnesses\<close>

text \<open>A gate of a profile that lets everything pass.\<close>

definition profiled_gate :: "gate_profile \<Rightarrow> unit gate" where
  "profiled_gate q = \<lparr>gt_ID = gp_id q, gt_Stages = dc_stages (gp_declared q), gt_RequiredCaps = 0,
     gt_FailurePolicy = gp_policy q, gt_Declare = Some (gp_declared q), gt_NeedsBody = gp_needs_body q,
     gt_PreRequest = (\<lambda>i w. (Inr (plain_decision DecisionContinue), w)),
     gt_OnResponseChunk = (\<lambda>i w. (Inr pass_through, w)), gt_PostResponse = (\<lambda>i w. (None, w)), gt_Close = (\<lambda>w. (None, w))\<rparr>"

fun register_profiles :: "gate_profile list \<Rightarrow> unit gate_registry \<Rightarrow> domain_error + unit gate_registry" where
  "register_profiles [] r = Inr r"
| "register_profiles (q # qs) r =
     (case RegisterGate (gp_id q) (Some (Some (profiled_gate q))) r of Inl e \<Rightarrow> Inl e | Inr r' \<Rightarrow> register_profiles qs r')"

lemma register_profiles_boot: "boot r \<Longrightarrow> register_profiles qs r = Inr r' \<Longrightarrow> boot r'"
  by (induction qs arbitrary: r) (auto intro: boot.register split: sum.splits)

definition booted :: "gate_profile list \<Rightarrow> unit gate_registry" where
  "booted qs = (case register_profiles qs NewRegistry of Inr r \<Rightarrow> r | Inl e \<Rightarrow> NewRegistry)"

lemma boot_booted: "boot (booted qs)"
  using boot.empty register_profiles_boot [OF boot.empty] by (auto simp: booted_def split: sum.splits)

definition the_order :: "unit gate_registry \<Rightarrow> string list" where
  "the_order r = (case Build r of Inr od \<Rightarrow> map gt_ID (od_pre od) | Inl e \<Rightarrow> [])"

text \<open>With every gate enabled the limiter and the destination guard run before the final checks; with
  the memory and token gates off they run after them, which the comments on the containment phase
  do not expect.\<close>

lemma full_order: "the_order (booted (builtin_profiles InjectBlock)) =
  [''credential-masker'', ''logger'', ''memory-retriever'', ''rate-limit'', ''ssrf-guard'', ''token'', ''injection-guard'', ''pii-masker'']"
  by code_simp

lemma late_containment:
  "the_order (booted [logger_profile, masker_profile, injection_profile InjectBlock, pii_profile, rate_limit_profile, ssrf_profile]) =
     [''credential-masker'', ''injection-guard'', ''logger'', ''pii-masker'', ''rate-limit'', ''ssrf-guard'']"
  by code_simp

definition looped :: "unit gate_registry" where
  "looped = booted [pii_profile\<lparr>gp_declared := declare_in [StagePreRequest] [FieldBudget] [FieldPII]\<rparr>,
     token_profile\<lparr>gp_declared := declare_in [StagePreRequest] [FieldPII] [FieldBudget]\<rparr>]"

theorem build_iff_acyclic_witness:
  "after_registered (booted (builtin_profiles InjectFlag)) \<and>
   \<not> (after_registered looped \<and> acyclic (runs_before looped StagePreRequest) \<and>
      acyclic (runs_before looped StageOnResponseChunk) \<and> acyclic (runs_before looped StagePostResponse))"
proof
  have "\<not> isl (Build (booted (builtin_profiles InjectFlag)))" by code_simp
  then have "\<exists>od. Build (booted (builtin_profiles InjectFlag)) = Inr od"
    by (cases "Build (booted (builtin_profiles InjectFlag))") simp_all
  then show "after_registered (booted (builtin_profiles InjectFlag))"
    using iffD1 [OF build_iff_acyclic [OF boot_booted]] by blast
  have "isl (Build looped)" by code_simp
  then have "\<not> (\<exists>od. Build looped = Inr od)" by (cases "Build looped") simp_all
  moreover have "boot looped" by (simp add: looped_def boot_booted)
  ultimately show "\<not> (after_registered looped \<and> acyclic (runs_before looped StagePreRequest) \<and>
      acyclic (runs_before looped StageOnResponseChunk) \<and> acyclic (runs_before looped StagePostResponse))"
    using iffD2 [OF build_iff_acyclic] by blast
qed

theorem build_topological_witness:
  "\<exists>od. Build (booted (builtin_profiles InjectBlock)) = Inr od \<and>
     stage_ordered (booted (builtin_profiles InjectBlock)) StagePreRequest (od_pre od) \<and> length (od_pre od) = 8"
proof -
  have "length (the_order (booted (builtin_profiles InjectBlock))) = 8" by code_simp
  then obtain od where od: "Build (booted (builtin_profiles InjectBlock)) = Inr od" "length (od_pre od) = 8"
    by (auto simp: the_order_def split: sum.splits)
  with build_topological [OF boot_booted od(1)] show ?thesis by blast
qed

lemma booted_gates: "register_profiles qs r = Inr r' \<Longrightarrow> rg_gates r' = rg_gates r @ map profiled_gate qs"
  by (induction qs arbitrary: r) (auto elim!: RegisterGate_cases split: sum.splits)

lemma registers: "isl (register_profiles qs NewRegistry) = False \<Longrightarrow> rg_gates (booted qs) = map profiled_gate qs"
  using booted_gates [of qs NewRegistry] by (auto simp: booted_def NewRegistry_def split: sum.splits)

theorem build_deterministic_witness:
  "Build (booted (builtin_profiles InjectBlock)) = Build (booted (rev (builtin_profiles InjectBlock)))"
proof (rule build_deterministic [OF boot_booted boot_booted])
  have "isl (register_profiles (builtin_profiles InjectBlock) NewRegistry) = False" by code_simp
  moreover have "isl (register_profiles (rev (builtin_profiles InjectBlock)) NewRegistry) = False" by code_simp
  ultimately show "set (rg_gates (booted (builtin_profiles InjectBlock))) = set (rg_gates (booted (rev (builtin_profiles InjectBlock))))"
    by (simp add: registers)
qed

end
