(* ===== verification/Token_Engines.thy ===== *)
theory Token_Engines
  imports Domain_Errors "HOL-Library.Word"
begin

text \<open>
  The compression engines of the token gate as the boot sees them, \<open>internal/gates/token/engine.go\<close>,
  \<open>engines.go\<close> and \<open>registry.go\<close>: what an engine declares of itself, the registry that validates it and
  the built-in set.  An engine is the record of what its methods \<open>ID\<close>, \<open>CacheImpact\<close> and \<open>Lossy\<close>
  answer; what it does to a text is not modelled.
\<close>

section \<open>Engines\<close>

type_synonym cache_impact = "8 word"

definition ImpactNone :: cache_impact where "ImpactNone = 0"

definition ImpactLow :: cache_impact where "ImpactLow = 1"

definition ImpactModerate :: cache_impact where "ImpactModerate = 2"

definition ImpactHigh :: cache_impact where "ImpactHigh = 3"

lemmas impact_defs = ImpactNone_def ImpactLow_def ImpactModerate_def ImpactHigh_def

record compression_engine =
  ce_ID :: string
  ce_CacheImpact :: cache_impact
  ce_Lossy :: bool

definition collapseWhitespace :: compression_engine where
  "collapseWhitespace = \<lparr>ce_ID = ''collapse-whitespace'', ce_CacheImpact = ImpactLow, ce_Lossy = True\<rparr>"

definition dedupLines :: compression_engine where
  "dedupLines = \<lparr>ce_ID = ''dedup-lines'', ce_CacheImpact = ImpactLow, ce_Lossy = True\<rparr>"

definition prefixRewrite :: compression_engine where
  "prefixRewrite = \<lparr>ce_ID = ''prefix-rewrite'', ce_CacheImpact = ImpactHigh, ce_Lossy = True\<rparr>"

definition DefaultEngines :: "compression_engine list" where
  "DefaultEngines = sort_key ce_ID [collapseWhitespace, dedupLines, prefixRewrite]"

section \<open>The registry\<close>

text \<open>The map \<open>byID\<close> is the list of its values, whose identifiers are distinct, in the order of registration;
  nothing depends on it, since \<open>Enabled\<close> sorts.\<close>

record engine_registry =
  er_engines :: "compression_engine list"
  er_allowPrefix :: "string \<Rightarrow> bool"

definition new_engine_registry :: engine_registry where
  "new_engine_registry = \<lparr>er_engines = [], er_allowPrefix = (\<lambda>i. False)\<rparr>"

definition engine_boot_error :: "string \<Rightarrow> string \<Rightarrow> domain_error" where
  "engine_boot_error reason engine = New CodeInternal [WithHTTPStatus 500, WithScope ScopeRequest,
     WithParams ((''reason'', reason) # (if engine \<noteq> '''' then [(''engine'', engine)] else []))]"

definition register_engine :: "compression_engine option \<Rightarrow> bool \<Rightarrow> engine_registry \<Rightarrow> domain_error + engine_registry" where
  "register_engine eng allowPrefix r = (case eng of
     None \<Rightarrow> Inl (engine_boot_error ''engine is nil'' '''')
   | Some e \<Rightarrow> (let i = ce_ID e in
       if i = '''' then Inl (engine_boot_error ''engine id must not be empty'' '''')
       else if i \<in> ce_ID ` set (er_engines r)
         then Inl (engine_boot_error (''engine '' @ i @ '' is already registered'') i)
       else if ce_Lossy e \<and> ce_CacheImpact e = ImpactNone
         then Inl (engine_boot_error (''engine '' @ i @ '' is lossy but declares ImpactNone'') i)
       else if ce_CacheImpact e > ImpactHigh
         then Inl (engine_boot_error (''engine '' @ i @ '' declares an unknown cache impact'') i)
       else if allowPrefix \<and> ce_CacheImpact e \<noteq> ImpactHigh
         then Inl (engine_boot_error (''engine '' @ i @ '' has prefix-rewrite opt-in but is not ImpactHigh'') i)
       else Inr \<lparr>er_engines = er_engines r @ [e], er_allowPrefix = (er_allowPrefix r)(i := allowPrefix)\<rparr>))"

definition enabled_engines :: "engine_registry \<Rightarrow> compression_engine list" where
  "enabled_engines r = sort_key ce_ID (er_engines r)"

section \<open>What registration promises\<close>

text \<open>The registries that registration can build.\<close>

inductive engines_booted :: "engine_registry \<Rightarrow> bool" where
  none: "engines_booted new_engine_registry"
| more: "engines_booted r \<Longrightarrow> register_engine eng allow' r = Inr r' \<Longrightarrow> engines_booted r'"

lemma register_engine_cases:
  assumes "register_engine eng allow' r = Inr r'"
  obtains e where "eng = Some e" "ce_ID e \<noteq> ''''" "ce_ID e \<notin> ce_ID ` set (er_engines r)"
    "ce_Lossy e \<longrightarrow> ce_CacheImpact e \<noteq> ImpactNone" "ce_CacheImpact e \<le> ImpactHigh"
    "allow' \<longrightarrow> ce_CacheImpact e = ImpactHigh"
    "r' = \<lparr>er_engines = er_engines r @ [e], er_allowPrefix = (er_allowPrefix r)(ce_ID e := allow')\<rparr>"
  using assms by (auto simp: register_engine_def Let_def not_less split: option.splits if_splits)

text \<open>Whatever was registered, no engine outside the highest impact has the opt-in, lossy engines do not
  claim to leave the text alone, and identifiers are unique.\<close>

lemma engines_booted_coherent:
  assumes "engines_booted r"
  shows "distinct (map ce_ID (er_engines r)) \<and>
    (\<forall>e \<in> set (er_engines r). (er_allowPrefix r (ce_ID e) \<longrightarrow> ce_CacheImpact e = ImpactHigh) \<and>
       (ce_Lossy e \<longrightarrow> ce_CacheImpact e \<noteq> ImpactNone))"
  using assms
proof induction
  case (more r eng allow' r')
  from more.hyps(2) show ?case
    by (rule register_engine_cases) (use more.IH in \<open>auto simp: image_iff\<close>)
qed (simp add: new_engine_registry_def)

text \<open>An engine of the highest impact is registered without the opt-in too; it is only not allowed the prefix.\<close>

lemma high_impact_without_opt_in:
  "map_sum id enabled_engines (register_engine (Some prefixRewrite) False new_engine_registry) = Inr [prefixRewrite]"
  by (simp add: register_engine_def prefixRewrite_def new_engine_registry_def enabled_engines_def impact_defs Let_def)

end
