(* ===== verification/Gate_Wiring.thy ===== *)
theory Gate_Wiring
  imports Gate_Laws Pipeline Token_Engines "HOL-Library.Sublist"
begin

text \<open>
  The boot of the gate engine: \<open>wireGates\<close> and \<open>buildSecurityGates\<close> of \<open>internal/app/app.go\<close>, the switches of
  \<open>internal/config/config.go\<close> and \<open>Assemble\<close> of \<open>internal/gates/security\<close>.  A gate is made of its profile by
  a parameter \<open>mk\<close>, which stands for all constructors with what else they are given; the constructors that
  answer nil are the gates left out of the list.
\<close>

section \<open>Configuration\<close>

record token_engine_config =
  te_Disabled :: bool
  te_AllowPrefixRewrite :: bool

record gates_features =
  gf_Enabled :: "string \<Rightarrow> bool option"
  gf_TokenEngines :: "string \<Rightarrow> token_engine_config option"
  gf_Token :: bool
  gf_Security :: bool
  gf_Memory :: bool
  gf_PIIPolicy :: string
  gf_InjectPolicy :: string
  gf_Rate :: int
  gf_Interval :: duration

definition GateEnabled :: "gates_features \<Rightarrow> string \<Rightarrow> bool \<Rightarrow> bool" where
  "GateEnabled g name groupEnabled = (case gf_Enabled g name of Some v \<Rightarrow> v | None \<Rightarrow> groupEnabled)"

definition TokenEngineEnabled :: "gates_features \<Rightarrow> string \<Rightarrow> bool" where
  "TokenEngineEnabled g name = (case gf_TokenEngines g name of Some ec \<Rightarrow> \<not> te_Disabled ec | None \<Rightarrow> True)"

definition TokenEngineAllowPrefixRewrite :: "gates_features \<Rightarrow> string \<Rightarrow> bool" where
  "TokenEngineAllowPrefixRewrite g name = (case gf_TokenEngines g name of Some ec \<Rightarrow> te_AllowPrefixRewrite ec | None \<Rightarrow> False)"

datatype pii_policy = PiiMask | PiiBlock | PiiOff

text \<open>The policies were validated to ASCII words when the configuration was loaded.\<close>

definition piiPolicyOf :: "string \<Rightarrow> pii_policy" where
  "piiPolicyOf v = (if map lower v = ''block'' then PiiBlock else if map lower v = ''off'' then PiiOff else PiiMask)"

definition injectPolicyOf :: "string \<Rightarrow> inject_policy" where
  "injectPolicyOf v = (if map lower v = ''flag'' then InjectFlag else InjectBlock)"

section \<open>The gates that are built\<close>

record security_config =
  sc_DisableCredentialMasker :: bool
  sc_PIIMasker :: pii_policy
  sc_InjectionDisabled :: bool
  sc_Injection :: inject_policy
  sc_DisableSSRF :: bool
  sc_Rate :: int
  sc_Interval :: duration

definition Assemble :: "security_config \<Rightarrow> gate_profile list" where
  "Assemble cfg =
     (if sc_DisableCredentialMasker cfg then [] else [masker_profile]) @
     (if sc_PIIMasker cfg = PiiOff then [] else [pii_profile]) @
     (if sc_InjectionDisabled cfg then [] else [injection_profile (sc_Injection cfg)]) @
     (if sc_DisableSSRF cfg then [] else [ssrf_profile]) @
     (if sc_Rate cfg \<le> 0 \<or> sc_Interval cfg \<le> 0 then [] else [rate_limit_profile])"

definition buildSecurityGates :: "gates_features \<Rightarrow> gate_profile list" where
  "buildSecurityGates g =
     (let on = (\<lambda>i. GateEnabled g i (gf_Security g));
          limit = on ''rate-limit'' \<and> gf_Rate g > 0 \<and> gf_Interval g > 0
      in Assemble \<lparr>sc_DisableCredentialMasker = \<not> on ''credential-masker'',
           sc_PIIMasker = (if on ''pii-masker'' then piiPolicyOf (gf_PIIPolicy g) else PiiOff),
           sc_InjectionDisabled = \<not> on ''injection-guard'', sc_Injection = injectPolicyOf (gf_InjectPolicy g),
           sc_DisableSSRF = \<not> on ''ssrf-guard'',
           sc_Rate = (if limit then gf_Rate g else 0), sc_Interval = (if limit then gf_Interval g else 0)\<rparr>)"

text \<open>The engines of the token gate: the enabled ones and which of them may rewrite the prefix.\<close>

fun register_engines :: "gates_features \<Rightarrow> compression_engine list \<Rightarrow> engine_registry \<Rightarrow> domain_error + engine_registry" where
  "register_engines g [] r = Inr r"
| "register_engines g (e # es) r =
     (if \<not> TokenEngineEnabled g (ce_ID e) then register_engines g es r
      else (case register_engine (Some e) (TokenEngineAllowPrefixRewrite g (ce_ID e)) r of
          Inl err \<Rightarrow> Inl err | Inr r' \<Rightarrow> register_engines g es r'))"

definition buildTokenGate :: "gates_features \<Rightarrow> domain_error + compression_engine list \<times> (string \<Rightarrow> bool)" where
  "buildTokenGate g = (case register_engines g DefaultEngines new_engine_registry of
     Inl err \<Rightarrow> Inl err
   | Inr r \<Rightarrow> Inr (enabled_engines r, (\<lambda>i. i \<in> ce_ID ` set (enabled_engines r) \<and> er_allowPrefix r i)))"

definition later_profiles :: "gates_features \<Rightarrow> gate_profile list" where
  "later_profiles g =
     (if GateEnabled g ''token'' (gf_Token g) then [token_profile] else []) @
     buildSecurityGates g @
     (if GateEnabled g ''memory-retriever'' (gf_Memory g) then [retriever_profile] else []) @
     (if GateEnabled g ''memory-writer'' (gf_Memory g) then [writer_profile] else [])"

fun register_gates :: "'w gate list \<Rightarrow> 'w gate_registry \<Rightarrow> domain_error + 'w gate_registry" where
  "register_gates [] r = Inr r"
| "register_gates (g # gs) r = (case RegisterGate (gt_ID g) (Some (Some g)) r of
     Inl e \<Rightarrow> Inl e | Inr r' \<Rightarrow> register_gates gs r')"

text \<open>The logger comes first, then the engines of the token gate are built, if it is on; the other gates
  follow.\<close>

definition logger_gate :: "gates_features \<Rightarrow> gate_profile list" where
  "logger_gate g = (if GateEnabled g ''logger'' True then [logger_profile] else [])"

definition wireGates :: "(gate_profile \<Rightarrow> 'w gate) \<Rightarrow> gates_features \<Rightarrow> domain_error + 'w gate_order \<times> 'w chain" where
  "wireGates mk g =
     (case register_gates (map mk (logger_gate g)) NewRegistry of Inl e \<Rightarrow> Inl e
      | Inr r0 \<Rightarrow> (case (if GateEnabled g ''token'' (gf_Token g) then map_sum id (\<lambda>_. ()) (buildTokenGate g) else Inr ()) of
           Inl e \<Rightarrow> Inl e
      | Inr _ \<Rightarrow> (case register_gates (map mk (later_profiles g)) r0 of Inl e \<Rightarrow> Inl e
      | Inr r \<Rightarrow> (case Build r of Inl e \<Rightarrow> Inl e
      | Inr od \<Rightarrow> (case NewOrdered (map Some (od_pre od)) (map Some (od_chunk od)) (map Some (od_post od)) of
           Inl e \<Rightarrow> Inl e | Inr c \<Rightarrow> Inr (od, c))))))"

section \<open>Every configuration boots\<close>

lemma register_gates_ok:
  assumes "boot r" "list_all coherent gs" "distinct (map gt_ID gs)" "\<forall>g \<in> set gs. \<not> rg_names r (gt_ID g)"
  shows "\<exists>r'. register_gates gs r = Inr r' \<and> boot r' \<and> set (rg_gates r') = set (rg_gates r) \<union> set gs"
  using assms
proof (induction gs arbitrary: r)
  case (Cons g gs)
  have "\<exists>r1. RegisterGate (gt_ID g) (Some (Some g)) r = Inr r1 \<and> rg_gates r1 = rg_gates r @ [g] \<and>
      rg_names r1 = (rg_names r)(gt_ID g := True)"
    using Cons.prems(2,4) by (auto simp: RegisterGate_def coherent_def declares_def Let_def)
  then obtain r1 where r1: "RegisterGate (gt_ID g) (Some (Some g)) r = Inr r1" "rg_gates r1 = rg_gates r @ [g]"
    "rg_names r1 = (rg_names r)(gt_ID g := True)" by blast
  have "\<exists>r'. register_gates gs r1 = Inr r' \<and> boot r' \<and> set (rg_gates r') = set (rg_gates r1) \<union> set gs"
  proof (rule Cons.IH)
    show "boot r1" using boot.register [OF Cons.prems(1) r1(1)] .
    have "gt_ID h \<noteq> gt_ID g" if "h \<in> set gs" for h using Cons.prems(3) that by (metis distinct.simps(2) imageI list.simps(9) set_map)
    then show "\<forall>h \<in> set gs. \<not> rg_names r1 (gt_ID h)" using Cons.prems(4) by (simp add: r1(3))
  qed (use Cons.prems in simp_all)
  with r1 show ?case by auto
qed auto

text \<open>What \<open>RegisterGate\<close> asks of a gate, asked of its profile.\<close>

definition coherent_profile :: "gate_profile \<Rightarrow> bool" where
  "coherent_profile q \<longleftrightarrow> \<not> blank (gp_id q) \<and> \<not> StageSet_Empty (dc_stages (gp_declared q)) \<and>
     (gp_policy q = FailOpen \<longrightarrow> \<not> writesSecurityField (dc_writes (gp_declared q))) \<and>
     (isPostOnly (dc_stages (gp_declared q)) \<longrightarrow> gp_policy q = FailOpen)"

lemma builtin_coherent: "list_all coherent_profile (builtin_profiles p)"
  by (cases p; hypsubst) code_simp+

text \<open>The profiles of all gates that are registered.\<close>

definition wired_profiles :: "gates_features \<Rightarrow> gate_profile list" where
  "wired_profiles g = logger_gate g @ later_profiles g"

lemmas wired_defs = wired_profiles_def logger_gate_def later_profiles_def

lemma register_gates_append:
  "register_gates (xs @ ys) r = (case register_gates xs r of Inl e \<Rightarrow> Inl e | Inr r' \<Rightarrow> register_gates ys r')"
  by (induction xs arbitrary: r) (auto split: sum.splits)

lemma subseq_piece: "subseq (if b then [] else [x]) [x]"
  by simp

lemma subseq_piece': "subseq (if b then [x] else []) [x]"
  by simp

lemma wired_subseq:
  "subseq (wired_profiles g) [logger_profile, token_profile, masker_profile, pii_profile,
     injection_profile (injectPolicyOf (gf_InjectPolicy g)), ssrf_profile, rate_limit_profile, retriever_profile, writer_profile]"
proof -
  have "subseq (buildSecurityGates g) ([masker_profile] @ [pii_profile] @ [injection_profile (injectPolicyOf (gf_InjectPolicy g))]
      @ [ssrf_profile] @ [rate_limit_profile])"
    unfolding buildSecurityGates_def Assemble_def Let_def security_config.simps
    by (intro list_emb_append_mono subseq_piece)
  then have "subseq (wired_profiles g) ([logger_profile] @ [token_profile] @ ([masker_profile] @ [pii_profile]
      @ [injection_profile (injectPolicyOf (gf_InjectPolicy g))] @ [ssrf_profile] @ [rate_limit_profile])
      @ [retriever_profile] @ [writer_profile])"
    unfolding wired_defs by (intro list_emb_append_mono subseq_piece')
  then show ?thesis by simp
qed

lemma wired_builtin: "set (wired_profiles g) \<subseteq> set (builtin_profiles (injectPolicyOf (gf_InjectPolicy g)))"
  using wired_subseq [of g] set_nths_subset unfolding subseq_conv_nths builtin_profiles_def
  by (metis (no_types, lifting) insert_commute list.simps(15))

lemmas profile_ids = logger_profile_def token_profile_def masker_profile_def
  injection_profile_def pii_profile_def rate_limit_profile_def ssrf_profile_def retriever_profile_def
  writer_profile_def

lemma wired_distinct: "distinct (map gp_id (wired_profiles g))"
proof -
  have "subseq (map gp_id (wired_profiles g)) [''logger'', ''token'', ''credential-masker'', ''pii-masker'',
      ''injection-guard'', ''ssrf-guard'', ''rate-limit'', ''memory-retriever'', ''memory-writer'']"
    using subseq_map [OF wired_subseq [of g], of gp_id] by (simp add: profile_ids)
  then show ?thesis by (auto simp: subseq_conv_nths intro!: distinct_nthsI)
qed

text \<open>Which gates of the pre-request stage a configuration switches on: the gate's own switch, else its
  group's; the logger is on by default; the PII gate is off by its policy, the limiter without a rate.\<close>

definition gate_on :: "gates_features \<Rightarrow> string \<Rightarrow> bool" where
  "gate_on g n \<longleftrightarrow>
     (case gf_Enabled g n of Some v \<Rightarrow> v
      | None \<Rightarrow> if n = ''logger'' then True else if n = ''token'' then gf_Token g
          else if n = ''memory-retriever'' then gf_Memory g else gf_Security g) \<and>
     (n = ''pii-masker'' \<longrightarrow> map lower (gf_PIIPolicy g) \<noteq> ''off'') \<and>
     (n = ''rate-limit'' \<longrightarrow> 0 < gf_Rate g \<and> 0 < gf_Interval g)"

definition pre_request_gates :: "string list" where
  "pre_request_gates = [''logger'', ''token'', ''credential-masker'', ''pii-masker'', ''injection-guard'', ''ssrf-guard'',
     ''rate-limit'', ''memory-retriever'']"

lemma pre_stage_profiles:
  "map (\<lambda>q. StageSet_Has (dc_stages (gp_declared q)) StagePreRequest) [logger_profile, token_profile, masker_profile,
     pii_profile, injection_profile p, ssrf_profile, rate_limit_profile, retriever_profile, writer_profile] =
   [True, True, True, True, True, True, True, True, False]"
  by (cases p; hypsubst) code_simp+

lemma wired_pre_ids:
  "gp_id ` {q \<in> set (wired_profiles g). StageSet_Has (dc_stages (gp_declared q)) StagePreRequest} =
     {n \<in> set pre_request_gates. gate_on g n}"
proof -
  have "''block'' \<noteq> ''off''" by simp
  then have pii: "piiPolicyOf v = PiiOff \<longleftrightarrow> map lower v = ''off''" for v by (auto simp: piiPolicyOf_def)
  have on: "gate_on g ''logger'' = GateEnabled g ''logger'' True" "gate_on g ''token'' = GateEnabled g ''token'' (gf_Token g)"
    "gate_on g ''credential-masker'' = GateEnabled g ''credential-masker'' (gf_Security g)"
    "gate_on g ''pii-masker'' = (GateEnabled g ''pii-masker'' (gf_Security g) \<and> piiPolicyOf (gf_PIIPolicy g) \<noteq> PiiOff)"
    "gate_on g ''injection-guard'' = GateEnabled g ''injection-guard'' (gf_Security g)"
    "gate_on g ''ssrf-guard'' = GateEnabled g ''ssrf-guard'' (gf_Security g)"
    "gate_on g ''rate-limit'' = (GateEnabled g ''rate-limit'' (gf_Security g) \<and> 0 < gf_Rate g \<and> 0 < gf_Interval g)"
    "gate_on g ''memory-retriever'' = GateEnabled g ''memory-retriever'' (gf_Memory g)"
    by (simp_all add: gate_on_def GateEnabled_def pii)
  have pick: "gp_id ` {q \<in> set (xs @ ys). P q} = gp_id ` {q \<in> set xs. P q} \<union> gp_id ` {q \<in> set ys. P q}" for xs ys P by auto
  have one: "gp_id ` {q \<in> set (if b then [r] else []). P q} = (if b \<and> P r then {gp_id r} else {})" for b r P by auto
  have one': "gp_id ` {q \<in> set (if b then [] else [r]). P q} = (if \<not> b \<and> P r then {gp_id r} else {})" for b r P by auto
  have names: "{n \<in> set (m # ms). Q n} = (if Q m then {m} else {}) \<union> {n \<in> set ms. Q n}" "{n \<in> set []. Q n} = {}" for m ms Q by auto
  show ?thesis
    using pre_stage_profiles [of "injectPolicyOf (gf_InjectPolicy g)"]
    unfolding pre_request_gates_def names on wired_defs buildSecurityGates_def Assemble_def Let_def security_config.simps
      pick one one'
    by (simp add: profile_ids Un_assoc not_le cong: if_cong)
qed

lemma NewOrdered_some:
  "NewOrdered (map Some pre) (map Some chunk) (map Some post) =
     Inr \<lparr>ch_pre = pre, ch_chunk = chunk, ch_post = post,
          ch_all = map (gate_of (pre @ chunk @ post)) (sort (remdups (map gt_ID (pre @ chunk @ post))))\<rparr>"
proof -
  have none: "first_nil i (map Some gs) = None" for i and gs :: "'a gate list" by (induction gs arbitrary: i) simp_all
  show ?thesis by (simp add: NewOrdered_def none List.map_filter_simps Let_def comp_def)
qed

text \<open>The gates a constructor makes answer as their profiles say.\<close>

definition makes :: "(gate_profile \<Rightarrow> 'w gate) \<Rightarrow> bool" where
  "makes mk \<longleftrightarrow> (\<forall>q. profile (mk q) = q \<and> gt_Stages (mk q) = dc_stages (gp_declared q))"

lemma makes_coherent:
  assumes "makes mk" "q \<in> set (builtin_profiles p)"
  shows "coherent (mk q)" "gt_ID (mk q) = gp_id q"
proof -
  have q: "coherent_profile q" using builtin_coherent [of p] assms(2) by (simp add: list_all_iff)
  have m: "gt_ID (mk q) = gp_id q" "gt_FailurePolicy (mk q) = gp_policy q" "declares (mk q) = gp_declared q"
    "gt_Stages (mk q) = dc_stages (gp_declared q)"
    using assms(1) unfolding makes_def profile_def by (metis gate_profile.ext_inject gate_profile.surjective)+
  from q show "coherent (mk q)" by (simp add: coherent_def coherent_profile_def m)
  show "gt_ID (mk q) = gp_id q" by (rule m)
qed

text \<open>The engines that make the boot fail: enabled, opted in to rewriting the prefix, and not of the impact
  that needs the opt-in.\<close>

definition refused_engines :: "gates_features \<Rightarrow> string list" where
  "refused_engines g = (if GateEnabled g ''token'' (gf_Token g) then
     filter (\<lambda>i. TokenEngineEnabled g i \<and> TokenEngineAllowPrefixRewrite g i) [''collapse-whitespace'', ''dedup-lines''] else [])"

abbreviation opt_in_error :: "string \<Rightarrow> domain_error" where
  "opt_in_error i \<equiv> engine_boot_error (''engine '' @ i @ '' has prefix-rewrite opt-in but is not ImpactHigh'') i"

lemma default_engines: "DefaultEngines = [collapseWhitespace, dedupLines, prefixRewrite]"
  by code_simp

lemma build_token_gate:
  assumes "GateEnabled g ''token'' (gf_Token g)"
  shows "case refused_engines g of i # rest \<Rightarrow> buildTokenGate g = Inl (opt_in_error i) | [] \<Rightarrow> \<exists>x. buildTokenGate g = Inr x"
  using assms
  by (auto simp: refused_engines_def buildTokenGate_def default_engines register_engine_def new_engine_registry_def
    collapseWhitespace_def dedupLines_def prefixRewrite_def impact_defs Let_def split: if_splits)

lemma wire_gates_eq:
  "wireGates mk g = (case register_gates (map mk (logger_gate g)) NewRegistry of Inl e \<Rightarrow> Inl e
   | Inr r0 \<Rightarrow> (case refused_engines g of i # rest \<Rightarrow> Inl (opt_in_error i)
   | [] \<Rightarrow> (case register_gates (map mk (wired_profiles g)) NewRegistry of Inl e \<Rightarrow> Inl e
   | Inr r \<Rightarrow> (case Build r of Inl e \<Rightarrow> Inl e
   | Inr od \<Rightarrow> (case NewOrdered (map Some (od_pre od)) (map Some (od_chunk od)) (map Some (od_post od)) of
        Inl e \<Rightarrow> Inl e | Inr c \<Rightarrow> Inr (od, c))))))"
proof -
  have off: "refused_engines g = []" if "\<not> GateEnabled g ''token'' (gf_Token g)"
    using that by (simp add: refused_engines_def)
  show ?thesis
    using build_token_gate [of g] off
    by (auto simp: wireGates_def wired_profiles_def register_gates_append split: sum.splits list.splits)
qed

lemma wire_gates_chain:
  assumes "makes mk" and "refused_engines g = []"
  shows "\<exists>od c. wireGates mk g = Inr (od, c) \<and>
     set (ch_pre c) = mk ` {q \<in> set (wired_profiles g). StageSet_Has (dc_stages (gp_declared q)) StagePreRequest} \<and>
     sorted_wrt (\<lambda>a b. (gt_ID b, gt_ID a) \<notin> set builtin_edges) (ch_pre c)"
proof -
  let ?p = "injectPolicyOf (gf_InjectPolicy g)" and ?gs = "map mk (wired_profiles g)"
  note builtin = subsetD [OF wired_builtin [of g]]
  have ids: "map gt_ID ?gs = map gp_id (wired_profiles g)"
    using makes_coherent(2) [OF assms(1) builtin] by simp
  have "distinct (map gt_ID ?gs)" unfolding ids by (rule wired_distinct)
  moreover have "list_all coherent ?gs"
    using makes_coherent(1) [OF assms(1) builtin] by (simp add: list_all_iff)
  ultimately have "\<exists>r. register_gates ?gs NewRegistry = Inr r \<and> boot r \<and> set (rg_gates r) = set (rg_gates NewRegistry) \<union> set ?gs"
    by (intro register_gates_ok boot.empty) (simp_all add: NewRegistry_def)
  then obtain r where r: "register_gates ?gs NewRegistry = Inr r" "boot r" "set (rg_gates r) = mk ` set (wired_profiles g)"
    by (auto simp: NewRegistry_def)
  have "profile h \<in> set (builtin_profiles ?p)" if "h \<in> set (rg_gates r)" for h
    using that builtin assms(1) by (auto simp: r(3) makes_def)
  then obtain od where od: "Build r = Inr od" "stage_ordered r StagePreRequest (od_pre od)"
    "sorted_wrt (\<lambda>a b. (gt_ID b, gt_ID a) \<notin> set builtin_edges) (od_pre od)"
    using builtin_chain [OF r(2)] by blast
  have "set (od_pre od) = {h \<in> set (rg_gates r). StageSet_Has (gt_Stages h) StagePreRequest}"
    using od(2) [unfolded stage_ordered_def, THEN conjunct1, THEN mset_eq_setD] by (auto simp: acts_in_def)
  then have "set (od_pre od) = mk ` {q \<in> set (wired_profiles g). StageSet_Has (dc_stages (gp_declared q)) StagePreRequest}"
    using assms(1) by (auto simp: r(3) makes_def)
  moreover obtain r0 where "register_gates (map mk (logger_gate g)) NewRegistry = Inr r0"
    using r(1) by (auto simp: wired_profiles_def register_gates_append split: sum.splits)
  ultimately show ?thesis using r(1) od(1,3) assms(2) by (simp add: wire_gates_eq NewOrdered_some)
qed

lemma logger_registers:
  assumes "makes mk"
  shows "\<exists>r0. register_gates (map mk (logger_gate g)) NewRegistry = Inr r0"
proof -
  have "logger_profile \<in> set (builtin_profiles InjectBlock)" by (simp add: builtin_profiles_def)
  from makes_coherent [OF assms this] show ?thesis
    by (auto simp: logger_gate_def RegisterGate_def NewRegistry_def coherent_def declares_def Let_def)
qed

text \<open>C19: what the boot of the gate engine does under every configuration.  If the token gate is on and an
  enabled engine of it other than \<open>prefix-rewrite\<close> carries the opt-in to rewrite the prefix, the boot
  fails with an internal error that names the first such engine.  Otherwise it succeeds, and before
  the dispatch the chain runs exactly the gates that the gate's own switch, else its group's, turns on,
  a PII policy of \<open>off\<close> and a missing rate apart; and the memory retriever comes before the token and
  the injection gate, and the token gate and the credential masker before the injection and the PII
  gate, which so see the final text.\<close>

theorem wire_gates_boots:
  assumes "makes mk"
  shows "case refused_engines g of
     i # rest \<Rightarrow> \<exists>e. wireGates mk g = Inl e \<and> de_code e = CodeInternal \<and> de_http_status e = 500 \<and>
       de_params e = [(''reason'', ''engine '' @ i @ '' has prefix-rewrite opt-in but is not ImpactHigh''), (''engine'', i)]
   | [] \<Rightarrow> \<exists>od c. wireGates mk g = Inr (od, c) \<and>
       gt_ID ` set (ch_pre c) = {n \<in> set pre_request_gates. gate_on g n} \<and>
       sorted_wrt (\<lambda>a b. (gt_ID b, gt_ID a) \<notin> set builtin_edges) (ch_pre c)"
proof (cases "refused_engines g")
  case Nil
  then obtain od c where "wireGates mk g = Inr (od, c)"
    "set (ch_pre c) = mk ` {q \<in> set (wired_profiles g). StageSet_Has (dc_stages (gp_declared q)) StagePreRequest}"
    "sorted_wrt (\<lambda>a b. (gt_ID b, gt_ID a) \<notin> set builtin_edges) (ch_pre c)"
    using wire_gates_chain [OF assms, of g] by blast
  moreover have "gt_ID (mk q) = gp_id q" for q
    using assms unfolding makes_def profile_def by (metis gate_profile.ext_inject gate_profile.surjective)
  ultimately have "gt_ID ` set (ch_pre c) = {n \<in> set pre_request_gates. gate_on g n}"
    unfolding wired_pre_ids [symmetric] by (simp add: image_image)
  with Nil \<open>wireGates mk g = Inr (od, c)\<close> \<open>sorted_wrt _ (ch_pre c)\<close> show ?thesis by simp
next
  case (Cons i rest)
  have "i \<noteq> ''''" using arg_cong [OF Cons, of set] by (auto simp: refused_engines_def split: if_splits)
  with Cons logger_registers [OF assms, of g] show ?thesis
    by (auto simp: wire_gates_eq engine_boot_error_def new_simps)
qed

section \<open>Who gets the body\<close>

text \<open>A chain delivers the body exactly when one of its pre-request gates asks for it; of the gates of the
  program these are all but the logger, the limiter and the memory writer, which asks for the body
  but acts only after the response.\<close>

lemma wired_body:
  assumes "makes mk" "wireGates mk g = Inr (od, c)"
  shows "ConsumesRequestBody c \<longleftrightarrow> (\<exists>q \<in> set (wired_profiles g).
    gp_id q \<notin> {''logger'', ''rate-limit'', ''memory-writer''})"
proof -
  have pre: "set (ch_pre c) = mk ` {q \<in> set (wired_profiles g). StageSet_Has (dc_stages (gp_declared q)) StagePreRequest}"
  proof -
    have "refused_engines g = []"
      using assms(2) by (auto simp: wire_gates_eq split: list.splits sum.splits)
    from wire_gates_chain [OF assms(1) this] assms(2) show ?thesis by auto
  qed
  have "gt_NeedsBody (mk q) = gp_needs_body q" for q
    using assms(1) unfolding makes_def profile_def by (metis gate_profile.ext_inject gate_profile.surjective)
  moreover have "list_all (\<lambda>q. (StageSet_Has (dc_stages (gp_declared q)) StagePreRequest \<and> gp_needs_body q = Some True)
      = (gp_id q \<notin> {''logger'', ''rate-limit'', ''memory-writer''})) (builtin_profiles p)" for p
    by (cases p; hypsubst) code_simp+
  ultimately show ?thesis
    using wired_builtin [of g] unfolding ConsumesRequestBody_def AnyConsumesBody_def list_ex_iff ConsumesBody_def set_map pre list_all_iff
    by fastforce
qed

section \<open>Witnesses\<close>

definition default_gates :: gates_features where
  "default_gates = \<lparr>gf_Enabled = (\<lambda>n. None), gf_TokenEngines = (\<lambda>n. None), gf_Token = True, gf_Security = True, gf_Memory = True,
     gf_PIIPolicy = '''', gf_InjectPolicy = '''', gf_Rate = 10, gf_Interval = 1000000000\<rparr>"

lemma makes_profiled: "makes profiled_gate"
  by (simp add: makes_def profile_def profiled_gate_def declares_def)

definition misled_gates :: gates_features where
  "misled_gates = default_gates\<lparr>gf_TokenEngines :=
     [''dedup-lines'' \<mapsto> \<lparr>te_Disabled = False, te_AllowPrefixRewrite = True\<rparr>]\<rparr>"

theorem wire_gates_boots_witness:
  "(\<exists>od c. wireGates profiled_gate default_gates = Inr (od, c) \<and> ''credential-masker'' \<in> gt_ID ` set (ch_pre c)) \<and>
   (\<exists>e. wireGates profiled_gate misled_gates = Inl e \<and> map_of (de_params e) ''engine'' = Some ''dedup-lines'')"
proof
  have "gate_on default_gates ''credential-masker''" by code_simp
  then have "''credential-masker'' \<in> {n \<in> set pre_request_gates. gate_on default_gates n}" by (simp add: pre_request_gates_def)
  moreover have "refused_engines default_gates = []" by code_simp
  ultimately show "\<exists>od c. wireGates profiled_gate default_gates = Inr (od, c) \<and> ''credential-masker'' \<in> gt_ID ` set (ch_pre c)"
    using wire_gates_boots [OF makes_profiled, of default_gates] by auto
  have "refused_engines misled_gates = [''dedup-lines'']" by code_simp
  with wire_gates_boots [OF makes_profiled, of misled_gates]
  show "\<exists>e. wireGates profiled_gate misled_gates = Inl e \<and> map_of (de_params e) ''engine'' = Some ''dedup-lines''"
    by auto
qed

text \<open>With the memory writer alone nobody before the dispatch asks for the body, so it is not delivered and
  the writer never sees a turn to store.\<close>

lemma writer_alone_gets_no_body:
  "case wireGates profiled_gate \<lparr>gf_Enabled = [''memory-writer'' \<mapsto> True], gf_TokenEngines = Map.empty, gf_Token = False, gf_Security = False,
     gf_Memory = False, gf_PIIPolicy = '''', gf_InjectPolicy = '''', gf_Rate = 0, gf_Interval = 0\<rparr> of
     Inl e \<Rightarrow> False | Inr (od, c) \<Rightarrow> map gt_ID (ch_post c) = [''logger'', ''memory-writer''] \<and> \<not> ConsumesRequestBody c"
  by code_simp

end
