(* ===== verification/Sse_Laws.thy ===== *)
theory Sse_Laws
  imports Sse
begin

text \<open>
  What the event stream keeps: the frames the gateway writes are read back by the decoder chunk by chunk,
  every receive after the first terminal one answers the same, and a receive returns unless the peer sends
  empty events for ever.
\<close>

section \<open>Reading lines\<close>

text \<open>A line that survives: it has no newline, does not end in a carriage return, and fits the buffer.\<close>

definition clean_line :: "string \<Rightarrow> bool" where
  "clean_line l \<longleftrightarrow> CHR 0x0A \<notin> set l \<and> (l \<noteq> [] \<longrightarrow> last l \<noteq> CHR 0x0D) \<and> int (length l) < maxSSEEventBytes"

definition uncancelled :: "sse_stream \<Rightarrow> bool" where
  "uncancelled s \<longleftrightarrow> (\<forall>n. ss_ctx s n = None)"

lemma uncancelled_update [simp]:
  "uncancelled (s\<lparr>ss_rest := r\<rparr>) = uncancelled s" "uncancelled (s\<lparr>ss_checks := n\<rparr>) = uncancelled s"
  "uncancelled (s\<lparr>ss_terminal := t\<rparr>) = uncancelled s" "uncancelled (s\<lparr>ss_elapsed := e\<rparr>) = uncancelled s"
  by (simp_all add: uncancelled_def)

lemma scan_clean:
  assumes l: "clean_line l"
  shows "scan_line (s\<lparr>ss_rest := l @ newline @ r\<rparr>) = (ScanLine l, s\<lparr>ss_rest := r\<rparr>)"
proof -
  from l have "first_line (l @ newline @ r) = l"
    by (subst first_line_def, subst takeWhile_append2) (auto simp: clean_line_def newline_def)
  with l show ?thesis by (auto simp: scan_line.simps Let_def clean_line_def drop_cr_def newline_def)
qed

lemma checks_first:
  "s\<lparr>ss_rest := r, ss_checks := n\<rparr> = s\<lparr>ss_checks := n, ss_rest := r\<rparr>"
  "arm_idle (s\<lparr>ss_rest := r, ss_checks := n\<rparr>) = s\<lparr>ss_checks := n, ss_elapsed := 0, ss_rest := r\<rparr>"
  by (simp_all add: arm_idle_def)

lemma read_line:
  assumes "uncancelled s" "clean_line l" "l \<noteq> []"
  shows "readEvent t acc saw (s\<lparr>ss_rest := l @ newline @ r\<rparr>) =
    readEvent t (take_field l acc) True (s\<lparr>ss_checks := ss_checks s + 1, ss_rest := r\<rparr>)"
  using assms scan_clean [OF assms(2), of r "s\<lparr>ss_checks := ss_checks s + 1\<rparr>"]
  by (subst readEvent.simps) (simp add: ctx_err_def uncancelled_def checks_first split: prod.splits)

lemma read_blank:
  assumes "uncancelled s"
  shows "readEvent t (ev, i, ls) True (s\<lparr>ss_rest := newline @ r\<rparr>) =
    Some (EventRead ev i (joinData ls), s\<lparr>ss_checks := ss_checks s + 1, ss_rest := r\<rparr>)"
  using assms scan_clean [of "[]" r "s\<lparr>ss_checks := ss_checks s + 1\<rparr>"]
  by (subst readEvent.simps) (simp add: ctx_err_def uncancelled_def checks_first clean_line_def maxSSEEventBytes_def)

lemma splitField_prefixes:
  "splitField (''data: '' @ d) = (''data'', d)" "splitField (''event: '' @ d) = (''event'', d)" "splitField (''id: '' @ d) = (''id'', d)"
  by (simp_all add: splitField_def)

section \<open>Round trip\<close>

text \<open>A chunk that can be told as frames: its texts are clean lines, it says something, its event is not the
  default one, and it is not the sentinel.\<close>

definition relayable :: "raw_chunk \<Rightarrow> bool" where
  "relayable ch \<longleftrightarrow> clean_line (''data: '' @ rw_data ch) \<and> clean_line (''event: '' @ rw_event ch) \<and> clean_line (''id: '' @ rw_id ch) \<and>
     rw_event ch \<noteq> ''message'' \<and> (rw_data ch \<noteq> '''' \<or> rw_event ch \<noteq> '''' \<or> rw_id ch \<noteq> '''') \<and>
     \<not> (rw_event ch = '''' \<and> IsSSEDone (rw_data ch))"

lemma take_field_prefixes:
  "take_field (''data: '' @ d) (ev, i, ls) = (ev, i, ls @ [d])" "take_field (''event: '' @ d) (ev, i, ls) = (d, i, ls)"
  "take_field (''id: '' @ d) (ev, i, ls) = (ev, d, ls)"
  unfolding take_field_def prod.case splitField_prefixes by simp_all

lemma read_frame:
  assumes "uncancelled s" "relayable ch"
  shows "\<exists>n. readEvent t ('''', '''', []) False (s\<lparr>ss_rest := writeSSEChunk ch @ r\<rparr>) =
    Some (EventRead (rw_event ch) (rw_id ch) (rw_data ch), s\<lparr>ss_checks := n, ss_rest := r\<rparr>)"
proof -
  have clean: "clean_line (''data: '' @ rw_data ch)" "clean_line (''event: '' @ rw_event ch)" "clean_line (''id: '' @ rw_id ch)"
    and ev: "rw_event ch \<noteq> ''message''" using assms(2) by (auto simp: relayable_def)
  let ?data = "\<lambda>k. s\<lparr>ss_checks := k, ss_rest := ''data: '' @ rw_data ch @ newline @ newline @ r\<rparr>"
  let ?ids = "\<lambda>k. s\<lparr>ss_checks := k, ss_rest := (if rw_id ch \<noteq> '''' then ''id: '' @ rw_id ch @ newline else '''') @
      ''data: '' @ rw_data ch @ newline @ newline @ r\<rparr>"
  let ?done = "\<lambda>ev i. \<lambda>n. Some (EventRead ev i (rw_data ch), s\<lparr>ss_checks := n, ss_rest := r\<rparr>)"
  have data: "\<exists>n. readEvent t (ev, i, []) saw (?data k) = ?done ev i n" for ev i saw k
  proof -
    have "readEvent t (ev, i, []) saw (?data k) =
        readEvent t (ev, i, [rw_data ch]) True (s\<lparr>ss_checks := k + 1, ss_rest := newline @ r\<rparr>)"
      using read_line [of "s\<lparr>ss_checks := k\<rparr>", OF _ clean(1), of t "(ev, i, [])" saw "newline @ r"] assms(1)
        take_field_prefixes(1) [of "rw_data ch" ev i "[]"] by simp
    also have "\<dots> = ?done ev i (k + 2)"
      using read_blank [of "s\<lparr>ss_checks := k + 1\<rparr>" t ev i "[rw_data ch]" r] assms(1) by (simp add: joinData_def)
    finally show ?thesis by blast
  qed
  have ids: "\<exists>n. readEvent t (ev, '''', []) saw (?ids k) = ?done ev (rw_id ch) n" for ev saw k
  proof (cases "rw_id ch = ''''")
    case False
    have "readEvent t (ev, '''', []) saw (?ids k) = readEvent t (ev, rw_id ch, []) True (?data (k + 1))"
      using read_line [of "s\<lparr>ss_checks := k\<rparr>", OF _ clean(3), of t "(ev, '''', [])" saw
        "''data: '' @ rw_data ch @ newline @ newline @ r"] assms(1) False take_field_prefixes(3) [of "rw_id ch" ev "''''" "[]"] by simp
    then show ?thesis using data [of ev "rw_id ch" True "k + 1"] by simp
  qed (use data [of ev "''''" saw k] in simp)
  show ?thesis
  proof (cases "rw_event ch = ''''")
    case True
    have "s\<lparr>ss_rest := writeSSEChunk ch @ r\<rparr> = ?ids (ss_checks s)" using True by (simp add: writeSSEChunk_def)
    then show ?thesis using ids [of "''''" False "ss_checks s"] True by simp
  next
    case False
    have "readEvent t ('''', '''', []) False (s\<lparr>ss_rest := writeSSEChunk ch @ r\<rparr>) =
        readEvent t (rw_event ch, '''', []) True (?ids (ss_checks s + 1))"
      using read_line [of s, OF _ clean(2), of t "('''', '''', [])" False
        "(if rw_id ch \<noteq> '''' then ''id: '' @ rw_id ch @ newline else '''') @ ''data: '' @ rw_data ch @ newline @ newline @ r"]
        assms(1) ev False take_field_prefixes(2) [of "rw_event ch" "''''" "''''" "[]"] by (simp add: writeSSEChunk_def)
    then show ?thesis using ids [of "rw_event ch" True "ss_checks s + 1"] by simp
  qed
qed

lemma recv_frame:
  assumes "uncancelled s" "relayable ch" "ss_terminal s = None"
  shows "\<exists>n. sse_Recv t (s\<lparr>ss_rest := writeSSEChunk ch @ r\<rparr>) =
    Some (RawChunk ch, s\<lparr>ss_elapsed := 0, ss_checks := n, ss_rest := r\<rparr>)"
proof -
  let ?s = "s\<lparr>ss_checks := ss_checks s + 1, ss_elapsed := 0\<rparr>"
  obtain n where n: "readEvent t ('''', '''', []) False (?s\<lparr>ss_rest := writeSSEChunk ch @ r\<rparr>) =
      Some (EventRead (rw_event ch) (rw_id ch) (rw_data ch), ?s\<lparr>ss_checks := n, ss_rest := r\<rparr>)"
    using read_frame [of ?s ch t r] assms(1,2) by auto
  have "sse_Recv t (s\<lparr>ss_rest := writeSSEChunk ch @ r\<rparr>) = Some (RawChunk ch, s\<lparr>ss_elapsed := 0, ss_checks := n, ss_rest := r\<rparr>)"
    using n assms by (auto simp: sse_Recv_def recv_loop.simps ctx_err_def uncancelled_def relayable_def checks_first(2))
  then show ?thesis by blast
qed

lemma recv_done:
  assumes "uncancelled s" "ss_terminal s = None"
  shows "map_option fst (sse_Recv t (s\<lparr>ss_rest := writeSSEDone @ r\<rparr>)) = Some RawEOF"
proof -
  let ?s = "s\<lparr>ss_checks := ss_checks s + 1, ss_elapsed := 0\<rparr>"
  have clean: "clean_line ''data: [DONE]''" by (simp add: clean_line_def maxSSEEventBytes_def)
  have "take_field ''data: [DONE]'' ('''', '''', []) = ('''', '''', [''[DONE]''])"
    using take_field_prefixes(1) [of "''[DONE]''" "''''" "''''" "[]"] by simp
  with read_line [of ?s, OF _ clean, of t "('''', '''', [])" False "newline @ r"]
    read_blank [of "?s\<lparr>ss_checks := ss_checks s + 2\<rparr>" t "''''" "''''" "[''[DONE]'']" r] assms(1)
  have "readEvent t ('''', '''', []) False (?s\<lparr>ss_rest := writeSSEDone @ r\<rparr>) =
      Some (EventRead '''' '''' ''[DONE]'', ?s\<lparr>ss_checks := ss_checks s + 3, ss_rest := r\<rparr>)"
    by (simp add: writeSSEDone_def joinData_def numeral_3_eq_3)
  moreover have "IsSSEDone ''[DONE]''" by code_simp
  ultimately show ?thesis
    using assms by (simp add: sse_Recv_def recv_loop.simps [of t "s\<lparr>ss_rest := writeSSEDone @ r\<rparr>"] ctx_err_def
      uncancelled_def record_terminal_def checks_first(2))
qed

text \<open>Receiving \<open>n\<close> times, as long as the receives return.\<close>

fun receive :: "(go_error \<Rightarrow> bool) \<Rightarrow> nat \<Rightarrow> sse_stream \<Rightarrow> raw_recv list" where
  "receive t 0 s = []"
| "receive t (Suc n) s = (case sse_Recv t s of None \<Rightarrow> [] | Some (r, s1) \<Rightarrow> r # receive t n s1)"

text \<open>C24: what the gateway writes is read back exactly by the decoder of the next hop: from the frames of any
  list of chunks that can be told, arrived and followed by the terminator, the receives of a stream
  whose context lives answer these chunks, in order, each with its data, event and id, and then a clean
  end, whatever bytes follow.\<close>

theorem sse_roundtrip:
  assumes "list_all relayable cs" and "uncancelled s" and "ss_terminal s = None"
    and "ss_rest s = concat (map writeSSEChunk cs) @ writeSSEDone @ r"
  shows "receive t (length cs + 1) s = map RawChunk cs @ [RawEOF]"
  using assms
proof (induction cs arbitrary: s)
  case Nil
  have "s = s\<lparr>ss_rest := writeSSEDone @ r\<rparr>" using Nil.prems(4) by simp
  with recv_done [OF Nil.prems(2,3), of t r] show ?case by (auto split: option.splits)
next
  case (Cons c cs)
  define rest where "rest = concat (map writeSSEChunk cs) @ writeSSEDone @ r"
  have "s = s\<lparr>ss_rest := writeSSEChunk c @ rest\<rparr>" using Cons.prems(4) by (simp add: rest_def)
  moreover obtain n where "sse_Recv t (s\<lparr>ss_rest := writeSSEChunk c @ rest\<rparr>) =
      Some (RawChunk c, s\<lparr>ss_elapsed := 0, ss_checks := n, ss_rest := rest\<rparr>)"
    using recv_frame [OF Cons.prems(2) _ Cons.prems(3), of c t rest] Cons.prems(1) by auto
  ultimately have "sse_Recv t s = Some (RawChunk c, s\<lparr>ss_elapsed := 0, ss_checks := n, ss_rest := rest\<rparr>)" by simp
  moreover have "receive t (length cs + 1) (s\<lparr>ss_elapsed := 0, ss_checks := n, ss_rest := rest\<rparr>) = map RawChunk cs @ [RawEOF]"
    using Cons.prems by (intro Cons.IH) (simp_all add: rest_def)
  ultimately show ?case by simp
qed

section \<open>Terminal outcomes\<close>

lemma record_terminal_facts:
  "record_terminal r s = (x, s1) \<Longrightarrow> ss_terminal s1 = Some x"
  by (auto simp: record_terminal_def split: option.splits)

lemma recv_loop_terminal:
  "recv_loop t s = Some x \<Longrightarrow> (\<exists>ch. fst x = RawChunk ch) \<or> ss_terminal (snd x) = Some (fst x)"
proof (induction rule: recv_loop.raw_induct [rotated, consumes 1, case_names step])
  case (step rec t s x)
  from step(2) show ?case
    by (auto dest: step(1) simp: record_terminal_def split: prod.splits option.splits event_read.splits if_splits bind_splits)
qed

text \<open>a stream ends once: after a receive that answered an end or an error, every later receive answers the
  same and reads nothing more.\<close>

theorem terminal_outcome_sticks:
  assumes "sse_Recv t s = Some (r, s1)" and "r = RawEOF \<or> r = RawError e"
  shows "sse_Recv t s1 = Some (r, s1)"
proof (cases "ss_terminal s")
  case None
  with assms recv_loop_terminal [of t s "(r, s1)"] have "ss_terminal s1 = Some r" by (auto simp: sse_Recv_def)
  then show ?thesis by (simp add: sse_Recv_def)
qed (use assms in \<open>auto simp: sse_Recv_def\<close>)

section \<open>Which receives return\<close>

text \<open>
  How much an event can still wait for is a number that every packet lowers: \<open>left s n\<close>.  It is the time
  the watcher leaves if there is a watcher, and the packets to come if the body ends.
\<close>

definition fires :: "sse_stream \<Rightarrow> duration \<Rightarrow> bool" where
  "fires s wait \<longleftrightarrow> ss_idleTimeout s > 0 \<and> ss_elapsed s + wait > ss_idleTimeout s"

text \<open>From \<open>s\<close> with \<open>n\<close> left to \<open>s'\<close> with no more left, and with less, in time or in bytes that arrived, if
  something was consumed.\<close>

definition moved :: "(sse_stream \<Rightarrow> nat \<Rightarrow> bool) \<Rightarrow> bool \<Rightarrow> sse_stream \<Rightarrow> nat \<Rightarrow> sse_stream \<Rightarrow> bool" where
  "moved left consumed s n s' \<longleftrightarrow> ss_terminal s' = ss_terminal s \<and>
     (\<exists>n'. left s' n' \<and> (n' < n \<or> n' = n \<and> (if consumed then length (ss_rest s') < length (ss_rest s)
        else length (ss_rest s') \<le> length (ss_rest s))))"

lemma moved_from:
  assumes "moved left consumed s1 n1 s'" "n1 < n \<or> n1 \<le> n \<and> length (ss_rest s1) \<le> length (ss_rest s)"
    "ss_terminal s1 = ss_terminal s"
  shows "moved left consumed s n s'"
proof -
  from assms(1) obtain n' where n': "left s' n'" "n' < n1 \<or> n' = n1 \<and> (if consumed then length (ss_rest s') < length (ss_rest s1)
        else length (ss_rest s') \<le> length (ss_rest s1))" "ss_terminal s' = ss_terminal s1" by (auto simp: moved_def)
  from n'(2) assms(2) have "n' < n \<or> n' = n \<and> (if consumed then length (ss_rest s') < length (ss_rest s)
        else length (ss_rest s') \<le> length (ss_rest s))" by (auto split: if_splits)
  with n'(1,3) assms(3) show ?thesis by (auto simp: moved_def)
qed

lemma moved_again:
  assumes "moved left consumed s1 n1 s'" "n1 < n \<or> n1 = n \<and> length (ss_rest s1) < length (ss_rest s)"
    "ss_terminal s1 = ss_terminal s"
  shows "moved left consumed' s n s'"
proof -
  from assms(1) obtain n' where "left s' n'" "n' < n1 \<or> n' = n1 \<and> length (ss_rest s') \<le> length (ss_rest s1)"
    "ss_terminal s' = ss_terminal s1" by (auto simp: moved_def split: if_splits)
  with assms(2,3) show ?thesis by (auto simp: moved_def)
qed

locale patient =
  fixes left :: "sse_stream \<Rightarrow> nat \<Rightarrow> bool"
  assumes left_packet: "left s n \<Longrightarrow> ss_peer s = Packet wait c cs p \<Longrightarrow> \<not> fires s wait \<Longrightarrow>
      \<exists>n' < n. left (s\<lparr>ss_rest := r, ss_peer := p, ss_elapsed := ss_elapsed s + wait\<rparr>) n'"
    and left_fire: "left s n \<Longrightarrow> \<exists>n' \<le> n. left (fire_idle s) n'"
    and left_silent: "left s n \<Longrightarrow> ss_peer s = Silent \<Longrightarrow> 0 < ss_idleTimeout s"
    and left_arm: "left s n \<Longrightarrow> \<exists>n'. left (arm_idle s) n'"
    and left_rest: "left s n \<Longrightarrow> left (s\<lparr>ss_rest := r\<rparr>) n"
    and left_checks: "left s n \<Longrightarrow> left (s\<lparr>ss_checks := k\<rparr>) n"
begin

text \<open>A scan does not block, and one that finds a line uses up some of that, or bytes that arrived.\<close>

lemma scan_line_progress:
  assumes "left s n" "scan_line s = (x, s')"
  shows "x \<noteq> ScanBlocked \<and> moved left (\<exists>l. x = ScanLine l) s n s'"
  using assms
proof (induction s arbitrary: n rule: scan_line.induct)
  case (1 s)
  let ?l = "first_line (ss_rest s)"
  note run = "1.prems"(2) [unfolded scan_line.simps [of s] Let_def]
  show ?case
  proof (cases "maxSSEEventBytes \<le> int (length ?l) \<or> length ?l < length (ss_rest s)")
    case True
    with run "1.prems"(1) left_rest [OF "1.prems"(1)] show ?thesis
      by (auto simp: moved_def intro!: exI [of _ n] split: if_splits)
  next
    case False
    then have go: "\<not> maxSSEEventBytes \<le> int (length ?l)" "\<not> length ?l < length (ss_rest s)" by auto
    note run = run [unfolded if_not_P [OF go(1)] if_not_P [OF go(2)]]
    obtain n1 where n1: "n1 \<le> n" "left (fire_idle s) n1" using left_fire [OF "1.prems"(1)] by blast
    have fired: "ss_rest (fire_idle s) = ss_rest s" "ss_terminal (fire_idle s) = ss_terminal s" by (simp_all add: fire_idle_def)
    show ?thesis
    proof (cases "ss_peer s")
      case (Packet wait c cs p)
      show ?thesis
      proof (cases "fires s wait")
        case True
        then have f: "ss_idleTimeout s > 0 \<and> ss_elapsed s + wait > ss_idleTimeout s" by (simp add: fires_def)
        from run Packet f have "scan_line (fire_idle s) = (x, s')" by simp
        from "1.IH"(1) [OF refl go Packet f n1(2) this] n1(1) fired show ?thesis by (auto elim: moved_from)
      next
        case quiet: False
        then have f: "\<not> (ss_idleTimeout s > 0 \<and> ss_elapsed s + wait > ss_idleTimeout s)" by (simp add: fires_def)
        let ?s1 = "s\<lparr>ss_rest := ss_rest s @ c # cs, ss_peer := p, ss_elapsed := ss_elapsed s + wait\<rparr>"
        obtain n2 where n2: "n2 < n" "left ?s1 n2" using left_packet [OF "1.prems"(1) Packet quiet] by blast
        from run Packet f have "scan_line ?s1 = (x, s')" by (simp split: if_splits)
        from "1.IH"(2) [OF refl go Packet f n2(2) this] n2(1) show ?thesis by (auto elim: moved_from)
      qed
    next
      case (Ends e)
      with run "1.prems"(1) left_rest [OF "1.prems"(1)] show ?thesis
        by (auto simp: moved_def intro!: exI [of _ n] split: if_splits body_end.splits)
    next
      case Silent
      with left_silent "1.prems"(1) have f: "0 < ss_idleTimeout s" by blast
      with run Silent have "scan_line (fire_idle s) = (x, s')" by simp
      from "1.IH"(3) [OF refl go Silent f n1(2) this] n1(1) fired show ?thesis by (auto elim: moved_from)
    qed
  qed
qed

text \<open>So every event read returns.\<close>

lemma readEvent_returns:
  assumes "left s n"
  shows "\<exists>er s'. readEvent t acc saw s = Some (er, s') \<and> moved left (\<not> saw \<and> (\<exists>a b c. er = EventRead a b c) \<and> snd (snd acc) = []) s n s'"
  using assms
proof (induction "(n, length (ss_rest s))" arbitrary: acc saw s n rule: wf_induct_rule [OF wf_lex_prod [OF wf_less_than wf_less_than]])
  case (1 s n acc saw)
  obtain ev i ls where acc: "acc = (ev, i, ls)" by (cases acc)
  obtain e s1 where c: "ctx_err s = (e, s1)" by fastforce
  then have s1: "s1 = s\<lparr>ss_checks := ss_checks s + 1\<rparr>" by (simp add: ctx_err_def)
  obtain x s2 where x: "scan_line s1 = (x, s2)" by fastforce
  note step = readEvent.simps [of t acc saw s, unfolded c acc prod.case x]
  have l1: "left s1 n" using left_checks [OF 1(2)] s1 by simp
  from scan_line_progress [OF this x] have ok: "x \<noteq> ScanBlocked" "moved left (\<exists>l. x = ScanLine l) s1 n s2" by auto
  have m: "moved left (\<exists>l. x = ScanLine l) s n s2" by (rule moved_from [OF ok(2)]) (simp_all add: s1)
  show ?case
  proof (cases e)
    case (Some err)
    with l1 show ?thesis by (auto simp: step acc moved_def s1)
  next
    case None
    show ?thesis
    proof (cases x)
      case (ScanLine line)
      show ?thesis
      proof (cases "line = []")
        case True
        with None ScanLine m show ?thesis by (auto simp: step acc moved_def)
      next
        case False
        from m ScanLine obtain n' where n': "left s2 n'" "n' < n \<or> n' = n \<and> length (ss_rest s2) < length (ss_rest s)"
          "ss_terminal s2 = ss_terminal s" by (auto simp: moved_def)
        then have "((n', length (ss_rest s2)), (n, length (ss_rest s))) \<in> less_than <*lex*> less_than" by auto
        from 1(1) [OF this n'(1), of "take_field line acc" True] obtain er s' where
          er: "readEvent t (take_field line acc) True s2 = Some (er, s')" "moved left False s2 n' s'" by auto
        from moved_again [OF er(2) n'(2,3)] er(1) None ScanLine False show ?thesis by (simp add: step acc)
      qed
    qed (use None ok(1) m in \<open>auto simp: step acc\<close>)
  qed
qed

end

text \<open>A peer whose packets take time, and a body that ends after at most \<open>n\<close> packets.\<close>

coinductive timed_peer :: "peer \<Rightarrow> bool" where
  packet: "0 < wait \<Longrightarrow> timed_peer p \<Longrightarrow> timed_peer (Packet wait c cs p)"
| ends: "timed_peer (Ends e)"
| silent: "timed_peer Silent"

inductive ends_after :: "nat \<Rightarrow> peer \<Rightarrow> bool" where
  ended: "ends_after n (Ends e)"
| packet: "ends_after n p \<Longrightarrow> ends_after (Suc n) (Packet wait c cs p)"

inductive_cases peer_packet: "timed_peer (Packet wait c cs p)"
inductive_cases ends_packet: "ends_after n (Packet wait c cs p)"
inductive_cases ends_silent: "ends_after n Silent"

text \<open>The time the watcher leaves, and the packets to come.\<close>

definition watch_left :: "sse_stream \<Rightarrow> nat \<Rightarrow> bool" where
  "watch_left s n \<longleftrightarrow> 0 < ss_idleTimeout s \<and> timed_peer (ss_peer s) \<and> n = nat (ss_idleTimeout s - ss_elapsed s)"

definition packets_left :: "sse_stream \<Rightarrow> nat \<Rightarrow> bool" where
  "packets_left s n \<longleftrightarrow> ends_after n (ss_peer s)"

interpretation watcher: patient watch_left
proof
  fix s n wait c cs p r
  assume "watch_left s n" "ss_peer s = Packet wait c cs p" "\<not> fires s wait"
  then show "\<exists>n' < n. watch_left (s\<lparr>ss_rest := r, ss_peer := p, ss_elapsed := ss_elapsed s + wait\<rparr>) n'"
    by (auto simp: watch_left_def fires_def elim!: peer_packet)
qed (auto simp: watch_left_def fire_idle_def arm_idle_def intro: timed_peer.ends)

interpretation body: patient packets_left
proof
  fix s n wait c cs p r
  assume "packets_left s n" "ss_peer s = Packet wait c cs p" "\<not> fires s wait"
  then show "\<exists>n' < n. packets_left (s\<lparr>ss_rest := r, ss_peer := p, ss_elapsed := ss_elapsed s + wait\<rparr>) n'"
    by (auto simp: packets_left_def elim!: ends_packet)
qed (auto simp: packets_left_def fire_idle_def arm_idle_def intro: ends_after.ended elim: ends_silent)

text \<open>Events without data, name and id follow one another for ever, each read to its end, and the context
  stays alive.\<close>

coinductive keeps_alive :: "(go_error \<Rightarrow> bool) \<Rightarrow> sse_stream \<Rightarrow> bool" for t where
  again: "ctx_err s = (None, s1) \<Longrightarrow> readEvent t ('''', '''', []) False (arm_idle s1) = Some (EventRead '''' '''' '''', s2) \<Longrightarrow>
    keeps_alive t s2 \<Longrightarrow> keeps_alive t s"

lemma keeps_alive_no_answer: "recv_loop t s = Some x \<Longrightarrow> \<not> keeps_alive t s"
proof (induction rule: recv_loop.raw_induct [rotated, consumes 1, case_names step])
  case (step rec t s x)
  show ?case
  proof
    assume "keeps_alive t s"
    then show False by cases (use step in auto)
  qed
qed

context patient
begin

text \<open>A receive that does not return reads one empty event and goes on from a state like the one before.\<close>

lemma no_answer_again:
  assumes "left s n" "recv_loop t s = None"
  shows "\<exists>s1 s2 n'. ctx_err s = (None, s1) \<and> left s2 n' \<and> recv_loop t s2 = None \<and>
    readEvent t ('''', '''', []) False (arm_idle s1) = Some (EventRead '''' '''' '''', s2)"
proof -
  obtain e s1 where c: "ctx_err s = (e, s1)" by fastforce
  then have e: "e = None" using assms(2) by (cases e) (auto simp: recv_loop.simps [of t s])
  from c assms(1) left_checks have "left s1 n" by (auto simp: ctx_err_def)
  then obtain n1 where "left (arm_idle s1) n1" using left_arm by blast
  from readEvent_returns [OF this, of t "('''', '''', [])" False] obtain er s2 n' where
    r: "readEvent t ('''', '''', []) False (arm_idle s1) = Some (er, s2)" "left s2 n'" by (auto simp: moved_def)
  have "er = EventRead '''' '''' '''' \<and> recv_loop t s2 = None"
    using assms(2) by (cases er) (auto simp: recv_loop.simps [of t s] c e r split: if_splits)
  with c e r show ?thesis by blast
qed

lemma no_answer_keeps_alive:
  assumes "left s n" "recv_loop t s = None"
  shows "keeps_alive t s"
  using assms by (coinduction arbitrary: s n) (metis no_answer_again)

lemma answers_iff:
  assumes "left s n"
  shows "(\<exists>x. recv_loop t s = Some x) \<longleftrightarrow> \<not> keeps_alive t s"
  using no_answer_keeps_alive [OF assms, of t] keeps_alive_no_answer [of t s] by (cases "recv_loop t s") auto

end

text \<open>The empty events of a body that ends come to an end.\<close>

lemma ending_body_answers:
  assumes "ends_after n (ss_peer s)"
  shows "\<exists>x. recv_loop t s = Some x"
  using assms
proof (induction "(n, length (ss_rest s))" arbitrary: s n rule: wf_induct_rule [OF wf_lex_prod [OF wf_less_than wf_less_than]])
  case (1 s n)
  show ?case
  proof (rule ccontr)
    assume "\<nexists>x. recv_loop t s = Some x"
    then have none: "recv_loop t s = None" by (cases "recv_loop t s") auto
    have left: "packets_left s n" using 1(2) by (simp add: packets_left_def)
    from body.no_answer_again [OF left none] obtain s1 s2 where a: "ctx_err s = (None, s1)" "recv_loop t s2 = None"
      "readEvent t ('''', '''', []) False (arm_idle s1) = Some (EventRead '''' '''' '''', s2)" by blast
    then have "packets_left (arm_idle s1) n" "length (ss_rest (arm_idle s1)) = length (ss_rest s)"
      using left by (auto simp: ctx_err_def arm_idle_def packets_left_def)
    with body.readEvent_returns [OF this(1), of t "('''', '''', [])" False] a(3)
    obtain n' where "packets_left s2 n'" "n' < n \<or> n' = n \<and> length (ss_rest s2) < length (ss_rest s)"
      by (auto simp: moved_def)
    with 1(1) [of n' s2] a(2) show False by (auto simp: packets_left_def)
  qed
qed

text \<open>C25: when a receive returns.  If the body ends, every receive does: with a chunk, the end or an error.
  With an idle timeout, and a peer whose packets each take some time, every receive returns, whatever
  the peer sends or does not send and whenever the context is cancelled, with one exception: a peer that
  sends events without data, name and id for ever, each complete within the timeout, on a live context.
  The timeout bounds one event, not a receive.\<close>

theorem recv_returns:
  assumes "ss_terminal s = None"
    and "0 < ss_idleTimeout s \<and> timed_peer (ss_peer s) \<or> (\<exists>n. ends_after n (ss_peer s))"
  shows "((\<exists>r s'. sse_Recv t s = Some (r, s')) \<longleftrightarrow> \<not> keeps_alive t s) \<and>
    ((\<exists>n. ends_after n (ss_peer s)) \<longrightarrow> (\<exists>r s'. sse_Recv t s = Some (r, s')))"
proof -
  have recv: "sse_Recv t s = recv_loop t s" using assms(1) by (simp add: sse_Recv_def)
  from assms(2) have "watch_left s (nat (ss_idleTimeout s - ss_elapsed s)) \<or> (\<exists>n. packets_left s n)"
    by (auto simp: watch_left_def packets_left_def)
  then have "(\<exists>x. recv_loop t s = Some x) \<longleftrightarrow> \<not> keeps_alive t s"
    using watcher.answers_iff body.answers_iff by blast
  with ending_body_answers [of _ s t] show ?thesis by (auto simp: recv)
qed

section \<open>What does not survive\<close>

definition feed :: "string \<Rightarrow> sse_stream" where
  "feed bytes = \<lparr>ss_rest = bytes, ss_peer = Ends EndEOF, ss_elapsed = 0, ss_idleTimeout = 0, ss_ctx = (\<lambda>_. None),
     ss_checks = 0, ss_terminal = None, ss_closed = False, ss_idleFired = False\<rparr>"

definition told :: "raw_recv \<Rightarrow> string" where
  "told r = (case r of RawChunk ch \<Rightarrow> writeSSEChunk ch | _ \<Rightarrow> '''')"

definition first_told :: "string \<Rightarrow> string option" where
  "first_told bytes = map_option (told \<circ> fst) (sse_Recv (\<lambda>_. False) (feed bytes))"

text \<open>The decoder joins the data lines of an event, the gateway writes the joined text as it is: after one hop
  the second line is no data line any more and is lost at the next.\<close>

lemma multi_line_data_lost:
  "first_told (''data: a'' @ newline @ ''data: b'' @ newline @ newline) =
     Some (''data: a'' @ newline @ ''b'' @ newline @ newline) \<and>
   first_told (''data: a'' @ newline @ ''b'' @ newline @ newline) = Some (''data: a'' @ newline @ newline)"
  by code_simp

text \<open>The error frame of a gateway upstream is a chunk like any other for this decoder, and the stream after it
  ends cleanly.\<close>

lemma error_frame_ends_cleanly:
  "map (\<lambda>r. case r of RawChunk ch \<Rightarrow> rw_event ch | RawEOF \<Rightarrow> ''EOF'' | _ \<Rightarrow> '''')
     (receive (\<lambda>_. False) 2 (feed (writeSSEError ''{}''))) = [''error'', ''EOF'']"
  by code_simp

text \<open>A peer that sends a comment and a blank line every 15 seconds keeps a receive with an idle timeout of 30
  seconds from returning.\<close>

primcorec heartbeat :: peer where
  "heartbeat = Packet 15000000000 (CHR '':'') (newline @ newline) heartbeat"

definition beating :: "nat \<Rightarrow> duration \<Rightarrow> sse_stream" where
  "beating k e = (feed '''')\<lparr>ss_peer := heartbeat, ss_idleTimeout := 30000000000, ss_elapsed := e, ss_checks := k\<rparr>"

lemma heartbeat_timed: "timed_peer heartbeat"
proof (coinduction)
  case timed_peer
  then show ?case by (subst heartbeat.code) simp
qed

lemma heartbeat_step: "(case heartbeat of Packet wait c cs p \<Rightarrow> f wait c cs p | Ends e \<Rightarrow> g e | Silent \<Rightarrow> h) =
    f 15000000000 (CHR '':'') (newline @ newline) heartbeat"
  by (subst heartbeat.code) simp

lemma beating_event:
  "readEvent t ('''', '''', []) False (beating k 0) = Some (EventRead '''' '''' '''', beating (k + 2) 15000000000)"
proof -
  let ?b = "\<lambda>n. (beating n 15000000000)\<lparr>ss_rest := newline\<rparr>"
  have "scan_line (beating (k + 1) 0) = scan_line ((beating (k + 1) 15000000000)\<lparr>ss_rest := '':'' @ newline @ newline\<rparr>)"
    by (subst scan_line.simps)
      (simp add: beating_def feed_def first_line_def maxSSEEventBytes_def heartbeat_step)
  also have "\<dots> = (ScanLine '':'', ?b (k + 1))"
    by (rule scan_clean) (simp add: clean_line_def maxSSEEventBytes_def)
  finally have "readEvent t ('''', '''', []) False (beating k 0) = readEvent t ('''', '''', []) True (?b (k + 1))"
    by (subst readEvent.simps) (simp add: ctx_err_def beating_def feed_def take_field_def)
  also have "\<dots> = Some (EventRead '''' '''' '''', beating (k + 2) 15000000000)"
    using read_blank [of "beating (k + 1) 15000000000" t "''''" "''''" "[]" "''''"]
    by (simp add: uncancelled_def beating_def feed_def joinData_def)
  finally show ?thesis .
qed

lemma beating_keeps_alive: "keeps_alive t (beating k e)"
proof (coinduction arbitrary: k e)
  case keeps_alive
  have "ctx_err (beating k e) = (None, beating (k + 1) e)" "arm_idle (beating (k + 1) e) = beating (k + 1) 0"
    by (simp_all add: ctx_err_def arm_idle_def beating_def feed_def)
  then show ?case using beating_event [of t "k + 1"] by auto
qed

section \<open>Witnesses\<close>

definition two_chunks :: "raw_chunk list" where
  "two_chunks = [\<lparr>rw_data = ''{}'', rw_event = '''', rw_id = ''7''\<rparr>, \<lparr>rw_data = '''', rw_event = ''ping'', rw_id = ''''\<rparr>]"

theorem sse_roundtrip_witness:
  "receive (\<lambda>_. False) 3 (feed (concat (map writeSSEChunk two_chunks) @ writeSSEDone)) = map RawChunk two_chunks @ [RawEOF]"
proof -
  have "list_all relayable two_chunks" by code_simp
  then show ?thesis
    using sse_roundtrip [of two_chunks "feed (concat (map writeSSEChunk two_chunks) @ writeSSEDone)" "[]" "\<lambda>_. False"]
    by (simp add: feed_def uncancelled_def two_chunks_def eval_nat_numeral)
qed

theorem terminal_outcome_sticks_witness:
  "\<exists>s1. sse_Recv (\<lambda>_. False) (feed '''') = Some (RawEOF, s1) \<and> sse_Recv (\<lambda>_. False) s1 = Some (RawEOF, s1)"
proof -
  have "map_option fst (sse_Recv (\<lambda>_. False) (feed '''')) = Some RawEOF" by code_simp
  then obtain s1 where "sse_Recv (\<lambda>_. False) (feed '''') = Some (RawEOF, s1)" by auto
  with terminal_outcome_sticks [OF this] show ?thesis by blast
qed

text \<open>A peer that falls silent in the middle of an event is timed out; the heartbeat is not.\<close>

definition stalled :: sse_stream where
  "stalled = (feed ''data: x'')\<lparr>ss_peer := Silent, ss_idleTimeout := 1000\<rparr>"

theorem recv_returns_witness:
  "(\<exists>r s'. sse_Recv (\<lambda>_. False) stalled = Some (r, s')) \<and> sse_Recv (\<lambda>_. False) (beating 0 0) = None"
proof
  have "map_option (\<lambda>x. case fst x of EventFail e \<Rightarrow> True | _ \<Rightarrow> False)
      (readEvent (\<lambda>_. False) ('''', '''', []) False (arm_idle (snd (ctx_err stalled)))) = Some True" by code_simp
  then have "\<not> keeps_alive (\<lambda>_. False) stalled" by (auto simp: keeps_alive.simps [of _ stalled])
  moreover have "ss_terminal stalled = None" "0 < ss_idleTimeout stalled" "timed_peer (ss_peer stalled)"
    by (simp_all add: stalled_def feed_def timed_peer.silent)
  ultimately show "\<exists>r s'. sse_Recv (\<lambda>_. False) stalled = Some (r, s')" using recv_returns by blast
  have "ss_terminal (beating 0 0) = None" "0 < ss_idleTimeout (beating 0 0)" "timed_peer (ss_peer (beating 0 0))"
    by (simp_all add: beating_def feed_def heartbeat_timed)
  with recv_returns [of "beating 0 0" "\<lambda>_. False"] beating_keeps_alive [of "\<lambda>_. False" 0 0]
  show "sse_Recv (\<lambda>_. False) (beating 0 0) = None" by (cases "sse_Recv (\<lambda>_. False) (beating 0 0)") auto
qed

end
