(* ===== verification/Netip.thy ===== *)
theory Netip
  imports Heimdall_Prelude "HOL-Library.Word"
begin

unbundle bit_operations_syntax

text \<open>
  IP addresses as \<open>net/netip\<close> has them: the value with its IPv4 or IPv6 kind and zone, the classification
  methods, \<open>ParseAddr\<close> and \<open>String\<close>, and \<open>net.SplitHostPort\<close>.  An IPv4 address is a 32-bit word, an IPv6 address
  a 128-bit word with a zone, which is empty for none.
\<close>

datatype addr = AddrInvalid | Addr4 "32 word" | Addr6 "128 word" string

section \<open>Bytes and groups\<close>

definition v4 :: "32 word \<Rightarrow> nat \<Rightarrow> 8 word" where
  "v4 w i = ucast (drop_bit (24 - 8 * i) w)"

definition v6u16 :: "128 word \<Rightarrow> nat \<Rightarrow> 16 word" where
  "v6u16 w i = ucast (drop_bit (112 - 16 * i) w)"

text \<open>The address of four bytes and of eight groups.\<close>

definition addr4_of :: "nat list \<Rightarrow> 32 word" where
  "addr4_of bs = of_nat (foldl (\<lambda>a b. a * 256 + b) 0 bs)"

definition addr6_of :: "nat list \<Rightarrow> 128 word" where
  "addr6_of gs = of_nat (foldl (\<lambda>a g. a * 65536 + g) 0 gs)"

section \<open>Classification\<close>

text \<open>\<open>::ffff:0:0/96\<close>.\<close>

definition Is4In6 :: "addr \<Rightarrow> bool" where
  "Is4In6 a = (case a of Addr6 w z \<Rightarrow> drop_bit 32 w = 0xffff | _ \<Rightarrow> False)"

definition Unmap :: "addr \<Rightarrow> addr" where
  "Unmap a = (case a of Addr6 w z \<Rightarrow> if Is4In6 a then Addr4 (ucast w) else a | _ \<Rightarrow> a)"

definition IsLoopback :: "addr \<Rightarrow> bool" where
  "IsLoopback a = (case Unmap a of AddrInvalid \<Rightarrow> False | Addr4 w \<Rightarrow> v4 w 0 = 127 | Addr6 w z \<Rightarrow> w = 1)"

definition IsPrivate :: "addr \<Rightarrow> bool" where
  "IsPrivate a = (case Unmap a of AddrInvalid \<Rightarrow> False
    | Addr4 w \<Rightarrow> v4 w 0 = 10 \<or> (v4 w 0 = 172 \<and> v4 w 1 AND 0xf0 = 16) \<or> (v4 w 0 = 192 \<and> v4 w 1 = 168)
    | Addr6 w z \<Rightarrow> v6u16 w 0 AND 0xfe00 = 0xfc00)"

definition IsLinkLocalUnicast :: "addr \<Rightarrow> bool" where
  "IsLinkLocalUnicast a = (case Unmap a of AddrInvalid \<Rightarrow> False
    | Addr4 w \<Rightarrow> v4 w 0 = 169 \<and> v4 w 1 = 254 | Addr6 w z \<Rightarrow> v6u16 w 0 AND 0xffc0 = 0xfe80)"

definition IsLinkLocalMulticast :: "addr \<Rightarrow> bool" where
  "IsLinkLocalMulticast a = (case Unmap a of AddrInvalid \<Rightarrow> False
    | Addr4 w \<Rightarrow> v4 w 0 = 224 \<and> v4 w 1 = 0 \<and> v4 w 2 = 0 | Addr6 w z \<Rightarrow> v6u16 w 0 AND 0xff0f = 0xff02)"

definition IsInterfaceLocalMulticast :: "addr \<Rightarrow> bool" where
  "IsInterfaceLocalMulticast a = (case Unmap a of Addr6 w z \<Rightarrow> v6u16 w 0 AND 0xff0f = 0xff01 | _ \<Rightarrow> False)"

definition IsMulticast :: "addr \<Rightarrow> bool" where
  "IsMulticast a = (case Unmap a of AddrInvalid \<Rightarrow> False
    | Addr4 w \<Rightarrow> v4 w 0 AND 0xf0 = 0xe0 | Addr6 w z \<Rightarrow> drop_bit 8 (v6u16 w 0) = 0xff)"

text \<open>A comparison of values, zone included.\<close>

definition IsUnspecified :: "addr \<Rightarrow> bool" where
  "IsUnspecified a \<longleftrightarrow> a = Addr4 0 \<or> a = Addr6 0 ''''"

section \<open>Parsing\<close>

text \<open>The parts between the occurrences of a separator.\<close>

fun split_on :: "char \<Rightarrow> string \<Rightarrow> string list" where
  "split_on d [] = [[]]"
| "split_on d (c # cs) = (if c = d then [] # split_on d cs
     else (case split_on d cs of [] \<Rightarrow> [[c]] | p # ps \<Rightarrow> (c # p) # ps))"

definition is_digit :: "char \<Rightarrow> bool" where
  "is_digit c \<longleftrightarrow> 48 \<le> (of_char c :: nat) \<and> (of_char c :: nat) \<le> 57"

text \<open>A field of a dotted address: digits without a leading zero, at most 255.\<close>

definition octet :: "string \<Rightarrow> nat option" where
  "octet s = (if s \<noteq> [] \<and> list_all is_digit s \<and> (length s > 1 \<longrightarrow> hd s \<noteq> CHR ''0'') \<and> read_nat s \<le> 255
     then Some (read_nat s) else None)"

definition parseIPv4Fields :: "string \<Rightarrow> nat list option" where
  "parseIPv4Fields s = (case map octet (split_on (CHR ''.'') s) of
      [Some a, Some b, Some c, Some d] \<Rightarrow> Some [a, b, c, d] | _ \<Rightarrow> None)"

definition hex_digit :: "char \<Rightarrow> nat option" where
  "hex_digit c = (let n = of_char c in
     if 48 \<le> n \<and> n \<le> 57 then Some (n - 48)
     else if 97 \<le> n \<and> n \<le> 102 then Some (n - 87)
     else if 65 \<le> n \<and> n \<le> 70 then Some (n - 55) else None)"

definition is_hex :: "char \<Rightarrow> bool" where "is_hex c \<longleftrightarrow> hex_digit c \<noteq> None"

definition read_hex :: "string \<Rightarrow> nat" where
  "read_hex s = foldl (\<lambda>acc c. 16 * acc + (case hex_digit c of Some d \<Rightarrow> d | None \<Rightarrow> 0)) 0 s"

text \<open>The loop of \<open>parseIPv6\<close>: the groups read so far, where the ellipsis stands among them, the rest of the
  text.  It stops with eight groups or at the end of the text; the flag of the loop in the code, that
  some text is left, is the last component.\<close>

function parse_groups :: "nat list \<Rightarrow> nat option \<Rightarrow> string \<Rightarrow> (nat list \<times> nat option \<times> string) option" where
  "parse_groups gs el s =
     (if length gs \<ge> 8 then Some (gs, el, s)
      else (let h = takeWhile is_hex s; r = drop (length h) s in
        if h = [] \<or> length h > 4 then None
        else if r \<noteq> [] \<and> hd r = CHR ''.'' then
          (if el = None \<and> length gs \<noteq> 6 \<or> length gs + 2 > 8 then None
           else (case parseIPv4Fields s of
               Some [a, b, c, d] \<Rightarrow> Some (gs @ [a * 256 + b, c * 256 + d], el, [])
             | _ \<Rightarrow> None))
        else (let gs1 = gs @ [read_hex h] in
          if r = [] then Some (gs1, el, [])
          else if hd r \<noteq> CHR '':'' \<or> length r = 1 then None
          else (let s1 = tl r in
            if hd s1 = CHR '':'' then
              (if el \<noteq> None then None
               else if tl s1 = [] then Some (gs1, Some (length gs1), [])
               else parse_groups gs1 (Some (length gs1)) (tl s1))
            else parse_groups gs1 el s1))))"
  by pat_completeness auto
termination
  by (relation "measure (\<lambda>(gs, el, s). 8 - length gs)") auto

declare parse_groups.simps [simp del]

text \<open>The missing groups are zeros at the ellipsis.\<close>

definition expand_groups :: "nat list \<times> nat option \<times> string \<Rightarrow> nat list option" where
  "expand_groups r = (case r of (gs, el, rest) \<Rightarrow>
     if rest \<noteq> [] then None
     else (case el of
         None \<Rightarrow> if length gs < 8 then None else Some gs
       | Some e \<Rightarrow> if length gs < 8 then Some (take e gs @ replicate (8 - length gs) 0 @ drop e gs) else None))"

definition parseIPv6 :: "string \<Rightarrow> addr option" where
  "parseIPv6 s = (let t = takeWhile (\<lambda>c. c \<noteq> CHR ''%'') s; z = drop (length t + 1) s in
     if length t < length s \<and> z = '''' then None
     else if take 2 t = ''::'' then
       (if length t = 2 then Some (Addr6 0 z)
        else map_option (\<lambda>gs. Addr6 (addr6_of gs) z) (Option.bind (parse_groups [] (Some 0) (drop 2 t)) expand_groups))
     else map_option (\<lambda>gs. Addr6 (addr6_of gs) z) (Option.bind (parse_groups [] None t) expand_groups))"

text \<open>\<open>ParseAddr\<close> decides by the first of the three marks.\<close>

definition ParseAddr :: "string \<Rightarrow> addr option" where
  "ParseAddr s = (case dropWhile (\<lambda>c. c \<notin> {CHR ''.'', CHR '':'', CHR ''%''}) s of
      [] \<Rightarrow> None
    | c # _ \<Rightarrow>
        if c = CHR ''.'' then map_option (\<lambda>bs. Addr4 (addr4_of bs)) (parseIPv4Fields s)
        else if c = CHR '':'' then parseIPv6 s
        else None)"

section \<open>Printing\<close>

definition hex_char :: "nat \<Rightarrow> char" where
  "hex_char d = (if d < 10 then char_of (48 + d) else char_of (87 + d))"

fun show_hex :: "nat \<Rightarrow> string" where
  "show_hex n = (if n < 16 then [hex_char n] else show_hex (n div 16) @ [hex_char (n mod 16)])"

declare show_hex.simps [simp del]

definition bytes_of :: "32 word \<Rightarrow> nat list" where
  "bytes_of w = map (\<lambda>i. unat (v4 w i)) [0..<4]"

definition groups_of :: "128 word \<Rightarrow> nat list" where
  "groups_of w = map (\<lambda>i. unat (v6u16 w i)) [0..<8]"

definition string4 :: "32 word \<Rightarrow> string" where
  "string4 w = concat (map (\<lambda>i. (if i = 0 then [] else ''.'') @ show_nat (unat (v4 w i))) [0..<4])"

text \<open>The longest run of at least two zero groups, the first one of that length.\<close>

fun zero_run :: "nat \<Rightarrow> nat list \<Rightarrow> nat \<times> nat \<Rightarrow> nat \<times> nat" where
  "zero_run i [] best = best"
| "zero_run i (g # gs) best =
     (let j = i + length (takeWhile (\<lambda>x. x = 0) (g # gs)) in
      zero_run (i + 1) gs (if j - i \<ge> 2 \<and> j - i > snd best - fst best then (i, j) else best))"

fun colons :: "nat list \<Rightarrow> string" where
  "colons [] = []"
| "colons [g] = show_hex g"
| "colons (g # h # gs) = show_hex g @ CHR '':'' # colons (h # gs)"

text \<open>With no run, the eight groups; otherwise the run is written as the ellipsis.\<close>

definition string6 :: "128 word \<Rightarrow> string" where
  "string6 w = (let gs = groups_of w; (a, b) = zero_run 0 gs (8, 8) in
     if a = 8 then colons gs else colons (take a gs) @ ''::'' @ colons (drop b gs))"

text \<open>\<open>net.IP.String\<close> with a zone, as a TCP address shows it: a mapped address appears as its IPv4 form.\<close>

definition zoned :: "string \<Rightarrow> string \<Rightarrow> string" where
  "zoned s z = (if z = '''' then s else s @ ''%'' @ z)"

definition ip_string :: "addr \<Rightarrow> string" where
  "ip_string a = (case a of AddrInvalid \<Rightarrow> '''' | Addr4 w \<Rightarrow> string4 w
    | Addr6 w z \<Rightarrow> zoned (if Is4In6 a then string4 (ucast w) else string6 w) z)"

section \<open>Host and port\<close>

definition last_colon :: "string \<Rightarrow> nat option" where
  "last_colon s = (if CHR '':'' \<in> set s then Some (length s - 1 - length (takeWhile (\<lambda>c. c \<noteq> CHR '':'') (rev s))) else None)"

text \<open>\<open>net.SplitHostPort\<close>; the errors are not told apart.\<close>

definition SplitHostPort :: "string \<Rightarrow> (string \<times> string) option" where
  "SplitHostPort s = (case last_colon s of None \<Rightarrow> None
     | Some i \<Rightarrow>
         if hd s = CHR ''['' then
           (let e = length (takeWhile (\<lambda>c. c \<noteq> CHR '']'') s) in
            if e + 1 = i \<and> e < length s then
              (let host = take (e - 1) (drop 1 s) in
               if CHR ''['' \<in> set (drop 1 s) \<or> CHR '']'' \<in> set (drop (e + 1) s) then None
               else Some (host, drop (i + 1) s))
            else None)
         else
           (let host = take i s in
            if CHR '':'' \<in> set host \<or> CHR ''['' \<in> set s \<or> CHR '']'' \<in> set s then None
            else Some (host, drop (i + 1) s)))"

definition JoinHostPort :: "string \<Rightarrow> string \<Rightarrow> string" where
  "JoinHostPort host port =
     (if CHR '':'' \<in> set host then ''['' @ host @ '']:'' @ port else host @ '':'' @ port)"

text \<open>\<open>strings.Trim(s, "[]")\<close>.\<close>

definition trim_brackets :: "string \<Rightarrow> string" where
  "trim_brackets s = (let br = (\<lambda>c. c = CHR ''['' \<or> c = CHR '']'') in rev (dropWhile br (rev (dropWhile br s))))"

end
