(* ===== verification/Egress.thy ===== *)
theory Egress
  imports Executor Netip
begin

text \<open>
  The outbound policy of \<open>internal/egress/policy.go\<close>: the destinations that are refused, the checks of a
  configured URL, the hooks the policy puts into the HTTP client (dial control, proxy, CONNECT, redirects)
  and, around them, the part of \<open>net/http\<close>'s client that decides when the hooks run.  The URL parser, the
  resolver, TCP, and the exchange on an open connection are ports.  The world of the client is the world of
  these ports together with the addresses that were connected to.
\<close>

section \<open>URLs\<close>

text \<open>What the code reads of a \<open>url.URL\<close>: the scheme, whether there is user information, the host with its
  port, and the redacted text.\<close>

record url_parts =
  up_Scheme :: string
  up_User :: bool
  up_Host :: string
  up_Redacted :: string

type_synonym url_parser = "string \<Rightarrow> go_error + url_parts"

text \<open>\<open>splitHostPort\<close> of \<open>net/url\<close>: an all-digit suffix after the last colon is the port, brackets are
  dropped.\<close>

definition url_host_port :: "string \<Rightarrow> string \<times> string" where
  "url_host_port s = (let (host, port) = (case last_colon s of
        None \<Rightarrow> (s, '''')
      | Some i \<Rightarrow> if list_all is_digit (drop (i + 1) s) then (take i s, drop (i + 1) s) else (s, '''')) in
    (if host \<noteq> [] \<and> hd host = CHR ''['' \<and> last host = CHR '']'' then take (length host - 2) (drop 1 host) else host, port))"

definition Hostname :: "url_parts \<Rightarrow> string" where
  "Hostname u = fst (url_host_port (up_Host u))"

text \<open>The port a connection is made to: the one of the URL or the scheme's.\<close>

definition dial_port :: "url_parts \<Rightarrow> string" where
  "dial_port u = (let p = snd (url_host_port (up_Host u)) in
     if p \<noteq> '''' then p
     else if map lower (up_Scheme u) = ''https'' then ''443''
     else if map lower (up_Scheme u) = ''socks5'' then ''1080'' else ''80'')"

text \<open>\<open>strings.EqualFold\<close> against an ASCII text: beside the case of letters it identifies the long s and the
  Kelvin sign with their letters.\<close>

fun fold_ascii :: "string \<Rightarrow> string" where
  "fold_ascii (c # d # e # s) =
     (if c = char_of (0xC5 :: nat) \<and> d = char_of (0xBF :: nat) then CHR ''s'' # fold_ascii (e # s)
      else if c = char_of (0xE2 :: nat) \<and> d = char_of (0x84 :: nat) \<and> e = char_of (0xAA :: nat) then CHR ''k'' # fold_ascii s
      else lower c # fold_ascii (d # e # s))"
| "fold_ascii [c, d] =
     (if c = char_of (0xC5 :: nat) \<and> d = char_of (0xBF :: nat) then [CHR ''s''] else [lower c, lower d])"
| "fold_ascii [c] = [lower c]"
| "fold_ascii [] = []"

definition EqualFold :: "string \<Rightarrow> string \<Rightarrow> bool" where
  "EqualFold s t \<longleftrightarrow> fold_ascii s = fold_ascii t"

section \<open>Specification of a client\<close>

record egress_spec =
  es_BaseURL :: string
  es_AllowLoopback :: bool
  es_ResponseHeaderTimeout :: duration
  es_IdleTimeout :: duration
  es_MaxResponseBytes :: int
  es_FollowRedirects :: bool
  es_MaxRedirects :: int

definition egressInvalid :: "string \<Rightarrow> domain_error" where
  "egressInvalid reason = New CodeProviderInvalid [WithHTTPStatus 500, WithParams [(''reason'', ''egress spec: '' @ reason)]]"

definition spec_Validate :: "egress_spec \<Rightarrow> domain_error option" where
  "spec_Validate s =
     (if es_BaseURL s = '''' then Some (egressInvalid ''base url is empty'')
      else if es_ResponseHeaderTimeout s < 0 then Some (egressInvalid ''response header timeout is negative'')
      else if es_IdleTimeout s < 0 then Some (egressInvalid ''idle timeout is negative'')
      else if es_MaxResponseBytes s < 0 then Some (egressInvalid ''max response bytes is negative'')
      else if es_FollowRedirects s \<and> es_MaxRedirects s \<le> 0 then Some (egressInvalid ''follow redirects requires a positive max redirects'')
      else if \<not> es_FollowRedirects s \<and> es_MaxRedirects s \<noteq> 0 then Some (egressInvalid ''max redirects is set but follow redirects is off'')
      else None)"

section \<open>Checks\<close>

definition sanitize :: "url_parser \<Rightarrow> string \<Rightarrow> string" where
  "sanitize up raw = (case up raw of Inl e \<Rightarrow> ''[invalid url]'' | Inr u \<Rightarrow> up_Redacted u)"

definition insecure :: "error_option list \<Rightarrow> string \<Rightarrow> domain_error" where
  "insecure opts shown = New CodeUpstreamInsecureURL ([WithHTTPStatus 500, WithScope ScopeRequest] @ opts @ [WithParams [(''url'', shown)]])"

definition IsLoopbackLiteral :: "string \<Rightarrow> bool" where
  "IsLoopbackLiteral host = (case ParseAddr (trim_brackets host) of None \<Rightarrow> False | Some ip \<Rightarrow> IsLoopback ip)"

definition ValidateUpstreamURL :: "url_parser \<Rightarrow> string \<Rightarrow> domain_error + bool" where
  "ValidateUpstreamURL up raw = (case up raw of
      Inl e \<Rightarrow> Inl (insecure [WithCause e] (sanitize up raw))
    | Inr u \<Rightarrow>
        (let host = Hostname u; loopback = IsLoopbackLiteral host; scheme = map lower (up_Scheme u) in
         if host = '''' then Inl (insecure [] (sanitize up raw))
         else if scheme = ''https'' then Inr loopback
         else if scheme = ''http'' then (if loopback then Inr True else Inl (insecure [] (up_Redacted u)))
         else Inl (insecure [] (up_Redacted u))))"

definition metadataIPv4 :: "addr list" where
  "metadataIPv4 = [Addr4 (addr4_of [100, 100, 100, 200])]"

definition broadcastIPv4 :: addr where
  "broadcastIPv4 = Addr4 (addr4_of [255, 255, 255, 255])"

definition DeniedIP :: "addr \<Rightarrow> bool \<Rightarrow> bool" where
  "DeniedIP a allowLoopback =
     (if a = AddrInvalid then True
      else (let ip = Unmap a in
        if IsLoopback ip then \<not> allowLoopback
        else if IsPrivate ip \<or> IsLinkLocalUnicast ip \<or> IsLinkLocalMulticast ip \<or> IsMulticast ip \<or>
            IsUnspecified ip \<or> IsInterfaceLocalMulticast ip then True
        else if ip = broadcastIPv4 then True
        else ip \<in> set metadataIPv4))"

definition destinationDenied :: "string \<Rightarrow> domain_error" where
  "destinationDenied host = New CodeUpstreamDestinationDenied [WithHTTPStatus 502, WithScope ScopeProvider, WithParams [(''host'', host)]]"

section \<open>Hooks\<close>

definition SSRFControl :: "bool \<Rightarrow> string \<Rightarrow> domain_error option" where
  "SSRFControl allowLoopback address =
     (let host = (case SplitHostPort address of Some (h, p) \<Rightarrow> h | None \<Rightarrow> address) in
      case ParseAddr (trim_brackets host) of
        None \<Rightarrow> Some (destinationDenied host)
      | Some ip \<Rightarrow> if DeniedIP ip allowLoopback then Some (destinationDenied host) else None)"

definition validatedProxy :: "go_error + url_parts option \<Rightarrow> go_error + url_parts option" where
  "validatedProxy env = (case env of
      Inr (Some proxy) \<Rightarrow>
        if map lower (up_Scheme proxy) \<in> {''http'', ''https'', ''socks5''} then Inr (Some proxy)
        else Inl (Dom (insecure [] (up_Redacted proxy)))
    | _ \<Rightarrow> env)"

definition proxyConnectGuard :: "bool \<Rightarrow> url_parts option \<Rightarrow> domain_error option" where
  "proxyConnectGuard allowLoopback connectURL = (case connectURL of None \<Rightarrow> None
     | Some u \<Rightarrow>
        (let host = Hostname u in
         if host = '''' then Some (destinationDenied (up_Host u))
         else (case ParseAddr (trim_brackets host) of
             Some ip \<Rightarrow> if DeniedIP ip allowLoopback then Some (destinationDenied host) else None
           | None \<Rightarrow> if \<not> allowLoopback \<and> EqualFold host ''localhost'' then Some (destinationDenied host) else None)))"

definition DefaultMaxRedirects :: int where "DefaultMaxRedirects = 3"

datatype redirect_verdict = UseLastResponse | FollowRedirect | RefuseRedirect domain_error

definition max_redirects :: "egress_spec \<Rightarrow> int" where
  "max_redirects spec = (if es_MaxRedirects spec \<le> 0 then DefaultMaxRedirects else es_MaxRedirects spec)"

definition redirectPolicy :: "url_parser \<Rightarrow> egress_spec \<Rightarrow> string \<Rightarrow> nat \<Rightarrow> redirect_verdict" where
  "redirectPolicy up spec url via =
     (if \<not> es_FollowRedirects spec then UseLastResponse
      else if int via \<ge> max_redirects spec then RefuseRedirect (New CodeUpstreamUnavailable [WithHTTPStatus 502, WithScope ScopeProvider])
      else (case ValidateUpstreamURL up url of Inl e \<Rightarrow> RefuseRedirect e | Inr _ \<Rightarrow> FollowRedirect))"

section \<open>The HTTP client around the hooks\<close>

record 'w network =
  nw_parse :: url_parser
  nw_proxy :: "url_parts \<Rightarrow> go_error + url_parts option"
  nw_lookup :: "string \<Rightarrow> 'w \<Rightarrow> (go_error + addr list) \<times> 'w"
  nw_connect :: "addr \<Rightarrow> 'w \<Rightarrow> go_error option \<times> 'w"
  nw_exchange :: "http_request \<Rightarrow> 'w \<Rightarrow> (go_error + http_response) \<times> 'w"
  nw_redirect :: "http_request \<Rightarrow> http_response \<Rightarrow> (go_error + http_request) option"

type_synonym 'w wire_world = "'w \<times> addr list"

text \<open>The addresses of a host are tried in order; the control hook sees each before the connection is made.
  When none can be used, the first error is the answer.\<close>

fun dial :: "'w network \<Rightarrow> bool \<Rightarrow> string \<Rightarrow> addr list \<Rightarrow> go_error option \<Rightarrow> 'w wire_world \<Rightarrow> go_error option \<times> 'w wire_world" where
  "dial nw lo port [] first x = ((case first of None \<Rightarrow> Some (Foreign ''missing address'' []) | Some e \<Rightarrow> Some e), x)"
| "dial nw lo port (a # as) first x =
     (case SSRFControl lo (JoinHostPort (ip_string a) port) of
        Some e \<Rightarrow> dial nw lo port as (if first = None then Some (Foreign ''dial'' [Dom e]) else first) x
      | None \<Rightarrow> (case nw_connect nw a (fst x) of
            (None, w) \<Rightarrow> (None, (w, snd x @ [a]))
          | (Some e, w) \<Rightarrow> dial nw lo port as (if first = None then Some e else first) (w, snd x @ [a])))"

text \<open>A CONNECT request has its target in the opaque part of its URL, the host of that URL is empty.\<close>

definition connect_url :: "url_parts" where
  "connect_url = \<lparr>up_Scheme = '''', up_User = False, up_Host = '''', up_Redacted = ''''\<rparr>"

definition tunnels :: "url_parts \<Rightarrow> url_parts option \<Rightarrow> bool" where
  "tunnels u proxy \<longleftrightarrow> map lower (up_Scheme u) = ''https'' \<and>
     (case proxy of None \<Rightarrow> False | Some p \<Rightarrow> map lower (up_Scheme p) \<in> {''http'', ''https''})"

text \<open>One request on a connection of its own.\<close>

definition round_trip :: "'w network \<Rightarrow> bool \<Rightarrow> http_request \<Rightarrow> 'w wire_world \<Rightarrow> (go_error + http_response) \<times> 'w wire_world" where
  "round_trip nw lo q x = (case nw_parse nw (hq_url q) of Inl e \<Rightarrow> (Inl e, x)
     | Inr u \<Rightarrow>
        if map lower (up_Scheme u) \<notin> {''http'', ''https''} then (Inl (Foreign ''unsupported protocol scheme'' []), x)
        else if up_Host u = '''' then (Inl (Foreign ''http: no Host in request URL'' []), x)
        else (case validatedProxy (nw_proxy nw u) of Inl e \<Rightarrow> (Inl e, x)
     | Inr proxy \<Rightarrow>
        (let target = (case proxy of None \<Rightarrow> u | Some p \<Rightarrow> p) in
         case nw_lookup nw (Hostname target) (fst x) of (Inl e, w) \<Rightarrow> (Inl e, (w, snd x))
     | (Inr addrs, w) \<Rightarrow> (case dial nw lo (dial_port target) addrs None (w, snd x) of
            (Some e, x1) \<Rightarrow> (Inl e, x1)
          | (None, x1) \<Rightarrow>
              (case (if tunnels u proxy then proxyConnectGuard lo (Some connect_url) else None) of
                 Some e \<Rightarrow> (Inl (Dom e), x1)
               | None \<Rightarrow> (case nw_exchange nw q (fst x1) of (r, w1) \<Rightarrow> (r, (w1, snd x1))))))))"

text \<open>Sending a request and following what the policy lets it follow; the number counts the requests made.\<close>

function client_loop :: "'w network \<Rightarrow> egress_spec \<Rightarrow> bool \<Rightarrow> nat \<Rightarrow> http_request \<Rightarrow> 'w wire_world
    \<Rightarrow> (go_error + http_response) \<times> 'w wire_world" where
  "client_loop nw spec lo via q x = (case round_trip nw lo q x of
      (Inl e, x1) \<Rightarrow> (Inl e, x1)
    | (Inr resp, x1) \<Rightarrow> (case nw_redirect nw q resp of
          None \<Rightarrow> (Inr resp, x1)
        | Some (Inl e) \<Rightarrow> (Inl e, x1)
        | Some (Inr q1) \<Rightarrow> (case redirectPolicy (nw_parse nw) spec (hq_url q1) (Suc via) of
              UseLastResponse \<Rightarrow> (Inr resp, x1)
            | RefuseRedirect e \<Rightarrow> (Inl (Dom e), x1)
            | FollowRedirect \<Rightarrow> client_loop nw spec lo (Suc via) q1 x1)))"
  by pat_completeness auto
termination
  by (relation "measure (\<lambda>(nw, spec, lo, via, q, x). nat (max_redirects spec - int via))")
    (auto simp: redirectPolicy_def split: if_splits)

declare client_loop.simps [simp del]

definition egress_Client :: "'w network \<Rightarrow> egress_spec
    \<Rightarrow> domain_error + (http_request \<Rightarrow> 'w wire_world \<Rightarrow> (go_error + http_response) \<times> 'w wire_world)" where
  "egress_Client nw spec = (case spec_Validate spec of Some e \<Rightarrow> Inl e
     | None \<Rightarrow> (case ValidateUpstreamURL (nw_parse nw) (es_BaseURL spec) of Inl e \<Rightarrow> Inl e
     | Inr literal \<Rightarrow> Inr (client_loop nw spec (es_AllowLoopback spec \<and> literal) 0)))"

section \<open>The executor's constructor\<close>

definition executor_spec :: "executor_config \<Rightarrow> egress_spec" where
  "executor_spec cfg = \<lparr>es_BaseURL = xf_BaseURL cfg, es_AllowLoopback = xf_AllowLoopback cfg,
     es_ResponseHeaderTimeout = (if xf_ResponseHeaderTimeout cfg \<le> 0 then DefaultResponseHeaderTimeout else xf_ResponseHeaderTimeout cfg),
     es_IdleTimeout = xf_IdleTimeout cfg, es_MaxResponseBytes = max_response cfg,
     es_FollowRedirects = False, es_MaxRedirects = 0\<rparr>"

text \<open>\<open>New\<close> binds the executor to the policy's client; the other ports are the given dependencies.\<close>

definition executor_New :: "'w network \<Rightarrow> executor_config \<Rightarrow> 'w wire_world executor_ports \<Rightarrow> domain_error + 'w wire_world executor_ports" where
  "executor_New nw cfg deps =
     (if xf_BaseURL cfg = '''' then Inl (New CodeProviderInvalid [WithHTTPStatus 500,
        WithParams [(''reason'', ''executor: empty base url'')]])
      else (case egress_Client nw (executor_spec cfg) of Inl e \<Rightarrow> Inl e
        | Inr client \<Rightarrow> Inr (deps\<lparr>xp_client := client\<rparr>)))"

end
