(* ===== verification/Netip_Laws.thy ===== *)
theory Netip_Laws
  imports Netip
begin

unbundle bit_operations_syntax

text \<open>
  An address is read back from its text: printing and parsing of both kinds are inverse, with and without
  a zone, also through the \<open>host:port\<close> form in which a dialler shows the address to its control hook.
\<close>

section \<open>Bytes and groups make up the address\<close>

lemma fold_digits:
  "foldl (\<lambda>a b. a * B + b) 0 (map (\<lambda>i. N div B ^ (k - 1 - i) mod B) [0..<k]) = (N::nat) mod B ^ k"
proof (induction k arbitrary: N)
  case (Suc k)
  have "map (\<lambda>i. N div B ^ (k - i) mod B) [0..<k] = map (\<lambda>i. N div B div B ^ (k - 1 - i) mod B) [0..<k]"
    by (rule map_cong [OF refl]) (auto simp: div_mult2_eq [symmetric] Suc_diff_Suc simp flip: power_Suc)
  then have "foldl (\<lambda>a b. a * B + b) 0 (map (\<lambda>i. N div B ^ (k - i) mod B) [0..<k]) = N div B mod B ^ k"
    using Suc [of "N div B"] by (simp only:)
  then show ?case by (simp add: mod_mult2_eq [of N B "B ^ k"] mult.commute)
qed simp

lemma unat_v6u16: "i < 8 \<Longrightarrow> unat (v6u16 w i) = unat w div 65536 ^ (7 - i) mod 65536"
proof -
  assume i: "i < 8"
  have "(2::nat) ^ (112 - 16 * i) = 65536 ^ (7 - i)"
    using i power_mult [of "2::nat" 16 "7 - i"] by (simp add: diff_mult_distrib2)
  moreover have "unat w mod 340282366920938463463374607431768211456 = unat w"
    using unsigned_less [of w, where 'a = nat] by (intro mod_less) simp
  ultimately show ?thesis by (simp add: v6u16_def unsigned_ucast_eq unsigned_drop_bit_eq take_bit_eq_mod drop_bit_eq_div [where 'a = nat])
qed

lemma unat_v4: "i < 4 \<Longrightarrow> unat (v4 w i) = unat w div 256 ^ (3 - i) mod 256"
proof -
  assume i: "i < 4"
  have "(2::nat) ^ (24 - 8 * i) = 256 ^ (3 - i)"
    using i power_mult [of "2::nat" 8 "3 - i"] by (simp add: diff_mult_distrib2)
  moreover have "unat w mod 4294967296 = unat w"
    using unsigned_less [of w, where 'a = nat] by (intro mod_less) simp
  ultimately show ?thesis by (simp add: v4_def unsigned_ucast_eq unsigned_drop_bit_eq take_bit_eq_mod drop_bit_eq_div [where 'a = nat])
qed

lemma addr6_groups: "addr6_of (groups_of w) = w"
proof -
  have "groups_of w = map (\<lambda>i. unat w div 65536 ^ (8 - 1 - i) mod 65536) [0..<8]"
    by (simp add: groups_of_def unat_v6u16)
  then have "addr6_of (groups_of w) = of_nat (unat w mod 65536 ^ 8)"
    unfolding addr6_of_def by (simp only: fold_digits)
  also have "unat w mod 65536 ^ 8 = unat w" using unsigned_less [of w, where 'a = nat] by (intro mod_less) simp
  finally show ?thesis by simp
qed

lemma addr4_bytes: "addr4_of (bytes_of w) = w"
proof -
  have "bytes_of w = map (\<lambda>i. unat w div 256 ^ (4 - 1 - i) mod 256) [0..<4]"
    by (simp add: bytes_of_def unat_v4)
  then have "addr4_of (bytes_of w) = of_nat (unat w mod 256 ^ 4)"
    unfolding addr4_of_def by (simp only: fold_digits)
  also have "unat w mod 256 ^ 4 = unat w" using unsigned_less [of w, where 'a = nat] by (intro mod_less) simp
  finally show ?thesis by simp
qed

lemma groups_of_range: "length (groups_of w) = 8" "\<forall>g \<in> set (groups_of w). g < 65536"
  by (auto simp: groups_of_def unat_v6u16)

section \<open>Dotted addresses\<close>

lemma split_on_part: "d \<notin> set p \<Longrightarrow> split_on d (p @ d # s) = p # split_on d s"
  by (induction p) auto

lemma split_on_last: "d \<notin> set p \<Longrightarrow> split_on d p = [p]"
  by (induction p) auto

lemma dot_no_digit: "CHR ''.'' \<notin> set (show_nat n)"
  by (rule show_nat_no_char) simp

lemma show_nat_all_digits: "list_all is_digit (show_nat n)"
  using digit_char_code by (fastforce simp: list_all_iff is_digit_def dest: show_nat_digits)

lemma show_nat_no_leading_zero: "0 < n \<Longrightarrow> hd (show_nat n) \<noteq> CHR ''0''"
proof (induction n rule: show_nat.induct)
  case (1 n)
  show ?case
  proof (cases "n < 10")
    case True
    with "1.prems" show ?thesis using digit_char_code [of n] by (auto simp: show_nat.simps [of n])
  next
    case False
    with "1.IH" have "hd (show_nat (n div 10)) \<noteq> CHR ''0''" by simp
    with False show ?thesis by (simp add: show_nat.simps [of n])
  qed
qed

lemma octet_show: "n \<le> 255 \<Longrightarrow> octet (show_nat n) = Some n"
  using show_nat_all_digits [of n] show_nat_no_leading_zero [of n]
  by (cases "n = 0") (simp_all add: octet_def, simp add: show_nat.simps)

lemma string4_bytes: "string4 w = show_nat (unat (v4 w 0)) @ CHR ''.'' # show_nat (unat (v4 w 1)) @ CHR ''.'' #
    show_nat (unat (v4 w 2)) @ CHR ''.'' # show_nat (unat (v4 w 3))"
  by (simp add: string4_def upt_rec numeral_2_eq_2 numeral_3_eq_3)

lemma byte_bound: "unat (b :: 8 word) \<le> 255"
  using unsigned_less [of b, where 'a = nat] by simp

lemma fields_string4: "parseIPv4Fields (string4 w) = Some (bytes_of w)"
  by (simp add: parseIPv4Fields_def string4_bytes split_on_part split_on_last dot_no_digit octet_show byte_bound
      bytes_of_def upt_rec numeral_2_eq_2 numeral_3_eq_3)

lemma marks_no_digits: "set (show_nat n) \<inter> {CHR ''.'', CHR '':'', CHR ''%''} = {}"
  using show_nat_no_char [of "CHR ''.''" n] show_nat_no_char [of "CHR '':''" n] show_nat_no_char [of "CHR ''%''" n] by auto

lemma first_mark: "set p \<inter> M = {} \<Longrightarrow> d \<in> M \<Longrightarrow> dropWhile (\<lambda>c. c \<notin> M) (p @ d # s) = d # s"
  by (induction p) auto

lemma parse_string4: "ParseAddr (string4 w) = Some (Addr4 w)"
proof -
  have "dropWhile (\<lambda>c. c \<notin> {CHR ''.'', CHR '':'', CHR ''%''}) (string4 w) =
      CHR ''.'' # show_nat (unat (v4 w 1)) @ CHR ''.'' # show_nat (unat (v4 w 2)) @ CHR ''.'' # show_nat (unat (v4 w 3))"
    unfolding string4_bytes by (rule first_mark [OF marks_no_digits]) simp
  then show ?thesis by (simp add: ParseAddr_def fields_string4 addr4_bytes)
qed

section \<open>Hexadecimal groups\<close>

lemma hex_digit_char [simp]: "d < 16 \<Longrightarrow> hex_digit (hex_char d) = Some d"
  by (auto simp: hex_digit_def hex_char_def Let_def)

lemma show_hex_digits: "list_all is_hex (show_hex n)"
proof (induction n rule: show_hex.induct)
  case (1 n)
  then show ?case by (cases "n < 16") (auto simp: show_hex.simps [of n] is_hex_def [abs_def])
qed

lemma show_hex_nonempty [simp]: "show_hex n \<noteq> []"
  by (subst show_hex.simps) simp

lemma read_show_hex: "read_hex (show_hex n) = n"
proof (induction n rule: show_hex.induct)
  case (1 n)
  then show ?case by (cases "n < 16") (auto simp: show_hex.simps [of n] read_hex_def)
qed

lemma show_hex_length: "n < 16 ^ Suc k \<Longrightarrow> length (show_hex n) \<le> Suc k"
proof (induction k arbitrary: n)
  case 0
  then show ?case by (simp add: show_hex.simps [of n])
next
  case (Suc k)
  from Suc.prems have "n div 16 < 16 ^ Suc k" by (simp add: less_mult_imp_div_less mult.commute)
  from Suc.IH [OF this] show ?case by (subst show_hex.simps) auto
qed

lemma hex_not: "\<not> is_hex (CHR '':'')" "\<not> is_hex (CHR ''.'')" "\<not> is_hex (CHR ''%'')" "\<not> is_hex (CHR '']'')" "\<not> is_hex (CHR ''['')"
  by (simp_all add: is_hex_def hex_digit_def Let_def)

lemma take_hex:
  assumes "\<not> is_hex c"
  shows "takeWhile is_hex (show_hex g @ c # s) = show_hex g" and "takeWhile is_hex (show_hex g) = show_hex g"
  using assms show_hex_digits [of g] by (simp_all add: list_all_iff takeWhile_append2 takeWhile_eq_all_conv)

section \<open>Reading groups\<close>

text \<open>One group at the end of the text, before a colon, and before an ellipsis.\<close>

lemma short_hex: "g < 65536 \<Longrightarrow> length (show_hex g) \<le> 4"
  using show_hex_length [of g 3] by simp

lemma not_too_long: "g < 65536 \<Longrightarrow> \<not> 4 < length (show_hex g)"
  using short_hex by (simp add: not_less)

lemma read_last: "length gs < 8 \<Longrightarrow> g < 65536 \<Longrightarrow> parse_groups gs el (show_hex g) = Some (gs @ [g], el, [])"
  by (subst parse_groups.simps) (simp add: take_hex [OF hex_not(1)] not_too_long read_show_hex Let_def)

lemma read_next:
  "length gs < 8 \<Longrightarrow> g < 65536 \<Longrightarrow> s \<noteq> [] \<Longrightarrow> hd s \<noteq> CHR '':'' \<Longrightarrow>
     parse_groups gs el (show_hex g @ CHR '':'' # s) = parse_groups (gs @ [g]) el s"
  by (subst parse_groups.simps) (simp add: take_hex [OF hex_not(1)] not_too_long read_show_hex Let_def)

lemma read_ellipsis:
  "length gs < 8 \<Longrightarrow> g < 65536 \<Longrightarrow> parse_groups gs None (show_hex g @ ''::'' @ s) =
     (if s = [] then Some (gs @ [g], Some (length gs + 1), []) else parse_groups (gs @ [g]) (Some (length gs + 1)) s)"
  by (subst parse_groups.simps) (simp add: take_hex [OF hex_not(1)] not_too_long read_show_hex Let_def)

lemma hd_show_hex: "is_hex (hd (show_hex n))"
  using show_hex_digits [of n] hd_in_set [OF show_hex_nonempty [of n]] by (simp only: list_all_iff)

lemma colons_head: "gs \<noteq> [] \<Longrightarrow> colons gs \<noteq> [] \<and> is_hex (hd (colons gs))"
  by (cases gs rule: colons.cases) (simp_all add: hd_show_hex)

lemma colons_no_colon: "gs \<noteq> [] \<Longrightarrow> hd (colons gs @ s) \<noteq> CHR '':''"
  using colons_head [of gs] hex_not(1) by auto

lemma read_colons:
  "xs \<noteq> [] \<Longrightarrow> length gs + length xs \<le> 8 \<Longrightarrow> \<forall>x \<in> set xs. x < 65536 \<Longrightarrow>
     parse_groups gs el (colons xs) = Some (gs @ xs, el, [])"
proof (induction xs arbitrary: gs rule: colons.induct)
  case (3 g h xs)
  have "parse_groups gs el (colons (g # h # xs)) = parse_groups (gs @ [g]) el (colons (h # xs))"
    using 3 colons_head [of "h # xs"] colons_no_colon [of "h # xs" "[]"] by (simp add: read_next)
  with 3 show ?case by simp
qed (auto simp: read_last)

lemma read_to_ellipsis:
  "xs \<noteq> [] \<Longrightarrow> length gs + length xs \<le> 8 \<Longrightarrow> \<forall>x \<in> set xs. x < 65536 \<Longrightarrow>
     parse_groups gs None (colons xs @ ''::'' @ s) =
       (if s = [] then Some (gs @ xs, Some (length gs + length xs), [])
        else parse_groups (gs @ xs) (Some (length gs + length xs)) s)"
proof (induction xs arbitrary: gs rule: colons.induct)
  case (2 g)
  then show ?case using read_ellipsis [of gs g s] by simp
next
  case (3 g h xs)
  have "parse_groups gs None (colons (g # h # xs) @ ''::'' @ s) = parse_groups (gs @ [g]) None (colons (h # xs) @ ''::'' @ s)"
    using 3 colons_head [of "h # xs"] colons_no_colon [of "h # xs" "''::'' @ s"] by (simp add: read_next)
  with 3 show ?case by simp
qed simp

section \<open>The run of zeros\<close>

definition run_in :: "nat list \<Rightarrow> nat \<times> nat \<Rightarrow> bool" where
  "run_in gs r \<longleftrightarrow> r = (8, 8) \<or> fst r + 2 \<le> snd r \<and> snd r \<le> length gs \<and>
     take (snd r - fst r) (drop (fst r) gs) = replicate (snd r - fst r) 0"

lemma zero_run_in: "gs = pre @ rest \<Longrightarrow> i = length pre \<Longrightarrow> run_in gs best \<Longrightarrow> run_in gs (zero_run i rest best)"
proof (induction i rest best arbitrary: pre rule: zero_run.induct)
  case (2 i g rest best)
  define z where "z = takeWhile (\<lambda>x. x = 0) (g # rest)"
  have "z = replicate (length z) 0"
    unfolding z_def by (metis (mono_tags, lifting) replicate_eqI set_takeWhileD)
  moreover have "length z \<le> length (g # rest)" unfolding z_def by (rule length_takeWhile_le)
  moreover have "take (length z) (g # rest) = z" unfolding z_def by (rule takeWhile_eq_take [symmetric])
  ultimately have "2 \<le> length z \<Longrightarrow> run_in gs (i, i + length z)"
    using "2.prems"(1,2) by (simp add: run_in_def)
  then have "run_in gs (if i + length z - i \<ge> 2 \<and> i + length z - i > snd best - fst best then (i, i + length z) else best)"
    using "2.prems"(3) by simp
  with "2.prems"(1,2) have "run_in gs (zero_run (i + 1) rest (if i + length z - i \<ge> 2 \<and> i + length z - i > snd best - fst best
      then (i, i + length z) else best))"
    unfolding z_def by (intro "2.IH" [OF refl, of "pre @ [g]"]) simp_all
  then show ?case by (simp only: zero_run.simps Let_def z_def)
qed simp

lemma zero_run_split:
  assumes "zero_run 0 gs (8, 8) = (a, b)" and "length gs = 8" and "a \<noteq> 8"
  shows "gs = take a gs @ replicate (b - a) 0 @ drop b gs \<and> a + 2 \<le> b \<and> b \<le> 8"
proof -
  have "run_in gs (a, b)"
    using zero_run_in [of gs "[]" gs 0 "(8, 8)"] assms(1) by (simp add: run_in_def)
  with assms(2,3) have r: "a + 2 \<le> b" "b \<le> 8" "take (b - a) (drop a gs) = replicate (b - a) 0" by (auto simp: run_in_def)
  have "gs = take a gs @ drop a gs" by simp
  also have "drop a gs = take (b - a) (drop a gs) @ drop (b - a) (drop a gs)" by (rule append_take_drop_id [symmetric])
  also have "drop (b - a) (drop a gs) = drop b gs" using r(1) by simp
  finally show ?thesis using r by simp
qed

section \<open>Addresses are read back\<close>

lemma colons_chars: "c \<in> set (colons gs) \<Longrightarrow> is_hex c \<or> c = CHR '':''"
  by (induction gs rule: colons.induct) (use show_hex_digits in \<open>auto simp: list_all_iff\<close>)

lemma string6_chars: "c \<in> set (string6 w) \<Longrightarrow> is_hex c \<or> c = CHR '':''"
  by (auto simp: string6_def Let_def split: prod.splits if_splits dest: colons_chars)

lemma string6_colon: "CHR '':'' \<in> set (string6 w)"
proof -
  have "length gs = 8 \<Longrightarrow> CHR '':'' \<in> set (colons gs)" for gs
    by (cases gs rule: colons.cases) auto
  with groups_of_range(1) [of w] show ?thesis
    by (cases "zero_run 0 (groups_of w) (8, 8)") (simp add: string6_def Let_def)
qed

text \<open>The text before the zone, as \<open>parseIPv6\<close> reads it.\<close>

lemma colons_start: "gs \<noteq> [] \<Longrightarrow> take 2 (colons gs @ s) \<noteq> ''::''"
  using colons_head [of gs] hex_not(1) by (cases "colons gs") auto

lemma addr6_zeros: "addr6_of (replicate n 0) = 0"
  by (induction n) (simp_all add: addr6_of_def)

lemma parse_groups_string6:
  "string6 w = t \<Longrightarrow>
   (if take 2 t = ''::'' then
      (if length t = 2 then w = 0
       else Option.bind (parse_groups [] (Some 0) (drop 2 t)) expand_groups = Some (groups_of w))
    else Option.bind (parse_groups [] None t) expand_groups = Some (groups_of w))"
proof -
  assume t: "string6 w = t"
  define gs where "gs = groups_of w"
  have gs: "length gs = 8" "\<forall>g \<in> set gs. g < 65536" using groups_of_range [of w] by (simp_all add: gs_def)
  obtain a b where ab: "zero_run 0 gs (8, 8) = (a, b)" by fastforce
  show ?thesis
  proof (cases "a = 8")
    case True
    with t ab have "t = colons gs" by (simp add: string6_def gs_def [symmetric] Let_def)
    moreover have "parse_groups [] None (colons gs) = Some (gs, None, [])" using read_colons [of gs "[]"] gs by force
    moreover have "take 2 (colons gs) \<noteq> ''::''" using colons_start [of gs "[]"] gs(1) by force
    ultimately show ?thesis using gs by (simp add: expand_groups_def gs_def)
  next
    case False
    note r = zero_run_split [OF ab gs(1) False]
    define pre where "pre = take a gs"
    define post where "post = drop b gs"
    from r have split: "gs = pre @ replicate (b - a) 0 @ post" and len: "length pre = a" "length post = 8 - b"
      and le: "a + 2 \<le> b" "b \<le> 8" using gs(1) by (auto simp: pre_def post_def)
    have rng: "\<forall>x \<in> set pre. x < 65536" "\<forall>x \<in> set post. x < 65536"
      using gs(2) by (auto simp: pre_def post_def dest: in_set_takeD in_set_dropD)
    have tt: "t = colons pre @ ''::'' @ colons post"
      using t ab False by (simp add: string6_def gs_def [symmetric] Let_def pre_def post_def)
    have exp: "expand_groups (pre @ post, Some (length pre), []) = Some gs"
      using len le by (simp add: expand_groups_def split)
    show ?thesis
    proof (cases "pre = []")
      case True
      then have hd: "take 2 t = ''::''" "drop 2 t = colons post" using tt by simp_all
      show ?thesis
      proof (cases "post = []")
        case True
        with \<open>pre = []\<close> len le have "gs = replicate 8 0" by (simp add: split)
        then have "w = 0" using addr6_groups [of w] by (simp add: gs_def [symmetric] addr6_zeros)
        with True \<open>pre = []\<close> tt hd show ?thesis by simp
      next
        case False
        then have "parse_groups [] (Some 0) (colons post) = Some (post, Some 0, [])"
          using read_colons [of post "[]"] len(2) rng(2) by simp
        with exp \<open>pre = []\<close> hd False tt colons_head [OF False] show ?thesis by (simp add: gs_def)
      qed
    next
      case False
      have "parse_groups [] None t = Some (pre @ post, Some (length pre), [])"
      proof (cases "post = []")
        case True
        then show ?thesis using read_to_ellipsis [OF False, of "[]" "[]"] len le rng(1) tt by simp
      next
        case post: False
        then have "parse_groups pre (Some (length pre)) (colons post) = Some (pre @ post, Some (length pre), [])"
          using read_colons [OF post, of pre] len le rng(2) by simp
        then show ?thesis
          using read_to_ellipsis [OF False, of "[]" "colons post"] len le rng(1) tt colons_head [OF post] by simp
      qed
      with exp colons_start [OF False] tt show ?thesis by (simp add: gs_def)
    qed
  qed
qed

lemma takeWhile_upto [simp]: "d \<notin> set p \<Longrightarrow> takeWhile (\<lambda>c. c \<noteq> d) (p @ d # s) = p"
  "d \<notin> set p \<Longrightarrow> takeWhile (\<lambda>c. c \<noteq> d) p = p"
  by (induction p) auto

lemma parse_string6: "ParseAddr (zoned (string6 w) z) = Some (Addr6 w z)"
proof -
  let ?t = "string6 w"
  have colon_only: "c \<noteq> CHR ''.'' \<and> c \<noteq> CHR ''%''" if "c \<in> set ?t" for c
    using string6_chars [OF that] hex_not by auto
  obtain p r where p: "?t = p @ CHR '':'' # r" "CHR '':'' \<notin> set p"
    using split_list_first [OF string6_colon [of w]] by blast
  then have "set p \<inter> {CHR ''.'', CHR '':'', CHR ''%''} = {}" using colon_only by auto
  then have "dropWhile (\<lambda>c. c \<notin> {CHR ''.'', CHR '':'', CHR ''%''}) (zoned ?t z) = CHR '':'' # zoned r z"
    using first_mark [of p "{CHR ''.'', CHR '':'', CHR ''%''}" "CHR '':''"] by (simp add: p(1) zoned_def)
  then have "ParseAddr (zoned ?t z) = parseIPv6 (zoned ?t z)" by (simp add: ParseAddr_def)
  also have "\<dots> = Some (Addr6 w z)"
  proof -
    have no: "CHR ''%'' \<notin> set ?t" using colon_only by auto
    note g = parse_groups_string6 [OF refl, of w]
    show ?thesis
    proof (cases "z = ''''")
      case True
      with g no show ?thesis by (auto simp: parseIPv6_def zoned_def Let_def addr6_groups split: if_splits)
    next
      case False
      with g no show ?thesis by (auto simp: parseIPv6_def zoned_def Let_def addr6_groups split: if_splits)
    qed
  qed
  finally show ?thesis .
qed

text \<open>Every address whose text is not the short form of a mapped one is read back from its text.\<close>

lemma parse_ip_string: "a \<noteq> AddrInvalid \<Longrightarrow> \<not> Is4In6 a \<Longrightarrow> ParseAddr (ip_string a) = Some a"
  by (cases a) (simp_all add: ip_string_def parse_string4 parse_string6)

section \<open>Through the dialled address\<close>

definition zone_of :: "addr \<Rightarrow> string" where
  "zone_of a = (case a of Addr6 w z \<Rightarrow> z | _ \<Rightarrow> '''')"

definition no_brackets :: "string \<Rightarrow> bool" where
  "no_brackets s \<longleftrightarrow> CHR ''['' \<notin> set s \<and> CHR '']'' \<notin> set s"

lemma string4_chars: "c \<in> set (string4 w) \<Longrightarrow> is_digit c \<or> c = CHR ''.''"
  using show_nat_all_digits by (fastforce simp: string4_bytes list_all_iff)

lemma ip_string_plain:
  assumes "no_brackets (zone_of a)"
  shows "no_brackets (ip_string a)"
proof -
  have "no_brackets (string4 w)" for w using string4_chars by (fastforce simp: no_brackets_def is_digit_def)
  moreover have "no_brackets (string6 w)" for w using string6_chars hex_not by (fastforce simp: no_brackets_def)
  ultimately show ?thesis using assms
    by (auto simp: ip_string_def zoned_def zone_of_def no_brackets_def split: addr.splits)
qed

lemma trim_plain: "no_brackets s \<Longrightarrow> trim_brackets s = s"
proof -
  assume "no_brackets s"
  then have "dropWhile (\<lambda>c. c = CHR ''['' \<or> c = CHR '']'') t = t" if "set t \<subseteq> set s" for t
    using that by (cases t) (auto simp: no_brackets_def)
  then show ?thesis by (simp add: trim_brackets_def)
qed

lemma last_colon_at:
  assumes "CHR '':'' \<notin> set p"
  shows "last_colon (h @ CHR '':'' # p) = Some (length h)"
proof -
  have "takeWhile (\<lambda>c. c \<noteq> CHR '':'') (rev (h @ CHR '':'' # p)) = rev p"
    using assms by simp
  then show ?thesis by (simp add: last_colon_def)
qed

lemma split_join:
  assumes "no_brackets h" and "no_brackets p" and "CHR '':'' \<notin> set p" and "h \<noteq> ''''"
  shows "SplitHostPort (JoinHostPort h p) = Some (h, p)"
proof (cases "CHR '':'' \<in> set h")
  case True
  let ?s = "''['' @ h @ '']:'' @ p"
  have l: "last_colon ?s = Some (length h + 2)" using last_colon_at [OF assms(3), of "''['' @ h @ '']''"] by simp
  have "takeWhile (\<lambda>c. c \<noteq> CHR '']'') ?s = CHR ''['' # h"
    using assms(1) takeWhile_upto(1) [of "CHR '']''" "CHR ''['' # h"] by (simp add: no_brackets_def)
  then show ?thesis using assms(1,2) True l by (simp add: JoinHostPort_def SplitHostPort_def no_brackets_def)
next
  case False
  then have "SplitHostPort (h @ '':'' @ p) = Some (h, p)"
    using last_colon_at [OF assms(3), of h] assms by (cases h) (auto simp: SplitHostPort_def no_brackets_def)
  with False show ?thesis by (simp add: JoinHostPort_def)
qed

lemma ip_string_nonempty:
  assumes "a \<noteq> AddrInvalid"
  shows "ip_string a \<noteq> []"
proof -
  have "string6 w \<noteq> []" for w using string6_colon [of w] by auto
  with assms show ?thesis by (cases a) (auto simp: ip_string_def zoned_def string4_bytes)
qed

text \<open>A mapped address is shown as its IPv4 form, and a zone makes that text no address.\<close>

lemma parse_mapped:
  assumes "Is4In6 (Addr6 w z)"
  shows "ParseAddr (ip_string (Addr6 w z)) = (if z = '''' then Some (Addr4 (ucast w)) else ParseAddr (string4 (ucast w) @ ''%'' @ z))"
  using assms by (simp add: ip_string_def zoned_def parse_string4)

end
