(* ===== verification/Executor_Laws.thy ===== *)
theory Executor_Laws
  imports Executor Breaker
begin

text \<open>
  What the executor guarantees: the account's secret is the only authentication a request carries, an answer
  is delivered whole and bounded, and an upstream's \<open>Retry-After\<close> becomes exactly the account's cooldown.
\<close>

section \<open>The authentication header\<close>

lemma Header_values_Set: "Header_values (Header_Set k v h) k' =
    (if CanonicalHeaderKey k' = CanonicalHeaderKey k then [v] else Header_values h k')"
  by (simp add: Header_values_def Header_Set_def update_conv')

lemma Header_values_Del: "Header_values (Header_Del k h) k' =
    (if CanonicalHeaderKey k' = CanonicalHeaderKey k then [] else Header_values h k')"
  by (simp add: Header_values_def Header_Del_def delete_conv')

lemma auth_keys: "CanonicalHeaderKey ''Authorization'' = ''Authorization''" "CanonicalHeaderKey ''x-api-key'' = ''X-Api-Key''"
  by code_simp+

definition auth_values :: "auth_style \<Rightarrow> string \<Rightarrow> http_header \<Rightarrow> bool" where
  "auth_values style secret h \<longleftrightarrow> (case style of
      AuthBearer \<Rightarrow> Header_values h ''Authorization'' = [''Bearer '' @ secret] \<and> Header_values h ''x-api-key'' = []
    | AuthAPIKeyHeader \<Rightarrow> Header_values h ''x-api-key'' = [secret] \<and> Header_values h ''Authorization'' = [])"

lemma applyAuth_values: "secret \<noteq> '''' \<Longrightarrow> auth_values style secret (applyAuth style secret h)"
  by (cases style) (simp_all add: applyAuth_def auth_values_def Let_def Header_values_Set Header_values_Del auth_keys)

lemma built_auth:
  assumes "buildRequest cfg xp req cred = Inr q" and "openCredential cfg xp cred = Inr secret" and "secret \<noteq> ''''"
  shows "auth_values (xf_AuthStyle cfg) secret (hq_header q)"
proof -
  from assms obtain q0 where "q = q0\<lparr>hq_header := applyAuth (xf_AuthStyle cfg) secret
      (add_headers (wq_headers req) (Header_Set ''Content-Type'' ''application/json'' (hq_header q0)))\<rparr>"
    by (auto simp: buildRequest_def split: sum.splits)
  with applyAuth_values [OF assms(3)] show ?thesis by simp
qed

text \<open>a request built for an account with a secret carries that secret in the family's header, once, and no
  other authentication, whatever headers the caller and the gates put into the wire request.\<close>

theorem auth_header_exact:
  assumes "buildRequest cfg xp req cred = Inr q" and "openCredential cfg xp cred = Inr secret" and "secret \<noteq> ''''"
  shows "auth_values (xf_AuthStyle cfg) secret (hq_header q)"
  using assms by (rule built_auth)

text \<open>An account without a secret sets no header and removes none: what the wire request brings is sent.\<close>

lemma no_secret_keeps_caller_auth:
  "applyAuth style '''' h = h"
  by (simp add: applyAuth_def)

section \<open>Bounded answers\<close>

text \<open>C22: an answer is whole and bounded: when \<open>Do\<close> succeeds, the upstream answered a success status, its body
  came to a clean end within the limit, and exactly these bytes were decoded; a body that is longer or
  breaks off is an error.  The limit must leave room for the one byte more that is read: it is less than
  the largest \<open>int64\<close>.\<close>

theorem response_whole_and_bounded:
  assumes "executor_Do cfg xp req cred w = (Inr resp, w1)" and "xf_MaxResponseBytes cfg < 2 ^ 63 - 1"
  shows "\<exists>q r. xp_client xp q w = (Inr r, w1) \<and> success_status (hr_status r) \<and> hr_end r = EndEOF \<and>
    int (length (hr_bytes r)) \<le> max_response cfg \<and> wr_status resp = hr_status r \<and> wr_body resp = xp_json xp (hr_bytes r)"
proof -
  have pos: "max_response cfg > 0" by (simp add: max_response_def DefaultMaxResponseBytes_def)
  have "max_response cfg < 2 ^ 63 - 1" using assms(2) by (auto simp: max_response_def DefaultMaxResponseBytes_def)
  with pos have room: "wrap64 (max_response cfg + 1) = max_response cfg + 1" by (intro wrap64_id) simp_all
  note run = assms(1) [unfolded executor_Do_def room]
  from run obtain q0 where q0: "buildRequest cfg xp req cred = Inr q0" by (auto split: sum.splits)
  define q where "q = (if wq_stream req then q0\<lparr>hq_header := Header_Set ''Accept'' ''text/event-stream'' (hq_header q0)\<rparr> else q0)"
  obtain a v where a: "xp_client xp q w = (a, v)" by fastforce
  from run obtain r where r: "a = Inr r" by (cases a) (auto simp: q0 q_def [symmetric] a)
  from run have ok: "success_status (hr_status r)" by (rule contrapos_pp) (simp add: q0 q_def [symmetric] a r)
  obtain bs where bs: "read_limited (max_response cfg + 1) r = Inr bs"
    using run by (cases "read_limited (max_response cfg + 1) r") (simp_all add: q0 q_def [symmetric] a r ok)
  have len: "int (length bs) \<le> max_response cfg"
    using run by (rule contrapos_pp) (simp add: q0 q_def [symmetric] a r ok bs)
  have "int (length (hr_bytes r)) < max_response cfg + 1"
  proof (rule ccontr)
    assume "\<not> ?thesis"
    with bs have "bs = take (nat (max_response cfg + 1)) (hr_bytes r)" by (simp add: read_limited_def Let_def)
    with \<open>\<not> _\<close> pos have "int (length bs) = max_response cfg + 1" by simp
    with len show False by simp
  qed
  with bs have "hr_end r = EndEOF \<and> bs = hr_bytes r" by (auto simp: read_limited_def Let_def split: body_end.splits if_splits)
  with run a r ok len show ?thesis
    by (intro exI [of _ q] exI [of _ r]) (auto simp: q0 q_def [symmetric] bs split: if_splits)
qed

section \<open>Retry-After\<close>

lemma digit_codes: "c \<in> set (show_nat n) \<Longrightarrow> 48 \<le> (of_char c :: nat) \<and> (of_char c :: nat) \<le> 57"
  using show_nat_digits [of c n] by (auto simp: digit_char_code)

lemma all_digits_show: "all_digits (show_nat n)"
  by (simp add: all_digits_def list_all_iff digit_codes)

lemma Atoi_itoa:
  assumes "0 \<le> n" "n < 2 ^ 63"
  shows "Atoi (itoa n) = Some n"
proof -
  obtain c cs where s: "show_nat (nat n) = c # cs" by (cases "show_nat (nat n)") simp_all
  have "48 \<le> (of_char c :: nat)" using digit_codes [of c "nat n"] s by simp
  then have "c \<noteq> CHR ''+''" "c \<noteq> CHR ''-''" by auto
  moreover have "read_nat (c # cs) = nat n" "all_digits (c # cs)" using s read_show_nat all_digits_show by metis+
  ultimately show ?thesis using assms s by (simp add: Atoi_def itoa_def int64_def)
qed

lemma trim_show: "stringsTrim (show_nat n) = show_nat n"
proof -
  have keep: "dropWhile blank_or_tab l = l" if "\<forall>c \<in> set l. \<not> blank_or_tab c" for l
    using that by (cases l) simp_all
  have "\<not> blank_or_tab c" if "c \<in> set (show_nat n)" for c
    using digit_codes [OF that] by (auto simp: blank_or_tab_def)
  then show ?thesis using keep [of "show_nat n"] keep [of "rev (show_nat n)"] by (simp add: stringsTrim_def)
qed

lemma parseRetryAfter_seconds:
  assumes "0 \<le> n" "n < 2 ^ 63"
  shows "parseRetryAfter pt (itoa n) now = wrap64 (n * 1000000000)"
  using Atoi_itoa [OF assms] trim_show [of "nat n"] assms(1)
  by (simp add: parseRetryAfter_def Let_def itoa_def)

text \<open>C23: an upstream that answers 429 with \<open>Retry-After: n\<close> costs the account exactly \<open>n\<close> seconds: when the
  dispatcher records the executor's error on circuits that were closed, the candidate is refused
  until \<open>n\<close> seconds after the answer and admitted from then on, for every \<open>n\<close> whose nanoseconds fit a
  duration.\<close>

theorem rate_limited_account_waits:
  assumes "hr_status resp = 429" and "Header_Get (hr_header resp) ''Retry-After'' = itoa n"
    and "1 \<le> n" and "n \<le> 9223372036" and "cand_credential c \<noteq> ''''"
    and "\<forall>k \<in> set (all_keys_for c). ks_status (key_of b k) = BreakerClosed"
  shows "fst (Allow t c (Record cfg now c (breakerFrom (upstreamError xp resp w)) b)) \<longleftrightarrow> now + n * 1000000000 \<le> t"
proof -
  have "wrap64 (n * 1000000000) = n * 1000000000" using assms(3,4) by (intro wrap64_id) simp_all
  then have "parseRetryAfter (xp_ParseTime xp) (itoa n) (xp_now xp w) = n * 1000000000"
    using parseRetryAfter_seconds [of n] assms(3,4) by simp
  then have "breakerFrom (upstreamError xp resp w) = failure ScopeCredential True (n * 1000000000)"
    using assms(1-3) by (simp add: upstreamError_def Let_def breakerFrom_def failure_def new_simps)
  then show ?thesis
    using retry_after_exact [OF assms(5,6) _ _ refl, of "n * 1000000000" t cfg now] assms(3,4) by simp
qed

text \<open>One second more and the product wraps to a negative duration: the hint is dropped and the exponential
  backoff applies instead.\<close>

lemma retry_after_wraps: "parseRetryAfter pt (itoa 9223372037) now < 0"
  using parseRetryAfter_seconds [of 9223372037 pt now] by (simp add: wrap64_def)

section \<open>Witnesses\<close>

definition test_ports :: "unit executor_ports" where
  "test_ports = \<lparr>xp_Open = Some (\<lambda>s. Inr ''sk-1''),
     xp_client = (\<lambda>q w. (Inr \<lparr>hr_status = 200, hr_header = [], hr_bytes = ''{}'', hr_end = EndEOF\<rparr>, w)),
     xp_url_error = (\<lambda>u. None), xp_now = (\<lambda>w. 0), xp_ParseTime = (\<lambda>s. None), xp_timeout = (\<lambda>e. False), xp_json = NotJson\<rparr>"

definition test_config :: executor_config where
  "test_config = \<lparr>xf_Family = ''openai'', xf_BaseURL = ''https://api.example/v1/'', xf_AllowLoopback = False,
     xf_AuthStyle = AuthBearer, xf_ResponseHeaderTimeout = 0, xf_IdleTimeout = 0, xf_MaxResponseBytes = 0, xf_CountTokensEndpoint = ''''\<rparr>"

definition test_request :: wire_request where
  "test_request = \<lparr>wq_body = nil_body, wq_model = ''m'', wq_stream = False, wq_headers = [(''authorization'', [''Bearer mine''])]\<rparr>"

definition test_credential :: credential where
  "test_credential = \<lparr>cr_ID = ''a'', cr_AuthMode = AuthAPIKey, cr_Sealed = ''enc''\<rparr>"

lemma test_secret: "openCredential test_config test_ports test_credential = Inr ''sk-1''"
  by (simp add: openCredential_def test_credential_def test_ports_def)

theorem auth_header_exact_witness:
  "\<exists>q. buildRequest test_config test_ports test_request test_credential = Inr q \<and> auth_values AuthBearer ''sk-1'' (hq_header q)"
proof -
  have "xp_url_error test_ports u = None" for u by (simp add: test_ports_def)
  then obtain q where q: "buildRequest test_config test_ports test_request test_credential = Inr q"
    by (simp add: buildRequest_def test_secret NewRequest_def)
  from auth_header_exact [OF q test_secret] q show ?thesis by (simp add: test_config_def)
qed

theorem response_whole_and_bounded_witness:
  "\<exists>resp q r. executor_Do test_config test_ports test_request test_credential () = (Inr resp, ()) \<and>
     xp_client test_ports q () = (Inr r, ()) \<and> wr_body resp = xp_json test_ports (hr_bytes r)"
proof -
  have "\<not> isl (fst (executor_Do test_config test_ports test_request test_credential ()))" by code_simp
  then obtain resp where r: "executor_Do test_config test_ports test_request test_credential () = (Inr resp, ())"
    by (cases "executor_Do test_config test_ports test_request test_credential ()"; cases "fst (executor_Do test_config test_ports test_request test_credential ())") auto
  have "xf_MaxResponseBytes test_config < 2 ^ 63 - 1" by (simp add: test_config_def)
  from response_whole_and_bounded [OF r this] r show ?thesis by blast
qed

text \<open>With the largest \<open>int64\<close> as the limit the one byte more wraps to a negative limit: the body \<open>{}\<close> is not
  read, and the call answers a success with no body.\<close>

lemma largest_limit_reads_nothing:
  "case fst (executor_Do (test_config\<lparr>xf_MaxResponseBytes := 2 ^ 63 - 1\<rparr>) test_ports test_request test_credential ()) of
     Inl e \<Rightarrow> False | Inr resp \<Rightarrow> wr_status resp = 200 \<and> wr_body resp = xp_json test_ports []"
  by code_simp

theorem rate_limited_account_waits_witness:
  "\<not> fst (Allow 29999999999 sample_cand (Record sample_cfg 0 sample_cand (breakerFrom (upstreamError test_ports
      \<lparr>hr_status = 429, hr_header = [(''Retry-After'', [''30''])], hr_bytes = '''', hr_end = EndEOF\<rparr> ())) new_breaker))"
proof -
  let ?r = "\<lparr>hr_status = 429, hr_header = [(''Retry-After'', [''30''])], hr_bytes = '''', hr_end = EndEOF\<rparr>"
  have "Header_Get (hr_header ?r) ''Retry-After'' = itoa 30" by code_simp
  moreover have "\<forall>k \<in> set (all_keys_for sample_cand). ks_status (key_of new_breaker k) = BreakerClosed"
    by (simp add: fresh_key_def)
  moreover have "cand_credential sample_cand \<noteq> ''''" by (simp add: sample_cand_def)
  ultimately show ?thesis
    using rate_limited_account_waits [of ?r 30 sample_cand new_breaker 29999999999 sample_cfg 0 test_ports "()"] by simp
qed

end
