(* ===== verification/Egress_Laws.thy ===== *)
theory Egress_Laws
  imports Egress Netip_Laws Executor_Laws
begin

unbundle bit_operations_syntax

text \<open>
  What the outbound policy promises: the refused destinations are exactly a list of address blocks; whatever
  the resolver and the servers answer, a client of the policy connects to no other address; an upstream
  client follows no redirect.
\<close>

section \<open>The refused blocks\<close>

definition in_block4 :: "32 word \<Rightarrow> nat list \<times> nat \<Rightarrow> bool" where
  "in_block4 w b = (unat w div 2 ^ (32 - snd b) = unat (addr4_of (fst b)) div 2 ^ (32 - snd b))"

definition in_block6 :: "128 word \<Rightarrow> nat \<times> nat \<Rightarrow> bool" where
  "in_block6 w b = (unat w div 2 ^ (128 - snd b) = fst b * 2 ^ 112 div 2 ^ (128 - snd b))"

text \<open>RFC 1918, link local, multicast, broadcast, unspecified and one metadata address; for IPv6 the blocks
  by their first group: unique local, link local, multicast.\<close>

definition blocks4 :: "(nat list \<times> nat) list" where
  "blocks4 = [([10, 0, 0, 0], 8), ([172, 16, 0, 0], 12), ([192, 168, 0, 0], 16), ([169, 254, 0, 0], 16),
     ([224, 0, 0, 0], 4), ([255, 255, 255, 255], 32), ([0, 0, 0, 0], 32), ([100, 100, 100, 200], 32)]"

definition blocks6 :: "(nat \<times> nat) list" where
  "blocks6 = [(0xfc00, 7), (0xfe80, 10), (0xff00, 8)]"

definition refused :: "bool \<Rightarrow> addr \<Rightarrow> bool" where
  "refused lo a = (case Unmap a of
      AddrInvalid \<Rightarrow> True
    | Addr4 w \<Rightarrow> if in_block4 w ([127, 0, 0, 0], 8) then \<not> lo else list_ex (in_block4 w) blocks4
    | Addr6 w z \<Rightarrow> if w = 1 then \<not> lo else list_ex (in_block6 w) blocks6 \<or> w = 0 \<and> z = '''')"

text \<open>The tests of the code on bytes and groups are divisions.\<close>

lemma nat_slice: "(n::nat) AND ((2 ^ m - 1) * 2 ^ k) = n div 2 ^ k mod 2 ^ m * 2 ^ k"
proof -
  have "bit (n AND push_bit k (mask m)) i = bit (push_bit k (take_bit m (drop_bit k n))) i" for i
    by (auto simp: bit_and_iff bit_push_bit_iff bit_mask_iff bit_take_bit_iff bit_drop_bit_eq)
  then have "n AND push_bit k (mask m) = push_bit k (take_bit m (drop_bit k n))" by (intro bit_eqI) simp
  then show ?thesis by (simp add: push_bit_eq_mult mask_eq_exp_minus_1 take_bit_eq_mod drop_bit_eq_div)
qed

lemma eq_unat: "x = y \<longleftrightarrow> unat x = unat (y :: 'a :: len word)"
  by (auto dest: unsigned_word_eqI)

lemma byte_mask: "unat ((b :: 8 word) AND 0xf0) = unat b div 16 * 16"
proof -
  have "unat b div 16 mod 16 = unat b div 16" using unsigned_less [of b, where 'a = nat] by (simp add: less_mult_imp_div_less)
  then show ?thesis using nat_slice [of "unat b" 4 4] by (simp add: unsigned_and_eq)
qed

lemma group_mask:
  "unat ((g :: 16 word) AND 0xfe00) = unat g div 512 * 512"
  "unat (g AND 0xffc0) = unat g div 64 * 64"
proof -
  have g: "unat g < 65536" using unsigned_less [of g, where 'a = nat] by simp
  then have "unat g div 512 mod 128 = unat g div 512" "unat g div 64 mod 1024 = unat g div 64"
    by (simp_all add: less_mult_imp_div_less)
  then show "unat (g AND 0xfe00) = unat g div 512 * 512" "unat (g AND 0xffc0) = unat g div 64 * 64"
    using nat_slice [of "unat g" 7 9] nat_slice [of "unat g" 10 6] by (simp_all add: unsigned_and_eq)
qed

text \<open>The two narrow multicast tests are inside the wide one.\<close>

lemma narrow_multicast:
  assumes "unat ((g :: 16 word) AND 0xff0f) = c" and "c div 256 = 255"
  shows "drop_bit 8 g = 0xff"
proof -
  have g: "unat g < 65536" using unsigned_less [of g, where 'a = nat] by simp
  then have "unat g div 256 mod 256 = unat g div 256" by (simp add: less_mult_imp_div_less)
  have "drop_bit 8 (unat g AND 0xff0f) = drop_bit 8 (unat g) AND drop_bit 8 0xff0f" by (rule drop_bit_and)
  also have "\<dots> = unat g div 256 AND 255" by (simp add: drop_bit_eq_div)
  also have "\<dots> = unat g div 256"
    using nat_slice [of "unat g div 256" 8 0] \<open>unat g div 256 mod 256 = _\<close> by simp
  finally have "(unat g AND 0xff0f) div 256 = unat g div 256" unfolding drop_bit_eq_div by simp
  then have "unat g div 256 = c div 256" using assms(1) by (simp add: unsigned_and_eq)
  moreover have "take_bit 16 (unat g) = unat g" using g by (simp add: take_bit_eq_mod)
  ultimately show ?thesis using assms(2) by (simp add: eq_unat unsigned_drop_bit_eq drop_bit_eq_div [where 'a = nat])
qed

lemma div_and_mod: "b < k \<Longrightarrow> (n::nat) div k = a \<and> n mod k = b \<longleftrightarrow> n = a * k + b"
  using div_mult_mod_eq [of n k] by auto

lemma refused4: "DeniedIP (Addr4 w) lo = refused lo (Addr4 w)"
proof -
  define M where "M = unat w div 65536"
  have w: "unat w < 2 ^ 32" using unsigned_less [of w, where 'a = nat] by simp
  have M: "M < 65536" using w by (simp add: M_def less_mult_imp_div_less)
  have b0: "unat (v4 w 0) = M div 256" using M unat_v4 [of 0 w] by (simp add: M_def div_mult2_eq [symmetric] less_mult_imp_div_less w)
  have b1: "unat (v4 w (Suc 0)) = M mod 256" using unat_v4 [of 1 w] by (simp add: M_def)
  have hi: "unat w div 16777216 = M div 256" "unat w div 1048576 = M div 16" "unat w div 268435456 = M div 4096"
    by (simp_all add: M_def div_mult2_eq [symmetric])
  have blocks: "list_ex (in_block4 w) blocks4 \<longleftrightarrow> M div 256 = 10 \<or> M div 16 = 2753 \<or> M = 49320 \<or> M = 43518 \<or>
      M div 4096 = 14 \<or> unat w = 4294967295 \<or> unat w = 0 \<or> unat w = 1684301000"
    by (simp add: blocks4_def in_block4_def addr4_of_def hi flip: M_def)
  have steps: "M mod 256 div 16 = M div 16 mod 16" "M div 256 = M div 16 div 16" "M div 4096 = M div 256 div 16"
    using mod_mult2_eq [of M 16 16] by (simp_all add: div_mult2_eq [symmetric])
  have pairs: "M div 256 = 172 \<and> M mod 256 div 16 = 1 \<longleftrightarrow> M div 16 = 2753" "M div 256 = 192 \<and> M mod 256 = 168 \<longleftrightarrow> M = 49320"
    "M div 256 = 169 \<and> M mod 256 = 254 \<longleftrightarrow> M = 43518" "M div 256 div 16 = M div 4096" "M div 256 = 224 \<Longrightarrow> M div 4096 = 14"
    using div_and_mod [of 1 16 "M div 16" 172] div_and_mod [of 168 256 M 192] div_and_mod [of 254 256 M 169]
    by (simp_all add: steps)
  have priv: "IsPrivate (Addr4 w) \<longleftrightarrow> M div 256 = 10 \<or> M div 16 = 2753 \<or> M = 49320"
    using pairs(1,2) by (simp add: IsPrivate_def Unmap_def eq_unat byte_mask b0 b1)
  have near: "IsLinkLocalUnicast (Addr4 w) \<longleftrightarrow> M = 43518"
    using pairs(3) by (simp add: IsLinkLocalUnicast_def Unmap_def eq_unat b0 b1)
  have multi: "IsMulticast (Addr4 w) \<longleftrightarrow> M div 4096 = 14"
    using pairs(4) by (simp add: IsMulticast_def Unmap_def eq_unat byte_mask b0)
  have narrow: "IsLinkLocalMulticast (Addr4 w) \<Longrightarrow> M div 4096 = 14"
    using pairs(5) by (simp add: IsLinkLocalMulticast_def Unmap_def eq_unat b0)
  have lo: "IsLoopback (Addr4 w) \<longleftrightarrow> M div 256 = 127" "in_block4 w ([127, 0, 0, 0], 8) \<longleftrightarrow> M div 256 = 127"
    by (simp_all add: IsLoopback_def Unmap_def eq_unat b0 in_block4_def addr4_of_def hi)
  show ?thesis
    using narrow by (auto simp: DeniedIP_def refused_def Unmap_def lo blocks priv near multi Let_def IsUnspecified_def
        IsInterfaceLocalMulticast_def broadcastIPv4_def metadataIPv4_def addr4_of_def eq_unat)
qed

lemma refused6:
  assumes "\<not> Is4In6 (Addr6 w z)"
  shows "DeniedIP (Addr6 w z) lo = refused lo (Addr6 w z)"
proof -
  define G where "G = unat w div 2 ^ 112"
  have w: "unat w < 2 ^ 128" using unsigned_less [of w, where 'a = nat] by simp
  have G: "G < 65536" using w unfolding G_def by (intro less_mult_imp_div_less) simp
  have g0: "unat (v6u16 w 0) = G" using unat_v6u16 [of 0 w] G by (simp add: G_def)
  have hi: "unat w div 2 ^ 121 = G div 512" "unat w div 2 ^ 118 = G div 64" "unat w div 2 ^ 120 = G div 256"
    unfolding G_def div_mult2_eq [symmetric] by simp_all
  have blocks: "list_ex (in_block6 w) blocks6 \<longleftrightarrow> G div 512 = 126 \<or> G div 64 = 1018 \<or> G div 256 = 255"
    by (simp add: blocks6_def in_block6_def hi [simplified])
  have same: "Unmap (Addr6 w z) = Addr6 w z" using assms by (simp add: Unmap_def)
  have priv: "IsPrivate (Addr6 w z) \<longleftrightarrow> G div 512 = 126"
    by (simp add: IsPrivate_def same eq_unat group_mask g0)
  have near: "IsLinkLocalUnicast (Addr6 w z) \<longleftrightarrow> G div 64 = 1018"
    by (simp add: IsLinkLocalUnicast_def same eq_unat group_mask g0)
  have multi: "IsMulticast (Addr6 w z) \<longleftrightarrow> G div 256 = 255"
    using G by (simp add: IsMulticast_def same eq_unat unsigned_drop_bit_eq drop_bit_eq_div [where 'a = nat] g0 take_bit_eq_mod)
  have narrow: "IsLinkLocalMulticast (Addr6 w z) \<or> IsInterfaceLocalMulticast (Addr6 w z) \<Longrightarrow> IsMulticast (Addr6 w z)"
    using narrow_multicast [where g = "v6u16 w 0", OF refl]
    by (auto simp: IsLinkLocalMulticast_def IsInterfaceLocalMulticast_def IsMulticast_def same)
  show ?thesis
    using narrow by (auto simp: DeniedIP_def refused_def same IsLoopback_def blocks priv near multi [symmetric] Let_def
        IsUnspecified_def broadcastIPv4_def metadataIPv4_def)
qed

lemma Unmap_mapped [simp]: "Unmap (Unmap a) = Unmap a"
  by (cases a) (auto simp: Unmap_def Is4In6_def)

lemma Unmap_invalid [simp]: "Unmap a = AddrInvalid \<longleftrightarrow> a = AddrInvalid"
  by (cases a) (auto simp: Unmap_def)

lemma denied_Unmap: "DeniedIP (Unmap a) lo = DeniedIP a lo" "refused lo (Unmap a) = refused lo a"
  by (simp_all add: DeniedIP_def refused_def)

lemma denied_refused: "DeniedIP a lo = refused lo a"
proof (cases "Unmap a")
  case AddrInvalid
  then show ?thesis by (cases a) (auto simp: DeniedIP_def refused_def Unmap_def split: if_splits)
next
  case (Addr4 w)
  with refused4 [of w lo] show ?thesis using denied_Unmap [where a = a and lo = lo] by simp
next
  case (Addr6 w z)
  then have "\<not> Is4In6 (Addr6 w z)" by (cases a) (auto simp: Unmap_def split: if_splits)
  with Addr6 refused6 [of w z lo] show ?thesis using denied_Unmap [where a = a and lo = lo] by simp
qed

text \<open>C27: the destinations the policy refuses are exactly the listed blocks, after a mapped address is turned into
  its IPv4 form: loopback unless it is allowed, the private, link-local and multicast blocks of both families,
  the broadcast, the metadata and the unspecified addresses.\<close>

theorem denied_exact: "DeniedIP a lo = refused lo a"
  by (rule denied_refused)

section \<open>The control hook\<close>

lemma split_on_chars: "c \<in> set s \<Longrightarrow> c \<noteq> d \<Longrightarrow> \<exists>p \<in> set (split_on d s). c \<in> set p"
proof (induction s)
  case (Cons x s)
  then show ?case by (cases "split_on d s") auto
qed simp

lemma octet_odd: "c \<in> set p \<Longrightarrow> \<not> is_digit c \<Longrightarrow> octet p = None"
  by (auto simp: octet_def list_all_iff)

lemma fields_odd:
  assumes "c \<in> set s" and "\<not> is_digit c" and "c \<noteq> CHR ''.''"
  shows "parseIPv4Fields s = None"
proof -
  from split_on_chars [OF assms(1,3)] octet_odd [OF _ assms(2)]
  have "None \<in> set (map octet (split_on (CHR ''.'') s))" by (metis image_eqI list.set_map)
  then show ?thesis unfolding parseIPv4Fields_def by (auto split: list.splits option.splits)
qed

lemma parse_mapped_zone: "z \<noteq> '''' \<Longrightarrow> ParseAddr (string4 w @ ''%'' @ z) = None"
proof -
  have "dropWhile (\<lambda>c. c \<notin> {CHR ''.'', CHR '':'', CHR ''%''}) (string4 w @ ''%'' @ z) =
      CHR ''.'' # (show_nat (unat (v4 w 1)) @ CHR ''.'' # show_nat (unat (v4 w 2)) @ CHR ''.'' # show_nat (unat (v4 w 3))) @ ''%'' @ z"
    unfolding string4_bytes append.assoc append_Cons by (rule first_mark [OF marks_no_digits]) simp
  moreover have "parseIPv4Fields (string4 w @ ''%'' @ z) = None"
    by (rule fields_odd [of "CHR ''%''"]) (simp_all add: is_digit_def)
  ultimately show ?thesis by (simp add: ParseAddr_def)
qed

text \<open>The address a dialler shows parses to the address itself, or to the IPv4 form of a mapped one.\<close>

lemma parse_shown:
  "ParseAddr (ip_string a) = (if a = AddrInvalid \<or> Is4In6 a \<and> zone_of a \<noteq> '''' then None else if Is4In6 a then Some (Unmap a) else Some a)"
proof (cases a)
  case AddrInvalid
  then show ?thesis by (simp add: ip_string_def ParseAddr_def)
next
  case (Addr6 w z)
  then show ?thesis
    using parse_ip_string [of a] parse_mapped_zone [of z "ucast w"]
    by (auto simp: ip_string_def zoned_def parse_string4 zone_of_def Unmap_def)
qed (use parse_ip_string [of a] in \<open>simp add: Is4In6_def\<close>)

definition plain_port :: "string \<Rightarrow> bool" where
  "plain_port p \<longleftrightarrow> no_brackets p \<and> CHR '':'' \<notin> set p"

lemma control_exact:
  assumes "no_brackets (zone_of a)" and "plain_port p"
  shows "SSRFControl lo (JoinHostPort (ip_string a) p) = None \<longleftrightarrow> \<not> refused lo a \<and> \<not> (Is4In6 a \<and> zone_of a \<noteq> '''')"
proof (cases "a = AddrInvalid")
  case True
  have "last_colon ('':'' @ p) = Some 0" using last_colon_at [of p "[]"] assms(2) by (simp add: plain_port_def)
  then have "SplitHostPort (JoinHostPort '''' p) = Some ('''', p)"
    using assms(2) by (simp add: JoinHostPort_def SplitHostPort_def plain_port_def no_brackets_def)
  then show ?thesis using True by (simp add: SSRFControl_def ip_string_def trim_brackets_def ParseAddr_def refused_def Unmap_def)
next
  case False
  have plain: "no_brackets (ip_string a)" by (rule ip_string_plain [OF assms(1)])
  have "SplitHostPort (JoinHostPort (ip_string a) p) = Some (ip_string a, p)"
    using assms(2) plain ip_string_nonempty [OF False] by (intro split_join) (simp_all add: plain_port_def)
  then show ?thesis
    using False denied_Unmap(1) [of a lo]
    by (auto simp: SSRFControl_def trim_plain [OF plain] parse_shown refused4 simp flip: denied_refused)
qed

text \<open>the hook the dialler calls decides on the very address that is dialled: it refuses the text \<open>host:port\<close>
  of an address exactly when the address is in a refused block, or is no address, or is a mapped one with
  a zone.\<close>

theorem dial_control_exact:
  assumes "no_brackets (zone_of a)" and "plain_port p"
  shows "SSRFControl lo (JoinHostPort (ip_string a) p) = None \<longleftrightarrow> \<not> refused lo a \<and> \<not> (Is4In6 a \<and> zone_of a \<noteq> '''')"
  by (rule control_exact [OF assms])

section \<open>What a client connects to\<close>

lemma port_plain: "plain_port (dial_port u)"
proof -
  have digits: "plain_port p" if "list_all is_digit p" for p
    using that by (auto simp: plain_port_def no_brackets_def list_all_iff is_digit_def)
  have "list_all is_digit (snd (url_host_port s))" for s
    by (simp add: url_host_port_def split: option.splits)
  then show ?thesis using digits by (simp add: dial_port_def Let_def) (simp add: plain_port_def no_brackets_def)
qed

definition let_through :: "bool \<Rightarrow> string \<Rightarrow> addr \<Rightarrow> bool" where
  "let_through lo p a \<longleftrightarrow> SSRFControl lo (JoinHostPort (ip_string a) p) = None"

text \<open>The connections a step adds to the log.\<close>

definition adds :: "(addr \<Rightarrow> bool) \<Rightarrow> 'w wire_world \<Rightarrow> 'w wire_world \<Rightarrow> bool" where
  "adds P x y \<longleftrightarrow> (\<exists>new. snd y = snd x @ new \<and> list_all P new)"

lemma adds_none [intro]: "snd y = snd x \<Longrightarrow> adds P x y"
  by (simp add: adds_def exI [of _ "[]"])

lemma adds_trans: "adds P x y \<Longrightarrow> adds P y z \<Longrightarrow> adds P x z"
  by (auto simp: adds_def)

lemma adds_mono: "adds P x y \<Longrightarrow> (\<And>a. P a \<Longrightarrow> Q a) \<Longrightarrow> adds Q x y"
  by (auto simp: adds_def list_all_iff)

lemma dial_adds: "dial nw lo p as first x = (r, y) \<Longrightarrow> adds (\<lambda>a. a \<in> set as \<and> let_through lo p a) x y"
proof (induction nw lo p as first x rule: dial.induct)
  case (2 nw lo p a as first x)
  show ?case
  proof (cases "SSRFControl lo (JoinHostPort (ip_string a) p)")
    case (Some e)
    with 2 show ?thesis by (fastforce intro: adds_mono)
  next
    case None
    obtain o' w where c: "nw_connect nw a (fst x) = (o', w)" by fastforce
    have one: "adds (\<lambda>b. b \<in> set (a # as) \<and> let_through lo p b) x (w, snd x @ [a])"
      using None by (simp add: adds_def let_through_def)
    show ?thesis
    proof (cases o')
      case None
      with one "2.prems" \<open>SSRFControl _ _ = None\<close> c show ?thesis by auto
    next
      case (Some e)
      with "2.prems" \<open>SSRFControl _ _ = None\<close> c
      have d: "dial nw lo p as (if first = None then Some e else first) (w, snd x @ [a]) = (r, y)" by simp
      have "adds (\<lambda>b. b \<in> set as \<and> let_through lo p b) (w, snd x @ [a]) y"
        by (rule "2.IH"(1) [OF \<open>SSRFControl _ _ = None\<close> c [symmetric] Some d])
      then have "adds (\<lambda>b. b \<in> set (a # as) \<and> let_through lo p b) (w, snd x @ [a]) y" by (rule adds_mono) simp
      with one show ?thesis by (rule adds_trans)
    qed
  qed
qed auto

text \<open>A zone is the name of an interface; it has no brackets.\<close>

definition plain_zones :: "'w network \<Rightarrow> bool" where
  "plain_zones nw \<longleftrightarrow> (\<forall>h w addrs w'. nw_lookup nw h w = (Inr addrs, w') \<longrightarrow> list_all (\<lambda>a. no_brackets (zone_of a)) addrs)"

lemma round_trip_adds:
  assumes "plain_zones nw" and "round_trip nw lo q x = (r, y)"
  shows "adds (\<lambda>a. \<not> refused lo a) x y"
proof (cases "nw_parse nw (hq_url q)")
  case (Inr u)
  show ?thesis
  proof (cases "validatedProxy (nw_proxy nw u)")
    case proxy: (Inr proxy)
    define target where "target = (case proxy of None \<Rightarrow> u | Some p \<Rightarrow> p)"
    obtain l w where l: "nw_lookup nw (Hostname target) (fst x) = (l, w)" by fastforce
    show ?thesis
    proof (cases l)
      case (Inr addrs)
      obtain d x1 where d: "dial nw lo (dial_port target) addrs None (w, snd x) = (d, x1)" by (rule prod.exhaust)
      have "list_all (\<lambda>a. no_brackets (zone_of a)) addrs" using assms(1) l Inr by (auto simp: plain_zones_def)
      then have "adds (\<lambda>a. \<not> refused lo a) (w, snd x) x1"
      proof (intro adds_mono [OF dial_adds [OF d]])
        fix a assume "a \<in> set addrs \<and> let_through lo (dial_port target) a"
        with \<open>list_all _ addrs\<close> control_exact [OF _ port_plain, of a lo target] show "\<not> refused lo a"
          by (simp add: let_through_def list_all_iff)
      qed
      then have x1: "adds (\<lambda>a. \<not> refused lo a) x x1" by (simp add: adds_def)
      note step = assms(2) [unfolded round_trip_def \<open>nw_parse nw _ = _\<close> sum.case proxy Let_def target_def [symmetric] l Inr prod.case d]
      have "y = x \<or> snd y = snd x1"
      proof (cases d)
        case (Some e)
        with step show ?thesis by (auto split: if_splits)
      next
        case None
        obtain r1 w1 where "nw_exchange nw q (fst x1) = (r1, w1)" by fastforce
        with None step show ?thesis by (auto split: if_splits option.splits)
      qed
      then show ?thesis using x1 by (auto simp: adds_def)
    next
      case (Inl e)
      then show ?thesis using assms(2)
        by (auto simp: round_trip_def \<open>nw_parse nw _ = _\<close> proxy Let_def l simp flip: target_def split: if_splits)
    qed
  qed (use assms(2) Inr in \<open>auto simp: round_trip_def split: if_splits\<close>)
qed (use assms(2) in \<open>auto simp: round_trip_def\<close>)

lemma client_loop_adds:
  "client_loop nw spec lo via q x = (r, y) \<Longrightarrow> plain_zones nw \<Longrightarrow> adds (\<lambda>a. \<not> refused lo a) x y"
proof (induction nw spec lo via q x rule: client_loop.induct)
  case (1 nw spec lo via q x)
  obtain r1 x1 where r1: "round_trip nw lo q x = (r1, x1)" by (rule prod.exhaust)
  from round_trip_adds [OF "1.prems"(2) r1] have a: "adds (\<lambda>a. \<not> refused lo a) x x1" .
  note step = "1.prems"(1) [unfolded client_loop.simps [of nw spec lo via q x] r1 prod.case]
  show ?case
  proof (cases "\<exists>resp q1. r1 = Inr resp \<and> nw_redirect nw q resp = Some (Inr q1) \<and>
      redirectPolicy (nw_parse nw) spec (hq_url q1) (Suc via) = FollowRedirect")
    case True
    then obtain resp q1 where t: "r1 = Inr resp" "nw_redirect nw q resp = Some (Inr q1)"
      "redirectPolicy (nw_parse nw) spec (hq_url q1) (Suc via) = FollowRedirect" by blast
    with step have "client_loop nw spec lo (Suc via) q1 x1 = (r, y)" by simp
    with "1.IH" [OF r1 [symmetric] t(1) t(2) refl t(3)] "1.prems"(2) a show ?thesis by (blast intro: adds_trans)
  next
    case False
    with step have "y = x1" by (auto split: sum.splits option.splits redirect_verdict.splits)
    with a show ?thesis by simp
  qed
qed

text \<open>Whatever names the resolver and the servers answer with, a client of the policy opens connections only
  to addresses outside the refused blocks; loopback is open only when the specification asks for it and its
  base URL is a loopback literal.\<close>

lemma egress_confined:
  assumes "egress_Client nw spec = Inr client" and "plain_zones nw" and "client q x = (r, y)"
  shows "\<exists>new. snd y = snd x @ new \<and>
    list_all (\<lambda>a. \<not> refused (es_AllowLoopback spec \<and> ValidateUpstreamURL (nw_parse nw) (es_BaseURL spec) = Inr True) a) new"
proof -
  from assms(1) obtain lit where l: "ValidateUpstreamURL (nw_parse nw) (es_BaseURL spec) = Inr lit"
    and "client = client_loop nw spec (es_AllowLoopback spec \<and> lit) 0"
    by (auto simp: egress_Client_def split: option.splits sum.splits)
  with client_loop_adds [of nw spec _ 0 q x r y] assms(2,3) show ?thesis by (auto simp: adds_def)
qed

section \<open>No redirect is followed\<close>

lemma unfollowed:
  "\<not> es_FollowRedirects spec \<Longrightarrow> client_loop nw spec lo 0 q x = (case round_trip nw lo q x of
      (Inl e, x1) \<Rightarrow> (Inl e, x1)
    | (Inr resp, x1) \<Rightarrow> (case nw_redirect nw q resp of Some (Inl e) \<Rightarrow> (Inl e, x1) | _ \<Rightarrow> (Inr resp, x1)))"
  by (subst client_loop.simps) (auto simp: redirectPolicy_def split: prod.splits sum.splits option.splits)

section \<open>The executors\<close>

lemma executor_New_client:
  "executor_New nw cfg deps = Inr xp \<Longrightarrow> \<exists>client. egress_Client nw (executor_spec cfg) = Inr client \<and> xp_client xp = client"
  by (auto simp: executor_New_def split: if_splits sum.splits)

text \<open>Every operation of an executor makes at most one call of its client.\<close>

definition one_call :: "'w executor_ports \<Rightarrow> 'w \<Rightarrow> 'w \<Rightarrow> bool" where
  "one_call xp x y \<longleftrightarrow> y = x \<or> (\<exists>q r. xp_client xp q x = (r, y))"

lemma executor_calls:
  "one_call xp x (snd (executor_Do cfg xp req cred x))"
  "one_call xp x (snd (executor_DoStream cfg xp req cred x))"
  "one_call xp x (snd (Probe cfg xp cred x))"
  "one_call xp x (snd (CountTokens cfg xp req x))"
proof -
  have c: "one_call xp x x" "xp_client xp q x = (r, y) \<Longrightarrow> one_call xp x y" for q r y
    unfolding one_call_def by blast+
  show "one_call xp x (snd (executor_Do cfg xp req cred x))"
    unfolding executor_Do_def by (simp split: sum.split prod.split) (blast intro: c)
  show "one_call xp x (snd (executor_DoStream cfg xp req cred x))"
    unfolding executor_DoStream_def by (simp split: sum.split prod.split) (blast intro: c)
  show "one_call xp x (snd (Probe cfg xp cred x))"
    unfolding Probe_def by (simp split: sum.split prod.split) (blast intro: c)
  show "one_call xp x (snd (CountTokens cfg xp req x))"
    unfolding CountTokens_def by (simp split: sum.split prod.split option.split) (blast intro: c)
qed

text \<open>C26: an executor built by its constructor opens connections, in all its operations, only to addresses
  outside the refused blocks, whatever the request, the resolver and the upstream say; loopback is open only
  for a family that allows it and whose base URL is a loopback literal.\<close>

theorem executor_confined:
  assumes "executor_New nw cfg deps = Inr xp" and "plain_zones nw"
    and "y = snd (executor_Do cfg xp req cred x) \<or> y = snd (executor_DoStream cfg xp req cred x) \<or>
         y = snd (Probe cfg xp cred x) \<or> y = snd (CountTokens cfg xp req x)"
  shows "\<exists>new. snd y = snd x @ new \<and>
    list_all (\<lambda>a. \<not> refused (xf_AllowLoopback cfg \<and> ValidateUpstreamURL (nw_parse nw) (xf_BaseURL cfg) = Inr True) a) new"
proof -
  from assms(3) executor_calls have "one_call xp x y" by metis
  then consider "y = x" | q r where "xp_client xp q x = (r, y)" by (auto simp: one_call_def)
  then show ?thesis
  proof cases
    case 2
    obtain client where c: "egress_Client nw (executor_spec cfg) = Inr client" "xp_client xp = client"
      using executor_New_client [OF assms(1)] by blast
    from egress_confined [OF c(1) assms(2)] 2 c(2) show ?thesis by (auto simp: executor_spec_def)
  qed (simp add: exI [of _ "[]"])
qed

section \<open>Gaps\<close>

text \<open>The unspecified address with a zone passes, and so do the addresses of \<open>0.0.0.0/8\<close> other than \<open>0.0.0.0\<close>.\<close>

lemma zone_hides_unspecified: "z \<noteq> '''' \<Longrightarrow> \<not> DeniedIP (Addr6 0 z) lo"
  by (simp add: denied_refused refused_def Unmap_def Is4In6_def blocks6_def in_block6_def)

lemma this_network_open: "\<not> DeniedIP (Addr4 1) False"
  by (simp add: denied_refused refused_def Unmap_def blocks4_def in_block4_def addr4_of_def)

text \<open>The target of a CONNECT request is not in the host of its URL, so the guard refuses every tunnel: over an
  HTTP proxy no \<open>https\<close> upstream can be reached.\<close>

lemma connect_refused: "proxyConnectGuard lo (Some connect_url) = Some (destinationDenied '''')"
  by (simp add: proxyConnectGuard_def connect_url_def Hostname_def url_host_port_def last_colon_def)

lemma no_https_over_proxy:
  assumes "nw_parse nw (hq_url q) = Inr u" and "validatedProxy (nw_proxy nw u) = Inr proxy" and "tunnels u proxy"
  shows "round_trip nw lo q x \<noteq> (Inr resp, y)"
proof -
  define target where "target = (case proxy of None \<Rightarrow> u | Some p \<Rightarrow> p)"
  obtain l w where l: "nw_lookup nw (Hostname target) (fst x) = (l, w)" by fastforce
  have "\<exists>e y. round_trip nw lo q x = (Inl e, y)"
  proof (cases l)
    case (Inr addrs)
    obtain d x1 where "dial nw lo (dial_port target) addrs None (w, snd x) = (d, x1)" by (rule prod.exhaust)
    then show ?thesis
      by (cases d) (simp_all add: round_trip_def assms Let_def l Inr connect_refused flip: target_def)
  qed (simp add: round_trip_def assms Let_def l flip: target_def)
  then show ?thesis by auto
qed

text \<open>A SOCKS proxy opens no tunnel by CONNECT; the destination is not looked at.\<close>

lemma socks_unguarded: "map lower (up_Scheme p) = ''socks5'' \<Longrightarrow> \<not> tunnels u (Some p)"
  by (simp add: tunnels_def)

section \<open>Witnesses\<close>

theorem dial_control_exact_witness:
  "SSRFControl False (JoinHostPort (ip_string (Addr6 1 '''')) ''443'') \<noteq> None"
proof -
  have "no_brackets (zone_of (Addr6 1 ''''))" "plain_port ''443''" by (simp_all add: no_brackets_def zone_of_def plain_port_def)
  moreover have "refused False (Addr6 1 '''')" by (simp add: refused_def Unmap_def Is4In6_def)
  ultimately show ?thesis using dial_control_exact [of "Addr6 1 ''''" "''443''" False] by simp
qed

text \<open>A network whose resolver answers a private address beside a public one.\<close>

definition rebinding_network :: "nat network" where
  "rebinding_network = \<lparr>nw_parse = (\<lambda>u. Inr \<lparr>up_Scheme = ''https'', up_User = False, up_Host = ''api.x'', up_Redacted = u\<rparr>),
     nw_proxy = (\<lambda>_. Inr None), nw_lookup = (\<lambda>h w. (Inr [Addr4 (addr4_of [10, 0, 0, 1]), Addr4 (addr4_of [8, 8, 8, 8])], w)),
     nw_connect = (\<lambda>a w. (None, w + 1)),
     nw_exchange = (\<lambda>q w. (Inr \<lparr>hr_status = 200, hr_header = [], hr_bytes = '''', hr_end = EndEOF\<rparr>, w)),
     nw_redirect = (\<lambda>q r. None)\<rparr>"

definition rebinding_deps :: "nat wire_world executor_ports" where
  "rebinding_deps = \<lparr>xp_Open = None, xp_client = (\<lambda>q x. (Inl (Foreign ''unused'' []), x)), xp_url_error = (\<lambda>u. None),
     xp_now = (\<lambda>x. 0), xp_ParseTime = (\<lambda>s. None), xp_timeout = (\<lambda>e. False), xp_json = NotJson\<rparr>"

definition rebound :: "nat wire_world executor_ports" where
  "rebound = rebinding_deps\<lparr>xp_client := client_loop rebinding_network (executor_spec test_config) False 0\<rparr>"

lemma rebound_built: "executor_New rebinding_network test_config rebinding_deps = Inr rebound"
proof -
  have "spec_Validate (executor_spec test_config) = None" by code_simp
  moreover have "ValidateUpstreamURL (nw_parse rebinding_network) (es_BaseURL (executor_spec test_config)) = Inr False"
    by (simp add: ValidateUpstreamURL_def rebinding_network_def Hostname_def url_host_port_def last_colon_def IsLoopbackLiteral_def
        trim_brackets_def ParseAddr_def parseIPv4Fields_def octet_def is_digit_def lower_def)
  moreover have "xf_BaseURL test_config \<noteq> ''''" by (simp add: test_config_def)
  ultimately show ?thesis by (simp add: executor_New_def egress_Client_def rebound_def)
qed

lemma rebound_plain: "plain_zones rebinding_network"
  by (auto simp: plain_zones_def rebinding_network_def zone_of_def no_brackets_def)

theorem executor_confined_witness:
  "\<exists>new. snd (snd (executor_Do test_config rebound test_request (test_credential\<lparr>cr_AuthMode := AuthNone\<rparr>) (0, []))) = [] @ new \<and>
     list_all (\<lambda>a. \<not> refused False a) new"
  using executor_confined [OF rebound_built rebound_plain disjI1 [OF refl], of test_request "test_credential\<lparr>cr_AuthMode := AuthNone\<rparr>" "(0, [])"]
  by (simp add: test_config_def)

text \<open>The refused address is passed over and the next one is used.\<close>

lemma rebinding_defeated:
  "dial rebinding_network False ''443'' [Addr4 (addr4_of [10, 0, 0, 1]), Addr4 (addr4_of [8, 8, 8, 8])] None (0, []) =
     (None, (1, [Addr4 (addr4_of [8, 8, 8, 8])]))"
proof -
  have "SSRFControl False (JoinHostPort (ip_string (Addr4 w)) ''443'') = None \<longleftrightarrow> \<not> refused False (Addr4 w)" for w
    using control_exact [of "Addr4 w" "''443''" False] by (simp add: zone_of_def no_brackets_def plain_port_def Is4In6_def)
  moreover have "refused False (Addr4 (addr4_of [10, 0, 0, 1]))" "\<not> refused False (Addr4 (addr4_of [8, 8, 8, 8]))"
    by (simp_all add: refused_def Unmap_def in_block4_def blocks4_def addr4_of_def)
  ultimately show ?thesis by (auto simp: rebinding_network_def split: option.split)
qed

end
