(* ===== verification/Http_Guards.thy ===== *)
theory Http_Guards
  imports Egress
begin

text \<open>
  The guards in front of every route: \<open>internal/api/middleware\<close> (\<open>middleware.go\<close>, \<open>security.go\<close>, \<open>errors.go\<close>) and
  their order in \<open>App.Handler\<close>.  A handler takes a request and the response headers set so far and writes an
  answer or panics.  The request carries what the context of the code carries, the request id and the
  authenticated client.  The redaction of error parameters, the URL parser and the key verifier are
  parameters.  A host compared with \<open>EqualFold\<close> is ASCII: \<open>net/http\<close> refuses any other \<open>Host\<close> header.
\<close>

section \<open>Requests and answers\<close>

record in_request =
  rq_Method :: string
  rq_Path :: string
  rq_Host :: string
  rq_RemoteAddr :: string
  rq_Header :: http_header
  rq_Query :: "(string \<times> string list) list"
  rq_RequestID :: string
  rq_ClientID :: client_id

datatype out_body = ErrorBody string "(string \<times> string) list" | OtherBody string

record out_response =
  or_Status :: int
  or_Header :: http_header
  or_Body :: out_body

datatype http_out = Written out_response | Panicked http_header

type_synonym 'w handler = "in_request \<Rightarrow> http_header \<Rightarrow> 'w \<Rightarrow> http_out \<times> 'w"

definition CodeForbiddenLocalOnly :: string where "CodeForbiddenLocalOnly = ''error.forbidden_local_only''"
definition CodeMethodNotAllowed :: string where "CodeMethodNotAllowed = ''error.method_not_allowed''"
definition CodeServerHostInvalid :: string where "CodeServerHostInvalid = ''server.host_invalid''"
definition CodeServerOriginInvalid :: string where "CodeServerOriginInvalid = ''server.origin_invalid''"
definition CodeClientKeyInvalid :: string where "CodeClientKeyInvalid = ''clientkey.invalid''"

definition asDomainError :: "go_error \<Rightarrow> domain_error" where
  "asDomainError err = (case errors_as err of Some d \<Rightarrow> d
     | None \<Rightarrow> New CodeInternal [WithHTTPStatus 500, WithParams [(''reason'', ''internal'')]])"

definition WriteError :: "(string \<Rightarrow> string) \<Rightarrow> domain_error \<Rightarrow> http_header \<Rightarrow> http_out" where
  "WriteError redact de h = Written \<lparr>or_Status = (if de_http_status de = 0 then 500 else de_http_status de),
     or_Header = Header_Set ''Content-Type'' ''application/json; charset=utf-8'' h,
     or_Body = ErrorBody (de_code de) (map (\<lambda>(k, v). (k, redact v)) (de_params de))\<rparr>"

text \<open>\<open>strings.TrimSpace\<close>: without the longest blank prefix, then without the longest blank suffix.\<close>

definition trim_left :: "string \<Rightarrow> string" where
  "trim_left s = drop (last (filter (\<lambda>k. blank (take k s)) [0..<length s + 1])) s"

definition TrimSpace :: "string \<Rightarrow> string" where
  "TrimSpace s = (let t = trim_left s in take (hd (filter (\<lambda>k. blank (drop k t)) [0..<length t + 1])) t)"

definition HasPrefix :: "string \<Rightarrow> string \<Rightarrow> bool" where
  "HasPrefix s p \<longleftrightarrow> take (length p) s = p"

definition CutPrefix :: "string \<Rightarrow> string \<Rightarrow> string option" where
  "CutPrefix s p = (if HasPrefix s p then Some (drop (length p) s) else None)"

definition TrimSlash :: "string \<Rightarrow> string" where
  "TrimSlash s = rev (dropWhile (\<lambda>c. c = CHR ''/'') (rev s))"

section \<open>Peers and hosts\<close>

definition hostOf :: "string \<Rightarrow> string" where
  "hostOf remote = (if remote = '''' then ''''
     else (case SplitHostPort remote of Some (host, p) \<Rightarrow> host | None \<Rightarrow> trim_brackets remote))"

definition IsLoopbackRemote :: "string \<Rightarrow> bool" where
  "IsLoopbackRemote remote = (let host = hostOf remote in
     if host = '''' then False
     else (case ParseAddr host of Some a \<Rightarrow> IsLoopback a | None \<Rightarrow> EqualFold host ''localhost''))"

definition LocalOnly :: "(string \<Rightarrow> string) \<Rightarrow> 'w handler \<Rightarrow> 'w handler" where
  "LocalOnly redact nxt r h w =
     (if \<not> IsLoopbackRemote (rq_RemoteAddr r) then
        (WriteError redact (New CodeForbiddenLocalOnly [WithHTTPStatus 403, WithParams [(''remote'', rq_RemoteAddr r)]]) h, w)
      else nxt r h w)"

definition isLoopbackHostName :: "string \<Rightarrow> bool" where
  "isLoopbackHostName host \<longleftrightarrow> EqualFold host ''localhost'' \<or>
     (case ParseAddr host of Some a \<Rightarrow> IsLoopback a | None \<Rightarrow> False)"

definition middleware_splitHostPort :: "string \<Rightarrow> (string \<times> string) option" where
  "middleware_splitHostPort raw = map_option (\<lambda>(host, port). (trim_brackets host, port)) (SplitHostPort raw)"

definition hostWithoutPort :: "string \<Rightarrow> string" where
  "hostWithoutPort s = (let raw = TrimSpace s in
     if raw = '''' then ''''
     else (case middleware_splitHostPort raw of Some (host, p) \<Rightarrow> host | None \<Rightarrow> trim_brackets raw))"

definition HostAllowed :: "string \<Rightarrow> string list \<Rightarrow> bool" where
  "HostAllowed host allowlist = (let h = hostWithoutPort host in
     if h = '''' then False
     else isLoopbackHostName h \<or> list_ex (\<lambda>allowed. EqualFold (hostWithoutPort allowed) h) allowlist)"

definition HostGuard :: "(string \<Rightarrow> string) \<Rightarrow> string list \<Rightarrow> 'w handler \<Rightarrow> 'w handler" where
  "HostGuard redact allowlist nxt r h w =
     (if \<not> HostAllowed (rq_Host r) allowlist then (WriteError redact (New CodeServerHostInvalid [WithHTTPStatus 403]) h, w)
      else nxt r h w)"

section \<open>Origins\<close>

definition isManagementOrGUI :: "string \<Rightarrow> bool" where
  "isManagementOrGUI path \<longleftrightarrow> HasPrefix path ''/api/mgmt/'' \<or> HasPrefix path ''/web/'' \<or> path = ''/web''"

definition isMutating :: "string \<Rightarrow> bool" where
  "isMutating meth \<longleftrightarrow> meth \<in> {''POST'', ''PUT'', ''PATCH'', ''DELETE''}"

definition originAllowed :: "url_parser \<Rightarrow> in_request \<Rightarrow> string list \<Rightarrow> bool" where
  "originAllowed up r extra =
     (let o1 = TrimSpace (Header_Get (rq_Header r) ''Origin'');
          raw = (if o1 = '''' then TrimSpace (Header_Get (rq_Header r) ''Referer'') else o1) in
      if raw = '''' then True
      else (case up raw of Inl e \<Rightarrow> False
        | Inr u \<Rightarrow>
            if up_Scheme u \<noteq> ''http'' \<and> up_Scheme u \<noteq> ''https'' then False
            else isLoopbackHostName (Hostname u) \<or>
              list_ex (\<lambda>allowed. EqualFold (TrimSlash allowed) (up_Scheme u @ ''://'' @ up_Host u)) extra))"

definition OriginGuard :: "(string \<Rightarrow> string) \<Rightarrow> url_parser \<Rightarrow> string list \<Rightarrow> 'w handler \<Rightarrow> 'w handler" where
  "OriginGuard redact up extra nxt r h w =
     (if \<not> isManagementOrGUI (rq_Path r) \<or> \<not> isMutating (rq_Method r) then nxt r h w
      else if \<not> originAllowed up r extra then (WriteError redact (New CodeServerOriginInvalid [WithHTTPStatus 403]) h, w)
      else nxt r h w)"

definition corsAllowed :: "string \<Rightarrow> string list \<Rightarrow> bool" where
  "corsAllowed origin allowed \<longleftrightarrow> list_ex (\<lambda>a. a \<noteq> ''*'' \<and> EqualFold (TrimSlash a) (TrimSlash origin)) allowed"

definition CORS :: "string list \<Rightarrow> 'w handler \<Rightarrow> 'w handler" where
  "CORS allowedOrigins nxt r h w =
     (if \<not> HasPrefix (rq_Path r) ''/v1/'' then nxt r h w
      else (let origin = TrimSpace (Header_Get (rq_Header r) ''Origin'') in
        if origin = '''' then nxt r h w
        else if \<not> corsAllowed origin allowedOrigins then
          (if rq_Method r = ''OPTIONS'' then (Written \<lparr>or_Status = 403, or_Header = h, or_Body = OtherBody ''''\<rparr>, w)
           else nxt r h w)
        else (let h1 = Header_Add ''Vary'' ''Origin'' (Header_Set ''Access-Control-Allow-Origin'' origin h) in
          if rq_Method r = ''OPTIONS'' then
            (Written \<lparr>or_Status = 204,
               or_Header = Header_Set ''Access-Control-Max-Age'' ''600''
                 (Header_Set ''Access-Control-Allow-Headers'' ''Authorization, Content-Type, X-API-Key''
                   (Header_Set ''Access-Control-Allow-Methods'' ''GET, POST, OPTIONS'' h1)),
               or_Body = OtherBody ''''\<rparr>, w)
          else nxt r h1 w)))"

section \<open>Client keys\<close>

definition query_get :: "(string \<times> string list) list \<Rightarrow> string \<Rightarrow> string" where
  "query_get q k = (case map_of q k of Some (v # _) \<Rightarrow> v | _ \<Rightarrow> '''')"

definition keyInQuery :: "(string \<times> string list) list \<Rightarrow> bool" where
  "keyInQuery q \<longleftrightarrow> list_ex (\<lambda>name. TrimSpace (query_get q name) \<noteq> '''') [''api_key'', ''apikey'', ''token'', ''key'', ''access_token'']"

definition ExtractClientKey :: "http_header \<Rightarrow> string" where
  "ExtractClientKey h = (let auth = TrimSpace (Header_Get h ''Authorization'') in
     if auth \<noteq> '''' then (case CutPrefix auth ''Bearer '' of Some token \<Rightarrow> TrimSpace token | None \<Rightarrow> '''')
     else TrimSpace (Header_Get h ''X-API-Key''))"

definition clientKeyInvalid :: domain_error where
  "clientKeyInvalid = New CodeClientKeyInvalid [WithHTTPStatus 401, WithScope ScopeRequest]"

definition ClientAuth :: "(string \<Rightarrow> string) \<Rightarrow> (string \<Rightarrow> 'w \<Rightarrow> client_id option \<times> 'w) \<Rightarrow> bool \<Rightarrow> 'w handler \<Rightarrow> 'w handler" where
  "ClientAuth redact verify require nxt r h w =
     (if \<not> HasPrefix (rq_Path r) ''/v1/'' then nxt r h w
      else if keyInQuery (rq_Query r) then
        (WriteError redact (New CodeInvalidRequest [WithHTTPStatus 400, WithScope ScopeRequest, WithParams [(''reason'',
           ''client keys must not be passed in the URL query string; use the Authorization header'')]]) h, w)
      else if \<not> isMutating (rq_Method r) then nxt r h w
      else (let key = ExtractClientKey (rq_Header r) in
        if key = '''' then (if require then (WriteError redact clientKeyInvalid h, w) else nxt r h w)
        else (case verify key w of
            (None, w1) \<Rightarrow> (WriteError redact clientKeyInvalid h, w1)
          | (Some i, w1) \<Rightarrow> nxt (r\<lparr>rq_ClientID := i\<rparr>) h w1)))"

section \<open>Envelope, request id and recovery\<close>

definition envelopeCodeFor :: "int \<Rightarrow> string option" where
  "envelopeCodeFor status = (if status = 404 then Some CodeNotFound else if status = 405 then Some CodeMethodNotAllowed else None)"

text \<open>What the wrapped writer makes of the answer of the routes.\<close>

definition envelope_answer :: "(string \<Rightarrow> string) \<Rightarrow> out_response \<Rightarrow> http_out" where
  "envelope_answer redact a = (case envelopeCodeFor (or_Status a) of None \<Rightarrow> Written a
     | Some code \<Rightarrow>
         if HasPrefix (Header_Get (or_Header a) ''Content-Type'') ''application/json'' then Written a
         else WriteError redact (New code [WithHTTPStatus (or_Status a)])
           (Header_Del ''X-Content-Type-Options'' (Header_Del ''Content-Type'' (Header_Del ''Content-Length'' (or_Header a)))))"

definition ErrorEnvelope :: "(string \<Rightarrow> string) \<Rightarrow> 'w handler \<Rightarrow> 'w handler" where
  "ErrorEnvelope redact nxt r h w = (case nxt r h w of
      (Written a, w1) \<Rightarrow> (envelope_answer redact a, w1)
    | (Panicked h1, w1) \<Rightarrow> (Panicked h1, w1))"

definition RequestID :: "('w \<Rightarrow> string \<times> 'w) \<Rightarrow> 'w handler \<Rightarrow> 'w handler" where
  "RequestID gen nxt r h w = (case gen w of (i, w1) \<Rightarrow> nxt (r\<lparr>rq_RequestID := i\<rparr>) (Header_Set ''X-Request-ID'' i h) w1)"

text \<open>A panic of a route leaves the headers it had set; what it had already written is left out.\<close>

definition Recoverer :: "(string \<Rightarrow> string) \<Rightarrow> 'w handler \<Rightarrow> 'w handler" where
  "Recoverer redact nxt r h w = (case nxt r h w of
      (Written a, w1) \<Rightarrow> (Written a, w1)
    | (Panicked h1, w1) \<Rightarrow> (WriteError redact (New CodeInternal [WithHTTPStatus 500]) h1, w1))"

section \<open>The order of the guards\<close>

record security_settings =
  sec_AllowRemote :: bool
  sec_Host :: string
  sec_HostAllowlist :: "string list"
  sec_CORSAllowedOrigins :: "string list"
  sec_RequireClientKey :: bool

definition hostAllowlist :: "security_settings \<Rightarrow> string list" where
  "hostAllowlist s =
     (if \<not> sec_AllowRemote s then sec_HostAllowlist s
      else (let h = TrimSpace (sec_Host s) in
        if h \<in> {'''', ''0.0.0.0'', ''::'', ''[::]''} then sec_HostAllowlist s else sec_HostAllowlist s @ [h]))"

record 'w app_parts =
  ap_redact :: "string \<Rightarrow> string"
  ap_url :: url_parser
  ap_verify :: "(string \<Rightarrow> 'w \<Rightarrow> client_id option \<times> 'w) option"
  ap_requestID :: "'w \<Rightarrow> string \<times> 'w"
  ap_observe :: "'w handler \<Rightarrow> 'w handler"

definition App_Handler :: "security_settings \<Rightarrow> 'w app_parts \<Rightarrow> 'w handler \<Rightarrow> 'w handler" where
  "App_Handler s p mux =
     (let redact = ap_redact p;
          h1 = ap_observe p (ErrorEnvelope redact mux);
          h2 = (case ap_verify p of None \<Rightarrow> h1 | Some verify \<Rightarrow> ClientAuth redact verify (sec_RequireClientKey s) h1);
          h3 = OriginGuard redact (ap_url p) (sec_CORSAllowedOrigins s) h2;
          h4 = CORS (sec_CORSAllowedOrigins s) h3;
          h5 = HostGuard redact (hostAllowlist s) h4;
          h6 = LocalOnly redact h5;
          h7 = RequestID (ap_requestID p) h6
      in Recoverer redact h7)"

end
