(* ===== verification/Access.thy ===== *)
theory Access
  imports Http_Guards Go_Float
begin

text \<open>
  Who may enter: the throttle of failed management logins and the guard that uses it
  (\<open>internal/api/middleware\<close>), the throttle of token rotations (\<open>internal/api/mgmt/rotation.go\<close>), the stored
  hash of the management token (\<open>internal/store/store.go\<close>) and the client keys
  (\<open>internal/store/clientkey_store.go\<close>).  SHA-256 is a parameter, random bytes are arguments.  A method reads
  the clock once.  A stored time is its instant, the zero time the empty column.
\<close>

definition CodeManagementAuthFailed :: string where "CodeManagementAuthFailed = ''api.mgmt.token_invalid''"
definition CodeQuotaRateLimited :: string where "CodeQuotaRateLimited = ''quota.rate_limited''"
definition CodeTokenRotateThrottled :: string where "CodeTokenRotateThrottled = ''token.rotate_throttled''"
definition CodeClientKeyStoreFailed :: string where "CodeClientKeyStoreFailed = ''clientkey.store_failed''"
definition CodeClientKeyNotFound :: string where "CodeClientKeyNotFound = ''clientkey.not_found''"

section \<open>The login throttle\<close>

record login_entry =
  le_failures :: int
  le_windowStart :: gotime
  le_lockedUntil :: gotime

record login_throttle =
  lt_limit :: int
  lt_window :: duration
  lt_entries :: "string \<Rightarrow> login_entry option"

definition NewLoginThrottle :: "int \<Rightarrow> duration \<Rightarrow> login_throttle option" where
  "NewLoginThrottle limit window =
     (if limit \<le> 0 \<or> window \<le> 0 then None
      else Some \<lparr>lt_limit = limit, lt_window = window, lt_entries = (\<lambda>_. None)\<rparr>)"

definition put_entry :: "string \<Rightarrow> login_entry \<Rightarrow> login_throttle \<Rightarrow> login_throttle" where
  "put_entry ip e t = t\<lparr>lt_entries := (lt_entries t)(ip \<mapsto> e)\<rparr>"

definition current_entry :: "gotime \<Rightarrow> duration \<Rightarrow> login_entry option \<Rightarrow> login_entry" where
  "current_entry now window oe = (case oe of
      None \<Rightarrow> \<lparr>le_failures = 0, le_windowStart = now, le_lockedUntil = 0\<rparr>
    | Some e \<Rightarrow>
        if now < le_lockedUntil e then e
        else if time_sub now (le_windowStart e) \<ge> window then \<lparr>le_failures = 0, le_windowStart = now, le_lockedUntil = 0\<rparr>
        else e)"

definition entryLocked :: "gotime \<Rightarrow> string \<Rightarrow> login_throttle \<Rightarrow> login_entry \<times> login_throttle" where
  "entryLocked now ip t = (let e = current_entry now (lt_window t) (lt_entries t ip) in (e, put_entry ip e t))"

definition throttle_Allow :: "gotime \<Rightarrow> string \<Rightarrow> login_throttle \<Rightarrow> bool \<times> login_throttle" where
  "throttle_Allow now ip t = (case entryLocked now ip t of (e, t1) \<Rightarrow>
     (if now < le_lockedUntil e then False else le_failures e < lt_limit t, t1))"

definition throttle_Fail :: "gotime \<Rightarrow> string \<Rightarrow> login_throttle \<Rightarrow> login_throttle" where
  "throttle_Fail now ip t = (case entryLocked now ip t of (e, t1) \<Rightarrow>
     (let n = le_failures e + 1 in
      put_entry ip (e\<lparr>le_failures := n,
        le_lockedUntil := (if n \<ge> lt_limit t then now + lt_window t else le_lockedUntil e)\<rparr>) t1))"

definition throttle_Success :: "string \<Rightarrow> login_throttle \<Rightarrow> login_throttle" where
  "throttle_Success ip t = t\<lparr>lt_entries := (lt_entries t)(ip := None)\<rparr>"

definition throttle_RetryAfter :: "gotime \<Rightarrow> string \<Rightarrow> login_throttle \<Rightarrow> duration \<times> login_throttle" where
  "throttle_RetryAfter now ip t = (case entryLocked now ip t of (e, t1) \<Rightarrow>
     (let remaining = time_sub (le_lockedUntil e) now in (if remaining > 0 then remaining else 0, t1)))"

section \<open>The management guard\<close>

text \<open>\<open>Duration.Seconds\<close> and the whole seconds the code makes of it.\<close>

definition duration_seconds :: "duration \<Rightarrow> float64" where
  "duration_seconds d = fl (float_of_int (sgn d * (\<bar>d\<bar> div 1000000000)) + fl (float_of_int (sgn d * (\<bar>d\<bar> mod 1000000000)) / 1000000000))"

definition retry_seconds :: "duration \<Rightarrow> int" where
  "retry_seconds d = (let secs = trunc (fl (duration_seconds d + fl (999 / 1000))) in if secs < 1 then 1 else secs)"

definition writeRateLimited :: "(string \<Rightarrow> string) \<Rightarrow> duration \<Rightarrow> http_header \<Rightarrow> http_out" where
  "writeRateLimited redact retryAfter h = (let secs = itoa (retry_seconds retryAfter) in
     WriteError redact (New CodeQuotaRateLimited [WithHTTPStatus 429, WithParams [(''retry_after'', secs)]])
       (Header_Set ''Retry-After'' secs h))"

definition extractToken :: "http_header \<Rightarrow> string" where
  "extractToken hdr = (let h = Header_Get hdr ''Authorization'' in
     if h \<noteq> '''' then (case CutPrefix h ''Bearer '' of Some after \<Rightarrow> TrimSpace after | None \<Rightarrow> TrimSpace h)
     else TrimSpace (Header_Get hdr ''X-Management-Token''))"

definition ClientIP :: "in_request \<Rightarrow> string" where
  "ClientIP r = hostOf (rq_RemoteAddr r)"

record 'w management_auth =
  ma_redact :: "string \<Rightarrow> string"
  ma_now :: "'w \<Rightarrow> gotime"
  ma_Verify :: "(string \<Rightarrow> 'w \<Rightarrow> bool \<times> 'w) option"

text \<open>The throttle, when there is one, is part of the world of the guard.\<close>

type_synonym 'w auth_world = "'w \<times> login_throttle option"

definition ManagementAuth :: "'w management_auth \<Rightarrow> 'w auth_world handler \<Rightarrow> 'w auth_world handler" where
  "ManagementAuth a nxt r h x =
     (let ip = ClientIP r; w = fst x;
          (allowed, t1) = (case snd x of None \<Rightarrow> (True, None)
            | Some t \<Rightarrow> (case throttle_Allow (ma_now a w) ip t of (ok, t1) \<Rightarrow> (ok, Some t1))) in
      if \<not> allowed then
        (case throttle_RetryAfter (ma_now a w) ip (the t1) of (d, t2) \<Rightarrow> (writeRateLimited (ma_redact a) d h, (w, Some t2)))
      else
        (let token = extractToken (rq_Header r);
             (ok, w1) = (if token = '''' then (False, w) else (case ma_Verify a of None \<Rightarrow> (False, w) | Some verify \<Rightarrow> verify token w)) in
         if \<not> ok then
           (WriteError (ma_redact a) (New CodeManagementAuthFailed [WithHTTPStatus 401]) h,
            (w1, map_option (throttle_Fail (ma_now a w1) ip) t1))
         else nxt r h (w1, map_option (throttle_Success ip) t1)))"

section \<open>Token rotation\<close>

record rotation_throttle =
  rt_window :: duration
  rt_last :: gotime
  rt_started :: bool

definition DefaultRotationWindow :: duration where "DefaultRotationWindow = 5000000000"

definition NewRotationThrottle :: "duration \<Rightarrow> rotation_throttle" where
  "NewRotationThrottle window = \<lparr>rt_window = (if window \<le> 0 then DefaultRotationWindow else window), rt_last = 0, rt_started = False\<rparr>"

definition rotation_allow :: "gotime \<Rightarrow> rotation_throttle \<Rightarrow> (bool \<times> duration) \<times> rotation_throttle" where
  "rotation_allow now t =
     (if rt_started t \<and> time_sub now (rt_last t) < rt_window t then ((False, rt_window t - time_sub now (rt_last t)), t)
      else ((True, 0), t\<lparr>rt_last := now, rt_started := True\<rparr>))"

section \<open>The management token\<close>

definition hex_encode :: "nat list \<Rightarrow> string" where
  "hex_encode bs = concat (map (\<lambda>b. [hex_char (b div 16), hex_char (b mod 16)]) bs)"

text \<open>The row of the table \<open>meta\<close> that holds the hash.\<close>

type_synonym token_row = "string option"

definition RotateManagementToken :: "(string \<Rightarrow> string) \<Rightarrow> nat list \<Rightarrow> token_row \<Rightarrow> string \<times> token_row" where
  "RotateManagementToken hash random row = (let token = hex_encode random in (token, Some (hash token)))"

definition EnsureManagementTokenHash :: "(string \<Rightarrow> string) \<Rightarrow> nat list \<Rightarrow> token_row \<Rightarrow> string option \<times> token_row" where
  "EnsureManagementTokenHash hash random row = (case row of
      Some existing \<Rightarrow> if existing \<noteq> '''' then (None, row)
        else (case RotateManagementToken hash random row of (token, row1) \<Rightarrow> (Some token, row1))
    | None \<Rightarrow> (case RotateManagementToken hash random row of (token, row1) \<Rightarrow> (Some token, row1)))"

definition HasManagementToken :: "token_row \<Rightarrow> bool" where
  "HasManagementToken row \<longleftrightarrow> (case row of Some v \<Rightarrow> v \<noteq> '''' | None \<Rightarrow> False)"

definition VerifyManagementToken :: "(string \<Rightarrow> string) \<Rightarrow> string \<Rightarrow> token_row \<Rightarrow> bool" where
  "VerifyManagementToken hash presented row \<longleftrightarrow> (case row of None \<Rightarrow> False
     | Some stored \<Rightarrow> stored \<noteq> '''' \<and> presented \<noteq> '''' \<and> stored = hash presented)"

section \<open>Client keys\<close>

record client_key_row =
  ck_id :: client_id
  ck_label :: string
  ck_hash :: string
  ck_created :: gotime
  ck_revoked :: gotime

type_synonym client_keys = "client_key_row list"

definition ClientKeyPrefix :: string where "ClientKeyPrefix = ''hmd_live_''"

definition newClientKey :: "nat list \<Rightarrow> string" where
  "newClientKey random = ClientKeyPrefix @ hex_encode random"

definition clientKeyError :: "string \<Rightarrow> go_error \<Rightarrow> domain_error" where
  "clientKeyError opn err = New CodeClientKeyStoreFailed [WithHTTPStatus 500, WithCause err, WithParams [(''reason'', opn)]]"

definition errConstraint :: go_error where "errConstraint = Foreign ''constraint failed'' []"

text \<open>The insert fails when the id or the hash is in the table.\<close>

definition key_Create :: "(string \<Rightarrow> string) \<Rightarrow> gotime \<Rightarrow> client_id \<Rightarrow> nat list \<Rightarrow> string \<Rightarrow> client_keys
    \<Rightarrow> (domain_error + client_key_row \<times> string) \<times> client_keys" where
  "key_Create hash now i random label t =
     (let plaintext = newClientKey random;
          row = \<lparr>ck_id = i, ck_label = label, ck_hash = hash plaintext, ck_created = now, ck_revoked = 0\<rparr> in
      if list_ex (\<lambda>k. ck_id k = i \<or> ck_hash k = hash plaintext) t then (Inl (clientKeyError ''create'' errConstraint), t)
      else (Inr (row, plaintext), t @ [row]))"

definition key_exists :: "client_id \<Rightarrow> client_keys \<Rightarrow> bool" where
  "key_exists i t = list_ex (\<lambda>k. ck_id k = i) t"

definition contractsNotFound :: "client_id \<Rightarrow> domain_error" where
  "contractsNotFound i = New CodeClientKeyNotFound [WithHTTPStatus 404, WithParams [(''id'', i)]]"

definition key_Revoke :: "gotime \<Rightarrow> client_id \<Rightarrow> client_keys \<Rightarrow> domain_error option \<times> client_keys" where
  "key_Revoke now i t =
     (if list_ex (\<lambda>k. ck_id k = i \<and> ck_revoked k = 0) t then
        (None, map (\<lambda>k. if ck_id k = i \<and> ck_revoked k = 0 then k\<lparr>ck_revoked := now\<rparr> else k) t)
      else if \<not> key_exists i t then (Some (contractsNotFound i), t)
      else (None, t))"

definition key_lookup :: "string \<Rightarrow> client_keys \<Rightarrow> client_key_row option" where
  "key_lookup h t = find (\<lambda>k. ck_hash k = h) t"

definition key_Verify :: "(string \<Rightarrow> string) \<Rightarrow> string \<Rightarrow> client_keys \<Rightarrow> client_key_row option" where
  "key_Verify hash presented t =
     (if presented = '''' then None
      else (case key_lookup (hash presented) t of None \<Rightarrow> None
        | Some k \<Rightarrow> if ck_hash k = '''' \<or> ck_hash k \<noteq> hash presented \<or> ck_revoked k \<noteq> 0 then None else Some k))"

definition key_List :: "client_keys \<Rightarrow> client_keys" where
  "key_List t = slice_stable (\<lambda>a b. ck_created a < ck_created b \<or> ck_created a = ck_created b \<and> ck_id a < ck_id b) t"

text \<open>The verifier of the guards: \<open>App.verifyClientKey\<close>.\<close>

definition verifyClientKey :: "(string \<Rightarrow> string) \<Rightarrow> ('w \<Rightarrow> client_keys) \<Rightarrow> string \<Rightarrow> 'w \<Rightarrow> client_id option \<times> 'w" where
  "verifyClientKey hash keys presented w = (map_option ck_id (key_Verify hash presented (keys w)), w)"

end
