(* ===== verification/Http_Guards_Laws.thy ===== *)
theory Http_Guards_Laws
  imports Http_Guards
begin

text \<open>
  A request either is refused by a guard, with an answer that no route can influence, or reaches the routes,
  and then it satisfies all the guards.
\<close>

section \<open>Guards refuse or admit\<close>

definition refuses :: "('w handler \<Rightarrow> 'w handler) \<Rightarrow> in_request \<Rightarrow> http_header \<Rightarrow> 'w \<Rightarrow> bool" where
  "refuses G r h w \<longleftrightarrow> (\<exists>a v. or_Status a \<in> {204, 400, 401, 403} \<and> (\<forall>nxt. G nxt r h w = (Written a, v)))"

text \<open>A guard answers by itself, or hands a request on for which the predicate holds.\<close>

definition decides :: "('w handler \<Rightarrow> 'w handler) \<Rightarrow> in_request \<Rightarrow> http_header \<Rightarrow> 'w
    \<Rightarrow> (in_request \<Rightarrow> http_header \<Rightarrow> 'w \<Rightarrow> bool) \<Rightarrow> bool" where
  "decides G r h w P \<longleftrightarrow> refuses G r h w \<or> (\<exists>r' h' v. (\<forall>nxt. G nxt r h w = nxt r' h' v) \<and> P r' h' v)"

lemma refuse: "or_Status a \<in> {204, 400, 401, 403} \<Longrightarrow> (\<And>nxt. G nxt r h w = (Written a, v)) \<Longrightarrow> decides G r h w P"
  unfolding decides_def refuses_def by blast

lemma admit: "(\<And>nxt. G nxt r h w = nxt r' h' v) \<Longrightarrow> P r' h' v \<Longrightarrow> decides G r h w P"
  unfolding decides_def by blast

lemma decides_comp:
  assumes "decides G r h w P" and "\<And>r' h' v. P r' h' v \<Longrightarrow> decides H r' h' v Q"
  shows "decides (\<lambda>nxt. G (H nxt)) r h w Q"
  using assms(1) unfolding decides_def [of G r h w P]
proof
  assume "refuses G r h w"
  then show ?thesis unfolding decides_def refuses_def by metis
next
  assume "\<exists>r' h' v. (\<forall>nxt. G nxt r h w = nxt r' h' v) \<and> P r' h' v"
  then obtain r' h' v where g: "\<And>nxt. G nxt r h w = nxt r' h' v" and "P r' h' v" by blast
  from assms(2) [OF this(2)] show ?thesis unfolding decides_def refuses_def g .
qed

lemmas refusal_simps = WriteError_def new_simps

lemma LocalOnly_decides:
  "decides (LocalOnly redact) r h w (\<lambda>r' h' v. r' = r \<and> v = w \<and> IsLoopbackRemote (rq_RemoteAddr r))"
proof (cases "IsLoopbackRemote (rq_RemoteAddr r)")
  case True
  then show ?thesis by (intro admit [where r' = r and h' = h and v = w]) (simp_all add: LocalOnly_def)
next
  case False
  then show ?thesis by (simp add: decides_def refuses_def LocalOnly_def refusal_simps)
qed

lemma HostGuard_decides:
  "decides (HostGuard redact l) r h w (\<lambda>r' h' v. r' = r \<and> v = w \<and> HostAllowed (rq_Host r) l)"
proof (cases "HostAllowed (rq_Host r) l")
  case True
  then show ?thesis by (intro admit [where r' = r and h' = h and v = w]) (simp_all add: HostGuard_def)
next
  case False
  then show ?thesis by (simp add: decides_def refuses_def HostGuard_def refusal_simps)
qed

definition origin_checked :: "url_parser \<Rightarrow> string list \<Rightarrow> in_request \<Rightarrow> bool" where
  "origin_checked up extra r \<longleftrightarrow> (isManagementOrGUI (rq_Path r) \<and> isMutating (rq_Method r) \<longrightarrow> originAllowed up r extra)"

lemma OriginGuard_decides:
  "decides (OriginGuard redact up extra) r h w (\<lambda>r' h' v. r' = r \<and> v = w \<and> origin_checked up extra r)"
proof (cases "origin_checked up extra r")
  case True
  then show ?thesis by (intro admit [where r' = r and h' = h and v = w]) (auto simp: OriginGuard_def origin_checked_def)
next
  case False
  then show ?thesis by (simp add: decides_def refuses_def OriginGuard_def origin_checked_def refusal_simps)
qed

lemma CORS_decides: "decides (CORS l) r h w (\<lambda>r' h' v. r' = r \<and> v = w)"
proof -
  let ?o = "TrimSpace (Header_Get (rq_Header r) ''Origin'')"
  consider "\<not> HasPrefix (rq_Path r) ''/v1/'' \<or> ?o = ''''"
    | "HasPrefix (rq_Path r) ''/v1/''" "?o \<noteq> ''''" "rq_Method r = ''OPTIONS''"
    | "HasPrefix (rq_Path r) ''/v1/''" "?o \<noteq> ''''" "rq_Method r \<noteq> ''OPTIONS''" "corsAllowed ?o l"
    | "HasPrefix (rq_Path r) ''/v1/''" "?o \<noteq> ''''" "rq_Method r \<noteq> ''OPTIONS''" "\<not> corsAllowed ?o l" by blast
  then show ?thesis
  proof cases
    case 1
    then show ?thesis by (intro admit [where r' = r and h' = h and v = w]) (auto simp: CORS_def Let_def)
  next
    case 2
    then show ?thesis by (cases "corsAllowed ?o l") (simp_all add: decides_def refuses_def CORS_def Let_def)
  next
    case 3
    then show ?thesis
      by (intro admit [where r' = r and h' = "Header_Add ''Vary'' ''Origin'' (Header_Set ''Access-Control-Allow-Origin'' ?o h)" and v = w])
        (auto simp: CORS_def Let_def)
  next
    case 4
    then show ?thesis by (intro admit [where r' = r and h' = h and v = w]) (auto simp: CORS_def Let_def)
  qed
qed

text \<open>What the client-key guard lets through.\<close>

definition key_checked :: "(string \<Rightarrow> 'w \<Rightarrow> client_id option \<times> 'w) \<Rightarrow> bool \<Rightarrow> in_request \<Rightarrow> 'w \<Rightarrow> in_request \<Rightarrow> 'w \<Rightarrow> bool" where
  "key_checked verify require r w r' v \<longleftrightarrow>
     (if HasPrefix (rq_Path r) ''/v1/'' \<and> isMutating (rq_Method r) \<and> (require \<or> ExtractClientKey (rq_Header r) \<noteq> '''')
      then \<exists>i. verify (ExtractClientKey (rq_Header r)) w = (Some i, v) \<and> ExtractClientKey (rq_Header r) \<noteq> '''' \<and> r' = r\<lparr>rq_ClientID := i\<rparr>
      else r' = r \<and> v = w) \<and>
     (HasPrefix (rq_Path r) ''/v1/'' \<longrightarrow> \<not> keyInQuery (rq_Query r))"

lemma ClientAuth_decides:
  "decides (ClientAuth redact verify require) r h w (\<lambda>r' h' v. key_checked verify require r w r' v)"
proof -
  let ?k = "ExtractClientKey (rq_Header r)" and ?v1 = "HasPrefix (rq_Path r) ''/v1/''"
  obtain i v where k: "verify ?k w = (i, v)" by fastforce
  consider "?v1" "keyInQuery (rq_Query r)"
    | "?v1" "\<not> keyInQuery (rq_Query r)" "isMutating (rq_Method r)" "?k = ''''" "require"
    | "?v1" "\<not> keyInQuery (rq_Query r)" "isMutating (rq_Method r)" "?k \<noteq> ''''" "i = None"
    | j where "?v1" "\<not> keyInQuery (rq_Query r)" "isMutating (rq_Method r)" "?k \<noteq> ''''" "i = Some j"
    | "?v1 \<longrightarrow> \<not> keyInQuery (rq_Query r)" "?v1 \<and> isMutating (rq_Method r) \<longrightarrow> ?k = '''' \<and> \<not> require"
    by (cases i) blast+
  then show ?thesis
  proof cases
    case 4
    then show ?thesis
      by (intro admit [where r' = "r\<lparr>rq_ClientID := j\<rparr>" and h' = h and v = v]) (simp_all add: ClientAuth_def key_checked_def k Let_def)
  next
    case 5
    then show ?thesis by (intro admit [where r' = r and h' = h and v = w]) (auto simp: ClientAuth_def key_checked_def Let_def)
  qed (simp_all add: decides_def refuses_def ClientAuth_def clientKeyInvalid_def refusal_simps Let_def k)
qed

section \<open>The whole chain\<close>

text \<open>The routes as the guards see them, and what reaches them.\<close>

definition routes :: "'w app_parts \<Rightarrow> 'w handler \<Rightarrow> 'w handler" where
  "routes p mux = ap_observe p (ErrorEnvelope (ap_redact p) mux)"

lemma chain_decides:
  assumes "ap_verify p = Some verify" and "ap_requestID p w = (i, w0)"
  shows "(\<exists>a v. or_Status a \<in> {204, 400, 401, 403} \<and> (\<forall>mux. App_Handler s p mux r [] w = (Written a, v))) \<or>
    (\<exists>r' h v. (\<forall>mux. App_Handler s p mux r [] w = Recoverer (ap_redact p) (routes p mux) r' h v) \<and>
      IsLoopbackRemote (rq_RemoteAddr r) \<and> HostAllowed (rq_Host r) (hostAllowlist s) \<and>
      (isManagementOrGUI (rq_Path r) \<and> isMutating (rq_Method r) \<longrightarrow> originAllowed (ap_url p) r (sec_CORSAllowedOrigins s)) \<and>
      key_checked verify (sec_RequireClientKey s) (r\<lparr>rq_RequestID := i\<rparr>) w0 r' v)"
proof -
  let ?red = "ap_redact p" and ?q = "r\<lparr>rq_RequestID := i\<rparr>" and ?h = "Header_Set ''X-Request-ID'' i []"
  let ?CA = "ClientAuth ?red verify (sec_RequireClientKey s)" and ?OG = "OriginGuard ?red (ap_url p) (sec_CORSAllowedOrigins s)"
  let ?CO = "CORS (sec_CORSAllowedOrigins s)" and ?HG = "HostGuard ?red (hostAllowlist s)" and ?LO = "LocalOnly ?red"
  let ?G = "\<lambda>nxt. ?LO (?HG (?CO (?OG (?CA nxt))))"
  have app: "App_Handler s p mux r [] w = (case ?G (routes p mux) ?q ?h w0 of
      (Written a, v) \<Rightarrow> (Written a, v) | (Panicked h1, v) \<Rightarrow> (WriteError ?red (New CodeInternal [WithHTTPStatus 500]) h1, v))" for mux
    by (simp add: App_Handler_def Let_def Recoverer_def RequestID_def routes_def assms)
  have orig: "originAllowed (ap_url p) ?q e = originAllowed (ap_url p) r e" for e by (simp add: originAllowed_def)
  have "decides ?G ?q ?h w0 (\<lambda>r' h' v. IsLoopbackRemote (rq_RemoteAddr ?q) \<and> HostAllowed (rq_Host ?q) (hostAllowlist s) \<and>
      origin_checked (ap_url p) (sec_CORSAllowedOrigins s) ?q \<and> key_checked verify (sec_RequireClientKey s) ?q w0 r' v)"
    (is "decides _ _ _ _ ?P")
  proof (rule decides_comp [OF LocalOnly_decides], rule decides_comp [OF HostGuard_decides],
      rule decides_comp [OF CORS_decides], rule decides_comp [OF OriginGuard_decides])
    fix r1 h1 v1 r2 h2 v2 r3 h3 v3 r4 h4 v4
    assume "r1 = ?q \<and> v1 = w0 \<and> IsLoopbackRemote (rq_RemoteAddr ?q)" "r2 = r1 \<and> v2 = v1 \<and> HostAllowed (rq_Host r1) (hostAllowlist s)"
      "r3 = r2 \<and> v3 = v2" "r4 = r3 \<and> v4 = v3 \<and> origin_checked (ap_url p) (sec_CORSAllowedOrigins s) r3"
    then show "decides ?CA r4 h4 v4 ?P"
      using ClientAuth_decides [of ?red verify "sec_RequireClientKey s" ?q h4 w0] by (auto simp: decides_def)
  qed
  then show ?thesis
    unfolding decides_def
  proof
    assume "refuses ?G ?q ?h w0"
    then show ?thesis unfolding refuses_def by (auto simp: app)
  next
    assume "\<exists>r' h' v. (\<forall>nxt. ?G nxt ?q ?h w0 = nxt r' h' v) \<and> ?P r' h' v"
    then obtain r' h' v where g: "\<And>nxt. ?G nxt ?q ?h w0 = nxt r' h' v" and P: "?P r' h' v" by blast
    have "App_Handler s p mux r [] w = Recoverer ?red (routes p mux) r' h' v" for mux
      unfolding app g Recoverer_def ..
    with P show ?thesis by (intro disjI2 exI [of _ r'] exI [of _ h'] exI [of _ v]) (simp add: origin_checked_def orig)
  qed
qed

text \<open>C28: every request is either answered by a guard, with 204, 400, 401 or 403 and whatever the routes are, or
  reaches the routes; then its peer is loopback, its host is local or on the allowlist, a mutating management
  request has an allowed origin, no client key is in the query of an inference request, and a mutating
  inference request that presents a key, or must present one, carries the identity its key verifies to.\<close>

theorem guards_decide:
  assumes "ap_verify p = Some verify" and "ap_requestID p w = (i, w0)"
  shows "(\<exists>a v. or_Status a \<in> {204, 400, 401, 403} \<and> (\<forall>mux. App_Handler s p mux r [] w = (Written a, v))) \<or>
    (\<exists>r' h v. (\<forall>mux. App_Handler s p mux r [] w = Recoverer (ap_redact p) (routes p mux) r' h v) \<and>
      IsLoopbackRemote (rq_RemoteAddr r) \<and> HostAllowed (rq_Host r) (hostAllowlist s) \<and>
      (isManagementOrGUI (rq_Path r) \<and> isMutating (rq_Method r) \<longrightarrow> originAllowed (ap_url p) r (sec_CORSAllowedOrigins s)) \<and>
      key_checked verify (sec_RequireClientKey s) (r\<lparr>rq_RequestID := i\<rparr>) w0 r' v)"
  using assms by (rule chain_decides)

section \<open>Remote peers\<close>

text \<open>A peer that is not loopback is refused whatever the configuration allows: \<open>server.allow_remote\<close> does not
  reach the guard.\<close>

lemma remote_always_refused:
  assumes "\<not> IsLoopbackRemote (rq_RemoteAddr r)"
  shows "\<exists>a v. or_Status a = 403 \<and> App_Handler s p mux r [] w = (Written a, v)"
  using assms by (simp add: App_Handler_def Let_def Recoverer_def RequestID_def LocalOnly_def refusal_simps split: prod.split)

section \<open>Witness\<close>

definition test_parts :: "nat app_parts" where
  "test_parts = \<lparr>ap_redact = (\<lambda>s. s), ap_url = (\<lambda>u. Inl (Foreign ''url'' [])), ap_verify = Some (\<lambda>k w. (Some ''c1'', w)),
     ap_requestID = (\<lambda>w. (''r1'', w + 1)), ap_observe = (\<lambda>h. h)\<rparr>"

definition test_settings :: security_settings where
  "test_settings = \<lparr>sec_AllowRemote = True, sec_Host = ''192.168.0.9'', sec_HostAllowlist = [], sec_CORSAllowedOrigins = [],
     sec_RequireClientKey = True\<rparr>"

definition test_call :: "string \<Rightarrow> in_request" where
  "test_call remote = \<lparr>rq_Method = ''POST'', rq_Path = ''/v1/chat/completions'', rq_Host = ''localhost'', rq_RemoteAddr = remote,
     rq_Header = [], rq_Query = [], rq_RequestID = '''', rq_ClientID = ''''\<rparr>"

text \<open>Without a key the call is refused by one of the guards.\<close>

theorem guards_decide_witness:
  "\<exists>a v. or_Status a \<in> {204, 400, 401, 403} \<and> (\<forall>mux. App_Handler test_settings test_parts mux (test_call ''localhost'') [] 0 = (Written a, v))"
proof -
  have p: "ap_verify test_parts = Some (\<lambda>k w. (Some ''c1'', w))" "ap_requestID test_parts 0 = (''r1'', 1)"
    by (simp_all add: test_parts_def)
  have "ExtractClientKey (rq_Header (test_call ''localhost'')) = ''''" by code_simp
  then have "\<not> key_checked (\<lambda>k w. (Some ''c1'', w)) (sec_RequireClientKey test_settings)
      (test_call ''localhost''\<lparr>rq_RequestID := ''r1''\<rparr>) (1 :: nat) r' v" for r' v
    by (simp add: key_checked_def test_settings_def) (simp add: test_call_def HasPrefix_def isMutating_def)
  with guards_decide [OF p, of test_settings "test_call ''localhost''"] show ?thesis by blast
qed

end
