(* ===== verification/Access_Laws.thy ===== *)
theory Access_Laws
  imports Access Http_Guards_Laws
begin

text \<open>
  How many wrong management tokens one peer can try, what the table of client keys keeps, and what a revoked
  key still opens.
\<close>

section \<open>One management request\<close>

text \<open>The guard over a clock that shows \<open>now\<close>, a check of the token that keeps no state and routes \<open>serve\<close>.\<close>

definition auth_over :: "(string \<Rightarrow> bool) \<Rightarrow> gotime management_auth" where
  "auth_over good = \<lparr>ma_redact = (\<lambda>s. s), ma_now = (\<lambda>w. w), ma_Verify = Some (\<lambda>k w. (good k, w))\<rparr>"

type_synonym login_event = "gotime \<times> in_request"

definition auth_step :: "(string \<Rightarrow> bool) \<Rightarrow> (in_request \<Rightarrow> http_out) \<Rightarrow> login_throttle \<Rightarrow> login_event \<Rightarrow> http_out \<times> login_throttle" where
  "auth_step good serve t ev = (case ManagementAuth (auth_over good) (\<lambda>r h x. (serve r, x)) (snd ev) [] (fst ev, Some t) of
     (out, x) \<Rightarrow> (out, the (snd x)))"

fun auth_run :: "(string \<Rightarrow> bool) \<Rightarrow> (in_request \<Rightarrow> http_out) \<Rightarrow> login_throttle \<Rightarrow> login_event list \<Rightarrow> http_out list \<times> login_throttle" where
  "auth_run good serve t [] = ([], t)"
| "auth_run good serve t (ev # evs) = (case auth_step good serve t ev of (out, t1) \<Rightarrow>
     (case auth_run good serve t1 evs of (outs, t2) \<Rightarrow> (out # outs, t2)))"

definition wrong_token :: "(string \<Rightarrow> bool) \<Rightarrow> login_event \<Rightarrow> bool" where
  "wrong_token good ev \<longleftrightarrow> extractToken (rq_Header (snd ev)) = '''' \<or> \<not> good (extractToken (rq_Header (snd ev)))"

definition is_401 :: "http_out \<Rightarrow> bool" where
  "is_401 out = (case out of Written a \<Rightarrow> or_Status a = 401 | Panicked h \<Rightarrow> False)"

definition tried :: "string \<Rightarrow> login_event \<times> http_out \<Rightarrow> bool" where
  "tried ip p \<longleftrightarrow> ClientIP (snd (fst p)) = ip \<and> is_401 (snd p)"

lemma tried_pair [simp]: "tried ip (ev, out) \<longleftrightarrow> ClientIP (snd ev) = ip \<and> is_401 out"
  by (simp add: tried_def)

section \<open>One entry of the throttle\<close>

text \<open>What a request does to the entry of its peer: \<open>None\<close> when it is refused.\<close>

definition admits :: "gotime \<Rightarrow> login_throttle \<Rightarrow> string \<Rightarrow> bool" where
  "admits now t ip = (let e = current_entry now (lt_window t) (lt_entries t ip) in le_lockedUntil e \<le> now \<and> le_failures e < lt_limit t)"

definition failed_entry :: "gotime \<Rightarrow> login_throttle \<Rightarrow> string \<Rightarrow> login_entry" where
  "failed_entry now t ip = (let e = current_entry now (lt_window t) (lt_entries t ip); n = le_failures e + 1 in
     e\<lparr>le_failures := n, le_lockedUntil := (if n \<ge> lt_limit t then now + lt_window t else le_lockedUntil e)\<rparr>)"

lemma current_entry_idem:
  "0 < d \<Longrightarrow> current_entry now d (Some (current_entry now d oe)) = current_entry now d oe"
  by (cases oe) (auto simp: current_entry_def time_sub_def)

lemma put_entry_simps [simp]:
  "lt_limit (put_entry ip e t) = lt_limit t" "lt_window (put_entry ip e t) = lt_window t"
  "lt_entries (put_entry ip e t) = (lt_entries t)(ip \<mapsto> e)" "put_entry ip e (put_entry ip e' t) = put_entry ip e t"
  by (simp_all add: put_entry_def)

lemma writeRateLimited_not_401 [simp]: "\<not> is_401 (writeRateLimited redact d h)"
  by (simp add: is_401_def writeRateLimited_def refusal_simps Let_def)

lemma auth_step_cases:
  assumes "0 < lt_window t" and "auth_step good serve t ev = (out, t1)"
  obtains (refused) "\<not> admits (fst ev) t (ClientIP (snd ev))" "\<not> is_401 out"
      "t1 = put_entry (ClientIP (snd ev)) (current_entry (fst ev) (lt_window t) (lt_entries t (ClientIP (snd ev)))) t"
    | (wrong) "admits (fst ev) t (ClientIP (snd ev))" "wrong_token good ev" "is_401 out"
      "t1 = put_entry (ClientIP (snd ev)) (failed_entry (fst ev) t (ClientIP (snd ev))) t"
    | (right) "admits (fst ev) t (ClientIP (snd ev))" "\<not> wrong_token good ev" "out = serve (snd ev)"
      "t1 = t\<lparr>lt_entries := (lt_entries t)(ClientIP (snd ev) := None)\<rparr>"
proof -
  let ?ip = "ClientIP (snd ev)" and ?tok = "extractToken (rq_Header (snd ev))"
  let ?e = "current_entry (fst ev) (lt_window t) (lt_entries t ?ip)"
  have al: "throttle_Allow (fst ev) ?ip t = (admits (fst ev) t ?ip, put_entry ?ip ?e t)"
    by (auto simp: throttle_Allow_def entryLocked_def admits_def Let_def)
  have step: "auth_step good serve t ev = (case ManagementAuth (auth_over good) (\<lambda>r h x. (serve r, x)) (snd ev) [] (fst ev, Some t) of
      (out, x) \<Rightarrow> (out, the (snd x)))" by (rule auth_step_def)
  consider "\<not> admits (fst ev) t ?ip" | "admits (fst ev) t ?ip" "wrong_token good ev"
    | "admits (fst ev) t ?ip" "\<not> wrong_token good ev" by blast
  then show thesis
  proof cases
    case 1
    obtain d where ra: "throttle_RetryAfter (fst ev) ?ip (put_entry ?ip ?e t) = (d, put_entry ?ip ?e t)"
      by (simp add: throttle_RetryAfter_def entryLocked_def current_entry_idem [OF assms(1)] Let_def)
    from 1 have "out = writeRateLimited (\<lambda>s. s) d []" "t1 = put_entry ?ip ?e t"
      using assms(2) by (simp_all add: step ManagementAuth_def al ra auth_over_def Let_def)
    with 1 show thesis by (intro refused) simp_all
  next
    case 2
    have fl: "throttle_Fail (fst ev) ?ip (put_entry ?ip ?e t) = put_entry ?ip (failed_entry (fst ev) t ?ip) t"
      by (simp add: throttle_Fail_def entryLocked_def current_entry_idem [OF assms(1)] failed_entry_def Let_def)
    have "out = WriteError (\<lambda>s. s) (New CodeManagementAuthFailed [WithHTTPStatus 401]) []
      \<and> t1 = put_entry ?ip (failed_entry (fst ev) t ?ip) t"
      using assms(2) 2 by (cases "?tok = []") (simp_all add: step ManagementAuth_def al fl auth_over_def Let_def wrong_token_def)
    with 2 show thesis by (intro wrong) (simp_all add: is_401_def refusal_simps)
  next
    case 3
    then have "out = serve (snd ev)" "t1 = t\<lparr>lt_entries := (lt_entries t)(?ip := None)\<rparr>"
      using assms(2) by (simp_all add: step ManagementAuth_def al throttle_Success_def auth_over_def Let_def wrong_token_def put_entry_def)
    with 3 show thesis by (intro right)
  qed
qed

section \<open>How many wrong tokens are admitted\<close>

text \<open>Between two requests an entry has a failure, and one that reached the limit is locked past its window.\<close>

definition entry_wf :: "int \<Rightarrow> duration \<Rightarrow> gotime \<Rightarrow> login_entry option \<Rightarrow> bool" where
  "entry_wf l d now oe \<longleftrightarrow> (case oe of None \<Rightarrow> True | Some e \<Rightarrow>
     1 \<le> le_failures e \<and> le_windowStart e \<le> now \<and>
     (if le_failures e < l then le_lockedUntil e = 0 else le_windowStart e + d \<le> le_lockedUntil e))"

definition throttle_wf :: "gotime \<Rightarrow> login_throttle \<Rightarrow> bool" where
  "throttle_wf now t \<longleftrightarrow> 0 < lt_limit t \<and> 0 < lt_window t \<and> lt_window t < 2 ^ 63 \<and> (\<forall>ip. entry_wf (lt_limit t) (lt_window t) now (lt_entries t ip))"

text \<open>How many wrong tokens an entry still admits before the instant \<open>till\<close>, which is at most a window away.\<close>

definition room :: "int \<Rightarrow> duration \<Rightarrow> gotime \<Rightarrow> login_entry option \<Rightarrow> int" where
  "room l d till oe = (case oe of None \<Rightarrow> l | Some e \<Rightarrow>
     if le_failures e \<ge> l then (if till \<le> le_lockedUntil e then 0 else l)
     else if till \<le> le_windowStart e + d then l - le_failures e
     else l - le_failures e - 1 + l)"

lemma room_bounds: "entry_wf l d now oe \<Longrightarrow> 0 < l \<Longrightarrow> 0 \<le> room l d till oe \<and> room l d till oe \<le> max l (2 * l - 2)"
  by (auto simp: room_def entry_wf_def split: option.splits)

lemma sub_window: "0 < d \<Longrightarrow> d < 2 ^ 63 \<Longrightarrow> d \<le> time_sub now s \<longleftrightarrow> s + d \<le> now"
  by (auto simp: time_sub_def)

lemma refused_unchanged:
  assumes "throttle_wf past t" "past \<le> now" "0 \<le> now" "\<not> admits now t ip"
  shows "lt_entries t ip = Some (current_entry now (lt_window t) (lt_entries t ip))"
  using assms(4) spec [OF conjunct2 [OF conjunct2 [OF conjunct2 [OF assms(1) [unfolded throttle_wf_def]]]], of ip] assms(1,2,3)
  by (cases "lt_entries t ip")
    (auto simp: admits_def throttle_wf_def entry_wf_def current_entry_def sub_window Let_def split: if_splits)

lemma failed_entry_wf:
  assumes "throttle_wf past t" "past \<le> now" "0 \<le> now" "admits now t ip"
  shows "entry_wf (lt_limit t) (lt_window t) now (Some (failed_entry now t ip))"
    and "now < till \<Longrightarrow> till \<le> now + lt_window t \<Longrightarrow>
      room (lt_limit t) (lt_window t) till (Some (failed_entry now t ip)) + 1 \<le> room (lt_limit t) (lt_window t) till (lt_entries t ip)"
proof -
  have wf: "entry_wf (lt_limit t) (lt_window t) past (lt_entries t ip)" "0 < lt_limit t" "0 < lt_window t" "lt_window t < 2 ^ 63"
    using assms(1) by (simp_all add: throttle_wf_def)
  show "entry_wf (lt_limit t) (lt_window t) now (Some (failed_entry now t ip))"
    using assms wf by (cases "lt_entries t ip") (auto simp: failed_entry_def current_entry_def sub_window admits_def entry_wf_def Let_def split: if_splits)
  show "room (lt_limit t) (lt_window t) till (Some (failed_entry now t ip)) + 1 \<le> room (lt_limit t) (lt_window t) till (lt_entries t ip)"
    if "now < till" "till \<le> now + lt_window t"
    using assms wf that by (cases "lt_entries t ip")
      (auto simp: failed_entry_def current_entry_def sub_window admits_def entry_wf_def room_def Let_def split: if_splits)
qed

lemma throttle_wf_later: "throttle_wf past t \<Longrightarrow> past \<le> now \<Longrightarrow> throttle_wf now t"
  by (auto simp: throttle_wf_def entry_wf_def split: option.splits) (meson order_trans)+

lemma auth_step_wf:
  assumes "throttle_wf past t" "past \<le> fst ev" "0 \<le> fst ev" "auth_step good serve t ev = (out, t1)"
  shows "throttle_wf (fst ev) t1" and "lt_limit t1 = lt_limit t" and "lt_window t1 = lt_window t"
    and "ClientIP (snd ev) \<noteq> ip \<Longrightarrow> lt_entries t1 ip = lt_entries t ip"
    and "ClientIP (snd ev) = ip \<Longrightarrow> wrong_token good ev \<Longrightarrow> fst ev < till \<Longrightarrow> till \<le> fst ev + lt_window t \<Longrightarrow>
      room (lt_limit t) (lt_window t) till (lt_entries t1 ip) + (if is_401 out then 1 else 0) \<le> room (lt_limit t) (lt_window t) till (lt_entries t ip)"
proof -
  have w: "0 < lt_window t" using assms(1) by (simp add: throttle_wf_def)
  note now = throttle_wf_later [OF assms(1,2)]
  note facts = refused_unchanged [OF assms(1,2,3), of "ClientIP (snd ev)"] failed_entry_wf(1) [OF assms(1,2,3), of "ClientIP (snd ev)"]
    failed_entry_wf(2) [OF assms(1,2,3), of "ClientIP (snd ev)" till]
  from w assms(4) show "throttle_wf (fst ev) t1" "lt_limit t1 = lt_limit t" "lt_window t1 = lt_window t"
    "ClientIP (snd ev) \<noteq> ip \<Longrightarrow> lt_entries t1 ip = lt_entries t ip"
    "ClientIP (snd ev) = ip \<Longrightarrow> wrong_token good ev \<Longrightarrow> fst ev < till \<Longrightarrow> till \<le> fst ev + lt_window t \<Longrightarrow>
      room (lt_limit t) (lt_window t) till (lt_entries t1 ip) + (if is_401 out then 1 else 0) \<le> room (lt_limit t) (lt_window t) till (lt_entries t ip)"
    by (cases rule: auth_step_cases; use facts now in \<open>auto simp: throttle_wf_def entry_wf_def fun_upd_def\<close>)+
qed

text \<open>A history is a list of requests in time order, none before the zero time.\<close>

fun timed :: "gotime \<Rightarrow> login_event list \<Rightarrow> bool" where
  "timed past [] \<longleftrightarrow> True"
| "timed past (ev # evs) \<longleftrightarrow> past \<le> fst ev \<and> timed (fst ev) evs"

lemma auth_run_wf:
  "throttle_wf past t \<Longrightarrow> 0 \<le> past \<Longrightarrow> timed past (evs @ evs') \<Longrightarrow> auth_run good serve t evs = (outs, t1) \<Longrightarrow>
    \<exists>now. throttle_wf now t1 \<and> 0 \<le> now \<and> timed now evs' \<and> lt_limit t1 = lt_limit t \<and> lt_window t1 = lt_window t"
proof (induction evs arbitrary: past t outs)
  case Nil
  then show ?case by auto
next
  case (Cons ev evs)
  obtain out t2 where step: "auth_step good serve t ev = (out, t2)" by fastforce
  from Cons.prems have later: "past \<le> fst ev" "0 \<le> fst ev" and "timed (fst ev) (evs @ evs')" by auto
  moreover obtain os where "auth_run good serve t2 evs = (os, t1)"
    using Cons.prems(4) by (auto simp: step split: prod.splits)
  ultimately show ?case
    using Cons.IH [of "fst ev" t2 os] auth_step_wf(1-3) [OF Cons.prems(1) later step] by simp
qed

lemma auth_run_room:
  "throttle_wf past t \<Longrightarrow> 0 \<le> past \<Longrightarrow> timed past evs \<Longrightarrow> auth_run good serve t evs = (outs, t1) \<Longrightarrow>
    list_all (\<lambda>ev. fst ev < till \<and> till \<le> fst ev + lt_window t \<and> (ClientIP (snd ev) = ip \<longrightarrow> wrong_token good ev)) evs \<Longrightarrow>
    int (length (filter (tried ip) (zip evs outs))) \<le> room (lt_limit t) (lt_window t) till (lt_entries t ip)"
proof (induction evs arbitrary: past t outs)
  case Nil
  then have "entry_wf (lt_limit t) (lt_window t) past (lt_entries t ip)" "0 < lt_limit t" by (simp_all add: throttle_wf_def)
  from room_bounds [OF this] Nil show ?case by simp
next
  case (Cons ev evs)
  obtain out t2 where step: "auth_step good serve t ev = (out, t2)" by fastforce
  from Cons.prems have later: "past \<le> fst ev" "0 \<le> fst ev" and timed: "timed (fst ev) evs" by auto
  obtain os where run: "auth_run good serve t2 evs = (os, t1)" "outs = out # os"
    using Cons.prems(4) by (auto simp: step split: prod.splits)
  note nxt = auth_step_wf [OF Cons.prems(1) later step]
  have "int (length (filter (tried ip) (zip evs os))) \<le> room (lt_limit t) (lt_window t) till (lt_entries t2 ip)"
    using Cons.IH [OF nxt(1) later(2) timed run(1)] Cons.prems(5) by (simp add: nxt(2,3))
  then show ?case
    using nxt(4) [of ip] nxt(5) [of ip till] Cons.prems(5) by (cases "ClientIP (snd ev) = ip") (auto simp: run(2) split: if_splits)
qed

lemma NewLoginThrottle_wf: "NewLoginThrottle limit window = Some t \<Longrightarrow> window < 2 ^ 63 \<Longrightarrow>
    throttle_wf now t \<and> lt_limit t = limit \<and> lt_window t = window"
  by (auto simp: NewLoginThrottle_def throttle_wf_def entry_wf_def split: if_splits)

text \<open>C29: within any interval of one window the guard of the management API admits at most
  \<open>max limit (2 * limit - 2)\<close> wrong tokens of one peer, whatever happened before, whatever other peers do and however
  often it tries, as long as its requests are served one after the other and none of them carries the right token.\<close>

theorem throttle_bound:
  assumes "NewLoginThrottle limit window = Some t0" and "window < 2 ^ 63" and "timed 0 (past @ evs)"
    and "auth_run good serve t0 past = (outs0, t)" and "auth_run good serve t evs = (outs, t1)"
    and "list_all (\<lambda>ev. since \<le> fst ev \<and> fst ev < since + window \<and> (ClientIP (snd ev) = ip \<longrightarrow> wrong_token good ev)) evs"
  shows "int (length (filter (tried ip) (zip evs outs))) \<le> max limit (2 * limit - 2)"
proof -
  note start = NewLoginThrottle_wf [OF assms(1,2), of 0]
  from auth_run_wf [of 0 t0 past evs, OF _ _ assms(3,4)] start obtain now where t: "throttle_wf now t" "0 \<le> now"
    "timed now evs" "lt_limit t = limit" "lt_window t = window" by auto
  have "list_all (\<lambda>ev. fst ev < since + window \<and> since + window \<le> fst ev + lt_window t \<and>
      (ClientIP (snd ev) = ip \<longrightarrow> wrong_token good ev)) evs"
    using assms(6) by (rule list.pred_mono_strong) (simp add: t(5))
  from auth_run_room [OF t(1,2,3) assms(5) this] have "int (length (filter (tried ip) (zip evs outs)))
      \<le> room limit window (since + window) (lt_entries t ip)" by (simp add: t(4,5))
  also have "\<dots> \<le> max limit (2 * limit - 2)"
    using t room_bounds [of limit window now "lt_entries t ip"] by (simp add: throttle_wf_def)
  finally show ?thesis .
qed

text \<open>A wrong token, step by step.\<close>

definition after_wrong :: "login_throttle \<Rightarrow> login_event \<Rightarrow> login_throttle" where
  "after_wrong t ev = put_entry (ClientIP (snd ev)) (if admits (fst ev) t (ClientIP (snd ev)) then failed_entry (fst ev) t (ClientIP (snd ev))
     else current_entry (fst ev) (lt_window t) (lt_entries t (ClientIP (snd ev)))) t"

lemma wrong_step:
  assumes "0 < lt_window t" and "wrong_token good ev"
  shows "snd (auth_step good serve t ev) = after_wrong t ev" and "is_401 (fst (auth_step good serve t ev)) = admits (fst ev) t (ClientIP (snd ev))"
proof -
  obtain out t1 where step: "auth_step good serve t ev = (out, t1)" by fastforce
  show "snd (auth_step good serve t ev) = after_wrong t ev" "is_401 (fst (auth_step good serve t ev)) = admits (fst ev) t (ClientIP (snd ev))"
    using assms(2) step by (cases rule: auth_step_cases [OF assms(1) step]; simp add: after_wrong_def)+
qed

lemma wrong_run:
  assumes "0 < lt_window t" and "wrong_token good ev"
  shows "snd (auth_run good serve t (ev # evs)) = snd (auth_run good serve (after_wrong t ev) evs)"
    and "length (filter (tried ip) (zip (ev # evs) (fst (auth_run good serve t (ev # evs))))) =
      (if ClientIP (snd ev) = ip \<and> admits (fst ev) t ip then 1 else 0) +
      length (filter (tried ip) (zip evs (fst (auth_run good serve (after_wrong t ev) evs))))"
proof -
  have step: "auth_step good serve t ev = (fst (auth_step good serve t ev), after_wrong t ev)"
    by (simp add: prod_eq_iff wrong_step(1) [OF assms])
  show "snd (auth_run good serve t (ev # evs)) = snd (auth_run good serve (after_wrong t ev) evs)"
    by (subst auth_run.simps, subst step) (simp split: prod.split)
  show "length (filter (tried ip) (zip (ev # evs) (fst (auth_run good serve t (ev # evs))))) =
      (if ClientIP (snd ev) = ip \<and> admits (fst ev) t ip then 1 else 0) +
      length (filter (tried ip) (zip evs (fst (auth_run good serve (after_wrong t ev) evs))))"
    by (subst auth_run.simps, subst step) (auto simp: wrong_step(2) [OF assms] split: prod.split)
qed

text \<open>The bound is reached with the defaults of the code, five failures a minute: eight wrong tokens in a second.\<close>

definition guess_at :: "gotime \<Rightarrow> login_event" where
  "guess_at s = (s * 1000000000, \<lparr>rq_Method = ''POST'', rq_Path = ''/api/mgmt/token/rotate'', rq_Host = ''localhost'', rq_RemoteAddr = ''127.0.0.1:50000'',
     rq_Header = [(''Authorization'', [''guess''])], rq_Query = [], rq_RequestID = '''', rq_ClientID = ''''\<rparr>)"

lemma guess_simps:
  "ClientIP (snd (guess_at s)) = ''127.0.0.1''" "fst (guess_at s) = s * 1000000000" "wrong_token (\<lambda>k. False) (guess_at s)"
proof -
  have "hostOf ''127.0.0.1:50000'' = ''127.0.0.1''" by code_simp
  then show "ClientIP (snd (guess_at s)) = ''127.0.0.1''" by (simp add: guess_at_def ClientIP_def)
qed (simp_all add: guess_at_def wrong_token_def)

definition guesses_before :: "login_event list" where "guesses_before = [guess_at 100]"

definition guesses :: "login_event list" where
  "guesses = [guess_at 159, guess_at 159, guess_at 159, guess_at 160, guess_at 160, guess_at 160, guess_at 160, guess_at 160]"

definition nothing_served :: "in_request \<Rightarrow> http_out" where "nothing_served r = Panicked []"

definition fresh_throttle :: login_throttle where "fresh_throttle = the (NewLoginThrottle 5 60000000000)"

definition guessed_throttle :: login_throttle where
  "guessed_throttle = snd (auth_run (\<lambda>k. False) nothing_served fresh_throttle guesses_before)"

lemma guessed: "guessed_throttle = \<lparr>lt_limit = 5, lt_window = 60000000000, lt_entries =
    [''127.0.0.1'' \<mapsto> \<lparr>le_failures = 1, le_windowStart = 100000000000, le_lockedUntil = 0\<rparr>]\<rparr>"
  by (simp add: guessed_throttle_def guesses_before_def fresh_throttle_def NewLoginThrottle_def wrong_run guess_simps admits_def
      after_wrong_def failed_entry_def current_entry_def put_entry_def Let_def del: auth_run.simps(2))

theorem throttle_bound_witness:
  "length (filter (tried ''127.0.0.1'') (zip guesses (fst (auth_run (\<lambda>k. False) nothing_served guessed_throttle guesses)))) = 8 \<and>
   int (length (filter (tried ''127.0.0.1'') (zip guesses (fst (auth_run (\<lambda>k. False) nothing_served guessed_throttle guesses))))) \<le> max 5 (2 * 5 - 2)"
proof
  show "length (filter (tried ''127.0.0.1'') (zip guesses (fst (auth_run (\<lambda>k. False) nothing_served guessed_throttle guesses)))) = 8"
    by (simp add: guessed guesses_def wrong_run guess_simps admits_def after_wrong_def failed_entry_def current_entry_def time_sub_def put_entry_def Let_def del: auth_run.simps(2))
  obtain outs0 where past: "auth_run (\<lambda>k. False) nothing_served fresh_throttle guesses_before = (outs0, guessed_throttle)"
    by (metis guessed_throttle_def prod.collapse)
  obtain t1 where run: "auth_run (\<lambda>k. False) nothing_served guessed_throttle guesses
      = (fst (auth_run (\<lambda>k. False) nothing_served guessed_throttle guesses), t1)"
    by (metis prod.collapse)
  have new: "NewLoginThrottle 5 60000000000 = Some fresh_throttle" by (simp add: fresh_throttle_def NewLoginThrottle_def)
  show "int (length (filter (tried ''127.0.0.1'') (zip guesses (fst (auth_run (\<lambda>k. False) nothing_served guessed_throttle guesses))))) \<le> max 5 (2 * 5 - 2)"
    by (rule throttle_bound [OF new _ _ past run, where since = 159000000000])
      (simp_all add: guesses_before_def guesses_def wrong_token_def, simp_all add: guess_at_def)
qed

text \<open>The bound needs the order: \<open>Allow\<close> counts nothing, so any number of requests that ask before the first of
  them has failed are all admitted.\<close>

fun asks :: "gotime \<Rightarrow> string \<Rightarrow> nat \<Rightarrow> login_throttle \<Rightarrow> bool \<times> login_throttle" where
  "asks now ip 0 t = (True, t)"
| "asks now ip (Suc n) t = (case throttle_Allow now ip t of (ok, t1) \<Rightarrow> (case asks now ip n t1 of (oks, t2) \<Rightarrow> (ok \<and> oks, t2)))"

lemma concurrent_guesses:
  assumes "0 < lt_window t" and "fst (throttle_Allow now ip t)"
  shows "fst (asks now ip n t)"
  using assms
proof (induction n arbitrary: t)
  case (Suc n)
  have "throttle_Allow now ip t = (True, put_entry ip (current_entry now (lt_window t) (lt_entries t ip)) t)"
    using Suc.prems(2) by (auto simp: throttle_Allow_def entryLocked_def Let_def)
  moreover from Suc.prems have "fst (throttle_Allow now ip (put_entry ip (current_entry now (lt_window t) (lt_entries t ip)) t))"
    by (auto simp: throttle_Allow_def entryLocked_def current_entry_idem Let_def)
  ultimately show ?case using Suc.IH Suc.prems(1) by (auto split: prod.split)
qed simp

section \<open>Rotations\<close>

lemma rotations_apart:
  assumes "rotation_allow now t = ((True, d), t1)" and "rotation_allow later t1 = ((True, d'), t2)" and "0 < rt_window t" and "rt_window t < 2 ^ 63"
  shows "now + rt_window t \<le> later"
  using assms by (auto simp: rotation_allow_def time_sub_def split: if_splits)

text \<open>A rotation closes the old token unless the two hash alike.\<close>

lemma rotated_token: "RotateManagementToken hash random row = (token, row1) \<Longrightarrow>
    VerifyManagementToken hash k row1 \<longleftrightarrow> hash token \<noteq> '''' \<and> k \<noteq> '''' \<and> hash token = hash k"
  by (auto simp: RotateManagementToken_def VerifyManagementToken_def Let_def)

section \<open>Client keys\<close>

datatype key_op = KeyCreate gotime client_id "nat list" string | KeyRevoke gotime client_id

fun key_step :: "(string \<Rightarrow> string) \<Rightarrow> key_op \<Rightarrow> client_keys \<Rightarrow> client_keys" where
  "key_step hash (KeyCreate now i random label) t = snd (key_Create hash now i random label t)"
| "key_step hash (KeyRevoke now i) t = snd (key_Revoke now i t)"

definition key_run :: "(string \<Rightarrow> string) \<Rightarrow> key_op list \<Rightarrow> client_keys \<Rightarrow> client_keys" where
  "key_run hash ops t = fold (key_step hash) ops t"

definition keys_unique :: "client_keys \<Rightarrow> bool" where
  "keys_unique t \<longleftrightarrow> distinct (map ck_id t) \<and> distinct (map ck_hash t)"

lemma key_Create_unique: "keys_unique t \<Longrightarrow> keys_unique (snd (key_Create hash now i random label t))"
  by (auto simp: key_Create_def keys_unique_def list_ex_iff Let_def)

lemma revoke_map:
  "map ck_id (snd (key_Revoke now i t)) = map ck_id t" "map ck_hash (snd (key_Revoke now i t)) = map ck_hash t"
  by (auto simp: key_Revoke_def)

lemma key_step_unique: "keys_unique t \<Longrightarrow> keys_unique (key_step hash opn t)"
  by (cases opn) (simp_all add: key_Create_unique, simp add: keys_unique_def revoke_map)

lemma key_run_unique: "keys_unique t \<Longrightarrow> keys_unique (key_run hash ops t)"
  unfolding key_run_def by (induction ops arbitrary: t) (simp_all add: key_step_unique)

text \<open>The hash is in the table, and every row that has it is revoked.\<close>

definition dead_hash :: "string \<Rightarrow> client_keys \<Rightarrow> bool" where
  "dead_hash h t \<longleftrightarrow> h \<in> set (map ck_hash t) \<and> (\<forall>k \<in> set t. ck_hash k = h \<longrightarrow> ck_revoked k \<noteq> 0)"

lemma dead_hash_step: "dead_hash h t \<Longrightarrow> dead_hash h (key_step hash opn t)"
proof (cases opn)
  case (KeyCreate now i random label)
  assume "dead_hash h t"
  then show ?thesis unfolding KeyCreate
    by (auto simp: dead_hash_def key_Create_def list_ex_iff Let_def)
next
  case (KeyRevoke now i)
  assume "dead_hash h t"
  then show ?thesis unfolding KeyRevoke
    by (auto simp: dead_hash_def key_Revoke_def)
qed

lemma dead_hash_run: "dead_hash h t \<Longrightarrow> dead_hash h (key_run hash ops t)"
  unfolding key_run_def by (induction ops arbitrary: t) (simp_all add: dead_hash_step)

lemma dead_hash_refused: "dead_hash (hash k) t \<Longrightarrow> key_Verify hash k t = None"
  by (auto simp: key_Verify_def key_lookup_def dead_hash_def find_Some_iff split: option.splits)

lemma revoke_member: "now \<noteq> 0 \<Longrightarrow> k \<in> set (snd (key_Revoke now i t)) \<Longrightarrow> ck_revoked k = 0 \<Longrightarrow> k \<in> set t \<and> ck_id k \<noteq> i"
  by (auto simp: key_Revoke_def list_ex_iff split: if_splits)

lemma revoke_kills:
  assumes "keys_unique t" "row \<in> set t" "ck_id row = i" "now \<noteq> 0"
  shows "dead_hash (ck_hash row) (snd (key_Revoke now i t))"
proof -
  have same: "k = row" if "k \<in> set t" "ck_hash k = ck_hash row" for k
    using assms(1,2) that by (auto simp: keys_unique_def distinct_map inj_on_def)
  have "ck_hash row \<in> set (map ck_hash t)" using assms(2) by simp
  then have "ck_hash row \<in> set (map ck_hash (snd (key_Revoke now i t)))" by (simp only: revoke_map)
  moreover have "ck_revoked k \<noteq> 0" if k: "k \<in> set (snd (key_Revoke now i t))" "ck_hash k = ck_hash row" for k
  proof
    assume "ck_revoked k = 0"
    from revoke_member [OF assms(4) k(1) this] have "k \<in> set t" "ck_id k \<noteq> i" by simp_all
    with same [OF this(1) k(2)] assms(3) show False by simp
  qed
  ultimately show ?thesis by (simp add: dead_hash_def)
qed

lemma live_key_verified:
  assumes "keys_unique t" "row \<in> set t" "ck_hash row = hash k" "ck_revoked row = 0" "hash k \<noteq> ''''" "k \<noteq> ''''"
  shows "key_Verify hash k t = Some row"
proof -
  have "find (\<lambda>r. ck_hash r = hash k) t \<noteq> None" using assms(2,3) by (auto simp: find_None_iff)
  then obtain r where r: "find (\<lambda>r. ck_hash r = hash k) t = Some r" by blast
  then have "r \<in> set t" "ck_hash r = hash k" by (auto simp: find_Some_iff)
  moreover have "inj_on ck_hash (set t)" using assms(1) by (simp add: keys_unique_def distinct_map)
  ultimately have "r = row" by (intro inj_onD [of ck_hash "set t"]) (simp_all add: assms(2,3))
  with r assms(3-6) show ?thesis by (simp add: key_Verify_def key_lookup_def)
qed

text \<open>C30: a client key that has once been revoked opens nothing again: whatever keys are issued and revoked
  afterwards, a mutating inference request that presents it is answered by a guard, the routes never see it.\<close>

theorem revoked_key_locked_out:
  assumes "row \<in> set (key_run hash before [])" and "ck_hash row = hash k" and "now \<noteq> 0"
    and "ap_verify p = Some (verifyClientKey hash keys)" and "ap_requestID p w = (i, w0)"
    and "keys w0 = key_run hash later (snd (key_Revoke now (ck_id row) (key_run hash before [])))"
    and "HasPrefix (rq_Path r) ''/v1/''" and "isMutating (rq_Method r)" and "ExtractClientKey (rq_Header r) = k" and "k \<noteq> ''''"
  shows "\<exists>a v. or_Status a \<in> {204, 400, 401, 403} \<and> (\<forall>mux. App_Handler s p mux r [] w = (Written a, v))"
proof -
  have "keys_unique (key_run hash before [])" by (rule key_run_unique) (simp add: keys_unique_def)
  from dead_hash_run [OF revoke_kills [OF this assms(1) refl assms(3), unfolded assms(2)], of hash later]
  have "key_Verify hash k (keys w0) = None" unfolding assms(6) [symmetric] by (rule dead_hash_refused)
  then have "\<not> key_checked (verifyClientKey hash keys) (sec_RequireClientKey s) (r\<lparr>rq_RequestID := i\<rparr>) w0 r' v" for r' v
    using assms(7-10) by (simp add: key_checked_def verifyClientKey_def)
  with chain_decides [OF assms(4,5), of s r] show ?thesis by blast
qed

text \<open>A key is issued and revoked, then another is issued.\<close>

definition test_hash :: "string \<Rightarrow> string" where "test_hash s = ''h'' @ s"

definition test_key_parts :: "client_keys app_parts" where
  "test_key_parts = \<lparr>ap_redact = (\<lambda>s. s), ap_url = (\<lambda>u. Inl (Foreign ''url'' [])), ap_verify = Some (verifyClientKey test_hash (\<lambda>w. w)),
     ap_requestID = (\<lambda>w. (''r1'', w)), ap_observe = (\<lambda>h. h)\<rparr>"

definition issued :: key_op where "issued = KeyCreate 5 ''c1'' [1, 171] ''laptop''"

definition issued_row :: client_key_row where
  "issued_row = \<lparr>ck_id = ''c1'', ck_label = ''laptop'', ck_hash = ''hhmd_live_01ab'', ck_created = 5, ck_revoked = 0\<rparr>"

definition keys_after :: client_keys where
  "keys_after = key_run test_hash [KeyCreate 9 ''c2'' [2, 255] '''' ] (snd (key_Revoke 7 ''c1'' (key_run test_hash [issued] [])))"

definition key_call :: in_request where
  "key_call = (test_call ''127.0.0.1:40000'')\<lparr>rq_Header := [(''Authorization'', [''Bearer hmd_live_01ab''])]\<rparr>"

theorem revoked_key_locked_out_witness:
  "\<exists>a v. or_Status a \<in> {204, 400, 401, 403} \<and> (\<forall>mux. App_Handler test_settings test_key_parts mux key_call [] keys_after = (Written a, v))"
proof -
  have run: "key_run test_hash [issued] [] = [issued_row]" by code_simp
  have "ExtractClientKey (rq_Header key_call) = ''hmd_live_01ab''" by code_simp
  then show ?thesis
    by (intro revoked_key_locked_out [where row = issued_row and hash = test_hash and before = "[issued]" and now = 7
          and k = "''hmd_live_01ab''" and keys = "\<lambda>w. w" and later = "[KeyCreate 9 ''c2'' [2, 255] '''']"])
      (simp_all add: run test_key_parts_def keys_after_def, simp_all add: issued_row_def test_hash_def key_call_def test_call_def HasPrefix_def isMutating_def)
qed

end
