(* ===== verification/Envelope.thy ===== *)
theory Envelope
  imports Domain_Errors Netip
begin

text \<open>
  The sealed form of a secret, \<open>internal/secret/envelope.go\<close>, \<open>store.go\<close>, \<open>kdf.go\<close> and \<open>recovery.go\<close>: base64 as
  \<open>encoding/base64\<close> has it, the format \<open>enc:v1\<close>, sealing, opening and rewrapping, the store that holds the
  key, key derivation and the recovery form.  Bytes are the characters of a string.  AES-GCM, Argon2id and
  the random source are parameters.
\<close>

type_synonym bytes = string

definition CodeConfigSecretMissing :: string where "CodeConfigSecretMissing = ''config.secret_missing''"
definition CodeSecretInvalidFormat :: string where "CodeSecretInvalidFormat = ''secret.invalid_format''"
definition CodeSecretUnknownVersion :: string where "CodeSecretUnknownVersion = ''secret.unknown_version''"
definition CodeSecretDecryptFailed :: string where "CodeSecretDecryptFailed = ''secret.decrypt_failed''"
definition CodeSecretKDFFailed :: string where "CodeSecretKDFFailed = ''secret.kdf_failed''"
definition CodeSecretRecoveryFailed :: string where "CodeSecretRecoveryFailed = ''secret.recovery_failed''"

section \<open>Base64 without padding\<close>

definition b64_alphabet :: string where
  "b64_alphabet = ''ABCDEFGHIJKLMNOPQRSTUVWXYZabcdefghijklmnopqrstuvwxyz0123456789+/''"

definition b64_char :: "nat \<Rightarrow> char" where
  "b64_char n = b64_alphabet ! n"

definition b64_value :: "char \<Rightarrow> nat option" where
  "b64_value c = find (\<lambda>n. b64_char n = c) [0..<64]"

fun encode_quanta :: "nat list \<Rightarrow> nat list" where
  "encode_quanta [] = []"
| "encode_quanta [a] = [a div 4, a mod 4 * 16]"
| "encode_quanta [a, b] = [a div 4, a mod 4 * 16 + b div 16, b mod 16 * 4]"
| "encode_quanta (a # b # c # r) = [a div 4, a mod 4 * 16 + b div 16, b mod 16 * 4 + c div 64, c mod 64] @ encode_quanta r"

text \<open>A last group of one character is an error; the unused low bits of a short group are not checked.\<close>

fun decode_quanta :: "nat list \<Rightarrow> nat list option" where
  "decode_quanta [] = Some []"
| "decode_quanta [x] = None"
| "decode_quanta [x, y] = Some [x * 4 + y div 16]"
| "decode_quanta [x, y, z] = Some [x * 4 + y div 16, y mod 16 * 16 + z div 4]"
| "decode_quanta (x # y # z # u # r) = map_option (\<lambda>bs. [x * 4 + y div 16, y mod 16 * 16 + z div 4, z mod 4 * 64 + u] @ bs) (decode_quanta r)"

definition b64encode :: "bytes \<Rightarrow> string" where
  "b64encode bs = map b64_char (encode_quanta (map of_char bs))"

text \<open>Line ends are skipped.\<close>

definition base64_DecodeString :: "string \<Rightarrow> bytes option" where
  "base64_DecodeString s = (let vs = map b64_value (filter (\<lambda>c. c \<notin> {CHR 0x0A, CHR 0x0D}) s) in
     if None \<in> set vs then None else map_option (map char_of) (decode_quanta (map the vs)))"

definition invalidFormat :: "string \<Rightarrow> domain_error" where
  "invalidFormat reason = New CodeSecretInvalidFormat [WithHTTPStatus 500, WithParams [(''reason'', reason)]]"

definition b64decode :: "string \<Rightarrow> domain_error + bytes" where
  "b64decode s = (case base64_DecodeString s of None \<Rightarrow> Inl (invalidFormat ''not valid base64'') | Some b \<Rightarrow> Inr b)"

section \<open>The format\<close>

definition IVSize :: nat where "IVSize = 12"
definition TagSize :: nat where "TagSize = 16"
definition DEKSize :: nat where "DEKSize = 32"
definition KEKSize :: nat where "KEKSize = 32"
definition blobVersion :: char where "blobVersion = CHR 0x01"
definition blobMinSize :: nat where "blobMinSize = 1 + DEKSize + IVSize + TagSize"

record envelope =
  WrapIV :: bytes
  WrappedDEK :: bytes
  WrapTag :: bytes
  RecordIV :: bytes
  RecordCT :: bytes
  RecordTag :: bytes

definition encodeEnvelope :: "envelope \<Rightarrow> string" where
  "encodeEnvelope env =
     (let blob = [blobVersion] @ WrappedDEK env @ RecordIV env @ RecordCT env @ RecordTag env in
      ''enc'' @ '':'' @ ''v1'' @ '':'' @ b64encode (WrapIV env) @ '':'' @ b64encode blob @ '':'' @ b64encode (WrapTag env))"

definition unknownVersion :: "string \<Rightarrow> domain_error" where
  "unknownVersion v = New CodeSecretUnknownVersion [WithHTTPStatus 500, WithParams [(''version'', v)]]"

definition envelope_of_blob :: "bytes \<Rightarrow> bytes \<Rightarrow> bytes \<Rightarrow> envelope" where
  "envelope_of_blob wrapIV blob wrapTag = \<lparr>WrapIV = wrapIV, WrappedDEK = take DEKSize (drop 1 blob), WrapTag = wrapTag,
     RecordIV = take IVSize (drop (1 + DEKSize) blob),
     RecordCT = drop (1 + DEKSize + IVSize) (take (length blob - TagSize) blob),
     RecordTag = drop (length blob - TagSize) blob\<rparr>"

definition ParseEnvelope :: "string \<Rightarrow> domain_error + envelope" where
  "ParseEnvelope encoded = (case split_on (CHR '':'') encoded of
      [p0, p1, p2, p3, p4] \<Rightarrow>
        if p0 \<noteq> ''enc'' then Inl (invalidFormat ''missing enc prefix'')
        else if p1 \<noteq> ''v1'' then Inl (unknownVersion p1)
        else (case b64decode p2 of Inl e \<Rightarrow> Inl e | Inr wrapIV \<Rightarrow>
          if length wrapIV \<noteq> IVSize then
            Inl (invalidFormat (''iv is '' @ itoa (int (length wrapIV)) @ '' bytes, want '' @ itoa (int IVSize)))
          else (case b64decode p3 of Inl e \<Rightarrow> Inl e | Inr blob \<Rightarrow>
          (case b64decode p4 of Inl e \<Rightarrow> Inl e | Inr wrapTag \<Rightarrow>
            if length wrapTag \<noteq> TagSize then
              Inl (invalidFormat (''tag is '' @ itoa (int (length wrapTag)) @ '' bytes, want '' @ itoa (int TagSize)))
            else if length blob < blobMinSize then
              Inl (invalidFormat (''envelope blob is '' @ itoa (int (length blob)) @ '' bytes, want at least '' @ itoa (int blobMinSize)))
            else if hd blob \<noteq> blobVersion then Inl (unknownVersion (''blob'' @ itoa (int (of_char (hd blob)))))
            else Inr (envelope_of_blob wrapIV blob wrapTag))))
    | _ \<Rightarrow> Inl (invalidFormat ''expected 5 colon-separated parts''))"

section \<open>Ciphers\<close>

text \<open>\<open>cr_Seal key iv plain\<close> is the ciphertext with its tag at the end; \<open>cr_Open key iv sealed\<close> fails when the
  tag is wrong.\<close>

record 'w crypto =
  cr_Seal :: "bytes \<Rightarrow> bytes \<Rightarrow> bytes \<Rightarrow> bytes"
  cr_Open :: "bytes \<Rightarrow> bytes \<Rightarrow> bytes \<Rightarrow> go_error + bytes"
  cr_rand :: "nat \<Rightarrow> 'w \<Rightarrow> (go_error + bytes) \<times> 'w"
  cr_argon2 :: "bytes \<Rightarrow> bytes \<Rightarrow> nat \<Rightarrow> nat \<Rightarrow> nat \<Rightarrow> nat \<Rightarrow> bytes"

definition newGCM :: "bytes \<Rightarrow> domain_error option" where
  "newGCM key = (if length key \<in> {16, 24, 32} then None
     else Some (New CodeSecretKDFFailed [WithHTTPStatus 500,
       WithCause (Foreign (''crypto/aes: invalid key size '' @ itoa (int (length key))) []), WithParams [(''reason'', ''invalid AES key'')]]))"

definition splitTag :: "bytes \<Rightarrow> bytes \<times> bytes" where
  "splitTag sealed = (let n = length sealed - TagSize in (take n sealed, drop n sealed))"

definition wrapRand :: "go_error \<Rightarrow> domain_error" where
  "wrapRand err = New CodeSecretKDFFailed [WithHTTPStatus 500, WithCause err, WithParams [(''reason'', ''cannot read random bytes'')]]"

definition kdfFailed :: "string \<Rightarrow> domain_error" where
  "kdfFailed reason = New CodeSecretKDFFailed [WithHTTPStatus 500, WithParams [(''reason'', reason)]]"

definition decryptFailed :: "go_error \<Rightarrow> domain_error" where
  "decryptFailed err = New CodeSecretDecryptFailed [WithHTTPStatus 500, WithCause err]"

text \<open>A read of the random source, its failure wrapped.\<close>

definition read_random :: "'w crypto \<Rightarrow> nat \<Rightarrow> 'w \<Rightarrow> (domain_error + bytes) \<times> 'w" where
  "read_random C n w = (case cr_rand C n w of (Inl e, w1) \<Rightarrow> (Inl (wrapRand e), w1) | (Inr bs, w1) \<Rightarrow> (Inr bs, w1))"

definition Seal :: "'w crypto \<Rightarrow> bytes \<Rightarrow> bytes \<Rightarrow> 'w \<Rightarrow> (domain_error + string) \<times> 'w" where
  "Seal C kek plaintext w =
     (if length kek \<noteq> KEKSize then (Inl (kdfFailed ''kek is not 32 bytes''), w)
      else (case read_random C DEKSize w of (Inl e, w1) \<Rightarrow> (Inl e, w1) | (Inr dek, w1) \<Rightarrow>
        (case read_random C IVSize w1 of (Inl e, w2) \<Rightarrow> (Inl e, w2) | (Inr recordIV, w2) \<Rightarrow>
          (case newGCM dek of Some e \<Rightarrow> (Inl e, w2) | None \<Rightarrow>
            (case splitTag (cr_Seal C dek recordIV plaintext) of (recordCT, recordTag) \<Rightarrow>
              (case read_random C IVSize w2 of (Inl e, w3) \<Rightarrow> (Inl e, w3) | (Inr wrapIV, w3) \<Rightarrow>
                (case newGCM kek of Some e \<Rightarrow> (Inl e, w3) | None \<Rightarrow>
                  (case splitTag (cr_Seal C kek wrapIV dek) of (wrappedDEK, wrapTag) \<Rightarrow>
                    (Inr (encodeEnvelope \<lparr>WrapIV = wrapIV, WrappedDEK = wrappedDEK, WrapTag = wrapTag,
                       RecordIV = recordIV, RecordCT = recordCT, RecordTag = recordTag\<rparr>), w3)))))))))"

definition Open :: "'w crypto \<Rightarrow> bytes \<Rightarrow> string \<Rightarrow> domain_error + bytes" where
  "Open C kek encoded = (case ParseEnvelope encoded of Inl e \<Rightarrow> Inl e | Inr env \<Rightarrow>
     if length kek \<noteq> KEKSize then Inl (kdfFailed ''kek is not 32 bytes'')
     else (case newGCM kek of Some e \<Rightarrow> Inl e | None \<Rightarrow>
       (case cr_Open C kek (WrapIV env) (WrappedDEK env @ WrapTag env) of Inl err \<Rightarrow> Inl (decryptFailed err) | Inr dek \<Rightarrow>
         if length dek \<noteq> DEKSize then
           Inl (New CodeSecretDecryptFailed [WithHTTPStatus 500, WithParams [(''reason'', ''unwrapped DEK is not 32 bytes'')]])
         else (case newGCM dek of Some e \<Rightarrow> Inl e | None \<Rightarrow>
           (case cr_Open C dek (RecordIV env) (RecordCT env @ RecordTag env) of Inl err \<Rightarrow> Inl (decryptFailed err)
             | Inr plaintext \<Rightarrow> Inr plaintext)))))"

definition Rewrap :: "'w crypto \<Rightarrow> bytes \<Rightarrow> bytes \<Rightarrow> string \<Rightarrow> 'w \<Rightarrow> (domain_error + string) \<times> 'w" where
  "Rewrap C oldKEK newKEK encoded w = (case ParseEnvelope encoded of Inl e \<Rightarrow> (Inl e, w) | Inr env \<Rightarrow>
     (case newGCM oldKEK of Some e \<Rightarrow> (Inl e, w) | None \<Rightarrow>
       (case cr_Open C oldKEK (WrapIV env) (WrappedDEK env @ WrapTag env) of Inl err \<Rightarrow> (Inl (decryptFailed err), w) | Inr dek \<Rightarrow>
         (case newGCM newKEK of Some e \<Rightarrow> (Inl e, w) | None \<Rightarrow>
           (case read_random C IVSize w of (Inl e, w1) \<Rightarrow> (Inl e, w1) | (Inr wrapIV, w1) \<Rightarrow>
             (case splitTag (cr_Seal C newKEK wrapIV dek) of (wrappedDEK, wrapTag) \<Rightarrow>
               (Inr (encodeEnvelope (env\<lparr>WrapIV := wrapIV, WrappedDEK := wrappedDEK, WrapTag := wrapTag\<rparr>)), w1)))))))"

section \<open>The store of the key\<close>

type_synonym vault = "bytes option"

definition secret_missing :: domain_error where
  "secret_missing = New CodeConfigSecretMissing [WithHTTPStatus 500]"

definition no_key :: "vault \<Rightarrow> bool" where
  "no_key s \<longleftrightarrow> s = None \<or> s = Some ''''"

definition NewWithKEK :: "bytes \<Rightarrow> domain_error + vault" where
  "NewWithKEK kek = (if length kek \<noteq> KEKSize then Inl (kdfFailed ''kek is not 32 bytes'') else Inr (Some kek))"

definition vault_Seal :: "'w crypto \<Rightarrow> vault \<Rightarrow> bytes \<Rightarrow> 'w \<Rightarrow> (domain_error + string) \<times> 'w" where
  "vault_Seal C s plaintext w = (if no_key s then (Inl secret_missing, w) else Seal C (the s) plaintext w)"

definition vault_Open :: "'w crypto \<Rightarrow> vault \<Rightarrow> string \<Rightarrow> domain_error + bytes" where
  "vault_Open C s encoded = (if no_key s then Inl secret_missing else Open C (the s) encoded)"

definition vault_Rewrap :: "'w crypto \<Rightarrow> vault \<Rightarrow> bytes \<Rightarrow> string \<Rightarrow> 'w \<Rightarrow> (domain_error + string) \<times> 'w" where
  "vault_Rewrap C s newKEK encoded w = (if no_key s then (Inl secret_missing, w) else Rewrap C (the s) newKEK encoded w)"

text \<open>The sample to prove the current key on: the given one, or a fresh probe.\<close>

definition rotation_probe :: "'w crypto \<Rightarrow> vault \<Rightarrow> string \<Rightarrow> 'w \<Rightarrow> (domain_error + string) \<times> 'w" where
  "rotation_probe C s sample w =
     (if sample = '''' then vault_Seal C s ''heimdall-rotation-probe'' w
      else (case vault_Open C s sample of Inl e \<Rightarrow> (Inl e, w) | Inr p \<Rightarrow> (Inr sample, w)))"

definition RotateTo :: "'w crypto \<Rightarrow> vault \<Rightarrow> bytes \<Rightarrow> string \<Rightarrow> 'w \<Rightarrow> (domain_error + vault) \<times> 'w" where
  "RotateTo C s newKEK sample w =
     (if no_key s then (Inl secret_missing, w)
      else (case NewWithKEK newKEK of Inl e \<Rightarrow> (Inl e, w) | Inr next1 \<Rightarrow>
        (case rotation_probe C s sample w of (Inl e, w1) \<Rightarrow> (Inl e, w1) | (Inr probe, w1) \<Rightarrow>
          (case Rewrap C (the s) newKEK probe w1 of (Inl e, w2) \<Rightarrow> (Inl e, w2) | (Inr rewrapped, w2) \<Rightarrow>
            (case vault_Open C next1 rewrapped of Inl e \<Rightarrow> (Inl e, w2) | Inr p \<Rightarrow> (Inr next1, w2))))))"

section \<open>Key derivation\<close>

definition SaltSize :: nat where "SaltSize = 16"

record kdf_params =
  kp_Memory :: nat
  kp_Time :: nat
  kp_Threads :: nat
  kp_KeyLen :: nat

definition DefaultKDFParams :: kdf_params where
  "DefaultKDFParams = \<lparr>kp_Memory = 64 * 1024, kp_Time = 2, kp_Threads = 4, kp_KeyLen = 32\<rparr>"

definition kdf_Validate :: "kdf_params \<Rightarrow> domain_error option" where
  "kdf_Validate p =
     (if kp_Memory p = 0 \<or> kp_Time p = 0 \<or> kp_Threads p = 0 then Some (kdfFailed ''argon2 parameters must be non-zero'')
      else if kp_KeyLen p \<noteq> KEKSize then Some (kdfFailed ''key length must be 32 bytes'')
      else None)"

definition DeriveKEK :: "'w crypto \<Rightarrow> bytes \<Rightarrow> bytes \<Rightarrow> kdf_params \<Rightarrow> domain_error + bytes" where
  "DeriveKEK C material salt params =
     (if material = '''' then Inl secret_missing
      else if length salt \<noteq> SaltSize then Inl (kdfFailed ''salt must be 16 bytes'')
      else (case kdf_Validate params of Some e \<Rightarrow> Inl e | None \<Rightarrow>
        let kek = cr_argon2 C material salt (kp_Time params) (kp_Memory params) (kp_Threads params) (kp_KeyLen params) in
        if length kek \<noteq> KEKSize then Inl (kdfFailed ''derived key is not 32 bytes'') else Inr kek))"

definition NewSalt :: "'w crypto \<Rightarrow> 'w \<Rightarrow> (domain_error + bytes) \<times> 'w" where
  "NewSalt C w = read_random C SaltSize w"

section \<open>Recovery\<close>

definition recoveryError :: "string \<Rightarrow> domain_error" where
  "recoveryError reason = New CodeSecretRecoveryFailed [WithHTTPStatus 500, WithParams [(''reason'', reason)]]"

definition WrapKEKForRecovery :: "'w crypto \<Rightarrow> bytes \<Rightarrow> bytes \<Rightarrow> kdf_params \<Rightarrow> 'w \<Rightarrow> (domain_error + string) \<times> 'w" where
  "WrapKEKForRecovery C kek passphrase params w =
     (if length kek \<noteq> KEKSize then (Inl (recoveryError ''kek is not 32 bytes''), w)
      else if passphrase = '''' then (Inl (recoveryError ''recovery passphrase is empty''), w)
      else (case NewSalt C w of (Inl e, w1) \<Rightarrow> (Inl e, w1) | (Inr salt, w1) \<Rightarrow>
        (case DeriveKEK C passphrase salt params of Inl e \<Rightarrow> (Inl e, w1) | Inr wrapKey \<Rightarrow>
          (case read_random C IVSize w1 of (Inl e, w2) \<Rightarrow> (Inl e, w2) | (Inr iv, w2) \<Rightarrow>
            (case newGCM wrapKey of Some e \<Rightarrow> (Inl e, w2) | None \<Rightarrow>
              (case splitTag (cr_Seal C wrapKey iv kek) of (ct, tag) \<Rightarrow>
                (Inr (''enc:recovery'' @ '':'' @ b64encode salt @ '':'' @ b64encode iv @ '':'' @ b64encode ct @ '':'' @ b64encode tag), w2)))))))"

definition splitRecovery :: "string \<Rightarrow> string list option" where
  "splitRecovery blob = (let parts = split_on (CHR '':'') blob in
     if length parts \<noteq> 6 then None
     else if parts ! 0 \<noteq> ''enc'' \<or> parts ! 1 \<noteq> ''recovery'' then None
     else Some (drop 2 parts))"

text \<open>A part that must decode, to a number of bytes when one is given.\<close>

definition recovery_part :: "string \<Rightarrow> nat option \<Rightarrow> string \<Rightarrow> domain_error + bytes" where
  "recovery_part part n reason = (case b64decode part of Inl e \<Rightarrow> Inl (recoveryError reason)
     | Inr b \<Rightarrow> if n \<noteq> None \<and> length b \<noteq> the n then Inl (recoveryError reason) else Inr b)"

definition UnwrapKEKFromRecovery :: "'w crypto \<Rightarrow> string \<Rightarrow> bytes \<Rightarrow> kdf_params \<Rightarrow> domain_error + bytes" where
  "UnwrapKEKFromRecovery C blob passphrase params = (case splitRecovery blob of
      Some [p0, p1, p2, p3] \<Rightarrow>
        (case recovery_part p0 (Some SaltSize) ''bad recovery salt'' of Inl e \<Rightarrow> Inl e | Inr salt \<Rightarrow>
        (case recovery_part p1 (Some IVSize) ''bad recovery iv'' of Inl e \<Rightarrow> Inl e | Inr iv \<Rightarrow>
        (case recovery_part p2 None ''bad recovery ciphertext'' of Inl e \<Rightarrow> Inl e | Inr ct \<Rightarrow>
        (case recovery_part p3 (Some TagSize) ''bad recovery tag'' of Inl e \<Rightarrow> Inl e | Inr tag \<Rightarrow>
          if passphrase = '''' then Inl (recoveryError ''empty recovery passphrase'')
          else (case DeriveKEK C passphrase salt params of Inl e \<Rightarrow> Inl e | Inr wrapKey \<Rightarrow>
            (case newGCM wrapKey of Some e \<Rightarrow> Inl e | None \<Rightarrow>
              (case cr_Open C wrapKey iv (ct @ tag) of Inl err \<Rightarrow> Inl (recoveryError ''passphrase did not authenticate'') | Inr kek \<Rightarrow>
                if length kek \<noteq> KEKSize then Inl (recoveryError ''recovered key is not 32 bytes'') else Inr kek)))))))
    | _ \<Rightarrow> Inl (recoveryError ''malformed recovery blob''))"

end
