(* ===== verification/Envelope_Laws.thy ===== *)
theory Envelope_Laws
  imports Envelope
begin

text \<open>
  What is sealed can be opened: base64 and the format \<open>enc:v1\<close> read back what they wrote, opening undoes
  sealing, rewrapping keeps the secret, and the recovery form gives the key back.
\<close>

section \<open>Base64\<close>

lemma b64_value_char:
  assumes "n < 64"
  shows "b64_value (b64_char n) = Some n" and "b64_char n \<notin> {CHR '':'', CHR 0x0A, CHR 0x0D}"
proof -
  have "list_all (\<lambda>n. b64_value (b64_char n) = Some n \<and> b64_char n \<notin> {CHR '':'', CHR 0x0A, CHR 0x0D}) [0..<64]" by code_simp
  then have "\<forall>n < 64. b64_value (b64_char n) = Some n \<and> b64_char n \<notin> {CHR '':'', CHR 0x0A, CHR 0x0D}" by (simp add: list_all_iff)
  with assms show "b64_value (b64_char n) = Some n" "b64_char n \<notin> {CHR '':'', CHR 0x0A, CHR 0x0D}" by blast+
qed

lemma encode_quanta_range: "list_all (\<lambda>b. b < 256) bs \<Longrightarrow> list_all (\<lambda>n. n < 64) (encode_quanta bs)"
  by (induction bs rule: encode_quanta.induct) auto

lemma join_bits: "(x :: nat) < m \<Longrightarrow> (y * m + x) div m = y" "(x :: nat) < m \<Longrightarrow> (y * m + x) mod m = x"
  by auto

lemma decode_encode_quanta: "list_all (\<lambda>b. b < 256) bs \<Longrightarrow> decode_quanta (encode_quanta bs) = Some bs"
proof (induction bs rule: encode_quanta.induct)
  case (2 a)
  then show ?case by simp
next
  case (3 a b)
  then have "b div 16 < 16" by auto
  then show ?case by (simp add: join_bits)
next
  case (4 a b c r)
  then have "b div 16 < 16" "c div 64 < 4" by auto
  with 4 show ?case by (simp add: join_bits)
qed simp

lemma b64encode_chars: "c \<in> set (b64encode bs) \<Longrightarrow> c \<notin> {CHR '':'', CHR 0x0A, CHR 0x0D} \<and> b64_value c \<noteq> None"
proof -
  assume "c \<in> set (b64encode bs)"
  moreover have "list_all (\<lambda>n. n < 64) (encode_quanta (map of_char bs))"
    by (rule encode_quanta_range) (simp add: list_all_iff)
  ultimately obtain n where "c = b64_char n" "n < 64" by (auto simp: b64encode_def list_all_iff)
  then show ?thesis using b64_value_char by simp
qed

lemma base64_roundtrip: "base64_DecodeString (b64encode bs) = Some bs"
proof -
  let ?q = "encode_quanta (map of_char bs)"
  have q: "list_all (\<lambda>n. n < 64) ?q" by (rule encode_quanta_range) (simp add: list_all_iff)
  have "filter (\<lambda>c. c \<notin> {CHR 0x0A, CHR 0x0D}) (b64encode bs) = b64encode bs"
    using b64encode_chars by (fastforce simp: filter_id_conv)
  moreover have "map b64_value (b64encode bs) = map Some ?q"
    using q b64_value_char(1) by (auto simp: b64encode_def list_all_iff)
  moreover have "decode_quanta ?q = Some (map of_char bs)"
    by (rule decode_encode_quanta) (simp add: list_all_iff)
  ultimately show ?thesis by (simp add: base64_DecodeString_def Let_def comp_def)
qed

lemma b64_roundtrip [simp]: "b64decode (b64encode bs) = Inr bs"
  by (simp add: b64decode_def base64_roundtrip)

section \<open>The format\<close>

definition well_sized :: "envelope \<Rightarrow> bool" where
  "well_sized env \<longleftrightarrow> length (WrapIV env) = IVSize \<and> length (WrappedDEK env) = DEKSize \<and> length (WrapTag env) = TagSize \<and>
     length (RecordIV env) = IVSize \<and> length (RecordTag env) = TagSize"

lemmas sizes = IVSize_def TagSize_def DEKSize_def KEKSize_def blobMinSize_def SaltSize_def

lemma split_on_join: "d \<notin> set p \<Longrightarrow> split_on d (p @ d # rest) = p # split_on d rest"
  by (induction p) (auto split: list.split)

lemma split_on_end: "d \<notin> set p \<Longrightarrow> split_on d p = [p]"
  by (induction p) auto

lemma no_colon [simp]: "CHR '':'' \<notin> set (b64encode bs)"
  using b64encode_chars by fastforce

lemma split_encoded:
  "split_on (CHR '':'') (encodeEnvelope env) = [''enc'', ''v1'', b64encode (WrapIV env),
     b64encode ([blobVersion] @ WrappedDEK env @ RecordIV env @ RecordCT env @ RecordTag env), b64encode (WrapTag env)]"
  by (simp add: encodeEnvelope_def Let_def split_on_join split_on_end)

lemma envelope_of_blob_sections:
  "well_sized env \<Longrightarrow> envelope_of_blob (WrapIV env) ([blobVersion] @ WrappedDEK env @ RecordIV env @ RecordCT env @ RecordTag env) (WrapTag env) = env"
  by (simp add: envelope_of_blob_def well_sized_def sizes drop_Cons' take_Cons')

lemma parse_encode: "well_sized env \<Longrightarrow> ParseEnvelope (encodeEnvelope env) = Inr env"
  using envelope_of_blob_sections [of env]
  by (simp add: ParseEnvelope_def split_encoded well_sized_def sizes)

lemma parsed_well_sized: "ParseEnvelope s = Inr env \<Longrightarrow> well_sized env"
  by (auto simp: ParseEnvelope_def well_sized_def envelope_of_blob_def sizes split: list.splits sum.splits if_splits)

section \<open>What the ciphers promise\<close>

text \<open>AES-GCM opens what it sealed, its tag has 16 bytes, and the random source fills the buffer it is given.\<close>

definition crypto_laws :: "'w crypto \<Rightarrow> bool" where
  "crypto_laws C \<longleftrightarrow>
     (\<forall>k iv p. length k \<in> {16, 24, 32} \<and> length iv = 12 \<longrightarrow> cr_Open C k iv (cr_Seal C k iv p) = Inr p) \<and>
     (\<forall>k iv p. length (cr_Seal C k iv p) = length p + 16) \<and>
     (\<forall>n w bs w'. cr_rand C n w = (Inr bs, w') \<longrightarrow> length bs = n)"

lemma crypto_open: "crypto_laws C \<Longrightarrow> newGCM k = None \<Longrightarrow> length iv = IVSize \<Longrightarrow> cr_Open C k iv (cr_Seal C k iv p) = Inr p"
  by (simp add: crypto_laws_def newGCM_def IVSize_def split: if_splits)

lemma crypto_length: "crypto_laws C \<Longrightarrow> length (cr_Seal C k iv p) = length p + TagSize"
  by (simp add: crypto_laws_def TagSize_def)

lemma read_random_length: "crypto_laws C \<Longrightarrow> read_random C n w = (Inr bs, w') \<Longrightarrow> length bs = n"
proof -
  assume C: "crypto_laws C" and "read_random C n w = (Inr bs, w')"
  then have "cr_rand C n w = (Inr bs, w')" by (auto simp: read_random_def split: prod.splits sum.splits)
  with C show ?thesis unfolding crypto_laws_def by blast
qed

lemma splitTag_join: "splitTag s = (ct, tag) \<Longrightarrow> ct @ tag = s"
  by (auto simp: splitTag_def Let_def)

lemma splitTag_length: "splitTag s = (ct, tag) \<Longrightarrow> TagSize \<le> length s \<Longrightarrow> length tag = TagSize \<and> length ct = length s - TagSize"
  by (auto simp: splitTag_def Let_def)

lemma newGCM_32: "length k = 32 \<Longrightarrow> newGCM k = None"
  by (simp add: newGCM_def)

section \<open>Sealing and opening\<close>

text \<open>The two layers of an envelope, as \<open>Open\<close> undoes them.\<close>

definition opens :: "'w crypto \<Rightarrow> bytes \<Rightarrow> envelope \<Rightarrow> bytes \<Rightarrow> bytes \<Rightarrow> bool" where
  "opens C kek env dek p \<longleftrightarrow> cr_Open C kek (WrapIV env) (WrappedDEK env @ WrapTag env) = Inr dek \<and> length dek = DEKSize \<and>
     cr_Open C dek (RecordIV env) (RecordCT env @ RecordTag env) = Inr p"

lemma Open_iff: "Open C kek s = Inr p \<longleftrightarrow> length kek = KEKSize \<and> (\<exists>env dek. ParseEnvelope s = Inr env \<and> opens C kek env dek p)"
  by (auto simp: Open_def opens_def newGCM_def sizes split: sum.splits if_splits)

lemma Seal_cases:
  assumes "crypto_laws C" "Seal C kek plain w = (Inr s, w')"
  obtains env dek where "s = encodeEnvelope env" "well_sized env" "opens C kek env dek plain" "length kek = KEKSize"
proof -
  obtain dek w1 recordIV w2 wrapIV w3 rct rtag wct wtag where r: "read_random C DEKSize w = (Inr dek, w1)"
    "read_random C IVSize w1 = (Inr recordIV, w2)" "read_random C IVSize w2 = (Inr wrapIV, w3)" "length kek = KEKSize"
    and t: "splitTag (cr_Seal C dek recordIV plain) = (rct, rtag)" "splitTag (cr_Seal C kek wrapIV dek) = (wct, wtag)"
    and s: "s = encodeEnvelope \<lparr>WrapIV = wrapIV, WrappedDEK = wct, WrapTag = wtag, RecordIV = recordIV, RecordCT = rct, RecordTag = rtag\<rparr>"
    using assms(2) by (auto simp: Seal_def split: if_splits prod.splits sum.splits option.splits)
  note len = read_random_length [OF assms(1) r(1)] read_random_length [OF assms(1) r(2)] read_random_length [OF assms(1) r(3)]
  note joined = splitTag_join [OF t(1)] splitTag_join [OF t(2)]
  have dek: "newGCM dek = None" "newGCM kek = None" using len r(4) by (simp_all add: newGCM_32 sizes)
  let ?env = "\<lparr>WrapIV = wrapIV, WrappedDEK = wct, WrapTag = wtag, RecordIV = recordIV, RecordCT = rct, RecordTag = rtag\<rparr>"
  have "well_sized ?env"
    using splitTag_length [OF t(1)] splitTag_length [OF t(2)] len by (simp add: well_sized_def crypto_length [OF assms(1)])
  moreover have "opens C kek ?env dek plain"
    using crypto_open [OF assms(1) dek(1) len(2)] crypto_open [OF assms(1) dek(2) len(3)] by (simp add: opens_def joined len)
  ultimately show thesis using that s r(4) by blast
qed

lemma seal_open: "crypto_laws C \<Longrightarrow> Seal C kek plain w = (Inr s, w') \<Longrightarrow> Open C kek s = Inr plain"
  by (erule (1) Seal_cases) (auto simp: Open_iff parse_encode)

lemma Rewrap_cases:
  assumes "crypto_laws C" "Rewrap C old new s w = (Inr s', w')" "ParseEnvelope s = Inr env"
    "cr_Open C old (WrapIV env) (WrappedDEK env @ WrapTag env) = Inr dek" "length dek = DEKSize"
  obtains env' where "s' = encodeEnvelope env'" "well_sized env'" "newGCM new = None"
    "RecordIV env' = RecordIV env" "RecordCT env' = RecordCT env" "RecordTag env' = RecordTag env"
    "cr_Open C new (WrapIV env') (WrappedDEK env' @ WrapTag env') = Inr dek"
proof -
  obtain wrapIV wct wtag where r: "read_random C IVSize w = (Inr wrapIV, w')" "newGCM new = None"
    and t: "splitTag (cr_Seal C new wrapIV dek) = (wct, wtag)"
    and s: "s' = encodeEnvelope (env\<lparr>WrapIV := wrapIV, WrappedDEK := wct, WrapTag := wtag\<rparr>)"
    using assms(2,3,4) by (auto simp: Rewrap_def split: prod.splits sum.splits option.splits)
  note len = read_random_length [OF assms(1) r(1)]
  have "well_sized (env\<lparr>WrapIV := wrapIV, WrappedDEK := wct, WrapTag := wtag\<rparr>)"
    using splitTag_length [OF t] len assms(5) parsed_well_sized [OF assms(3)] by (simp add: well_sized_def crypto_length [OF assms(1)])
  with crypto_open [OF assms(1) r(2) len] s r(2) show thesis
    by (intro that [of "env\<lparr>WrapIV := wrapIV, WrappedDEK := wct, WrapTag := wtag\<rparr>"]) (simp_all add: splitTag_join [OF t])
qed

text \<open>A record after any number of rotations.\<close>

fun rotations :: "'w crypto \<Rightarrow> bytes \<Rightarrow> bytes list \<Rightarrow> string \<Rightarrow> 'w \<Rightarrow> (domain_error + string) \<times> 'w" where
  "rotations C kek [] s w = (Inr s, w)"
| "rotations C kek (k # ks) s w = (case Rewrap C kek k s w of (Inl e, w1) \<Rightarrow> (Inl e, w1) | (Inr s1, w1) \<Rightarrow> rotations C k ks s1 w1)"

lemma rotations_open:
  assumes "crypto_laws C"
  shows "rotations C kek ks s w = (Inr s', w') \<Longrightarrow> length (last (kek # ks)) = KEKSize \<Longrightarrow> ParseEnvelope s = Inr env \<Longrightarrow> opens C kek env dek p \<Longrightarrow>
    Open C (last (kek # ks)) s' = Inr p"
proof (induction ks arbitrary: kek s w env)
  case Nil
  then show ?case by (auto simp: Open_iff)
next
  case (Cons k ks)
  obtain s1 w1 where step: "Rewrap C kek k s w = (Inr s1, w1)" "rotations C k ks s1 w1 = (Inr s', w')"
    using Cons.prems(1) by (auto split: prod.splits sum.splits)
  have o: "cr_Open C kek (WrapIV env) (WrappedDEK env @ WrapTag env) = Inr dek" "length dek = DEKSize"
    using Cons.prems(4) by (simp_all add: opens_def)
  obtain env' where env': "s1 = encodeEnvelope env'" "well_sized env'" "RecordIV env' = RecordIV env" "RecordCT env' = RecordCT env"
      "RecordTag env' = RecordTag env" "cr_Open C k (WrapIV env') (WrappedDEK env' @ WrapTag env') = Inr dek"
    by (rule Rewrap_cases [OF assms step(1) Cons.prems(3) o])
  have opened: "opens C k env' dek p" using Cons.prems(4) env'(3-6) by (simp add: opens_def)
  show ?case
    using Cons.IH [OF step(2) _ _ opened] Cons.prems(2) env'(1,2) by (simp add: parse_encode)
qed

text \<open>C31: a secret outlives the keys it was sealed under: whatever the random source gives and however often the
  key is rotated, the last key, when it has the size of a key, opens the record to exactly what was sealed.\<close>

theorem secret_survives_rotations:
  assumes "crypto_laws C" and "Seal C kek plain w = (Inr s, w1)" and "rotations C kek ks s w1 = (Inr s', w2)"
    and "length (last (kek # ks)) = KEKSize"
  shows "Open C (last (kek # ks)) s' = Inr plain"
proof -
  obtain env dek where "s = encodeEnvelope env" "well_sized env" "opens C kek env dek plain"
    using assms(1,2) by (rule Seal_cases)
  then show ?thesis using rotations_open [OF assms(1,3,4)] by (simp add: parse_encode)
qed

text \<open>The size of the last key matters: \<open>Rewrap\<close> takes any AES key and then nothing opens the record.\<close>

lemma short_key_strands_record:
  assumes "length new = 16" "Rewrap C old new s w = (Inr s', w')"
  shows "\<exists>e. Open C new s' = Inl e"
proof -
  have "Open C new s' \<noteq> Inr p" for p using assms(1) by (simp add: Open_iff sizes)
  then show ?thesis by (cases "Open C new s'") auto
qed

lemma RotateTo_size: "RotateTo C s newKEK sample w = (Inr s', w') \<Longrightarrow> s' = Some newKEK \<and> length newKEK = KEKSize"
  by (auto simp: RotateTo_def NewWithKEK_def split: if_splits prod.splits sum.splits)

section \<open>When sealing and rotating succeed\<close>

definition random_works :: "'w crypto \<Rightarrow> bool" where
  "random_works C \<longleftrightarrow> (\<forall>n w. \<exists>bs w'. cr_rand C n w = (Inr bs, w'))"

lemma random_read: "random_works C \<Longrightarrow> \<exists>bs w'. read_random C n w = (Inr bs, w')"
proof -
  assume "random_works C"
  then obtain bs w' where "cr_rand C n w = (Inr bs, w')" unfolding random_works_def by blast
  then show ?thesis by (simp add: read_random_def)
qed

lemma Seal_succeeds:
  assumes "crypto_laws C" "random_works C" "length kek = KEKSize"
  shows "\<exists>s w'. Seal C kek plain w = (Inr s, w')"
proof -
  obtain dek w1 where r1: "read_random C DEKSize w = (Inr dek, w1)" using random_read [OF assms(2)] by blast
  obtain recordIV w2 where r2: "read_random C IVSize w1 = (Inr recordIV, w2)" using random_read [OF assms(2)] by blast
  obtain wrapIV w3 where r3: "read_random C IVSize w2 = (Inr wrapIV, w3)" using random_read [OF assms(2)] by blast
  have "newGCM dek = None" "newGCM kek = None"
    using read_random_length [OF assms(1) r1] assms(3) by (simp_all add: newGCM_32 sizes)
  then show ?thesis by (simp add: Seal_def assms(3) r1 r2 r3 split: prod.split)
qed

lemma rotations_succeed:
  assumes "crypto_laws C" "random_works C"
  shows "list_all (\<lambda>k. newGCM k = None) (kek # ks) \<Longrightarrow> ParseEnvelope s = Inr env \<Longrightarrow> opens C kek env dek p \<Longrightarrow>
    \<exists>s' w'. rotations C kek ks s w = (Inr s', w')"
proof (induction ks arbitrary: kek s w env)
  case (Cons k ks)
  have o: "cr_Open C kek (WrapIV env) (WrappedDEK env @ WrapTag env) = Inr dek" "length dek = DEKSize"
    using Cons.prems(3) by (simp_all add: opens_def)
  obtain iv w1 where r: "read_random C IVSize w = (Inr iv, w1)" using random_read [OF assms(2)] by blast
  have "\<exists>s1. Rewrap C kek k s w = (Inr s1, w1)"
    using Cons.prems(1) by (simp add: Rewrap_def Cons.prems(2) o r split: prod.split)
  then obtain s1 where step: "Rewrap C kek k s w = (Inr s1, w1)" by blast
  obtain env' where env': "s1 = encodeEnvelope env'" "well_sized env'" "RecordIV env' = RecordIV env" "RecordCT env' = RecordCT env"
      "RecordTag env' = RecordTag env" "cr_Open C k (WrapIV env') (WrappedDEK env' @ WrapTag env') = Inr dek"
    by (rule Rewrap_cases [OF assms(1) step Cons.prems(2) o])
  have "opens C k env' dek p" using Cons.prems(3) env'(3-6) by (simp add: opens_def)
  from Cons.IH [OF _ _ this, of s1 w1] Cons.prems(1) env'(1,2) step show ?case by (simp add: parse_encode)
qed simp

section \<open>Recovery\<close>

lemma split_recovery:
  "splitRecovery (''enc:recovery'' @ '':'' @ b64encode a @ '':'' @ b64encode b @ '':'' @ b64encode c @ '':'' @ b64encode d)
     = Some [b64encode a, b64encode b, b64encode c, b64encode d]"
proof -
  have "split_on (CHR '':'') (''enc:recovery'' @ '':'' @ b64encode a @ '':'' @ b64encode b @ '':'' @ b64encode c @ '':'' @ b64encode d)
     = [''enc'', ''recovery'', b64encode a, b64encode b, b64encode c, b64encode d]"
    by (simp add: split_on_join split_on_end)
  then show ?thesis by (simp add: splitRecovery_def)
qed

text \<open>the recovery form gives the key back under the passphrase and the parameters it was made with.\<close>

theorem recovery_roundtrip:
  assumes "crypto_laws C" and "WrapKEKForRecovery C kek pass params w = (Inr blob, w')"
  shows "UnwrapKEKFromRecovery C blob pass params = Inr kek"
proof -
  obtain salt w1 iv w2 wrapKey ct tag where r: "NewSalt C w = (Inr salt, w1)" "DeriveKEK C pass salt params = Inr wrapKey"
    "read_random C IVSize w1 = (Inr iv, w2)" "newGCM wrapKey = None" "length kek = KEKSize" "pass \<noteq> ''''"
    and t: "splitTag (cr_Seal C wrapKey iv kek) = (ct, tag)"
    and b: "blob = ''enc:recovery'' @ '':'' @ b64encode salt @ '':'' @ b64encode iv @ '':'' @ b64encode ct @ '':'' @ b64encode tag"
    using assms(2) by (auto simp: WrapKEKForRecovery_def split: if_splits prod.splits sum.splits option.splits)
  have len: "length salt = SaltSize" "length iv = IVSize" "length tag = TagSize"
    using read_random_length [OF assms(1)] r(1,3) splitTag_length [OF t] by (auto simp: NewSalt_def crypto_length [OF assms(1)])
  show ?thesis
    using crypto_open [OF assms(1) r(4) len(2), of kek]
    by (simp add: UnwrapKEKFromRecovery_def b split_recovery [simplified] recovery_part_def len r splitTag_join [OF t])
qed

section \<open>Witnesses\<close>

definition test_tag :: "bytes \<Rightarrow> bytes" where
  "test_tag k = take 16 (k @ replicate 16 (CHR 0x00))"

definition test_crypto :: "nat crypto" where
  "test_crypto = \<lparr>cr_Seal = (\<lambda>k iv p. p @ test_tag k),
     cr_Open = (\<lambda>k iv s. if drop (length s - 16) s = test_tag k then Inr (take (length s - 16) s) else Inl (Foreign ''tag'' [])),
     cr_rand = (\<lambda>n w. (Inr (replicate n (char_of w)), w + 1)), cr_argon2 = (\<lambda>m s t mem th n. replicate n (hd m))\<rparr>"

lemma test_crypto_laws: "crypto_laws test_crypto" "random_works test_crypto"
proof -
  have "length (test_tag k) = 16" for k by (cases "16 \<le> length k") (simp_all add: test_tag_def)
  then show "crypto_laws test_crypto" by (simp add: crypto_laws_def test_crypto_def)
qed (simp add: random_works_def test_crypto_def)

definition test_key :: "char \<Rightarrow> bytes" where "test_key c = replicate 32 c"

lemma test_key_size: "length (test_key c) = KEKSize" "newGCM (test_key c) = None"
  by (simp_all add: test_key_def newGCM_32 sizes)

theorem secret_survives_rotations_witness:
  "\<exists>s w1 s' w2. Seal test_crypto (test_key (CHR ''a'')) ''sk-1'' 7 = (Inr s, w1) \<and>
     rotations test_crypto (test_key (CHR ''a'')) [test_key (CHR ''b''), test_key (CHR ''c'')] s w1 = (Inr s', w2) \<and>
     Open test_crypto (test_key (CHR ''c'')) s' = Inr ''sk-1''"
proof -
  obtain s w1 where s: "Seal test_crypto (test_key (CHR ''a'')) ''sk-1'' 7 = (Inr s, w1)"
    using Seal_succeeds [OF test_crypto_laws test_key_size(1)] by blast
  obtain env dek where env: "s = encodeEnvelope env" "well_sized env" "opens test_crypto (test_key (CHR ''a'')) env dek ''sk-1''"
    by (rule Seal_cases [OF test_crypto_laws(1) s])
  have "list_all (\<lambda>k. newGCM k = None) [test_key (CHR ''a''), test_key (CHR ''b''), test_key (CHR ''c'')]" by (simp add: test_key_size)
  from rotations_succeed [OF test_crypto_laws this _ env(3), of s w1] env(1,2)
  obtain s' w2 where r: "rotations test_crypto (test_key (CHR ''a'')) [test_key (CHR ''b''), test_key (CHR ''c'')] s w1 = (Inr s', w2)"
    by (auto simp: parse_encode)
  show ?thesis
    using secret_survives_rotations [OF test_crypto_laws(1) s r] s r by (auto simp: test_key_size)
qed

definition test_params :: kdf_params where
  "test_params = \<lparr>kp_Memory = 8, kp_Time = 1, kp_Threads = 1, kp_KeyLen = 32\<rparr>"

theorem recovery_roundtrip_witness:
  "\<exists>blob w. WrapKEKForRecovery test_crypto (test_key (CHR ''k'')) ''pass'' test_params 1 = (Inr blob, w) \<and>
     UnwrapKEKFromRecovery test_crypto blob ''pass'' test_params = Inr (test_key (CHR ''k''))"
proof -
  have "\<exists>blob w. WrapKEKForRecovery test_crypto (test_key (CHR ''k'')) ''pass'' test_params 1 = (Inr blob, w)"
    by (simp add: WrapKEKForRecovery_def test_key_size NewSalt_def read_random_def test_crypto_def DeriveKEK_def test_params_def
        kdf_Validate_def sizes newGCM_32 split: prod.split)
  then show ?thesis using recovery_roundtrip [OF test_crypto_laws(1)] by blast
qed

end
