(* ===== verification/Custody.thy ===== *)
theory Custody
  imports Envelope_Laws
begin

text \<open>
  Where the key of the vault comes from: the custody chain of \<open>internal/secret/custody.go\<close> with the constructor
  of the store, the salt of the installation (\<open>kdf.go\<close>, over the \<open>meta\<close> table of \<open>internal/store\<close>), and what
  \<open>internal/app\<close> makes of a missing key at boot.  Files, the environment and the keyring are ports.
\<close>

definition CodeSecretKeyfileFailed :: string where "CodeSecretKeyfileFailed = ''secret.keyfile_failed''"

section \<open>The layers\<close>

datatype kek_source = SourceSystemdCredential | SourceKeyring | SourceKeyFile | SourceEnvOverride

record custody =
  cu_Salt :: bytes
  cu_Params :: kdf_params
  cu_CredentialsDir :: string
  cu_CredentialName :: string
  cu_KeyringService :: string
  cu_KeyringAccount :: string
  cu_UseKeyring :: bool
  cu_KeyFilePath :: string
  cu_PassphraseEnv :: string
  cu_MasterKeyEnv :: string
  cu_AllowEnvOverride :: bool

text \<open>\<open>ho_Stat\<close> answers the permission bits; \<open>ho_ExitError\<close> tells the failure of \<open>secret-tool\<close> itself.\<close>

record host =
  ho_env :: "string \<Rightarrow> string"
  ho_Join :: "string \<Rightarrow> string \<Rightarrow> string"
  ho_ReadFile :: "string \<Rightarrow> go_error + bytes"
  ho_Stat :: "string \<Rightarrow> go_error + nat"
  ho_IsNotExist :: "go_error \<Rightarrow> bool"
  ho_LookPath :: bool
  ho_keyring :: "string \<Rightarrow> string \<Rightarrow> go_error + bytes"
  ho_ExitError :: "go_error \<Rightarrow> bool"

text \<open>What a layer says: an error, nothing when it is not configured, or its material.\<close>

type_synonym layer = "domain_error + bytes option"

definition trimNewline :: "bytes \<Rightarrow> bytes" where
  "trimNewline b = rev (dropWhile (\<lambda>c. c \<in> {CHR 0x0D, CHR 0x0A}) (rev b))"

definition keyfileFailed :: "string \<Rightarrow> domain_error" where
  "keyfileFailed reason = New CodeSecretKeyfileFailed [WithHTTPStatus 500, WithParams [(''reason'', reason)]]"

definition keyfileCaused :: "go_error \<Rightarrow> string \<Rightarrow> domain_error" where
  "keyfileCaused err reason = New CodeSecretKeyfileFailed [WithHTTPStatus 500, WithCause err, WithParams [(''reason'', reason)]]"

definition systemdCredential :: "host \<Rightarrow> custody \<Rightarrow> layer" where
  "systemdCredential h c =
     (let dir = (if cu_CredentialsDir c = '''' then ho_env h ''CREDENTIALS_DIRECTORY'' else cu_CredentialsDir c) in
      if dir = '''' then Inr None
      else (let name = (if cu_CredentialName c = '''' then ''heimdall-master-key'' else cu_CredentialName c) in
        case ho_ReadFile h (ho_Join h dir name) of
          Inl e \<Rightarrow> if ho_IsNotExist h e then Inr None else Inl (keyfileCaused e ''cannot read systemd credential'')
        | Inr raw \<Rightarrow> (let material = trimNewline raw in
            if material = '''' then Inl (keyfileFailed ''systemd credential is empty'') else Inr (Some material))))"

definition keyring :: "host \<Rightarrow> custody \<Rightarrow> layer" where
  "keyring h c =
     (if \<not> ho_LookPath h then Inr None
      else (let service = (if cu_KeyringService c = '''' then ''heimdall'' else cu_KeyringService c);
                account = (if cu_KeyringAccount c = '''' then ''master-key'' else cu_KeyringAccount c) in
        case ho_keyring h service account of
          Inl e \<Rightarrow> if ho_ExitError h e then Inr None else Inl (keyfileCaused e ''secret-tool failed'')
        | Inr out \<Rightarrow> (let material = trimNewline out in if material = '''' then Inr None else Inr (Some material))))"

definition keyFile :: "host \<Rightarrow> custody \<Rightarrow> layer" where
  "keyFile h c = (case ho_Stat h (cu_KeyFilePath c) of
      Inl e \<Rightarrow> if ho_IsNotExist h e then Inr None else Inl (keyfileCaused e ''cannot stat key file'')
    | Inr mode \<Rightarrow>
        if mode mod 64 \<noteq> 0 then Inl (keyfileFailed ''key file is too permissive; require 0600'')
        else (case ho_ReadFile h (cu_KeyFilePath c) of
            Inl e \<Rightarrow> Inl (keyfileCaused e ''cannot read key file'')
          | Inr raw \<Rightarrow> (let material = trimNewline raw @ (if cu_PassphraseEnv c = '''' then '''' else ho_env h (cu_PassphraseEnv c)) in
              if material = '''' then Inl (keyfileFailed ''key file is empty'') else Inr (Some material))))"

definition envOverride :: "host \<Rightarrow> custody \<Rightarrow> bytes option" where
  "envOverride h c = (let name = (if cu_MasterKeyEnv c = '''' then ''HEIMDALL_MASTER_KEY'' else cu_MasterKeyEnv c);
       v = ho_env h name in if v = '''' then None else Some v)"

section \<open>The chain\<close>

definition derive :: "'w crypto \<Rightarrow> custody \<Rightarrow> bytes \<Rightarrow> kek_source \<Rightarrow> domain_error + bytes \<times> kek_source" where
  "derive C c material source = (case DeriveKEK C material (cu_Salt c) (cu_Params c) of Inl e \<Rightarrow> Inl e | Inr kek \<Rightarrow> Inr (kek, source))"

text \<open>One layer of the chain, and what follows it.\<close>

definition try_layer :: "'w crypto \<Rightarrow> custody \<Rightarrow> kek_source \<Rightarrow> layer \<Rightarrow> domain_error + bytes \<times> kek_source \<Rightarrow> domain_error + bytes \<times> kek_source" where
  "try_layer C c source l rest = (case l of Inl e \<Rightarrow> Inl e | Inr (Some material) \<Rightarrow> derive C c material source | Inr None \<Rightarrow> rest)"

definition ResolveKEK :: "'w crypto \<Rightarrow> host \<Rightarrow> custody \<Rightarrow> domain_error + bytes \<times> kek_source" where
  "ResolveKEK C h c = (case kdf_Validate (cu_Params c) of Some e \<Rightarrow> Inl e | None \<Rightarrow>
     if length (cu_Salt c) \<noteq> SaltSize then Inl (kdfFailed ''salt must be 16 bytes'')
     else (let
         fourth = (if cu_AllowEnvOverride c then try_layer C c SourceEnvOverride (Inr (envOverride h c)) (Inl secret_missing) else Inl secret_missing);
         third = (if cu_KeyFilePath c \<noteq> '''' then try_layer C c SourceKeyFile (keyFile h c) fourth else fourth);
         second = (if cu_UseKeyring c then try_layer C c SourceKeyring (keyring h c) third else third)
       in try_layer C c SourceSystemdCredential (systemdCredential h c) second))"

record secret_options =
  so_Salt :: bytes
  so_Params :: kdf_params
  so_Custody :: custody

definition secret_New :: "'w crypto \<Rightarrow> host \<Rightarrow> secret_options \<Rightarrow> domain_error + vault" where
  "secret_New C h opts = (case kdf_Validate (so_Params opts) of Some e \<Rightarrow> Inl e | None \<Rightarrow>
     if length (so_Salt opts) \<noteq> SaltSize then Inl (kdfFailed ''salt must be 16 bytes'')
     else (case ResolveKEK C h ((so_Custody opts)\<lparr>cu_Salt := so_Salt opts, cu_Params := so_Params opts\<rparr>) of
         Inl e \<Rightarrow> Inl e | Inr (kek, source) \<Rightarrow> Inr (Some kek)))"

section \<open>The salt\<close>

text \<open>The row of the table \<open>meta\<close> that holds the salt.\<close>

type_synonym salt_row = "string option"

definition SetMetaIfAbsent :: "string \<Rightarrow> salt_row \<Rightarrow> bool \<times> salt_row" where
  "SetMetaIfAbsent v row = (case row of None \<Rightarrow> (True, Some v) | Some x \<Rightarrow> (False, row))"

definition readSalt :: "salt_row \<Rightarrow> domain_error + bytes option" where
  "readSalt row = (case row of None \<Rightarrow> Inr None
     | Some encoded \<Rightarrow> if encoded = '''' then Inr None
         else (case base64_DecodeString encoded of
             None \<Rightarrow> Inl (New CodeSecretKDFFailed [WithHTTPStatus 500, WithCause (Foreign ''illegal base64 data'' []), WithParams [(''reason'', ''stored salt is malformed'')]])
           | Some decoded \<Rightarrow> if length decoded \<noteq> SaltSize then Inl (kdfFailed ''stored salt is malformed'') else Inr (Some decoded)))"

definition reread_salt :: "salt_row \<Rightarrow> domain_error + bytes" where
  "reread_salt row = (case readSalt row of Inl e \<Rightarrow> Inl e | Inr (Some salt) \<Rightarrow> Inr salt
     | Inr None \<Rightarrow> Inl (kdfFailed ''salt disappeared during load-or-create''))"

definition LoadOrCreateSalt :: "'w crypto \<Rightarrow> salt_row \<Rightarrow> 'w \<Rightarrow> (domain_error + bytes) \<times> salt_row \<times> 'w" where
  "LoadOrCreateSalt C row w = (case readSalt row of Inl e \<Rightarrow> (Inl e, row, w) | Inr (Some salt) \<Rightarrow> (Inr salt, row, w)
     | Inr None \<Rightarrow> (case NewSalt C w of (Inl e, w1) \<Rightarrow> (Inl e, row, w1) | (Inr candidate, w1) \<Rightarrow>
         (case SetMetaIfAbsent (b64encode candidate) row of (inserted, row1) \<Rightarrow>
           if inserted then (Inr candidate, row1, w1) else (reread_salt row1, row1, w1))))"

text \<open>The same for several processes on one database: between two accesses to the row others may run.\<close>

datatype salt_pc = SaltStart | SaltGenerate | SaltInsert bytes | SaltReread | SaltDone "domain_error + bytes"

fun salt_step :: "'w crypto \<Rightarrow> salt_pc \<Rightarrow> salt_row \<Rightarrow> 'w \<Rightarrow> salt_pc \<times> salt_row \<times> 'w" where
  "salt_step C SaltStart row w = (case readSalt row of Inl e \<Rightarrow> (SaltDone (Inl e), row, w) | Inr (Some salt) \<Rightarrow> (SaltDone (Inr salt), row, w)
     | Inr None \<Rightarrow> (SaltGenerate, row, w))"
| "salt_step C SaltGenerate row w = (case NewSalt C w of (Inl e, w1) \<Rightarrow> (SaltDone (Inl e), row, w1) | (Inr candidate, w1) \<Rightarrow> (SaltInsert candidate, row, w1))"
| "salt_step C (SaltInsert candidate) row w = (case SetMetaIfAbsent (b64encode candidate) row of (inserted, row1) \<Rightarrow>
     (if inserted then SaltDone (Inr candidate) else SaltReread, row1, w))"
| "salt_step C SaltReread row w = (SaltDone (reread_salt row), row, w)"
| "salt_step C (SaltDone r) row w = (SaltDone r, row, w)"

record 'w boots =
  bo_row :: salt_row
  bo_pcs :: "nat \<Rightarrow> salt_pc"
  bo_world :: 'w

definition boot_step :: "'w crypto \<Rightarrow> nat \<Rightarrow> 'w boots \<Rightarrow> 'w boots" where
  "boot_step C i b = (case salt_step C (bo_pcs b i) (bo_row b) (bo_world b) of (pc, row, w) \<Rightarrow>
     \<lparr>bo_row = row, bo_pcs = (bo_pcs b)(i := pc), bo_world = w\<rparr>)"

inductive boots_reach :: "'w crypto \<Rightarrow> 'w boots \<Rightarrow> 'w boots \<Rightarrow> bool" for C where
  boots_refl: "boots_reach C b b"
| boots_step: "boots_reach C b b' \<Longrightarrow> boots_reach C b (boot_step C i b')"

section \<open>Boot\<close>

definition isMissingKey :: "domain_error \<Rightarrow> bool" where
  "isMissingKey e \<longleftrightarrow> de_code e = CodeConfigSecretMissing"

text \<open>The custody the application builds: only the key file and the systemd credential.\<close>

definition app_custody :: "string \<Rightarrow> custody" where
  "app_custody key_path = \<lparr>cu_Salt = '''', cu_Params = DefaultKDFParams, cu_CredentialsDir = '''', cu_CredentialName = '''',
     cu_KeyringService = '''', cu_KeyringAccount = '''', cu_UseKeyring = False, cu_KeyFilePath = key_path, cu_PassphraseEnv = '''',
     cu_MasterKeyEnv = '''', cu_AllowEnvOverride = False\<rparr>"

text \<open>The vault the application starts with, \<open>None\<close> for no key, or a refusal to start.\<close>

definition init_secrets :: "'w crypto \<Rightarrow> host \<Rightarrow> string \<Rightarrow> bool \<Rightarrow> salt_row \<Rightarrow> 'w \<Rightarrow> (domain_error + vault) \<times> salt_row \<times> 'w" where
  "init_secrets C h key_path hasCreds row w = (case LoadOrCreateSalt C row w of (Inl e, row1, w1) \<Rightarrow> (Inl e, row1, w1)
     | (Inr salt, row1, w1) \<Rightarrow>
         (case secret_New C h \<lparr>so_Salt = salt, so_Params = DefaultKDFParams, so_Custody = app_custody key_path\<rparr> of
             Inr sec \<Rightarrow> (Inr sec, row1, w1)
           | Inl e \<Rightarrow> (if \<not> hasCreds \<and> isMissingKey e then Inr None else Inl e, row1, w1)))"

end
