(* ===== verification/Credential_Store.thy ===== *)
theory Credential_Store
  imports Custody Combos Executor
begin

text \<open>
  The accounts at rest and the lock of their refresh, \<open>internal/store/credential_store.go\<close>.  Columns of times
  and of the metadata hold the values that \<open>formatTime\<close> and \<open>encoding/json\<close> write and read back; the zero time
  is the empty column.  SQL failures are left out.
\<close>

definition CodeCredentialStoreFailed :: string where "CodeCredentialStoreFailed = ''credential.store_failed''"
definition CodeCredentialRefreshWait :: string where "CodeCredentialRefreshWait = ''credential.refresh_wait_cancelled''"

section \<open>The table\<close>

record account_meta =
  am_Subject :: string
  am_Email :: string
  am_DisplayName :: string
  am_Plan :: string
  am_Project :: string
  am_Scopes :: "string list"

text \<open>A credential with the fields the executor does not read.\<close>

record stored_account = credential +
  ac_Provider :: provider_id
  ac_Label :: string
  ac_Meta :: account_meta
  ac_CreatedAt :: gotime
  ac_ExpiresAt :: gotime

record credential_row =
  cw_id :: credential_id
  cw_provider :: string
  cw_auth_mode :: string
  cw_label :: string
  cw_meta :: account_meta
  cw_secret_blob :: string
  cw_created_at :: gotime
  cw_updated_at :: gotime
  cw_expires_at :: gotime

type_synonym credentials = "credential_row list"

definition credentialError :: "string \<Rightarrow> go_error \<Rightarrow> domain_error" where
  "credentialError opn err = New CodeCredentialStoreFailed [WithHTTPStatus 500, WithCause err,
     WithParams [(''reason'', opn @ '': '' @ go_error_string err)]]"

text \<open>The quotes of \<open>%q\<close> around a text without special characters.\<close>

definition parseAuthMode :: "string \<Rightarrow> go_error + auth_mode" where
  "parseAuthMode s = (case ParseAuthMode s of (mode, ok) \<Rightarrow>
     if ok then Inr mode else Inl (Foreign (''unknown auth mode '' @ [CHR 0x22] @ s @ [CHR 0x22]) []))"

definition scanCredential :: "credential_row \<Rightarrow> domain_error + stored_account" where
  "scanCredential r = (case parseAuthMode (cw_auth_mode r) of
      Inl e \<Rightarrow> Inl (New CodeCredentialInvalidAuthMode [WithHTTPStatus 500, WithCause e,
        WithParams [(''id'', cw_id r), (''mode'', cw_auth_mode r)]])
    | Inr mode \<Rightarrow> Inr \<lparr>cr_ID = cw_id r, cr_AuthMode = mode, cr_Sealed = cw_secret_blob r, ac_Provider = cw_provider r,
        ac_Label = cw_label r, ac_Meta = cw_meta r, ac_CreatedAt = cw_created_at r, ac_ExpiresAt = cw_expires_at r\<rparr>)"

definition cred_Get :: "credential_id \<Rightarrow> credentials \<Rightarrow> domain_error + stored_account" where
  "cred_Get i t = (case find (\<lambda>r. cw_id r = i) t of None \<Rightarrow> Inl ErrNotFound | Some r \<Rightarrow> scanCredential r)"

fun scan_credentials :: "credential_row list \<Rightarrow> domain_error + stored_account list" where
  "scan_credentials [] = Inr []"
| "scan_credentials (r # rs) = (case scanCredential r of Inl e \<Rightarrow> Inl e | Inr a \<Rightarrow>
     (case scan_credentials rs of Inl e \<Rightarrow> Inl e | Inr as \<Rightarrow> Inr (a # as)))"

definition cred_List :: "credentials \<Rightarrow> domain_error + stored_account list" where
  "cred_List t = scan_credentials (slice_stable (\<lambda>a b. cw_created_at b < cw_created_at a \<or>
     cw_created_at a = cw_created_at b \<and> cw_id a < cw_id b) t)"

definition put_credential :: "credential_row \<Rightarrow> credentials \<Rightarrow> credentials" where
  "put_credential r t = (if list_ex (\<lambda>x. cw_id x = cw_id r) t
     then map (\<lambda>x. if cw_id x = cw_id r then r\<lparr>cw_created_at := cw_created_at x\<rparr> else x) t else t @ [r])"

definition validAuthMode :: "auth_mode \<Rightarrow> bool" where
  "validAuthMode m = (case m of AuthNone \<Rightarrow> True | AuthAPIKey \<Rightarrow> True | AuthOAuth \<Rightarrow> True | AuthOther n \<Rightarrow> False)"

text \<open>The number of a mode, as it is printed.\<close>

primrec auth_mode_number :: "auth_mode \<Rightarrow> nat" where
  "auth_mode_number AuthNone = 0"
| "auth_mode_number AuthAPIKey = 1"
| "auth_mode_number AuthOAuth = 2"
| "auth_mode_number (AuthOther n) = n"

definition cred_Upsert :: "gotime \<Rightarrow> stored_account \<Rightarrow> credentials \<Rightarrow> domain_error option \<times> credentials" where
  "cred_Upsert now cred t =
     (if cr_ID cred = '''' then (Some (credentialError ''upsert'' (Foreign ''credential id is empty'' [])), t)
      else if cr_Sealed cred = '''' \<and> cr_AuthMode cred \<noteq> AuthNone then
        (Some (New CodeCredentialStoreFailed [WithHTTPStatus 500,
           WithParams [(''reason'', ''sealed secret is empty for a credential that needs one'')]]), t)
      else if cr_Sealed cred \<noteq> '''' \<and> isl (ParseEnvelope (cr_Sealed cred)) then
        (Some (New CodeCredentialStoreFailed [WithHTTPStatus 500, WithCause (Dom (projl (ParseEnvelope (cr_Sealed cred)))),
           WithParams [(''reason'', ''sealed secret is not a valid enc:v1 envelope; refusing to persist plaintext'')]]), t)
      else if \<not> validAuthMode (cr_AuthMode cred) then
        (Some (New CodeCredentialInvalidAuthMode [WithHTTPStatus 500,
           WithParams [(''id'', cr_ID cred), (''mode'', itoa (int (auth_mode_number (cr_AuthMode cred))))]]), t)
      else (None, put_credential \<lparr>cw_id = cr_ID cred, cw_provider = ac_Provider cred, cw_auth_mode = auth_mode_string (cr_AuthMode cred),
          cw_label = ac_Label cred, cw_meta = ac_Meta cred, cw_secret_blob = cr_Sealed cred,
          cw_created_at = (if ac_CreatedAt cred = 0 then now else ac_CreatedAt cred), cw_updated_at = now,
          cw_expires_at = ac_ExpiresAt cred\<rparr> t))"

definition cred_Delete :: "credential_id \<Rightarrow> credentials \<Rightarrow> domain_error option \<times> credentials" where
  "cred_Delete i t = (if list_ex (\<lambda>r. cw_id r = i) t then (None, filter (\<lambda>r. cw_id r \<noteq> i) t) else (Some ErrNotFound, t))"

section \<open>The lock of a refresh\<close>

text \<open>Lock entries live at addresses: \<open>ref\<close> may hand out a new one under an id whose old one was dropped.
  The semaphore has capacity one.\<close>

record lock_entry =
  lk_taken :: bool
  lk_refs :: int

record lock_registry =
  lr_heap :: "nat \<Rightarrow> lock_entry option"
  lr_locks :: "credential_id \<Rightarrow> nat option"
  lr_next :: nat

definition newLockRegistry :: lock_registry where
  "newLockRegistry = \<lparr>lr_heap = (\<lambda>_. None), lr_locks = (\<lambda>_. None), lr_next = 0\<rparr>"

definition set_entry :: "nat \<Rightarrow> (lock_entry \<Rightarrow> lock_entry) \<Rightarrow> lock_registry \<Rightarrow> lock_registry" where
  "set_entry a f r = r\<lparr>lr_heap := (lr_heap r)(a := map_option f (lr_heap r a))\<rparr>"

definition lock_ref :: "credential_id \<Rightarrow> lock_registry \<Rightarrow> nat \<times> lock_registry" where
  "lock_ref i r = (case lr_locks r i of
      Some a \<Rightarrow> (a, set_entry a (\<lambda>e. e\<lparr>lk_refs := lk_refs e + 1\<rparr>) r)
    | None \<Rightarrow> (lr_next r, r\<lparr>lr_heap := (lr_heap r)(lr_next r \<mapsto> \<lparr>lk_taken = False, lk_refs = 1\<rparr>),
        lr_locks := (lr_locks r)(i \<mapsto> lr_next r), lr_next := lr_next r + 1\<rparr>))"

definition lock_releaseRef :: "credential_id \<Rightarrow> nat \<Rightarrow> lock_registry \<Rightarrow> lock_registry" where
  "lock_releaseRef i a r =
     (let r1 = set_entry a (\<lambda>e. e\<lparr>lk_refs := lk_refs e - 1\<rparr>) r in
      case lr_heap r1 a of None \<Rightarrow> r1
      | Some e \<Rightarrow> if lk_refs e \<le> 0 \<and> lr_locks r1 i = Some a then r1\<lparr>lr_locks := (lr_locks r1)(i := None)\<rparr> else r1)"

text \<open>Where a goroutine is: before \<open>RefreshLock\<close> or after its unlock, waiting at the semaphore of an entry, holding
  it, or in the unlock function between the drain and \<open>releaseRef\<close>.\<close>

datatype lock_pc = LockIdle | LockWait credential_id nat | LockHold credential_id nat | LockDrained credential_id nat

record lock_world =
  lw_reg :: lock_registry
  lw_pcs :: "nat \<Rightarrow> lock_pc"

definition lock_new :: lock_world where
  "lock_new = \<lparr>lw_reg = newLockRegistry, lw_pcs = (\<lambda>_. LockIdle)\<rparr>"

definition entry_taken :: "nat \<Rightarrow> lock_registry \<Rightarrow> bool" where
  "entry_taken a r \<longleftrightarrow> (case lr_heap r a of Some e \<Rightarrow> lk_taken e | None \<Rightarrow> False)"

text \<open>One atomic step of goroutine \<open>g\<close>: the critical sections of the registry and the two channel operations.
  A wait may end by the context at any time.\<close>

inductive lock_step :: "lock_world \<Rightarrow> lock_world \<Rightarrow> bool" where
  acquire: "lw_pcs w g = LockIdle \<Longrightarrow> lock_ref i (lw_reg w) = (a, r) \<Longrightarrow>
    lock_step w \<lparr>lw_reg = r, lw_pcs = (lw_pcs w)(g := LockWait i a)\<rparr>"
| take_sem: "lw_pcs w g = LockWait i a \<Longrightarrow> \<not> entry_taken a (lw_reg w) \<Longrightarrow>
    lock_step w \<lparr>lw_reg = set_entry a (\<lambda>e. e\<lparr>lk_taken := True\<rparr>) (lw_reg w), lw_pcs = (lw_pcs w)(g := LockHold i a)\<rparr>"
| give_up: "lw_pcs w g = LockWait i a \<Longrightarrow>
    lock_step w \<lparr>lw_reg = lock_releaseRef i a (lw_reg w), lw_pcs = (lw_pcs w)(g := LockIdle)\<rparr>"
| drain: "lw_pcs w g = LockHold i a \<Longrightarrow>
    lock_step w \<lparr>lw_reg = set_entry a (\<lambda>e. e\<lparr>lk_taken := False\<rparr>) (lw_reg w), lw_pcs = (lw_pcs w)(g := LockDrained i a)\<rparr>"
| release: "lw_pcs w g = LockDrained i a \<Longrightarrow>
    lock_step w \<lparr>lw_reg = lock_releaseRef i a (lw_reg w), lw_pcs = (lw_pcs w)(g := LockIdle)\<rparr>"

inductive lock_reach :: "lock_world \<Rightarrow> bool" where
  lock_start: "lock_reach lock_new"
| lock_more: "lock_reach w \<Longrightarrow> lock_step w w' \<Longrightarrow> lock_reach w'"

text \<open>The error of a wait that the context ended.\<close>

definition refresh_wait_cancelled :: "credential_id \<Rightarrow> go_error \<Rightarrow> domain_error" where
  "refresh_wait_cancelled i err = New CodeCredentialRefreshWait [WithHTTPStatus 408, WithCause err, WithParams [(''id'', i)]]"

end
