(* ===== verification/Custody_Laws.thy ===== *)
theory Custody_Laws
  imports Custody
begin

text \<open>
  The key comes from the first configured layer and no weaker one, all processes on one database agree on the
  salt however they interleave, and what one run of the application seals the next one opens.
\<close>

section \<open>The first configured layer\<close>

definition custody_layers :: "host \<Rightarrow> custody \<Rightarrow> (kek_source \<times> layer) list" where
  "custody_layers h c = [(SourceSystemdCredential, systemdCredential h c)] @
     (if cu_UseKeyring c then [(SourceKeyring, keyring h c)] else []) @
     (if cu_KeyFilePath c \<noteq> '''' then [(SourceKeyFile, keyFile h c)] else []) @
     (if cu_AllowEnvOverride c then [(SourceEnvOverride, Inr (envOverride h c))] else [])"

definition walk :: "'w crypto \<Rightarrow> custody \<Rightarrow> (kek_source \<times> layer) list \<Rightarrow> domain_error + bytes \<times> kek_source" where
  "walk C c ls = foldr (\<lambda>(s, l) rest. try_layer C c s l rest) ls (Inl secret_missing)"

lemma walk_Cons: "walk C c ((s, l) # ls) = try_layer C c s l (walk C c ls)"
  by (simp add: walk_def)

lemma walk_Inr:
  "walk C c ls = Inr (kek, s) \<longleftrightarrow> (\<exists>before m after. ls = before @ (s, Inr (Some m)) # after \<and> list_all (\<lambda>l. snd l = Inr None) before \<and>
     DeriveKEK C m (cu_Salt c) (cu_Params c) = Inr kek)"
proof (induction ls)
  case Nil
  then show ?case by (simp add: walk_def)
next
  case (Cons l ls)
  obtain s1 l1 where l: "l = (s1, l1)" by fastforce
  consider e where "l1 = Inl e" | "l1 = Inr None" | m where "l1 = Inr (Some m)" by (metis option.exhaust sum.exhaust)
  then show ?case
  proof cases
    case 2
    have "walk C c (l # ls) = Inr (kek, s) \<longleftrightarrow> walk C c ls = Inr (kek, s)" by (simp add: l 2 walk_Cons try_layer_def)
    then show ?thesis unfolding Cons by (force simp: l 2 Cons_eq_append_conv)
  qed (force simp: l walk_Cons try_layer_def derive_def Cons_eq_append_conv split: sum.split)+
qed

lemma ResolveKEK_walk:
  "kdf_Validate (cu_Params c) = None \<Longrightarrow> length (cu_Salt c) = SaltSize \<Longrightarrow> ResolveKEK C h c = walk C c (custody_layers h c)"
  by (simp add: ResolveKEK_def custody_layers_def walk_def Let_def)

lemma DeriveKEK_Inr: "DeriveKEK C m salt params = Inr kek \<Longrightarrow> kdf_Validate params = None \<and> length salt = SaltSize \<and> length kek = KEKSize"
  by (auto simp: DeriveKEK_def Let_def split: if_splits option.splits)

text \<open>C32: the chain answers a key exactly when some layer yields material, every layer before it is not configured,
  and the key is derived from that material: a layer that fails, or a stronger one that is there, is never passed over.\<close>

theorem custody_first_layer:
  "ResolveKEK C h c = Inr (kek, s) \<longleftrightarrow>
    (\<exists>before m after. custody_layers h c = before @ (s, Inr (Some m)) # after \<and> list_all (\<lambda>l. snd l = Inr None) before \<and>
      DeriveKEK C m (cu_Salt c) (cu_Params c) = Inr kek)"
proof (cases "kdf_Validate (cu_Params c) = None \<and> length (cu_Salt c) = SaltSize")
  case True
  then show ?thesis by (simp add: ResolveKEK_walk walk_Inr)
next
  case False
  then have "ResolveKEK C h c \<noteq> Inr (kek, s)" by (auto simp: ResolveKEK_def split: option.splits)
  with False DeriveKEK_Inr show ?thesis by blast
qed


section \<open>One salt for all\<close>

lemma readSalt_written: "length s = SaltSize \<Longrightarrow> readSalt (Some (b64encode s)) = Inr (Some s)"
proof -
  assume s: "length s = SaltSize"
  then have "b64encode s \<noteq> ''''" by (cases s rule: list.exhaust) (auto simp: b64encode_def sizes elim: encode_quanta.elims)
  with s show ?thesis by (simp add: readSalt_def base64_roundtrip)
qed

lemma NewSalt_size: "crypto_laws C \<Longrightarrow> NewSalt C w = (Inr s, w') \<Longrightarrow> length s = SaltSize"
  by (auto simp: NewSalt_def dest: read_random_length)

text \<open>A candidate has the size of a salt, and a salt that was answered is the one in the row.\<close>

definition salt_ok :: "salt_row \<Rightarrow> salt_pc \<Rightarrow> bool" where
  "salt_ok row pc \<longleftrightarrow> (case pc of SaltInsert s \<Rightarrow> length s = SaltSize | SaltDone (Inr s) \<Rightarrow> readSalt row = Inr (Some s) | _ \<Rightarrow> True)"

lemma salt_step_row: "salt_step C pc row w = (pc', row', w') \<Longrightarrow> row' = row \<or> row = None"
  by (cases pc) (auto simp: SetMetaIfAbsent_def split: sum.splits prod.splits option.splits)

lemma salt_step_ok:
  assumes "crypto_laws C" "salt_ok row pc" "salt_step C pc row w = (pc', row', w')"
  shows "salt_ok row' pc'"
  using assms(2,3) NewSalt_size [OF assms(1)]
  by (cases pc) (auto simp: salt_ok_def SetMetaIfAbsent_def reread_salt_def readSalt_written split: sum.splits prod.splits option.splits)

lemma salt_ok_row: "salt_ok row pc \<Longrightarrow> row' = row \<or> row = None \<Longrightarrow> salt_ok row' pc"
  by (auto simp: salt_ok_def readSalt_def split: salt_pc.splits sum.splits)

lemma boots_ok:
  assumes "crypto_laws C"
  shows "boots_reach C b b' \<Longrightarrow> (\<And>i. salt_ok (bo_row b) (bo_pcs b i)) \<Longrightarrow> salt_ok (bo_row b') (bo_pcs b' i)"
proof (induction arbitrary: i rule: boots_reach.induct)
  case (boots_step b b' j)
  obtain pc row w where step: "salt_step C (bo_pcs b' j) (bo_row b') (bo_world b') = (pc, row, w)" by (metis prod_cases3)
  note ih = boots_step.IH [OF boots_step.prems]
  have "salt_ok row pc" by (rule salt_step_ok [OF assms ih step])
  moreover have "salt_ok row (bo_pcs b' k)" for k by (rule salt_ok_row [OF ih salt_step_row [OF step]])
  ultimately show ?case by (simp add: boot_step_def step)
qed simp

text \<open>C33: however many processes start on one database, and however their accesses to the row interleave, all
  that get a salt get the same one, and it is the one that is stored.\<close>

theorem salt_agreement:
  assumes "crypto_laws C" and "boots_reach C b b'" and "\<And>i. bo_pcs b i = SaltStart"
    and "bo_pcs b' i = SaltDone (Inr s)" and "bo_pcs b' j = SaltDone (Inr s')"
  shows "s = s' \<and> readSalt (bo_row b') = Inr (Some s)"
proof -
  have "salt_ok (bo_row b) (bo_pcs b k)" for k by (simp add: assms(3) salt_ok_def)
  from boots_ok [OF assms(1,2) this, of i] boots_ok [OF assms(1,2) this, of j] show ?thesis
    by (simp add: assms(4,5) salt_ok_def)
qed

text \<open>Alone, a process takes at most four steps and does what \<open>LoadOrCreateSalt\<close> does.\<close>

lemma salt_alone:
  assumes "LoadOrCreateSalt C row w = (r, row', w')"
  shows "\<exists>pc1 row1 w1 pc2 row2 w2 pc3 row3 w3. salt_step C SaltStart row w = (pc1, row1, w1) \<and> salt_step C pc1 row1 w1 = (pc2, row2, w2) \<and>
    salt_step C pc2 row2 w2 = (pc3, row3, w3) \<and> salt_step C pc3 row3 w3 = (SaltDone r, row', w')"
  using assms by (auto simp: LoadOrCreateSalt_def split: sum.splits prod.splits option.splits if_splits)

section \<open>From one run to the next\<close>

lemma LoadOrCreateSalt_again:
  assumes "crypto_laws C" "LoadOrCreateSalt C row w = (Inr salt, row', w')"
  shows "readSalt row' = Inr (Some salt)"
  using assms(2) NewSalt_size [OF assms(1)]
  by (auto simp: LoadOrCreateSalt_def SetMetaIfAbsent_def reread_salt_def readSalt_written split: sum.splits prod.splits option.splits if_splits)

lemma secret_New_size: "secret_New C h opts = Inr v \<Longrightarrow> \<exists>kek. v = Some kek \<and> length kek = KEKSize"
proof -
  assume "secret_New C h opts = Inr v"
  then obtain kek s where v: "v = Some kek"
    and r: "ResolveKEK C h ((so_Custody opts)\<lparr>cu_Salt := so_Salt opts, cu_Params := so_Params opts\<rparr>) = Inr (kek, s)"
    by (auto simp: secret_New_def split: option.splits sum.splits prod.splits if_splits)
  from r have "kdf_Validate (so_Params opts) = None \<and> length (so_Salt opts) = SaltSize" by (auto simp: ResolveKEK_def split: option.splits if_splits)
  with r have "walk C ((so_Custody opts)\<lparr>cu_Salt := so_Salt opts, cu_Params := so_Params opts\<rparr>)
      (custody_layers h ((so_Custody opts)\<lparr>cu_Salt := so_Salt opts, cu_Params := so_Params opts\<rparr>)) = Inr (kek, s)" by (simp add: ResolveKEK_walk)
  with v show ?thesis unfolding walk_Inr using DeriveKEK_Inr by blast
qed

lemma credentials_need_key:
  assumes "init_secrets C h key_path True row w = (Inr v, row', w')"
  shows "\<exists>kek. v = Some kek \<and> length kek = KEKSize"
  using assms secret_New_size by (auto simp: init_secrets_def split: sum.splits prod.splits)

lemma restart_same_vault:
  assumes "crypto_laws C" and "init_secrets C h key_path creds row w = (Inr (Some kek), row1, w1)"
  shows "init_secrets C h key_path True row1 w4 = (Inr (Some kek), row1, w4)"
proof -
  obtain salt w1' where l: "LoadOrCreateSalt C row w = (Inr salt, row1, w1')"
    and n: "secret_New C h \<lparr>so_Salt = salt, so_Params = DefaultKDFParams, so_Custody = app_custody key_path\<rparr> = Inr (Some kek)"
    using assms(2) by (auto simp: init_secrets_def split: sum.splits prod.splits if_splits)
  have "LoadOrCreateSalt C row1 w4 = (Inr salt, row1, w4)"
    by (simp add: LoadOrCreateSalt_def LoadOrCreateSalt_again [OF assms(1) l])
  then show ?thesis by (simp add: init_secrets_def n)
qed

lemma restart_opens:
  assumes "crypto_laws C" and "init_secrets C h key_path creds row w = (Inr (Some kek), row1, w1)"
    and "vault_Seal C (Some kek) plain w2 = (Inr s, w3)"
  shows "\<exists>v. init_secrets C h key_path True row1 w4 = (Inr v, row1, w4) \<and> vault_Open C v s = Inr plain"
proof -
  have "vault_Open C (Some kek) s = Inr plain"
    using assms(3) seal_open [OF assms(1)] by (auto simp: vault_Seal_def vault_Open_def split: if_splits)
  with restart_same_vault [OF assms(1,2)] show ?thesis by blast
qed

text \<open>With the same key material, whatever a run of the application has sealed the next run opens, also when
  it is the first run, which makes the salt; and a run that finds credentials never starts without a key.\<close>

theorem sealed_survives_restart:
  assumes "crypto_laws C" and "init_secrets C h key_path creds row w = (Inr (Some kek), row1, w1)"
    and "vault_Seal C (Some kek) plain w2 = (Inr s, w3)"
  shows "\<exists>v. init_secrets C h key_path True row1 w4 = (Inr v, row1, w4) \<and> vault_Open C v s = Inr plain"
  using assms by (rule restart_opens)

section \<open>Witnesses\<close>

text \<open>Two processes both find no salt, both make one, and the second takes that of the first.\<close>

definition two_boots :: "nat boots" where
  "two_boots = \<lparr>bo_row = None, bo_pcs = (\<lambda>_. SaltStart), bo_world = 3\<rparr>"

definition raced :: "nat boots" where
  "raced = foldl (\<lambda>b i. boot_step test_crypto i b) two_boots [0, 1, 0, 1, 0, 1, 1]"

lemma raced_reach: "boots_reach test_crypto two_boots raced"
  unfolding raced_def by (simp add: boots_reach.intros)

lemma test_salt: "NewSalt test_crypto w = (Inr (replicate 16 (char_of w)), w + 1)"
  by (simp add: NewSalt_def read_random_def test_crypto_def sizes)

lemma raced_done: "bo_pcs raced 0 = SaltDone (Inr (replicate 16 (char_of (3 :: nat))))"
  "bo_pcs raced 1 = SaltDone (Inr (replicate 16 (char_of (3 :: nat))))"
  by (simp_all add: raced_def two_boots_def boot_step_def readSalt_def [of None] test_salt SetMetaIfAbsent_def reread_salt_def
      readSalt_written sizes)

theorem salt_agreement_witness:
  "readSalt (bo_row raced) = Inr (Some (replicate 16 (char_of (3 :: nat))))"
  using salt_agreement [OF test_crypto_laws(1) raced_reach _ raced_done] by (simp add: two_boots_def)

definition test_host :: host where
  "test_host = \<lparr>ho_env = (\<lambda>_. ''''), ho_Join = (\<lambda>d n. d @ ''/'' @ n), ho_ReadFile = (\<lambda>_. Inr (''passphrase'' @ [CHR 0x0A])), ho_Stat = (\<lambda>_. Inr 384),
     ho_IsNotExist = (\<lambda>_. True), ho_LookPath = False, ho_keyring = (\<lambda>_ _. Inr ''''), ho_ExitError = (\<lambda>_. True)\<rparr>"

lemma test_boot: "init_secrets test_crypto test_host ''key'' False None 5 = (Inr (Some (test_key (CHR ''p''))),
    Some (b64encode (replicate 16 (char_of (5 :: nat)))), 6)"
proof -
  have trim: "trimNewline (''passphrase'' @ [CHR 0x0A]) = ''passphrase''" by code_simp
  have "keyFile test_host ((app_custody ''key'')\<lparr>cu_Salt := s, cu_Params := p\<rparr>) = Inr (Some ''passphrase'')" for s p
    using trim by (simp add: keyFile_def test_host_def app_custody_def Let_def)
  moreover have "systemdCredential test_host ((app_custody ''key'')\<lparr>cu_Salt := s, cu_Params := p\<rparr>) = Inr None" for s p
    by (simp add: systemdCredential_def test_host_def app_custody_def)
  moreover have "\<not> cu_UseKeyring (app_custody k)" "cu_KeyFilePath (app_custody k) = k" "\<not> cu_AllowEnvOverride (app_custody k)" for k
    by (simp_all add: app_custody_def)
  ultimately show ?thesis
    by (simp add: init_secrets_def LoadOrCreateSalt_def readSalt_def test_salt SetMetaIfAbsent_def secret_New_def kdf_Validate_def
        DefaultKDFParams_def sizes ResolveKEK_def try_layer_def derive_def DeriveKEK_def Let_def, simp add: test_crypto_def test_key_def)
qed

theorem sealed_survives_restart_witness:
  "\<exists>s w v. vault_Seal test_crypto (Some (test_key (CHR ''p''))) ''sk-1'' 8 = (Inr s, w) \<and> vault_Open test_crypto v s = Inr ''sk-1''"
proof -
  have "vault_Seal test_crypto (Some (test_key c)) p w = Seal test_crypto (test_key c) p w" for c p w
    by (simp add: vault_Seal_def no_key_def test_key_def)
  then obtain s w where "vault_Seal test_crypto (Some (test_key (CHR ''p''))) ''sk-1'' 8 = (Inr s, w)"
    using Seal_succeeds [OF test_crypto_laws test_key_size(1)] by metis
  with sealed_survives_restart [OF test_crypto_laws(1) test_boot this] show ?thesis by blast
qed

end
