(* ===== verification/Credential_Laws.thy ===== *)
theory Credential_Laws
  imports Credential_Store Custody_Laws Executor_Laws
begin

text \<open>
  No secret is at rest in the clear, the lock of a refresh has one holder and leaves nothing behind, and the
  secret of an account goes from its sealing through the store and a restart into exactly one header.
\<close>

section \<open>The table\<close>

datatype cred_op = OpUpsert gotime stored_account | OpDelete credential_id

definition cred_step :: "cred_op \<Rightarrow> credentials \<Rightarrow> credentials" where
  "cred_step opn t = (case opn of OpUpsert now a \<Rightarrow> snd (cred_Upsert now a t) | OpDelete i \<Rightarrow> snd (cred_Delete i t))"

text \<open>A blob is an envelope, or empty for an account that needs no secret.\<close>

definition row_ok :: "credential_row \<Rightarrow> bool" where
  "row_ok r \<longleftrightarrow> cw_id r \<noteq> '''' \<and> snd (ParseAuthMode (cw_auth_mode r)) \<and>
     (if cw_secret_blob r = '''' then cw_auth_mode r = auth_mode_string AuthNone else \<not> isl (ParseEnvelope (cw_secret_blob r)))"

definition rows_ok :: "credentials \<Rightarrow> bool" where
  "rows_ok t \<longleftrightarrow> distinct (map cw_id t) \<and> list_all row_ok t"

lemma put_credential_ids: "map cw_id (put_credential r t) = (if cw_id r \<in> set (map cw_id t) then map cw_id t else map cw_id t @ [cw_id r])"
proof -
  have "map cw_id (map (\<lambda>x. if cw_id x = cw_id r then r\<lparr>cw_created_at := cw_created_at x\<rparr> else x) t) = map cw_id t"
    by (induction t) auto
  moreover have "list_ex (\<lambda>x. cw_id x = cw_id r) t \<longleftrightarrow> cw_id r \<in> set (map cw_id t)" by (induction t) auto
  ultimately show ?thesis by (simp add: put_credential_def)
qed

lemma put_credential_ok: "rows_ok t \<Longrightarrow> row_ok r \<Longrightarrow> rows_ok (put_credential r t)"
proof -
  assume t: "rows_ok t" and r: "row_ok r"
  have "distinct (map cw_id (put_credential r t))" using t unfolding put_credential_ids by (simp add: rows_ok_def)
  moreover have "row_ok (r\<lparr>cw_created_at := c\<rparr>)" for c using r by (simp add: row_ok_def)
  ultimately show ?thesis using t r by (auto simp: rows_ok_def put_credential_def list_all_iff)
qed

lemma Upsert_cases:
  obtains e where "cred_Upsert now a t = (Some e, t)"
  | created where "cred_Upsert now a t = (None, put_credential \<lparr>cw_id = cr_ID a, cw_provider = ac_Provider a,
      cw_auth_mode = auth_mode_string (cr_AuthMode a), cw_label = ac_Label a, cw_meta = ac_Meta a, cw_secret_blob = cr_Sealed a,
      cw_created_at = created, cw_updated_at = now, cw_expires_at = ac_ExpiresAt a\<rparr> t)" "cr_ID a \<noteq> ''''"
      "if cr_Sealed a = '''' then cr_AuthMode a = AuthNone else \<not> isl (ParseEnvelope (cr_Sealed a))" "validAuthMode (cr_AuthMode a)"
proof (cases "cr_ID a = '''' \<or> cr_Sealed a = '''' \<and> cr_AuthMode a \<noteq> AuthNone \<or> cr_Sealed a \<noteq> '''' \<and> isl (ParseEnvelope (cr_Sealed a)) \<or>
    \<not> validAuthMode (cr_AuthMode a)")
  case True
  then have "\<exists>e. cred_Upsert now a t = (Some e, t)" by (auto simp: cred_Upsert_def)
  then show thesis using that(1) by blast
next
  case False
  then show thesis by (intro that(2)) (auto simp: cred_Upsert_def)
qed

lemma cred_step_ok: "rows_ok t \<Longrightarrow> rows_ok (cred_step opn t)"
proof (cases opn)
  case (OpUpsert now a)
  assume t: "rows_ok t"
  show ?thesis
  proof (cases rule: Upsert_cases [of now a t])
    case (2 created)
    have "snd (ParseAuthMode (auth_mode_string m))" if "validAuthMode m" for m
      using that by (cases m) (simp_all add: ParseAuthMode_def validAuthMode_def)
    with 2 show ?thesis using put_credential_ok [OF t] by (simp add: OpUpsert cred_step_def row_ok_def split: if_splits)
  qed (simp add: OpUpsert cred_step_def t)
next
  case (OpDelete i)
  assume "rows_ok t"
  then show ?thesis by (auto simp: OpDelete cred_step_def cred_Delete_def rows_ok_def distinct_map_filter list_all_iff)
qed

text \<open>C34: whatever credentials are written and deleted, every row of the table holds a well-formed envelope, or
  nothing for an account without authentication: no raw token ever gets into it; and ids stay unique.\<close>

theorem sealed_at_rest:
  "rows_ok (fold cred_step ops [])"
proof -
  have "rows_ok t \<Longrightarrow> rows_ok (fold cred_step ops t)" for t
    by (induction ops arbitrary: t) (simp_all add: cred_step_ok)
  then show ?thesis by (simp add: rows_ok_def)
qed

lemma scan_written: "validAuthMode m \<Longrightarrow> scanCredential \<lparr>cw_id = i, cw_provider = p, cw_auth_mode = auth_mode_string m, cw_label = l, cw_meta = am, cw_secret_blob = s,
    cw_created_at = c, cw_updated_at = u, cw_expires_at = x\<rparr> = Inr \<lparr>cr_ID = i, cr_AuthMode = m, cr_Sealed = s, ac_Provider = p,
    ac_Label = l, ac_Meta = am, ac_CreatedAt = c, ac_ExpiresAt = x\<rparr>"
proof -
  assume "validAuthMode m"
  then have "ParseAuthMode (auth_mode_string m) = (m, True)"
    by (cases m) (simp_all add: ParseAuthMode_accepts validAuthMode_def)
  then show ?thesis by (simp add: scanCredential_def parseAuthMode_def)
qed

lemma find_put_same: "find (\<lambda>x. cw_id x = cw_id r) (put_credential r t) =
    Some (case find (\<lambda>x. cw_id x = cw_id r) t of None \<Rightarrow> r | Some x \<Rightarrow> r\<lparr>cw_created_at := cw_created_at x\<rparr>)"
proof (cases "list_ex (\<lambda>x. cw_id x = cw_id r) t")
  case True
  then show ?thesis unfolding put_credential_def by (induction t) auto
next
  case False
  then show ?thesis unfolding put_credential_def by (induction t) auto
qed

lemma find_put_other: "i \<noteq> cw_id r \<Longrightarrow> find (\<lambda>x. cw_id x = i) (put_credential r t) = find (\<lambda>x. cw_id x = i) t"
proof -
  assume i: "i \<noteq> cw_id r"
  have "find (\<lambda>x. cw_id x = i) (map (\<lambda>x. if cw_id x = cw_id r then r\<lparr>cw_created_at := cw_created_at x\<rparr> else x) t) = find (\<lambda>x. cw_id x = i) t"
    using i by (induction t) auto
  moreover have "find (\<lambda>x. cw_id x = i) (t @ [r]) = find (\<lambda>x. cw_id x = i) t" using i by (induction t) auto
  ultimately show ?thesis by (simp add: put_credential_def)
qed

text \<open>What \<open>Upsert\<close> wrote is what \<open>Get\<close> reads, but for the creation time, and no other account changes.\<close>

lemma upsert_get:
  assumes "cred_Upsert now a t = (None, t')"
  shows "\<exists>c. cred_Get (cr_ID a) t' = Inr (a\<lparr>ac_CreatedAt := c\<rparr>)" and "i \<noteq> cr_ID a \<Longrightarrow> cred_Get i t' = cred_Get i t"
proof -
  obtain created where "t' = put_credential \<lparr>cw_id = cr_ID a, cw_provider = ac_Provider a,
      cw_auth_mode = auth_mode_string (cr_AuthMode a), cw_label = ac_Label a, cw_meta = ac_Meta a, cw_secret_blob = cr_Sealed a,
      cw_created_at = created, cw_updated_at = now, cw_expires_at = ac_ExpiresAt a\<rparr> t" (is "_ = put_credential ?r t") and valid: "validAuthMode (cr_AuthMode a)"
    using assms by (cases rule: Upsert_cases [of now a t]) auto
  then obtain r where t': "t' = put_credential r t" and r: "r = ?r" by blast
  have scan: "scanCredential (r\<lparr>cw_created_at := c\<rparr>) = Inr (a\<lparr>ac_CreatedAt := c\<rparr>)" "scanCredential r = Inr (a\<lparr>ac_CreatedAt := created\<rparr>)" for c
    by (simp_all add: r scan_written [OF valid])
  have r: "cw_id r = cr_ID a" by (simp add: r)
  show "\<exists>c. cred_Get (cr_ID a) t' = Inr (a\<lparr>ac_CreatedAt := c\<rparr>)"
    using scan find_put_same [of r t] by (auto simp: cred_Get_def t' r split: option.split)
  show "i \<noteq> cr_ID a \<Longrightarrow> cred_Get i t' = cred_Get i t"
    using find_put_other [of i r t] by (simp add: cred_Get_def t' r)
qed

section \<open>The lock\<close>

text \<open>Who refers to an entry, and under which id.\<close>

definition uses :: "lock_pc \<Rightarrow> credential_id \<Rightarrow> nat \<Rightarrow> bool" where
  "uses pc i a \<longleftrightarrow> pc = LockWait i a \<or> pc = LockHold i a \<or> pc = LockDrained i a"

definition users :: "lock_world \<Rightarrow> nat \<Rightarrow> nat set" where
  "users w a = {g. \<exists>i. uses (lw_pcs w g) i a}"

text \<open>An entry counts its users, all of one id, which the map sends to it while there is a user; its semaphore
  is taken by the one that holds it.\<close>

definition lock_inv :: "lock_world \<Rightarrow> bool" where
  "lock_inv w \<longleftrightarrow>
     (\<forall>g i a. uses (lw_pcs w g) i a \<longrightarrow> lr_locks (lw_reg w) i = Some a) \<and>
     (\<forall>i a. lr_locks (lw_reg w) i = Some a \<longrightarrow> users w a \<noteq> {} \<and> (\<forall>g \<in> users w a. uses (lw_pcs w g) i a)) \<and>
     (\<forall>a. finite (users w a)) \<and>
     (\<forall>a. users w a \<noteq> {} \<longrightarrow> (\<exists>e. lr_heap (lw_reg w) a = Some e \<and> lk_refs e = int (card (users w a)))) \<and>
     (\<forall>a. a \<ge> lr_next (lw_reg w) \<longrightarrow> users w a = {}) \<and>
     (\<forall>g g' i i' a. lw_pcs w g = LockHold i a \<and> lw_pcs w g' = LockHold i' a \<longrightarrow> g = g') \<and>
     (\<forall>a. users w a \<noteq> {} \<longrightarrow> (entry_taken a (lw_reg w) \<longleftrightarrow> (\<exists>g i. lw_pcs w g = LockHold i a)))"

lemma uses_simps [simp]:
  "\<not> uses LockIdle i a" "uses (LockWait j b) i a \<longleftrightarrow> i = j \<and> a = b" "uses (LockHold j b) i a \<longleftrightarrow> i = j \<and> a = b"
  "uses (LockDrained j b) i a \<longleftrightarrow> i = j \<and> a = b"
  by (auto simp: uses_def)

lemma set_entry_simps [simp]:
  "lr_locks (set_entry a f r) = lr_locks r" "lr_next (set_entry a f r) = lr_next r"
  "lr_heap (set_entry a f r) b = (if b = a then map_option f (lr_heap r a) else lr_heap r b)"
  by (simp_all add: set_entry_def)

lemma uses_fun: "uses pc i a \<Longrightarrow> uses pc j b \<Longrightarrow> i = j \<and> a = b"
  by (cases pc) auto

text \<open>Four of the steps keep the place of a goroutine or give it one; the last two share the release.\<close>

lemma users_moved:
  "uses (lw_pcs w g) i a \<Longrightarrow> uses pc i a \<Longrightarrow> users \<lparr>lw_reg = r, lw_pcs = (lw_pcs w)(g := pc)\<rparr> b = users w b"
  by (auto simp: users_def dest: uses_fun)

lemma users_added:
  "lw_pcs w g = LockIdle \<Longrightarrow> users \<lparr>lw_reg = r, lw_pcs = (lw_pcs w)(g := LockWait i a)\<rparr> b = (if b = a then insert g (users w b) else users w b)"
  by (auto simp: users_def)

lemma users_dropped:
  "uses (lw_pcs w g) i a \<Longrightarrow> users \<lparr>lw_reg = r, lw_pcs = (lw_pcs w)(g := LockIdle)\<rparr> b = (if b = a then users w b - {g} else users w b)"
  by (auto simp: users_def dest: uses_fun)

lemma user_member: "uses (lw_pcs w g) i a \<Longrightarrow> g \<in> users w a"
  by (auto simp: users_def)

lemma lock_invD:
  assumes "lock_inv w"
  shows "uses (lw_pcs w g) i a \<Longrightarrow> lr_locks (lw_reg w) i = Some a"
    and "lr_locks (lw_reg w) i = Some a \<Longrightarrow> users w a \<noteq> {}"
    and "lr_locks (lw_reg w) i = Some a \<Longrightarrow> g \<in> users w a \<Longrightarrow> uses (lw_pcs w g) i a"
    and "finite (users w a)"
    and "users w a \<noteq> {} \<Longrightarrow> \<exists>e. lr_heap (lw_reg w) a = Some e \<and> lk_refs e = int (card (users w a))"
    and "lr_next (lw_reg w) \<le> a \<Longrightarrow> users w a = {}"
    and "lw_pcs w g = LockHold i a \<Longrightarrow> lw_pcs w g' = LockHold i' a \<Longrightarrow> g = g'"
    and "users w a \<noteq> {} \<Longrightarrow> entry_taken a (lw_reg w) \<longleftrightarrow> (\<exists>g i. lw_pcs w g = LockHold i a)"
  using assms unfolding lock_inv_def by blast+

lemma lock_invI:
  assumes "\<And>g i a. uses (lw_pcs w g) i a \<Longrightarrow> lr_locks (lw_reg w) i = Some a"
    and "\<And>i a. lr_locks (lw_reg w) i = Some a \<Longrightarrow> users w a \<noteq> {}"
    and "\<And>i a g. lr_locks (lw_reg w) i = Some a \<Longrightarrow> g \<in> users w a \<Longrightarrow> uses (lw_pcs w g) i a"
    and "\<And>a. finite (users w a)"
    and "\<And>a. users w a \<noteq> {} \<Longrightarrow> \<exists>e. lr_heap (lw_reg w) a = Some e \<and> lk_refs e = int (card (users w a))"
    and "\<And>a. lr_next (lw_reg w) \<le> a \<Longrightarrow> users w a = {}"
    and "\<And>g g' i i' a. lw_pcs w g = LockHold i a \<Longrightarrow> lw_pcs w g' = LockHold i' a \<Longrightarrow> g = g'"
    and "\<And>a. users w a \<noteq> {} \<Longrightarrow> entry_taken a (lw_reg w) \<longleftrightarrow> (\<exists>g i. lw_pcs w g = LockHold i a)"
  shows "lock_inv w"
  unfolding lock_inv_def using assms by blast

lemma lock_inv_moved:
  assumes inv: "lock_inv w" and u: "uses (lw_pcs w g) i a" "uses pc i a"
    and b: "b \<longleftrightarrow> pc = LockHold i a" and other: "\<And>g' i'. lw_pcs w g' = LockHold i' a \<Longrightarrow> g' = g"
  shows "lock_inv \<lparr>lw_reg = set_entry a (\<lambda>e. e\<lparr>lk_taken := b\<rparr>) (lw_reg w), lw_pcs = (lw_pcs w)(g := pc)\<rparr>" (is "lock_inv ?w")
proof -
  note D = lock_invD [OF inv]
  have us: "users ?w c = users w c" for c by (rule users_moved [OF u])
  have use: "uses (lw_pcs ?w h) j c \<longleftrightarrow> uses (lw_pcs w h) j c" for h j c using u by (auto dest: uses_fun)
  have hold: "lw_pcs ?w h = LockHold j c \<longleftrightarrow> (if c = a then h = g \<and> b \<and> j = i else lw_pcs w h = LockHold j c)" for h j c
    using b u other [of h j] by (cases pc) (auto dest: uses_fun)
  obtain e where e: "lr_heap (lw_reg w) a = Some e" "lk_refs e = int (card (users w a))"
    using D(5) [of a] user_member [OF u(1)] by blast
  have taken: "entry_taken c (lw_reg ?w) \<longleftrightarrow> (if c = a then b else entry_taken c (lw_reg w))" for c
    by (simp add: entry_taken_def e)
  show ?thesis
  proof (rule lock_invI, unfold us use hold taken)
    show "lr_locks (lw_reg ?w) j = Some c" if "uses (lw_pcs w h) j c" for h j c using D(1) [OF that] by simp
    show "users w c \<noteq> {}" if "lr_locks (lw_reg ?w) j = Some c" for j c using D(2) that by simp
    show "uses (lw_pcs w h) j c" if "lr_locks (lw_reg ?w) j = Some c" "h \<in> users w c" for j c h using D(3) that by simp
    show "finite (users w c)" for c by (rule D(4))
    show "\<exists>e. lr_heap (lw_reg ?w) c = Some e \<and> lk_refs e = int (card (users w c))" if "users w c \<noteq> {}" for c
      using D(5) [OF that] e by (cases "c = a") simp_all
    show "users w c = {}" if "lr_next (lw_reg ?w) \<le> c" for c using D(6) that by simp
    show "h = h'" if "if c = a then h = g \<and> b \<and> j = i else lw_pcs w h = LockHold j c" "if c = a then h' = g \<and> b \<and> j' = i else lw_pcs w h' = LockHold j' c"
      for h h' j j' c using that D(7) [of h j c h' j'] by (simp split: if_splits)
    show "(if c = a then b else entry_taken c (lw_reg w)) = (\<exists>h j. if c = a then h = g \<and> b \<and> j = i else lw_pcs w h = LockHold j c)"
      if "users w c \<noteq> {}" for c using D(8) [OF that] by simp
  qed
qed

lemma lock_inv_fresh:
  assumes inv: "lock_inv w" and idle: "lw_pcs w g = LockIdle" and none: "lr_locks (lw_reg w) i = None"
  shows "lock_inv \<lparr>lw_reg = snd (lock_ref i (lw_reg w)), lw_pcs = (lw_pcs w)(g := LockWait i (lr_next (lw_reg w)))\<rparr>" (is "lock_inv ?w")
proof -
  note D = lock_invD [OF inv]
  let ?a = "lr_next (lw_reg w)"
  have no: "users w ?a = {}" by (rule D(6)) simp
  have us: "users ?w c = (if c = ?a then {g} else users w c)" for c by (simp add: users_added [OF idle] no)
  have use: "uses (lw_pcs ?w h) j c \<longleftrightarrow> (if h = g then j = i \<and> c = ?a else uses (lw_pcs w h) j c)" for h j c by auto
  have hold: "lw_pcs ?w h = LockHold j c \<longleftrightarrow> lw_pcs w h = LockHold j c" for h j c using idle by auto
  have locks: "lr_locks (lw_reg ?w) = (lr_locks (lw_reg w))(i \<mapsto> ?a)" and nxt: "lr_next (lw_reg ?w) = Suc ?a"
    and heap: "lr_heap (lw_reg ?w) = (lr_heap (lw_reg w))(?a \<mapsto> \<lparr>lk_taken = False, lk_refs = 1\<rparr>)"
    by (simp_all add: lock_ref_def none)
  have taken: "entry_taken c (lw_reg ?w) \<longleftrightarrow> c \<noteq> ?a \<and> entry_taken c (lw_reg w)" for c unfolding entry_taken_def heap by simp
  show ?thesis
  proof (rule lock_invI, unfold us use hold taken locks nxt)
    show "((lr_locks (lw_reg w))(i \<mapsto> ?a)) j = Some c" if "if h = g then j = i \<and> c = ?a else uses (lw_pcs w h) j c" for h j c
      using that D(1) [of h j c] none by (cases "j = i") (auto split: if_splits)
    show "(if c = ?a then {g} else users w c) \<noteq> {}" if "((lr_locks (lw_reg w))(i \<mapsto> ?a)) j = Some c" for j c
      using that D(2) [of j c] by (simp split: if_splits)
    show "if h = g then j = i \<and> c = ?a else uses (lw_pcs w h) j c"
      if "((lr_locks (lw_reg w))(i \<mapsto> ?a)) j = Some c" "h \<in> (if c = ?a then {g} else users w c)" for j c h
    proof (cases "j = i")
      case True
      then show ?thesis using that by simp
    next
      case False
      then have c: "lr_locks (lw_reg w) j = Some c" using that by simp
      then have "c \<noteq> ?a" using D(2) no by blast
      then have "h \<in> users w c" using that by simp
      then have u: "uses (lw_pcs w h) j c" by (rule D(3) [OF c])
      then have "h \<noteq> g" using idle by auto
      then show ?thesis using u by simp
    qed
    show "finite (if c = ?a then {g} else users w c)" for c using D(4) by simp
    show "\<exists>e. lr_heap (lw_reg ?w) c = Some e \<and> lk_refs e = int (card (if c = ?a then {g} else users w c))"
      if "(if c = ?a then {g} else users w c) \<noteq> {}" for c using that D(5) [of c] unfolding heap by (cases "c = ?a") simp_all
    show "(if c = ?a then {g} else users w c) = {}" if "Suc ?a \<le> c" for c using D(6) [of c] that by simp
    show "h = h'" if "lw_pcs w h = LockHold j c" "lw_pcs w h' = LockHold j' c" for h h' j j' c by (rule D(7) [OF that])
    show "(c \<noteq> ?a \<and> entry_taken c (lw_reg w)) = (\<exists>h j. lw_pcs w h = LockHold j c)" if "(if c = ?a then {g} else users w c) \<noteq> {}" for c
    proof (cases "c = ?a")
      case True
      have "\<not> uses (lw_pcs w h) j ?a" for h j using user_member [of w h j ?a] no by blast
      then show ?thesis using True by (metis uses_simps(3))
    next
      case False
      then show ?thesis using that D(8) [of c] by simp
    qed
  qed
qed

lemma lock_inv_joined:
  assumes inv: "lock_inv w" and idle: "lw_pcs w g = LockIdle" and a: "lr_locks (lw_reg w) i = Some a"
  shows "lock_inv \<lparr>lw_reg = snd (lock_ref i (lw_reg w)), lw_pcs = (lw_pcs w)(g := LockWait i a)\<rparr>" (is "lock_inv ?w")
proof -
  note D = lock_invD [OF inv]
  have us: "users ?w c = (if c = a then insert g (users w c) else users w c)" for c by (rule users_added [OF idle])
  have use: "uses (lw_pcs ?w h) j c \<longleftrightarrow> (if h = g then j = i \<and> c = a else uses (lw_pcs w h) j c)" for h j c by auto
  have hold: "lw_pcs ?w h = LockHold j c \<longleftrightarrow> lw_pcs w h = LockHold j c" for h j c using idle by auto
  have g: "g \<notin> users w c" for c using idle by (auto simp: users_def)
  obtain e where e: "lr_heap (lw_reg w) a = Some e" "lk_refs e = int (card (users w a))" using D(5) [OF D(2) [OF a]] by blast
  have reg: "lr_locks (lw_reg ?w) = lr_locks (lw_reg w)" "lr_next (lw_reg ?w) = lr_next (lw_reg w)"
    and heap: "lr_heap (lw_reg ?w) c = (if c = a then Some (e\<lparr>lk_refs := lk_refs e + 1\<rparr>) else lr_heap (lw_reg w) c)" for c
    by (simp_all add: lock_ref_def a e)
  have taken: "entry_taken c (lw_reg ?w) \<longleftrightarrow> entry_taken c (lw_reg w)" for c unfolding entry_taken_def heap by (simp add: e)
  have ne: "(if c = a then insert g (users w c) else users w c) \<noteq> {} \<longleftrightarrow> users w c \<noteq> {}" for c using D(2) [OF a] by auto
  show ?thesis
  proof (rule lock_invI, unfold us use hold taken reg ne)
    show "lr_locks (lw_reg w) j = Some c" if "if h = g then j = i \<and> c = a else uses (lw_pcs w h) j c" for h j c
      using that D(1) [of h j c] a by (simp split: if_splits)
    show "users w c \<noteq> {}" if "lr_locks (lw_reg w) j = Some c" for j c by (rule D(2) [OF that])
    show "if h = g then j = i \<and> c = a else uses (lw_pcs w h) j c"
      if j: "lr_locks (lw_reg w) j = Some c" "h \<in> (if c = a then insert g (users w c) else users w c)" for j c h
    proof (cases "h = g")
      case True
      then have c: "c = a" using j g by (simp split: if_splits)
      obtain h' where "h' \<in> users w a" using D(2) [OF a] by blast
      then have "uses (lw_pcs w h') i a" "uses (lw_pcs w h') j a" using D(3) [OF a] D(3) [OF j(1)] c by simp_all
      then have "j = i" using uses_fun by blast
      then show ?thesis using True c by simp
    next
      case False
      then show ?thesis using D(3) [OF j(1)] j(2) by (simp split: if_splits)
    qed
    show "finite (if c = a then insert g (users w c) else users w c)" for c using D(4) by simp
    show "\<exists>e. lr_heap (lw_reg ?w) c = Some e \<and> lk_refs e = int (card (if c = a then insert g (users w c) else users w c))"
      if "users w c \<noteq> {}" for c using D(5) [OF that] D(4) g unfolding heap by (simp add: e)
    show "(if c = a then insert g (users w c) else users w c) = {}" if "lr_next (lw_reg w) \<le> c" for c
      using D(6) [OF that] ne [of c] by blast
    show "h = h'" if "lw_pcs w h = LockHold j c" "lw_pcs w h' = LockHold j' c" for h h' j j' c by (rule D(7) [OF that])
    show "entry_taken c (lw_reg w) = (\<exists>h j. lw_pcs w h = LockHold j c)" if "users w c \<noteq> {}" for c by (rule D(8) [OF that])
  qed
qed

lemma lock_inv_released:
  assumes inv: "lock_inv w" and u: "uses (lw_pcs w g) i a" and free: "\<And>i. lw_pcs w g \<noteq> LockHold i a"
  shows "lock_inv \<lparr>lw_reg = lock_releaseRef i a (lw_reg w), lw_pcs = (lw_pcs w)(g := LockIdle)\<rparr>" (is "lock_inv ?w")
proof -
  note D = lock_invD [OF inv]
  have us: "users ?w c = (if c = a then users w c - {g} else users w c)" for c by (rule users_dropped [OF u])
  have use: "uses (lw_pcs ?w h) j c \<longleftrightarrow> h \<noteq> g \<and> uses (lw_pcs w h) j c" for h j c by auto
  have hold: "lw_pcs ?w h = LockHold j c \<longleftrightarrow> h \<noteq> g \<and> lw_pcs w h = LockHold j c" for h j c by auto
  have g: "g \<in> users w a" by (rule user_member [OF u])
  have locks_a: "lr_locks (lw_reg w) i = Some a" by (rule D(1) [OF u])
  obtain e where e: "lr_heap (lw_reg w) a = Some e" "lk_refs e = int (card (users w a))" using D(5) [of a] g by blast
  have last: "lk_refs e - 1 \<le> 0 \<longleftrightarrow> users w a - {g} = {}"
  proof -
    have "card (users w a) = Suc (card (users w a - {g}))" by (rule card.remove [OF D(4) g])
    then show ?thesis using e(2) D(4) [of a] by simp
  qed
  have locks: "lr_locks (lw_reg ?w) = (if users w a - {g} = {} then (lr_locks (lw_reg w))(i := None) else lr_locks (lw_reg w))"
    and nxt: "lr_next (lw_reg ?w) = lr_next (lw_reg w)"
    and heap: "lr_heap (lw_reg ?w) c = (if c = a then Some (e\<lparr>lk_refs := lk_refs e - 1\<rparr>) else lr_heap (lw_reg w) c)" for c
    using last locks_a e(1) by (auto simp: lock_releaseRef_def Let_def)
  have taken: "entry_taken c (lw_reg ?w) \<longleftrightarrow> entry_taken c (lw_reg w)" for c unfolding entry_taken_def heap by (simp add: e)
  have only: "j = i" if "lr_locks (lw_reg w) j = Some a" for j using D(3) [OF that g] u by (auto dest: uses_fun)
  show ?thesis
  proof (rule lock_invI, unfold us use hold taken nxt)
    show "lr_locks (lw_reg ?w) j = Some c" if "h \<noteq> g \<and> uses (lw_pcs w h) j c" for h j c
    proof -
      have "lr_locks (lw_reg w) j = Some c" using that D(1) by blast
      moreover have "users w a - {g} \<noteq> {}" if "j = i"
      proof -
        have "c = a" using calculation locks_a that by simp
        then show ?thesis using \<open>h \<noteq> g \<and> uses (lw_pcs w h) j c\<close> user_member [of w h j a] by blast
      qed
      ultimately show ?thesis unfolding locks by auto
    qed
    show "(if c = a then users w c - {g} else users w c) \<noteq> {}" if "lr_locks (lw_reg ?w) j = Some c" for j c
      using that D(2) [of j c] only [of j] unfolding locks by (auto split: if_splits)
    show "h \<noteq> g \<and> uses (lw_pcs w h) j c" if j: "lr_locks (lw_reg ?w) j = Some c" "h \<in> (if c = a then users w c - {g} else users w c)" for j c h
    proof -
      have jc: "lr_locks (lw_reg w) j = Some c" using j(1) unfolding locks by (auto split: if_splits)
      have hc: "h \<in> users w c" using j(2) by (simp split: if_splits)
      have uh: "uses (lw_pcs w h) j c" by (rule D(3) [OF jc hc])
      have "h \<noteq> g"
      proof
        assume "h = g"
        then have "c = a" using uh u uses_fun by blast
        then show False using j(2) \<open>h = g\<close> by simp
      qed
      then show ?thesis using uh by blast
    qed
    show "finite (if c = a then users w c - {g} else users w c)" for c using D(4) by simp
    show "\<exists>e. lr_heap (lw_reg ?w) c = Some e \<and> lk_refs e = int (card (if c = a then users w c - {g} else users w c))"
      if "(if c = a then users w c - {g} else users w c) \<noteq> {}" for c
    proof (cases "c = a")
      case True
      have "int (card (users w a - {g})) = lk_refs e - 1" using card.remove [OF D(4) g] e(2) by simp
      then show ?thesis unfolding heap by (simp add: True)
    next
      case False
      then show ?thesis using that D(5) [of c] unfolding heap by simp
    qed
    show "(if c = a then users w c - {g} else users w c) = {}" if "lr_next (lw_reg w) \<le> c" for c using D(6) [OF that] by auto
    show "h = h'" if "h \<noteq> g \<and> lw_pcs w h = LockHold j c" "h' \<noteq> g \<and> lw_pcs w h' = LockHold j' c" for h h' j j' c using that D(7) by blast
    show "entry_taken c (lw_reg w) = (\<exists>h j. h \<noteq> g \<and> lw_pcs w h = LockHold j c)" if "(if c = a then users w c - {g} else users w c) \<noteq> {}" for c
    proof -
      have "lw_pcs w g \<noteq> LockHold j c" for j using free u by (metis uses_fun uses_simps(3))
      moreover have "users w c \<noteq> {}" using that by (auto split: if_splits)
      ultimately show ?thesis using D(8) [of c] by metis
    qed
  qed
qed

lemma lock_step_inv: "lock_step w w' \<Longrightarrow> lock_inv w \<Longrightarrow> lock_inv w'"
proof (induction rule: lock_step.induct)
  case (acquire w g i a r)
  show ?case
  proof (cases "lr_locks (lw_reg w) i")
    case None
    then have "a = lr_next (lw_reg w)" "r = snd (lock_ref i (lw_reg w))" using acquire.hyps(2) by (auto simp: lock_ref_def)
    then show ?thesis using lock_inv_fresh [OF acquire.prems acquire.hyps(1) None] by simp
  next
    case (Some b)
    then have "a = b" "r = snd (lock_ref i (lw_reg w))" using acquire.hyps(2) by (auto simp: lock_ref_def)
    then show ?thesis using lock_inv_joined [OF acquire.prems acquire.hyps(1) Some] by simp
  qed
next
  case (take_sem w g i a)
  have u: "uses (lw_pcs w g) i a" by (simp add: take_sem.hyps)
  have "lw_pcs w h \<noteq> LockHold j a" for h j
    using take_sem.hyps(2) lock_invD(8) [OF take_sem.prems, of a] user_member [OF u] by blast
  then show ?case using lock_inv_moved [OF take_sem.prems u, of "LockHold i a" True] by simp
next
  case (give_up w g i a)
  show ?case by (rule lock_inv_released [OF give_up.prems]) (simp_all add: give_up.hyps)
next
  case (drain w g i a)
  have u: "uses (lw_pcs w g) i a" by (simp add: drain.hyps)
  have "g' = g" if "lw_pcs w g' = LockHold i' a" for g' i' using lock_invD(7) [OF drain.prems that drain.hyps] .
  then show ?case using lock_inv_moved [OF drain.prems u, of "LockDrained i a" False] by simp
next
  case (release w g i a)
  show ?case by (rule lock_inv_released [OF release.prems]) (simp_all add: release.hyps)
qed

lemma lock_reach_inv: "lock_reach w \<Longrightarrow> lock_inv w"
proof (induction rule: lock_reach.induct)
  case lock_start
  show ?case by (simp add: lock_inv_def lock_new_def newLockRegistry_def users_def)
next
  case (lock_more w w')
  then show ?case using lock_step_inv by blast
qed

lemma refresh_facts:
  assumes "lock_reach w"
  shows "lw_pcs w g = LockHold i a \<Longrightarrow> lw_pcs w g' = LockHold i a' \<Longrightarrow> g = g'"
    and "lw_pcs w g = LockWait i a \<Longrightarrow> (\<And>h b. lw_pcs w h \<noteq> LockHold i b) \<Longrightarrow>
      \<exists>r. lock_step w \<lparr>lw_reg = r, lw_pcs = (lw_pcs w)(g := LockHold i a)\<rparr>"
    and "(\<And>h b. \<not> uses (lw_pcs w h) i b) \<Longrightarrow> lr_locks (lw_reg w) i = None"
proof -
  note D = lock_invD [OF lock_reach_inv [OF assms]]
  show "g = g'" if "lw_pcs w g = LockHold i a" "lw_pcs w g' = LockHold i a'"
  proof -
    have "uses (lw_pcs w g) i a" "uses (lw_pcs w g') i a'" by (simp_all add: that)
    then have "a = a'" using D(1) by (metis option.inject)
    then show ?thesis using D(7) that by blast
  qed
  show "\<exists>r. lock_step w \<lparr>lw_reg = r, lw_pcs = (lw_pcs w)(g := LockHold i a)\<rparr>"
    if g: "lw_pcs w g = LockWait i a" and no: "\<And>h b. lw_pcs w h \<noteq> LockHold i b"
  proof -
    have u: "uses (lw_pcs w g) i a" by (simp add: g)
    have "lw_pcs w h \<noteq> LockHold j a" for h j
    proof
      assume h: "lw_pcs w h = LockHold j a"
      then have "h \<in> users w a" by (intro user_member) simp
      then have "uses (lw_pcs w h) i a" by (rule D(3) [OF D(1) [OF u]])
      then show False using h no by simp
    qed
    then have "\<not> entry_taken a (lw_reg w)" using D(8) [of a] user_member [OF u] by blast
    from lock_step.take_sem [OF g this] show ?thesis by blast
  qed
  show "lr_locks (lw_reg w) i = None" if "\<And>h b. \<not> uses (lw_pcs w h) i b"
  proof (rule ccontr)
    assume "lr_locks (lw_reg w) i \<noteq> None"
    then obtain a where a: "lr_locks (lw_reg w) i = Some a" by blast
    then show False using D(2) [OF a] D(3) [OF a] that by blast
  qed
qed

text \<open>C35: however any number of refreshes interleave, with waits cut short and entries dropped and made anew, one
  credential has at most one holder of its lock; a waiter can go on as soon as nobody holds it; and when nobody
  uses a lock the registry has no entry for it.\<close>

theorem refresh_lock:
  assumes "lock_reach w"
  shows "(\<forall>g g' a a'. lw_pcs w g = LockHold i a \<and> lw_pcs w g' = LockHold i a' \<longrightarrow> g = g') \<and>
    (\<forall>g a. lw_pcs w g = LockWait i a \<and> (\<forall>h b. lw_pcs w h \<noteq> LockHold i b) \<longrightarrow>
      (\<exists>r. lock_step w \<lparr>lw_reg = r, lw_pcs = (lw_pcs w)(g := LockHold i a)\<rparr>)) \<and>
    ((\<forall>h b. \<not> uses (lw_pcs w h) i b) \<longrightarrow> lr_locks (lw_reg w) i = None)"
  using refresh_facts [OF assms] by blast

section \<open>From the sealing to the header\<close>

text \<open>C36: the secret of an account reaches its upstream and nothing else does: sealed in one run of the application
  and stored, it is read back in a later run, with the same key material, and the request the executor builds
  for the account carries exactly that secret, once, in the header of its family.\<close>

theorem sealed_key_reaches_upstream:
  assumes "crypto_laws C" and "init_secrets C h key_path creds row w = (Inr (Some kek), row1, w1)"
    and "vault_Seal C (Some kek) key w2 = (Inr s, w3)" and "key \<noteq> ''''"
    and "cred_Upsert now (a\<lparr>cr_Sealed := s, cr_AuthMode := AuthAPIKey\<rparr>) t = (None, t1)"
    and "init_secrets C h key_path True row1 w4 = (Inr v, row2, w5)"
    and "cred_Get (cr_ID a) t1 = Inr b" and "xp_Open xp = Some (\<lambda>z. map_sum Dom id (vault_Open C v z))"
    and "buildRequest cfg xp req (credential.truncate b) = Inr q"
  shows "auth_values (xf_AuthStyle cfg) key (hq_header q)"
proof -
  have v: "vault_Open C v s = Inr key" using restart_opens [OF assms(1-3), of w4] assms(6) by auto
  obtain c where "b = a\<lparr>cr_Sealed := s, cr_AuthMode := AuthAPIKey\<rparr>\<lparr>ac_CreatedAt := c\<rparr>"
    using upsert_get(1) [OF assms(5)] assms(7) by auto
  then have b: "cr_AuthMode (credential.truncate b) = AuthAPIKey" "cr_Sealed (credential.truncate b) = s"
    by (simp_all add: credential.defs)
  have "s \<noteq> ''''"
  proof
    assume "s = ''''"
    moreover have "ParseEnvelope '''' = Inl (invalidFormat ''expected 5 colon-separated parts'')" by (simp add: ParseEnvelope_def)
    ultimately have "Open C k s \<noteq> Inr p" for k p by (simp add: Open_def)
    with v show False by (auto simp: vault_Open_def split: if_splits)
  qed
  then have "openCredential cfg xp (credential.truncate b) = Inr key" by (simp add: openCredential_def b assms(8) v)
  from built_auth [OF assms(9) this assms(4)] show ?thesis .
qed

section \<open>Witnesses\<close>

definition contended :: lock_world where
  "contended = \<lparr>lw_reg = \<lparr>lr_heap = [0 \<mapsto> \<lparr>lk_taken = True, lk_refs = 2\<rparr>], lr_locks = [''c1'' \<mapsto> 0], lr_next = 1\<rparr>,
     lw_pcs = (\<lambda>_. LockIdle)(0 := LockHold ''c1'' 0, 1 := LockWait ''c1'' 0)\<rparr>"

lemma contended_reach: "lock_reach contended"
proof -
  let ?e = "\<lambda>b n. \<lparr>lr_heap = [0 \<mapsto> \<lparr>lk_taken = b, lk_refs = n\<rparr>], lr_locks = [''c1'' \<mapsto> 0], lr_next = 1\<rparr>"
  have "lock_reach \<lparr>lw_reg = ?e False 1, lw_pcs = (\<lambda>_. LockIdle)(0 := LockWait ''c1'' 0)\<rparr>"
    using lock_more [OF lock_start acquire [of lock_new 0 "''c1''" 0 "?e False 1"]] by (simp add: lock_new_def newLockRegistry_def lock_ref_def)
  from lock_more [OF this take_sem [of _ 0 "''c1''" 0]]
  have held: "lock_reach \<lparr>lw_reg = ?e True 1, lw_pcs = (\<lambda>_. LockIdle)(0 := LockHold ''c1'' 0)\<rparr>"
    by (simp add: entry_taken_def set_entry_def)
  show ?thesis
    using lock_more [OF held acquire [of _ 1 "''c1''" 0 "?e True 2"]] by (simp add: contended_def lock_ref_def set_entry_def)
qed

theorem refresh_lock_witness: "\<not> (\<exists>g a. g \<noteq> 0 \<and> lw_pcs contended g = LockHold ''c1'' a) \<and> lr_locks (lw_reg contended) ''c2'' = None"
proof -
  have "lw_pcs contended 0 = LockHold ''c1'' 0" by (simp add: contended_def)
  moreover have "\<not> uses (lw_pcs contended h) ''c2'' b" for h b by (simp add: contended_def)
  ultimately show ?thesis
    using refresh_lock [OF contended_reach, of "''c1''"] refresh_lock [OF contended_reach, of "''c2''"] by metis
qed

definition test_account :: stored_account where
  "test_account = \<lparr>cr_ID = ''a1'', cr_AuthMode = AuthNone, cr_Sealed = '''', ac_Provider = ''openai'', ac_Label = ''work'',
     ac_Meta = \<lparr>am_Subject = '''', am_Email = '''', am_DisplayName = '''', am_Plan = '''', am_Project = '''', am_Scopes = []\<rparr>,
     ac_CreatedAt = 0, ac_ExpiresAt = 0\<rparr>"

lemma test_vault_Seal: "vault_Seal test_crypto (Some (test_key c)) p w = Seal test_crypto (test_key c) p w"
  by (simp add: vault_Seal_def no_key_def test_key_def)

theorem sealed_key_reaches_upstream_witness:
  "\<exists>s w t1 b q. vault_Seal test_crypto (Some (test_key (CHR ''p''))) ''sk-1'' 8 = (Inr s, w) \<and>
     cred_Upsert 3 (test_account\<lparr>cr_Sealed := s, cr_AuthMode := AuthAPIKey\<rparr>) [] = (None, t1) \<and> cred_Get ''a1'' t1 = Inr b \<and>
     buildRequest test_config (test_ports\<lparr>xp_Open := Some (\<lambda>z. map_sum Dom id (vault_Open test_crypto (Some (test_key (CHR ''p''))) z))\<rparr>)
       test_request (credential.truncate b) = Inr q \<and>
     auth_values AuthBearer ''sk-1'' (hq_header q)"
proof -
  let ?v = "Some (test_key (CHR ''p''))"
  let ?xp = "test_ports\<lparr>xp_Open := Some (\<lambda>z. map_sum Dom id (vault_Open test_crypto ?v z))\<rparr>"
  obtain s w where s: "vault_Seal test_crypto ?v ''sk-1'' 8 = (Inr s, w)"
    using Seal_succeeds [OF test_crypto_laws test_key_size(1)] by (metis test_vault_Seal)
  have opened: "vault_Open test_crypto ?v s = Inr ''sk-1''"
    using s seal_open [OF test_crypto_laws(1)] by (auto simp: vault_Seal_def vault_Open_def split: if_splits)
  then have "\<not> isl (ParseEnvelope s)" by (auto simp: vault_Open_def Open_def split: if_splits sum.splits)
  moreover from this have "s \<noteq> ''''" by (auto simp: ParseEnvelope_def)
  ultimately obtain t1 where t1: "cred_Upsert 3 (test_account\<lparr>cr_Sealed := s, cr_AuthMode := AuthAPIKey\<rparr>) [] = (None, t1)"
    by (auto simp: cred_Upsert_def test_account_def validAuthMode_def)
  obtain b where b: "cred_Get ''a1'' t1 = Inr b" "b = test_account\<lparr>cr_Sealed := s, cr_AuthMode := AuthAPIKey\<rparr>\<lparr>ac_CreatedAt := ac_CreatedAt b\<rparr>"
    using upsert_get(1) [OF t1] by (fastforce simp: test_account_def)
  have "cr_AuthMode (credential.truncate b) = AuthAPIKey" "cr_Sealed (credential.truncate b) = s"
    by (subst b(2), simp add: credential.defs)+
  then have "openCredential test_config ?xp (credential.truncate b) = Inr ''sk-1''"
    using \<open>s \<noteq> ''''\<close> by (simp add: openCredential_def opened)
  moreover have "xp_url_error ?xp u = None" for u by (simp add: test_ports_def)
  ultimately obtain q where q: "buildRequest test_config ?xp test_request (credential.truncate b) = Inr q"
    by (simp add: buildRequest_def NewRequest_def)
  have again: "init_secrets test_crypto test_host ''key'' True (Some (b64encode (replicate 16 (char_of (5 :: nat))))) 4
      = (Inr ?v, Some (b64encode (replicate 16 (char_of (5 :: nat)))), 4)"
    by (rule restart_same_vault [OF test_crypto_laws(1) test_boot])
  have id: "cr_ID test_account = ''a1''" by (simp add: test_account_def)
  from sealed_key_reaches_upstream [OF test_crypto_laws(1) test_boot s _ t1 again b(1) [folded id] _ q] 
  have "auth_values AuthBearer ''sk-1'' (hq_header q)" by (simp add: test_config_def)
  with s t1 b(1) q show ?thesis by blast
qed

end
