(* ===== verification/Translators.thy ===== *)
theory Translators
  imports Json_Body
begin

text \<open>
  The translators between the OpenAI-shaped pivot and the Anthropic and Gemini dialects,
  \<open>internal/translators\<close>.  Bodies are JSON values as in \<open>Json_Body\<close>; where a translator moves JSON into a string or
  back, the parser and the compact printer of \<open>encoding/json\<close> are parameters.  A number keeps its literal,
  where the code reads a \<open>float64\<close> and prints it again; a literal out of its range is left out.
\<close>

definition CodeTranslateFailed :: string where "CodeTranslateFailed = ''translate.failed''"

record json_text =
  jt_parse :: "string \<Rightarrow> json option"
  jt_text :: "json \<Rightarrow> string"

text \<open>What a translation comes to; marshalling a raw message that is no JSON panics in \<open>mustJSON\<close>.\<close>

datatype 'a translation = Answer 'a | Refused go_error | Panics

definition failed :: "string \<Rightarrow> go_error option \<Rightarrow> domain_error" where
  "failed reason cause = New CodeTranslateFailed ([WithHTTPStatus 502, WithScope ScopeRequest] @
     (case cause of None \<Rightarrow> [] | Some e \<Rightarrow> [WithCause e]) @ [WithParams [(''reason'', reason)]])"

definition providerShapeError :: "string \<Rightarrow> go_error option \<Rightarrow> domain_error" where
  "providerShapeError reason cause = New CodeTranslateFailed ([WithHTTPStatus 502, WithScope ScopeProvider] @
     (case cause of None \<Rightarrow> [] | Some e \<Rightarrow> [WithCause e]) @ [WithParams [(''reason'', reason)]])"

text \<open>An error of \<open>encoding/json\<close>, its text left out.\<close>

definition json_error :: go_error where "json_error = Foreign ''json'' []"

section \<open>Decoding\<close>

text \<open>\<open>decodeJSON\<close> into a target that \<open>dec\<close> reads.\<close>

definition decodeJSON :: "((string \<times> json) list \<Rightarrow> 'a option) \<Rightarrow> body \<Rightarrow> domain_error + 'a" where
  "decodeJSON dec payload =
     (if payload = nil_body then Inl (providerShapeError ''empty provider payload'' None)
      else (case Option.bind (body_struct payload) dec of
          None \<Rightarrow> Inl (providerShapeError ''malformed provider payload'' (Some json_error))
        | Some v \<Rightarrow> Inr v))"

fun all_some :: "'a option list \<Rightarrow> 'a list option" where
  "all_some [] = Some []"
| "all_some (x # xs) = Option.bind x (\<lambda>v. map_option (Cons v) (all_some xs))"

text \<open>A slice of structs: absent and null are the nil slice.\<close>

definition list_field :: "((string \<times> json) list \<Rightarrow> 'a option) \<Rightarrow> string \<Rightarrow> (string \<times> json) list \<Rightarrow> 'a list option" where
  "list_field dec name ms = (case member name ms of
      None \<Rightarrow> Some []
    | Some JNull \<Rightarrow> Some []
    | Some (JArr xs) \<Rightarrow> all_some (map (\<lambda>x. Option.bind (as_struct x) dec) xs)
    | Some _ \<Rightarrow> None)"

definition is_null :: "json option \<Rightarrow> bool" where
  "is_null raw \<longleftrightarrow> raw = None \<or> raw = Some JNull"

text \<open>Pointer fields: \<open>None\<close> inside for a nil pointer.\<close>

definition int_ptr :: "string \<Rightarrow> (string \<times> json) list \<Rightarrow> int option option" where
  "int_ptr name ms = (if is_null (member name ms) then Some None else map_option Some (int_field name ms))"

definition number_ptr :: "string \<Rightarrow> (string \<times> json) list \<Rightarrow> json option option" where
  "number_ptr name ms = (case member name ms of
      None \<Rightarrow> Some None
    | Some JNull \<Rightarrow> Some None
    | Some (JInt n) \<Rightarrow> Some (Some (JInt n))
    | Some (JNum s) \<Rightarrow> Some (Some (JNum s))
    | Some _ \<Rightarrow> None)"

definition struct_ptr :: "((string \<times> json) list \<Rightarrow> 'a option) \<Rightarrow> string \<Rightarrow> (string \<times> json) list \<Rightarrow> 'a option option" where
  "struct_ptr dec name ms = (case member name ms of
      None \<Rightarrow> Some None
    | Some JNull \<Rightarrow> Some None
    | Some (JObj xs) \<Rightarrow> map_option Some (dec xs)
    | Some _ \<Rightarrow> None)"

definition as_string :: "json \<Rightarrow> string option" where
  "as_string j = (case j of JStr s \<Rightarrow> Some s | JNull \<Rightarrow> Some '''' | _ \<Rightarrow> None)"

text \<open>\<open>stringOrSlice\<close>.\<close>

definition stop_field :: "(string \<times> json) list \<Rightarrow> string list option" where
  "stop_field ms = (case member ''stop'' ms of
      None \<Rightarrow> Some []
    | Some JNull \<Rightarrow> Some []
    | Some (JStr s) \<Rightarrow> Some [s]
    | Some (JArr xs) \<Rightarrow> all_some (map as_string xs)
    | Some _ \<Rightarrow> None)"

section \<open>The pivot\<close>

record canonical_function =
  cf_Name :: string
  cf_Description :: string
  cf_Parameters :: "json option"
  cf_Arguments :: string

record canonical_tool =
  ct_ID :: string
  ct_Type :: string
  ct_Function :: canonical_function

record canonical_msg =
  cm_Role :: string
  cm_Content :: "json option"
  cm_ToolCalls :: "canonical_tool list"
  cm_ToolCallID :: string
  cm_Name :: string

record canonical_part =
  cp_Type :: string
  cp_Text :: string
  cp_ImageURL :: "string option"

record canonical_request =
  cq_Model :: string
  cq_Messages :: "canonical_msg list"
  cq_Tools :: "canonical_tool list"
  cq_ToolChoice :: "json option"
  cq_MaxTokens :: "int option"
  cq_MaxCompletionTokens :: "int option"
  cq_Temperature :: "json option"
  cq_TopP :: "json option"
  cq_Stop :: "string list"

definition dec_function :: "(string \<times> json) list \<Rightarrow> canonical_function option" where
  "dec_function ms = Option.bind (string_field ''name'' ms) (\<lambda>n. Option.bind (string_field ''description'' ms) (\<lambda>d.
     map_option (\<lambda>a. \<lparr>cf_Name = n, cf_Description = d, cf_Parameters = member ''parameters'' ms, cf_Arguments = a\<rparr>)
       (string_field ''arguments'' ms)))"

definition dec_tool :: "(string \<times> json) list \<Rightarrow> canonical_tool option" where
  "dec_tool ms = Option.bind (string_field ''id'' ms) (\<lambda>i. Option.bind (string_field ''type'' ms) (\<lambda>t.
     Option.bind (obj_field ''function'' ms) (\<lambda>f. map_option (\<lambda>fn. \<lparr>ct_ID = i, ct_Type = t, ct_Function = fn\<rparr>) (dec_function f))))"

definition dec_msg :: "(string \<times> json) list \<Rightarrow> canonical_msg option" where
  "dec_msg ms = Option.bind (string_field ''role'' ms) (\<lambda>r. Option.bind (list_field dec_tool ''tool_calls'' ms) (\<lambda>tc.
     Option.bind (string_field ''tool_call_id'' ms) (\<lambda>i. map_option (\<lambda>n. \<lparr>cm_Role = r, cm_Content = member ''content'' ms,
       cm_ToolCalls = tc, cm_ToolCallID = i, cm_Name = n\<rparr>) (string_field ''name'' ms))))"

definition dec_part :: "(string \<times> json) list \<Rightarrow> canonical_part option" where
  "dec_part ms = Option.bind (string_field ''type'' ms) (\<lambda>t. Option.bind (string_field ''text'' ms) (\<lambda>x.
     map_option (\<lambda>u. \<lparr>cp_Type = t, cp_Text = x, cp_ImageURL = u\<rparr>) (struct_ptr (string_field ''url'') ''image_url'' ms)))"

text \<open>The fields that are read but not translated must decode too.\<close>

definition unused_fields_ok :: "(string \<times> json) list \<Rightarrow> bool" where
  "unused_fields_ok ms \<longleftrightarrow> bool_field ''stream'' ms \<noteq> None \<and> int_ptr ''n'' ms \<noteq> None \<and> int_ptr ''seed'' ms \<noteq> None \<and>
     bool_field ''parallel_tool_calls'' ms \<noteq> None \<and> struct_ptr (bool_field ''include_usage'') ''stream_options'' ms \<noteq> None \<and>
     number_ptr ''frequency_penalty'' ms \<noteq> None \<and> number_ptr ''presence_penalty'' ms \<noteq> None \<and> string_field ''user'' ms \<noteq> None \<and>
     bool_field ''logprobs'' ms \<noteq> None \<and> int_ptr ''top_logprobs'' ms \<noteq> None"

definition dec_request :: "(string \<times> json) list \<Rightarrow> canonical_request option" where
  "dec_request ms = (if \<not> unused_fields_ok ms then None else
     Option.bind (string_field ''model'' ms) (\<lambda>m. Option.bind (list_field dec_msg ''messages'' ms) (\<lambda>msgs.
     Option.bind (list_field dec_tool ''tools'' ms) (\<lambda>tools. Option.bind (int_ptr ''max_tokens'' ms) (\<lambda>mt.
     Option.bind (int_ptr ''max_completion_tokens'' ms) (\<lambda>mc. Option.bind (number_ptr ''temperature'' ms) (\<lambda>t.
     Option.bind (number_ptr ''top_p'' ms) (\<lambda>tp. map_option (\<lambda>st. \<lparr>cq_Model = m, cq_Messages = msgs, cq_Tools = tools,
       cq_ToolChoice = member ''tool_choice'' ms, cq_MaxTokens = mt, cq_MaxCompletionTokens = mc, cq_Temperature = t, cq_TopP = tp,
       cq_Stop = st\<rparr>) (stop_field ms)))))))))"

definition splitContent :: "json option \<Rightarrow> domain_error + canonical_part list" where
  "splitContent raw = (case raw of
      None \<Rightarrow> Inr []
    | Some JNull \<Rightarrow> Inr []
    | Some (JStr text) \<Rightarrow> Inr [\<lparr>cp_Type = ''text'', cp_Text = text, cp_ImageURL = None\<rparr>]
    | Some (JArr xs) \<Rightarrow> (case all_some (map (\<lambda>x. Option.bind (as_struct x) dec_part) xs) of
          None \<Rightarrow> Inl (failed ''invalid message content array'' (Some json_error)) | Some parts \<Rightarrow> Inr parts)
    | Some _ \<Rightarrow> Inl (failed ''message content must be a string or an array'' None))"

definition joinText :: "canonical_part list \<Rightarrow> string" where
  "joinText parts = concat (map cp_Text (filter (\<lambda>p. cp_Type p = ''text'') parts))"

definition compactRaw :: "json_text \<Rightarrow> json option \<Rightarrow> string \<Rightarrow> string" where
  "compactRaw J raw fallback = (case raw of None \<Rightarrow> fallback | Some JNull \<Rightarrow> fallback | Some j \<Rightarrow> jt_text J j)"

section \<open>Encoding\<close>

text \<open>Members left out when empty.\<close>

definition unless :: "bool \<Rightarrow> string \<Rightarrow> json \<Rightarrow> (string \<times> json) list" where
  "unless b k v = (if b then [] else [(k, v)])"

definition opt_str :: "string \<Rightarrow> string \<Rightarrow> (string \<times> json) list" where
  "opt_str k s = unless (s = '''') k (JStr s)"

definition opt_raw :: "string \<Rightarrow> json option \<Rightarrow> (string \<times> json) list" where
  "opt_raw k raw = (case raw of None \<Rightarrow> [] | Some j \<Rightarrow> [(k, j)])"

record canonical_usage =
  cu_Prompt :: int
  cu_Completion :: int
  cu_Total :: int

definition enc_usage :: "canonical_usage option \<Rightarrow> (string \<times> json) list" where
  "enc_usage u = (case u of None \<Rightarrow> [] | Some u \<Rightarrow> [(''usage'', JObj [(''prompt_tokens'', JInt (cu_Prompt u)),
     (''completion_tokens'', JInt (cu_Completion u)), (''total_tokens'', JInt (cu_Total u))])])"

definition enc_function :: "canonical_function \<Rightarrow> json" where
  "enc_function f = JObj (opt_str ''name'' (cf_Name f) @ opt_str ''description'' (cf_Description f) @ opt_raw ''parameters'' (cf_Parameters f) @
     opt_str ''arguments'' (cf_Arguments f))"

definition enc_tool :: "canonical_tool \<Rightarrow> json" where
  "enc_tool t = JObj (opt_str ''id'' (ct_ID t) @ opt_str ''type'' (ct_Type t) @ [(''function'', enc_function (ct_Function t))])"

definition enc_msg :: "canonical_msg \<Rightarrow> json" where
  "enc_msg m = JObj ([(''role'', JStr (cm_Role m))] @ opt_raw ''content'' (cm_Content m) @
     unless (cm_ToolCalls m = []) ''tool_calls'' (JArr (map enc_tool (cm_ToolCalls m))) @ opt_str ''tool_call_id'' (cm_ToolCallID m) @
     opt_str ''name'' (cm_Name m))"

definition enc_response :: "string \<Rightarrow> string \<Rightarrow> canonical_msg \<Rightarrow> string \<Rightarrow> canonical_usage option \<Rightarrow> json" where
  "enc_response i model msg finish u = JObj ([(''id'', JStr i), (''object'', JStr ''chat.completion''), (''created'', JInt 0),
     (''model'', JStr model), (''choices'', JArr [JObj [(''index'', JInt 0), (''message'', enc_msg msg), (''finish_reason'', JStr finish)]])] @
     enc_usage u)"

record canonical_delta =
  cd_Role :: string
  cd_Content :: string
  cd_ToolCalls :: "(int \<times> canonical_tool) list"

definition enc_delta_tool :: "int \<times> canonical_tool \<Rightarrow> json" where
  "enc_delta_tool x = (case x of (n, t) \<Rightarrow> JObj ([(''index'', JInt n)] @ opt_str ''id'' (ct_ID t) @ opt_str ''type'' (ct_Type t) @
     [(''function'', enc_function (ct_Function t))]))"

definition enc_delta :: "canonical_delta \<Rightarrow> json" where
  "enc_delta d = JObj (opt_str ''role'' (cd_Role d) @ opt_str ''content'' (cd_Content d) @
     unless (cd_ToolCalls d = []) ''tool_calls'' (JArr (map enc_delta_tool (cd_ToolCalls d))))"

definition enc_chunk :: "string \<Rightarrow> canonical_delta \<Rightarrow> string \<Rightarrow> canonical_usage option \<Rightarrow> json" where
  "enc_chunk model d finish u = JObj ([(''object'', JStr ''chat.completion.chunk''), (''created'', JInt 0), (''model'', JStr model),
     (''choices'', JArr [JObj ([(''index'', JInt 0), (''delta'', enc_delta d)] @ opt_str ''finish_reason'' finish)])] @ enc_usage u)"

definition empty_delta :: canonical_delta where
  "empty_delta = \<lparr>cd_Role = '''', cd_Content = '''', cd_ToolCalls = []\<rparr>"

definition assistant_msg :: canonical_msg where
  "assistant_msg = \<lparr>cm_Role = ''assistant'', cm_Content = None, cm_ToolCalls = [], cm_ToolCallID = '''', cm_Name = ''''\<rparr>"

definition call_function :: "string \<Rightarrow> string \<Rightarrow> canonical_function" where
  "call_function name args = \<lparr>cf_Name = name, cf_Description = '''', cf_Parameters = None, cf_Arguments = args\<rparr>"

end
