(* ===== verification/Anthropic.thy ===== *)
theory Anthropic
  imports Translators
begin

text \<open>
  The Anthropic translator, \<open>internal/translators/anthropic.go\<close>.
\<close>

section \<open>Requests to Anthropic\<close>

definition anthropicMaxTokensDefault :: int where "anthropicMaxTokensDefault = 4096"

definition splitDataURL :: "string \<Rightarrow> (string \<times> string) option" where
  "splitDataURL raw = (if take 5 raw \<noteq> ''data:'' then None
     else (let rest = drop 5 raw; meta = takeWhile (\<lambda>c. c \<noteq> CHR '','') rest in
       if meta = rest then None
       else if length meta < 7 \<or> drop (length meta - 7) meta \<noteq> '';base64'' then None
       else Some (take (length meta - 7) meta, drop (length meta + 1) rest)))"

definition imageSource :: "string \<Rightarrow> json" where
  "imageSource url = (case splitDataURL url of
      Some (media, data) \<Rightarrow> JObj ([(''type'', JStr ''base64'')] @ opt_str ''media_type'' media @ opt_str ''data'' data)
    | None \<Rightarrow> JObj ([(''type'', JStr ''url'')] @ opt_str ''url'' url))"

definition anthropicRole :: "string \<Rightarrow> string" where
  "anthropicRole role = (if role = ''assistant'' then ''assistant'' else ''user'')"

definition part_block :: "canonical_part \<Rightarrow> json list" where
  "part_block p =
     (if cp_Type p = ''text'' then (if cp_Text p \<noteq> '''' then [JObj [(''type'', JStr ''text''), (''text'', JStr (cp_Text p))]] else [])
      else if cp_Type p = ''image_url'' then (case cp_ImageURL p of None \<Rightarrow> []
        | Some url \<Rightarrow> if url \<noteq> '''' then [JObj [(''type'', JStr ''image''), (''source'', imageSource url)]] else [])
      else [])"

text \<open>The arguments of a call are a string; as a raw message they must be JSON.\<close>

definition call_block :: "json_text \<Rightarrow> canonical_tool \<Rightarrow> json option" where
  "call_block J c = (let args = cf_Arguments (ct_Function c) in
     map_option (\<lambda>input. JObj ([(''type'', JStr ''tool_use'')] @ opt_str ''id'' (ct_ID c) @ opt_str ''name'' (cf_Name (ct_Function c)) @
       [(''input'', input)])) (if args = '''' then Some (JObj []) else jt_parse J args))"

text \<open>\<open>mustJSON(toAnthropicBlocks(...))\<close>, which panics on a call whose arguments are no JSON.\<close>

definition toAnthropicBlocks :: "json_text \<Rightarrow> canonical_part list \<Rightarrow> canonical_tool list \<Rightarrow> json list option" where
  "toAnthropicBlocks J parts calls = map_option (\<lambda>bs. concat (map part_block parts) @ bs) (all_some (map (call_block J) calls))"

definition anth_message :: "string \<Rightarrow> json list \<Rightarrow> json" where
  "anth_message role blocks = JObj [(''role'', JStr role), (''content'', JArr blocks)]"

definition tool_result_message :: "canonical_msg \<Rightarrow> json" where
  "tool_result_message m = anth_message ''user'' [JObj ([(''type'', JStr ''tool_result'')] @ opt_str ''tool_use_id'' (cm_ToolCallID m) @
     opt_raw ''content'' (cm_Content m))]"

text \<open>The loop over the messages: system texts and translated messages, in order.\<close>

fun anth_messages :: "json_text \<Rightarrow> canonical_msg list \<Rightarrow> (string list \<times> json list) translation" where
  "anth_messages J [] = Answer ([], [])"
| "anth_messages J (m # ms) = (case splitContent (cm_Content m) of Inl e \<Rightarrow> Refused (Dom e) | Inr parts \<Rightarrow>
     if cm_Role m \<in> {''system'', ''developer''} then
       (case anth_messages J ms of Answer (sys, out) \<Rightarrow> Answer ((if joinText parts = '''' then sys else joinText parts # sys), out) | r \<Rightarrow> r)
     else if cm_Role m = ''tool'' then
       (case anth_messages J ms of Answer (sys, out) \<Rightarrow> Answer (sys, tool_result_message m # out) | r \<Rightarrow> r)
     else (case toAnthropicBlocks J parts (cm_ToolCalls m) of None \<Rightarrow> Panics | Some blocks \<Rightarrow>
       (case anth_messages J ms of Answer (sys, out) \<Rightarrow> Answer (sys, anth_message (anthropicRole (cm_Role m)) blocks # out) | r \<Rightarrow> r)))"

definition named_function :: "json \<Rightarrow> string option" where
  "named_function j = Option.bind (as_struct j) (\<lambda>ms. Option.bind (string_field ''type'' ms) (\<lambda>t. Option.bind (obj_field ''function'' ms) (\<lambda>f.
     Option.bind (string_field ''name'' f) (\<lambda>n. if t = ''function'' \<and> n \<noteq> '''' then Some n else None))))"

definition toAnthropicToolChoice :: "json option \<Rightarrow> json option" where
  "toAnthropicToolChoice raw = (case raw of
      None \<Rightarrow> None
    | Some JNull \<Rightarrow> None
    | Some (JStr s) \<Rightarrow> (if s = ''auto'' then Some (JObj [(''type'', JStr ''auto'')])
        else if s = ''required'' then Some (JObj [(''type'', JStr ''any'')]) else None)
    | Some j \<Rightarrow> map_option (\<lambda>n. JObj [(''type'', JStr ''tool''), (''name'', JStr n)]) (named_function j))"

definition anth_tool :: "canonical_tool \<Rightarrow> json" where
  "anth_tool t = (let f = ct_Function t in JObj ([(''name'', JStr (cf_Name f))] @ opt_str ''description'' (cf_Description f) @
     [(''input_schema'', case cf_Parameters f of None \<Rightarrow> JNull | Some p \<Rightarrow> p)]))"

definition max_tokens_of :: "canonical_request \<Rightarrow> int" where
  "max_tokens_of q = (case cq_MaxTokens q of Some n \<Rightarrow> n
     | None \<Rightarrow> (case cq_MaxCompletionTokens q of Some n \<Rightarrow> n | None \<Rightarrow> anthropicMaxTokensDefault))"

definition join_paragraphs :: "string list \<Rightarrow> string" where
  "join_paragraphs xs = (case xs of [] \<Rightarrow> '''' | x # r \<Rightarrow> x @ concat (map (\<lambda>y. [CHR 0x0A, CHR 0x0A] @ y) r))"

definition anthropic_Request :: "json_text \<Rightarrow> body \<Rightarrow> string \<Rightarrow> bool \<Rightarrow> json translation" where
  "anthropic_Request J canonical model stream = (case decodeJSON dec_request canonical of Inl e \<Rightarrow> Refused (Dom e) | Inr q \<Rightarrow>
     (case anth_messages J (cq_Messages q) of Refused e \<Rightarrow> Refused e | Panics \<Rightarrow> Panics | Answer (sys, out) \<Rightarrow>
       Answer (JObj ([(''model'', JStr (if model = '''' then cq_Model q else model))] @
         unless (sys = []) ''system'' (JStr (join_paragraphs sys)) @
         [(''messages'', JArr out), (''max_tokens'', JInt (max_tokens_of q))] @
         opt_raw ''temperature'' (cq_Temperature q) @ opt_raw ''top_p'' (cq_TopP q) @
         unless (cq_Stop q = []) ''stop_sequences'' (JArr (map JStr (cq_Stop q))) @
         unless (cq_Tools q = []) ''tools'' (JArr (map anth_tool (cq_Tools q))) @
         opt_raw ''tool_choice'' (toAnthropicToolChoice (cq_ToolChoice q)) @
         unless (\<not> stream) ''stream'' (JBool True)))))"

section \<open>Answers of Anthropic\<close>

definition anthropicFinishReason :: "string \<Rightarrow> string" where
  "anthropicFinishReason reason =
     (if reason = ''end_turn'' then ''stop'' else if reason = ''max_tokens'' then ''length''
      else if reason = ''tool_use'' then ''tool_calls'' else if reason = ''stop_sequence'' then ''stop'' else reason)"

record anth_block =
  ab_Type :: string
  ab_Text :: string
  ab_ID :: string
  ab_Name :: string
  ab_Input :: "json option"

text \<open>Blocks and usage; the fields an answer does not use must decode too.\<close>

definition image_source_ok :: "(string \<times> json) list \<Rightarrow> unit option" where
  "image_source_ok ms = (if string_field ''type'' ms \<noteq> None \<and> string_field ''media_type'' ms \<noteq> None \<and> string_field ''data'' ms \<noteq> None \<and>
     string_field ''url'' ms \<noteq> None then Some () else None)"

definition dec_block :: "(string \<times> json) list \<Rightarrow> anth_block option" where
  "dec_block ms = (if struct_ptr image_source_ok ''source'' ms = None \<or> string_field ''tool_use_id'' ms = None \<or> bool_field ''is_error'' ms = None then None
     else Option.bind (string_field ''type'' ms) (\<lambda>t. Option.bind (string_field ''text'' ms) (\<lambda>x. Option.bind (string_field ''id'' ms) (\<lambda>i.
       map_option (\<lambda>n. \<lparr>ab_Type = t, ab_Text = x, ab_ID = i, ab_Name = n, ab_Input = member ''input'' ms\<rparr>) (string_field ''name'' ms)))))"

definition dec_anth_usage :: "(string \<times> json) list \<Rightarrow> (int \<times> int) option" where
  "dec_anth_usage ms = Option.bind (int_field ''input_tokens'' ms) (\<lambda>i. map_option (Pair i) (int_field ''output_tokens'' ms))"

definition usage_of_pair :: "(int \<times> int) option \<Rightarrow> canonical_usage option" where
  "usage_of_pair u = map_option (\<lambda>(i, out). \<lparr>cu_Prompt = i, cu_Completion = out, cu_Total = wrap64 (i + out)\<rparr>) u"

record anth_response =
  ar_ID :: string
  ar_Model :: string
  ar_Content :: "anth_block list"
  ar_StopReason :: string
  ar_Usage :: "(int \<times> int) option"

definition dec_anth_response :: "(string \<times> json) list \<Rightarrow> anth_response option" where
  "dec_anth_response ms = (if string_field ''type'' ms = None \<or> string_field ''role'' ms = None then None
     else Option.bind (string_field ''id'' ms) (\<lambda>i. Option.bind (string_field ''model'' ms) (\<lambda>m. Option.bind (list_field dec_block ''content'' ms) (\<lambda>c.
       Option.bind (string_field ''stop_reason'' ms) (\<lambda>s. map_option (\<lambda>u. \<lparr>ar_ID = i, ar_Model = m, ar_Content = c, ar_StopReason = s, ar_Usage = u\<rparr>)
         (struct_ptr dec_anth_usage ''usage'' ms))))))"

definition tool_use_call :: "json_text \<Rightarrow> anth_block \<Rightarrow> canonical_tool" where
  "tool_use_call J b = \<lparr>ct_ID = ab_ID b, ct_Type = ''function'', ct_Function = call_function (ab_Name b) (compactRaw J (ab_Input b) ''{}'')\<rparr>"

definition anthropic_ResponseFull :: "json_text \<Rightarrow> body \<Rightarrow> string \<Rightarrow> domain_error + json" where
  "anthropic_ResponseFull J payload model = (case decodeJSON dec_anth_response payload of Inl e \<Rightarrow> Inl e | Inr r \<Rightarrow>
     (let texts = map ab_Text (filter (\<lambda>b. ab_Type b = ''text'') (ar_Content r));
          calls = map (tool_use_call J) (filter (\<lambda>b. ab_Type b = ''tool_use'') (ar_Content r));
          msg = assistant_msg\<lparr>cm_Content := (if texts = [] then None else Some (JStr (concat texts))), cm_ToolCalls := calls\<rparr>
      in Inr (enc_response (ar_ID r) (if model = '''' then ar_Model r else model) msg (anthropicFinishReason (ar_StopReason r)) (usage_of_pair (ar_Usage r)))))"

record anth_delta =
  ad_Type :: string
  ad_Text :: string
  ad_PartialJSON :: string
  ad_StopReason :: string

definition dec_anth_delta :: "(string \<times> json) list \<Rightarrow> anth_delta option" where
  "dec_anth_delta ms = Option.bind (string_field ''type'' ms) (\<lambda>t. Option.bind (string_field ''text'' ms) (\<lambda>x.
     Option.bind (string_field ''partial_json'' ms) (\<lambda>p. map_option (\<lambda>s. \<lparr>ad_Type = t, ad_Text = x, ad_PartialJSON = p, ad_StopReason = s\<rparr>)
       (string_field ''stop_reason'' ms))))"

record anth_event =
  ae_Type :: string
  ae_Index :: int
  ae_Model :: "string option"
  ae_Block :: "(string \<times> string \<times> string) option"
  ae_Delta :: "anth_delta option"
  ae_Usage :: "(int \<times> int) option"

definition dec_event_message :: "(string \<times> json) list \<Rightarrow> string option" where
  "dec_event_message ms = (if string_field ''id'' ms = None \<or> struct_ptr dec_anth_usage ''usage'' ms = None then None else string_field ''model'' ms)"

definition dec_event_block :: "(string \<times> json) list \<Rightarrow> (string \<times> string \<times> string) option" where
  "dec_event_block ms = Option.bind (string_field ''type'' ms) (\<lambda>t. Option.bind (string_field ''id'' ms) (\<lambda>i.
     map_option (\<lambda>n. (t, i, n)) (string_field ''name'' ms)))"

definition dec_event :: "(string \<times> json) list \<Rightarrow> anth_event option" where
  "dec_event ms = Option.bind (string_field ''type'' ms) (\<lambda>t. Option.bind (int_field ''index'' ms) (\<lambda>n.
     Option.bind (struct_ptr dec_event_message ''message'' ms) (\<lambda>m. Option.bind (struct_ptr dec_event_block ''content_block'' ms) (\<lambda>b.
     Option.bind (struct_ptr dec_anth_delta ''delta'' ms) (\<lambda>d. map_option (\<lambda>u. \<lparr>ae_Type = t, ae_Index = n, ae_Model = m, ae_Block = b,
       ae_Delta = d, ae_Usage = u\<rparr>) (struct_ptr dec_anth_usage ''usage'' ms))))))"

text \<open>The chunk of an event, when it has one.\<close>

definition event_chunk :: "anth_event \<Rightarrow> string \<Rightarrow> json option" where
  "event_chunk ev model =
     (if ae_Type ev = ''message_start'' then
        (let m = (case ae_Model ev of Some m1 \<Rightarrow> if m1 \<noteq> '''' then m1 else model | None \<Rightarrow> model) in
         Some (enc_chunk m (empty_delta\<lparr>cd_Role := ''assistant''\<rparr>) '''' None))
      else if ae_Type ev = ''content_block_delta'' then
        (case ae_Delta ev of None \<Rightarrow> None | Some d \<Rightarrow>
          if ad_Type d = ''text_delta'' then Some (enc_chunk model (empty_delta\<lparr>cd_Content := ad_Text d\<rparr>) '''' None)
          else if ad_Type d = ''input_json_delta'' then
            Some (enc_chunk model (empty_delta\<lparr>cd_ToolCalls := [(ae_Index ev, \<lparr>ct_ID = '''', ct_Type = ''function'', ct_Function = call_function '''' (ad_PartialJSON d)\<rparr>)]\<rparr>) '''' None)
          else None)
      else if ae_Type ev = ''content_block_start'' then
        (case ae_Block ev of None \<Rightarrow> None | Some (t, i, n) \<Rightarrow>
          if t \<noteq> ''tool_use'' then None
          else Some (enc_chunk model (empty_delta\<lparr>cd_ToolCalls := [(ae_Index ev, \<lparr>ct_ID = i, ct_Type = ''function'', ct_Function = call_function n ''''\<rparr>)]\<rparr>) '''' None))
      else if ae_Type ev = ''message_delta'' then
        Some (enc_chunk model empty_delta (case ae_Delta ev of None \<Rightarrow> '''' | Some d \<Rightarrow> anthropicFinishReason (ad_StopReason d)) (usage_of_pair (ae_Usage ev)))
      else None)"

definition anthropic_ResponseChunk :: "body \<Rightarrow> string \<Rightarrow> domain_error + json option" where
  "anthropic_ResponseChunk payload model = (case decodeJSON dec_event payload of Inl e \<Rightarrow> Inl e | Inr ev \<Rightarrow> Inr (event_chunk ev model))"

end
