(* ===== verification/Gemini.thy ===== *)
theory Gemini
  imports Anthropic
begin

text \<open>
  The Gemini translator, \<open>internal/translators/gemini.go\<close>, which the Cloud Code executor uses.  Here a raw message
  that is no JSON is met by \<open>marshalCanonical\<close>, after all messages were read, and is an error of \<open>encoding/json\<close>.
\<close>

section \<open>Requests to Gemini\<close>

definition isSpace :: "char \<Rightarrow> bool" where
  "isSpace c \<longleftrightarrow> c = CHR '' '' \<or> c = CHR 0x09 \<or> c = CHR 0x0A \<or> c = CHR 0x0D"

definition trimSpace :: "string \<Rightarrow> string" where
  "trimSpace b = rev (dropWhile isSpace (rev (dropWhile isSpace b)))"

text \<open>\<open>isJSONNull\<close> and \<open>normalizeRaw\<close> on the text of a raw message: \<open>None\<close> when it is no JSON.\<close>

definition isJSONNull :: "string \<Rightarrow> bool" where
  "isJSONNull raw \<longleftrightarrow> raw = '''' \<or> trimSpace raw = ''null''"

definition normalizeRaw :: "json_text \<Rightarrow> string \<Rightarrow> json option" where
  "normalizeRaw J raw = (if isJSONNull raw then Some (JObj []) else jt_parse J raw)"

definition geminiRole :: "string \<Rightarrow> string" where
  "geminiRole role = (if role = ''assistant'' then ''model'' else ''user'')"

definition gem_part :: "canonical_part \<Rightarrow> json list" where
  "gem_part p =
     (if cp_Type p = ''text'' then (if cp_Text p \<noteq> '''' then [JObj [(''text'', JStr (cp_Text p))]] else [])
      else if cp_Type p = ''image_url'' then (case cp_ImageURL p of None \<Rightarrow> []
        | Some url \<Rightarrow> if url = '''' then [] else (case splitDataURL url of
              Some (media, data) \<Rightarrow> [JObj [(''inlineData'', JObj [(''mimeType'', JStr media), (''data'', JStr data)])]]
            | None \<Rightarrow> [JObj [(''fileData'', JObj [(''fileUri'', JStr url)])]]))
      else [])"

definition gem_call :: "json_text \<Rightarrow> canonical_tool \<Rightarrow> json option" where
  "gem_call J c = map_option (\<lambda>args. JObj [(''functionCall'', JObj [(''name'', JStr (cf_Name (ct_Function c))), (''args'', args)])])
     (normalizeRaw J (cf_Arguments (ct_Function c)))"

definition toGeminiParts :: "json_text \<Rightarrow> canonical_part list \<Rightarrow> canonical_tool list \<Rightarrow> json list option" where
  "toGeminiParts J parts calls = map_option (\<lambda>cs. concat (map gem_part parts) @ cs) (all_some (map (gem_call J) calls))"

definition gem_content :: "string \<Rightarrow> json list \<Rightarrow> json" where
  "gem_content role parts = JObj (opt_str ''role'' role @ [(''parts'', JArr parts)])"

definition function_response :: "canonical_msg \<Rightarrow> json" where
  "function_response m = gem_content ''user'' [JObj [(''functionResponse'', JObj [(''name'', JStr (cm_ToolCallID m)),
     (''response'', (case cm_Content m of None \<Rightarrow> JObj [] | Some JNull \<Rightarrow> JObj [] | Some j \<Rightarrow> j))])]]"

text \<open>The loop over the messages: system texts and contents, \<open>None\<close> for a content that does not marshal.\<close>

fun gem_messages :: "json_text \<Rightarrow> canonical_msg list \<Rightarrow> domain_error + (string list \<times> json option list)" where
  "gem_messages J [] = Inr ([], [])"
| "gem_messages J (m # ms) = (case splitContent (cm_Content m) of Inl e \<Rightarrow> Inl e | Inr parts \<Rightarrow>
     (case gem_messages J ms of Inl e \<Rightarrow> Inl e | Inr (sys, out) \<Rightarrow>
       if cm_Role m \<in> {''system'', ''developer''} then Inr (if joinText parts = '''' then sys else joinText parts # sys, out)
       else if cm_Role m = ''tool'' then Inr (sys, Some (function_response m) # out)
       else Inr (sys, map_option (gem_content (geminiRole (cm_Role m))) (toGeminiParts J parts (cm_ToolCalls m)) # out)))"

definition buildGeminiGenerationConfig :: "canonical_request \<Rightarrow> json option" where
  "buildGeminiGenerationConfig q =
     (let mt = (case cq_MaxTokens q of Some n \<Rightarrow> Some n | None \<Rightarrow> cq_MaxCompletionTokens q) in
      if cq_Temperature q = None \<and> cq_TopP q = None \<and> mt = None \<and> cq_Stop q = [] then None
      else Some (JObj (opt_raw ''temperature'' (cq_Temperature q) @ opt_raw ''topP'' (cq_TopP q) @
        opt_raw ''maxOutputTokens'' (map_option JInt mt) @
        unless (cq_Stop q = []) ''stopSequences'' (JArr (map JStr (cq_Stop q))))))"

definition calling_config :: "string \<Rightarrow> string list \<Rightarrow> json" where
  "calling_config mode allowed = JObj [(''functionCallingConfig'', JObj ([(''mode'', JStr mode)] @
     unless (allowed = []) ''allowedFunctionNames'' (JArr (map JStr allowed))))]"

definition toGeminiToolConfig :: "json option \<Rightarrow> json option" where
  "toGeminiToolConfig raw = (case raw of
      None \<Rightarrow> None
    | Some JNull \<Rightarrow> None
    | Some (JStr s) \<Rightarrow> (if s = ''none'' then Some (calling_config ''NONE'' [])
        else if s = ''required'' then Some (calling_config ''ANY'' [])
        else if s = ''auto'' then Some (calling_config ''AUTO'' []) else None)
    | Some j \<Rightarrow> map_option (\<lambda>n. calling_config ''ANY'' [n]) (named_function j))"

definition gem_decl :: "canonical_tool \<Rightarrow> json" where
  "gem_decl t = (let f = ct_Function t in JObj ([(''name'', JStr (cf_Name f))] @ opt_str ''description'' (cf_Description f) @
     opt_raw ''parameters'' (cf_Parameters f)))"

definition gemini_Request :: "json_text \<Rightarrow> body \<Rightarrow> string \<Rightarrow> bool \<Rightarrow> json translation" where
  "gemini_Request J canonical model stream = (case decodeJSON dec_request canonical of Inl e \<Rightarrow> Refused (Dom e) | Inr q \<Rightarrow>
     (case gem_messages J (cq_Messages q) of Inl e \<Rightarrow> Refused (Dom e) | Inr (sys, out) \<Rightarrow>
       (case all_some out of None \<Rightarrow> Refused json_error | Some contents \<Rightarrow>
         Answer (JObj ([(''contents'', if contents = [] then JNull else JArr contents)] @
           unless (sys = []) ''systemInstruction'' (gem_content '''' [JObj [(''text'', JStr (join_paragraphs sys))]]) @
           opt_raw ''generationConfig'' (buildGeminiGenerationConfig q) @
           unless (cq_Tools q = []) ''tools'' (JArr [JObj [(''functionDeclarations'', JArr (map gem_decl (cq_Tools q)))]]) @
           opt_raw ''toolConfig'' (toGeminiToolConfig (cq_ToolChoice q)))))))"

section \<open>Answers of Gemini\<close>

definition geminiFinishReason :: "string \<Rightarrow> string" where
  "geminiFinishReason reason =
     (if reason = ''STOP'' then ''stop'' else if reason = ''MAX_TOKENS'' then ''length''
      else if reason \<in> {''SAFETY'', ''RECITATION'', ''BLOCKLIST'', ''PROHIBITED_CONTENT'', ''SPII''} then ''content_filter'' else reason)"

record gem_part_in =
  gp_Text :: string
  gp_Call :: "(string \<times> json option) option"

definition strings_ok :: "string list \<Rightarrow> (string \<times> json) list \<Rightarrow> unit option" where
  "strings_ok names ms = (if list_all (\<lambda>n. string_field n ms \<noteq> None) names then Some () else None)"

definition dec_call :: "(string \<times> json) list \<Rightarrow> (string \<times> json option) option" where
  "dec_call ms = map_option (\<lambda>n. (n, member ''args'' ms)) (string_field ''name'' ms)"

definition dec_gem_part :: "(string \<times> json) list \<Rightarrow> gem_part_in option" where
  "dec_gem_part ms = (if struct_ptr (strings_ok [''mimeType'', ''data'']) ''inlineData'' ms = None \<or>
       struct_ptr (strings_ok [''mimeType'', ''fileUri'']) ''fileData'' ms = None \<or>
       struct_ptr (strings_ok [''name'']) ''functionResponse'' ms = None then None
     else Option.bind (string_field ''text'' ms) (\<lambda>t. map_option (\<lambda>c. \<lparr>gp_Text = t, gp_Call = c\<rparr>) (struct_ptr dec_call ''functionCall'' ms)))"

record gem_candidate =
  gc_Parts :: "gem_part_in list"
  gc_FinishReason :: string

definition dec_candidate :: "(string \<times> json) list \<Rightarrow> gem_candidate option" where
  "dec_candidate ms = Option.bind (obj_field ''content'' ms) (\<lambda>c. if string_field ''role'' c = None then None
     else Option.bind (list_field dec_gem_part ''parts'' c) (\<lambda>ps. map_option (\<lambda>f. \<lparr>gc_Parts = ps, gc_FinishReason = f\<rparr>)
       (string_field ''finishReason'' ms)))"

definition dec_gem_usage :: "(string \<times> json) list \<Rightarrow> canonical_usage option" where
  "dec_gem_usage ms = Option.bind (int_field ''promptTokenCount'' ms) (\<lambda>p. Option.bind (int_field ''candidatesTokenCount'' ms) (\<lambda>c.
     map_option (\<lambda>t. \<lparr>cu_Prompt = p, cu_Completion = c, cu_Total = t\<rparr>) (int_field ''totalTokenCount'' ms)))"

record gem_response =
  gr_Candidates :: "gem_candidate list"
  gr_Usage :: "canonical_usage option"
  gr_ModelVersion :: string

definition dec_gem_response :: "(string \<times> json) list \<Rightarrow> gem_response option" where
  "dec_gem_response ms = Option.bind (list_field dec_candidate ''candidates'' ms) (\<lambda>cs.
     Option.bind (struct_ptr dec_gem_usage ''usageMetadata'' ms) (\<lambda>u. map_option (\<lambda>v. \<lparr>gr_Candidates = cs, gr_Usage = u, gr_ModelVersion = v\<rparr>)
       (string_field ''modelVersion'' ms)))"

text \<open>The switch over the parts: a part with text is text, else a function call is a call.\<close>

definition gem_texts :: "gem_part_in list \<Rightarrow> string list" where
  "gem_texts ps = map gp_Text (filter (\<lambda>p. gp_Text p \<noteq> '''') ps)"

definition function_call :: "json_text \<Rightarrow> string \<times> json option \<Rightarrow> canonical_tool" where
  "function_call J x = (case x of (name, args) \<Rightarrow> \<lparr>ct_ID = '''', ct_Type = ''function'', ct_Function = call_function name (compactRaw J args ''{}'')\<rparr>)"

definition gem_calls :: "json_text \<Rightarrow> gem_part_in list \<Rightarrow> canonical_tool list" where
  "gem_calls J ps = map (function_call J) (List.map_filter (\<lambda>p. if gp_Text p \<noteq> '''' then None else gp_Call p) ps)"

definition gemini_ResponseFull :: "json_text \<Rightarrow> body \<Rightarrow> string \<Rightarrow> domain_error + json" where
  "gemini_ResponseFull J payload model = (case decodeJSON dec_gem_response payload of Inl e \<Rightarrow> Inl e | Inr r \<Rightarrow>
     (let m = (if model = '''' then gr_ModelVersion r else model) in
      Inr (case gr_Candidates r of
          [] \<Rightarrow> enc_response '''' m assistant_msg '''' (gr_Usage r)
        | cand # _ \<Rightarrow> (let texts = gem_texts (gc_Parts cand);
            msg = assistant_msg\<lparr>cm_Content := (if texts = [] then None else Some (JStr (concat texts))), cm_ToolCalls := gem_calls J (gc_Parts cand)\<rparr>
          in enc_response '''' m msg (geminiFinishReason (gc_FinishReason cand)) (gr_Usage r)))))"

text \<open>The delta of a frame: its calls are numbered from zero in every frame.\<close>

definition frame_delta :: "json_text \<Rightarrow> gem_part_in list \<Rightarrow> canonical_delta" where
  "frame_delta J ps = empty_delta\<lparr>cd_Content := concat (gem_texts ps),
     cd_ToolCalls := zip (map int [0..<length (gem_calls J ps)]) (gem_calls J ps)\<rparr>"

definition gemini_ResponseChunk :: "json_text \<Rightarrow> body \<Rightarrow> string \<Rightarrow> domain_error + json option" where
  "gemini_ResponseChunk J payload model = (case decodeJSON dec_gem_response payload of Inl e \<Rightarrow> Inl e | Inr r \<Rightarrow>
     (let (delta, finish) = (case gr_Candidates r of [] \<Rightarrow> (empty_delta, '''')
            | cand # _ \<Rightarrow> (frame_delta J (gc_Parts cand), geminiFinishReason (gc_FinishReason cand)))
      in Inr (if cd_Content delta = '''' \<and> cd_ToolCalls delta = [] \<and> finish = '''' \<and> gr_Usage r = None then None
              else Some (enc_chunk model delta finish (gr_Usage r)))))"

end
