(* ===== verification/Translator_Laws.thy ===== *)
theory Translator_Laws
  imports Gemini
begin

text \<open>
  Laws of the translators.  An OpenAI client is modelled as it reads a \<open>chat.completion\<close> and as it folds the
  chunks of a stream: texts are appended, tool calls are merged by their index.  For Anthropic
  the client sees the same answer whether it streams or not, as far as the fragments of its calls carry
  their inputs; \<open>Gemini_Laws\<close> has the other dialect.
\<close>

section \<open>An OpenAI client\<close>

type_synonym tool_call = "string \<times> string \<times> string"

record client =
  cl_content :: string
  cl_calls :: "(int \<times> tool_call) list"
  cl_finish :: string

definition new_client :: client where
  "new_client = \<lparr>cl_content = '''', cl_calls = [], cl_finish = ''''\<rparr>"

fun obj_of :: "json option \<Rightarrow> (string \<times> json) list" where
  "obj_of (Some (JObj ms)) = ms"
| "obj_of _ = []"

fun str_of :: "json option \<Rightarrow> string" where
  "str_of (Some (JStr s)) = s"
| "str_of _ = ''''"

fun int_of :: "json option \<Rightarrow> int" where
  "int_of (Some (JInt n)) = n"
| "int_of _ = 0"

definition choice_of :: "json \<Rightarrow> (string \<times> json) list" where
  "choice_of j = (case json_array (map_of (obj_of (Some j)) ''choices'') of [] \<Rightarrow> [] | c # _ \<Rightarrow> obj_of (Some c))"

definition call_of :: "json \<Rightarrow> int \<times> tool_call" where
  "call_of j = (let ms = obj_of (Some j); f = obj_of (map_of ms ''function'') in
     (int_of (map_of ms ''index''), str_of (map_of ms ''id''), str_of (map_of f ''name''), str_of (map_of f ''arguments'')))"

definition calls_of :: "(string \<times> json) list \<Rightarrow> (int \<times> tool_call) list" where
  "calls_of ms = map call_of (json_array (map_of ms ''tool_calls''))"

fun append_call :: "tool_call \<Rightarrow> tool_call \<Rightarrow> tool_call" where
  "append_call (i, n, a) (i2, n2, a2) = (i @ i2, n @ n2, a @ a2)"

text \<open>A call of a known index extends the call it has, another one is new.\<close>

definition add_call :: "int \<times> tool_call \<Rightarrow> (int \<times> tool_call) list \<Rightarrow> (int \<times> tool_call) list" where
  "add_call c calls = (if fst c \<in> fst ` set calls
     then map (\<lambda>x. if fst x = fst c then (fst x, append_call (snd x) (snd c)) else x) calls else calls @ [c])"

definition read_chunk :: "json \<Rightarrow> client \<Rightarrow> client" where
  "read_chunk j c = (let ch = choice_of j; d = obj_of (map_of ch ''delta''); f = str_of (map_of ch ''finish_reason'') in
     \<lparr>cl_content = cl_content c @ str_of (map_of d ''content''), cl_calls = fold add_call (calls_of d) (cl_calls c),
      cl_finish = (if f = '''' then cl_finish c else f)\<rparr>)"

text \<open>What the client has in the end: the text, the calls and the finish reason.\<close>

definition answer_of :: "client \<Rightarrow> string \<times> tool_call list \<times> string" where
  "answer_of c = (cl_content c, map snd (cl_calls c), cl_finish c)"

definition read_full :: "json \<Rightarrow> string \<times> tool_call list \<times> string" where
  "read_full j = (let ch = choice_of j; m = obj_of (map_of ch ''message'') in
     (str_of (map_of m ''content''), map snd (calls_of m), str_of (map_of ch ''finish_reason'')))"

text \<open>Reading a stream of provider frames through a translator, \<open>None\<close> if a frame is refused.\<close>

fun read_stream :: "(body \<Rightarrow> domain_error + json option) \<Rightarrow> body list \<Rightarrow> client \<Rightarrow> client option" where
  "read_stream tr [] c = Some c"
| "read_stream tr (e # es) c = (case tr e of Inl _ \<Rightarrow> None | Inr None \<Rightarrow> read_stream tr es c
     | Inr (Some j) \<Rightarrow> read_stream tr es (read_chunk j c))"

lemma read_stream_append:
  "read_stream tr (xs @ ys) c = Option.bind (read_stream tr xs c) (read_stream tr ys)"
  by (induction xs arbitrary: c) (auto split: sum.split option.split)

definition delta_call :: "int \<times> canonical_tool \<Rightarrow> int \<times> tool_call" where
  "delta_call x = (case x of (n, t) \<Rightarrow> (n, ct_ID t, cf_Name (ct_Function t), cf_Arguments (ct_Function t)))"

lemma call_of_delta: "call_of (enc_delta_tool x) = delta_call x"
  by (cases x) (simp add: call_of_def enc_delta_tool_def delta_call_def enc_function_def opt_str_def unless_def opt_raw_def
      Let_def split: option.split)

lemma call_of_tool: "snd (call_of (enc_tool t)) = snd (delta_call (0, t))"
  by (simp add: call_of_def enc_tool_def delta_call_def enc_function_def opt_str_def unless_def opt_raw_def Let_def split: option.split)

lemma all_some_map:
  assumes "\<And>x. x \<in> set xs \<Longrightarrow> f x = Some (g x)"
  shows "all_some (map f xs) = Some (map g xs)"
  using assms by (induction xs) simp_all

lemma all_some_Some: "all_some (map Some xs) = Some xs"
  by (induction xs) simp_all

text \<open>What a chunk and a full answer of the encoders mean to the client.\<close>

lemma read_enc_chunk:
  "read_chunk (enc_chunk model d finish u) c =
     \<lparr>cl_content = cl_content c @ cd_Content d, cl_calls = fold add_call (map delta_call (cd_ToolCalls d)) (cl_calls c),
      cl_finish = (if finish = '''' then cl_finish c else finish)\<rparr>"
proof -
  have d: "map_of (obj_of (Some (enc_delta d))) ''content'' = (if cd_Content d = '''' then None else Some (JStr (cd_Content d)))"
    "calls_of (obj_of (Some (enc_delta d))) = map delta_call (cd_ToolCalls d)"
    by (auto simp: enc_delta_def opt_str_def unless_def calls_of_def call_of_delta json_array_def)
  have "choice_of (enc_chunk model d finish u) = [(''index'', JInt 0), (''delta'', enc_delta d)] @ opt_str ''finish_reason'' finish"
    by (simp add: choice_of_def enc_chunk_def json_array_def enc_usage_def split: option.split)
  then show ?thesis
    by (simp add: read_chunk_def Let_def d opt_str_def unless_def)
qed

lemma read_enc_response:
  assumes "cm_Content m = None \<or> (\<exists>s. cm_Content m = Some (JStr s))"
  shows "read_full (enc_response i model m finish u) =
     (str_of (cm_Content m), map (\<lambda>t. snd (delta_call (0, t))) (cm_ToolCalls m), finish)"
proof -
  have m: "str_of (map_of (obj_of (Some (enc_msg m))) ''content'') = str_of (cm_Content m)"
    "map snd (calls_of (obj_of (Some (enc_msg m)))) = map (\<lambda>t. snd (delta_call (0, t))) (cm_ToolCalls m)"
    using assms by (auto simp: enc_msg_def opt_str_def opt_raw_def unless_def calls_of_def call_of_tool json_array_def split: option.split)
  have "choice_of (enc_response i model m finish u) =
      [(''index'', JInt 0), (''message'', enc_msg m), (''finish_reason'', JStr finish)]"
    by (simp add: choice_of_def enc_response_def json_array_def enc_usage_def split: option.split)
  then show ?thesis by (simp add: read_full_def Let_def m)
qed

section \<open>Streaming an Anthropic message\<close>

text \<open>
  A message as the provider makes it: blocks of text, of tool use and of other kinds, each with the fragments it is
  streamed in.
\<close>

datatype reply_block =
    ReplyText "string list"
  | ReplyTool string string json "string list"
  | ReplyOther string "string list"

record anth_reply =
  rp_id :: string
  rp_model :: string
  rp_blocks :: "reply_block list"
  rp_stop :: string
  rp_input :: int
  rp_output :: int

fun block_json :: "reply_block \<Rightarrow> json" where
  "block_json (ReplyText fs) = JObj [(''type'', JStr ''text''), (''text'', JStr (concat fs))]"
| "block_json (ReplyTool i n input fs) = JObj [(''type'', JStr ''tool_use''), (''id'', JStr i), (''name'', JStr n), (''input'', input)]"
| "block_json (ReplyOther k fs) = JObj [(''type'', JStr k)]"

definition usage_json :: "int \<Rightarrow> int \<Rightarrow> json" where
  "usage_json i out = JObj [(''input_tokens'', JInt i), (''output_tokens'', JInt out)]"

definition reply_body :: "anth_reply \<Rightarrow> body" where
  "reply_body r = Json (JObj [(''id'', JStr (rp_id r)), (''type'', JStr ''message''), (''role'', JStr ''assistant''),
     (''model'', JStr (rp_model r)), (''content'', JArr (map block_json (rp_blocks r))), (''stop_reason'', JStr (rp_stop r)),
     (''usage'', usage_json (rp_input r) (rp_output r))])"

fun start_json :: "reply_block \<Rightarrow> json" where
  "start_json (ReplyText fs) = JObj [(''type'', JStr ''text''), (''text'', JStr '''')]"
| "start_json (ReplyTool i n input fs) = JObj [(''type'', JStr ''tool_use''), (''id'', JStr i), (''name'', JStr n), (''input'', JObj [])]"
| "start_json (ReplyOther k fs) = JObj [(''type'', JStr k)]"

fun delta_jsons :: "reply_block \<Rightarrow> json list" where
  "delta_jsons (ReplyText fs) = map (\<lambda>f. JObj [(''type'', JStr ''text_delta''), (''text'', JStr f)]) fs"
| "delta_jsons (ReplyTool i n input fs) = map (\<lambda>f. JObj [(''type'', JStr ''input_json_delta''), (''partial_json'', JStr f)]) fs"
| "delta_jsons (ReplyOther k fs) = map (\<lambda>f. JObj [(''type'', JStr (k @ ''_delta'')), (k, JStr f)]) fs"

definition block_start :: "nat \<Rightarrow> reply_block \<Rightarrow> body" where
  "block_start n b = Json (JObj [(''type'', JStr ''content_block_start''), (''index'', JInt (int n)), (''content_block'', start_json b)])"

definition block_delta :: "nat \<Rightarrow> json \<Rightarrow> body" where
  "block_delta n d = Json (JObj [(''type'', JStr ''content_block_delta''), (''index'', JInt (int n)), (''delta'', d)])"

definition block_stop :: "nat \<Rightarrow> body" where
  "block_stop n = Json (JObj [(''type'', JStr ''content_block_stop''), (''index'', JInt (int n))])"

definition block_events :: "nat \<Rightarrow> reply_block \<Rightarrow> body list" where
  "block_events n b = [block_start n b] @ map (block_delta n) (delta_jsons b) @ [block_stop n]"

fun blocks_events :: "nat \<Rightarrow> reply_block list \<Rightarrow> body list" where
  "blocks_events n [] = []"
| "blocks_events n (b # bs) = block_events n b @ blocks_events (Suc n) bs"

definition message_start :: "anth_reply \<Rightarrow> body" where
  "message_start r = Json (JObj [(''type'', JStr ''message_start''), (''message'', JObj [(''id'', JStr (rp_id r)),
     (''model'', JStr (rp_model r)), (''usage'', usage_json (rp_input r) 0)])])"

definition message_delta :: "anth_reply \<Rightarrow> body" where
  "message_delta r = Json (JObj [(''type'', JStr ''message_delta''), (''delta'', JObj [(''stop_reason'', JStr (rp_stop r))]),
     (''usage'', JObj [(''output_tokens'', JInt (rp_output r))])])"

definition message_stop :: body where
  "message_stop = Json (JObj [(''type'', JStr ''message_stop'')])"

definition reply_events :: "anth_reply \<Rightarrow> body list" where
  "reply_events r = [message_start r] @ blocks_events 0 (rp_blocks r) @ [message_delta r, message_stop]"

text \<open>The kinds of the other blocks.  Of a call that carries its input the fragments make up the JSON text of
  an input that is not null.\<close>

fun known_block :: "reply_block \<Rightarrow> bool" where
  "known_block (ReplyOther k fs) \<longleftrightarrow> k \<in> {''thinking'', ''redacted_thinking''}"
| "known_block _ \<longleftrightarrow> True"

fun carried :: "json_text \<Rightarrow> reply_block \<Rightarrow> bool" where
  "carried J (ReplyText fs) \<longleftrightarrow> True"
| "carried J (ReplyTool i n input fs) \<longleftrightarrow> input \<noteq> JNull \<and> concat fs = jt_text J input"
| "carried J (ReplyOther k fs) \<longleftrightarrow> k \<in> {''thinking'', ''redacted_thinking''}"

lemma carried_known: "carried J b \<Longrightarrow> known_block b"
  by (cases b) simp_all

definition fits64 :: "int \<Rightarrow> bool" where "fits64 n \<longleftrightarrow> - (2 ^ 63) \<le> n \<and> n < 2 ^ 63"

lemmas decoders = decodeJSON_def nil_body_def body_struct_def as_struct_def member_def fold_eq_def lower_def
  string_field_def int_field_def bool_field_def obj_field_def struct_ptr_def list_field_def

lemma chunk_block_start:
  assumes "n < 2 ^ 63" "known_block b"
  shows "anthropic_ResponseChunk (block_start n b) model = Inr (case b of
      ReplyTool i nm input fs \<Rightarrow> Some (enc_chunk model (empty_delta\<lparr>cd_ToolCalls :=
        [(int n, \<lparr>ct_ID = i, ct_Type = ''function'', ct_Function = call_function nm ''''\<rparr>)]\<rparr>) '''' None)
    | _ \<Rightarrow> None)"
  using assms
  by (cases b) (auto simp: anthropic_ResponseChunk_def block_start_def dec_event_def dec_event_block_def event_chunk_def decoders)

lemma chunk_text_delta:
  assumes "n < 2 ^ 63"
  shows "anthropic_ResponseChunk (block_delta n (JObj [(''type'', JStr ''text_delta''), (''text'', JStr f)])) model =
    Inr (Some (enc_chunk model (empty_delta\<lparr>cd_Content := f\<rparr>) '''' None))"
  using assms by (auto simp: anthropic_ResponseChunk_def block_delta_def dec_event_def dec_anth_delta_def event_chunk_def decoders)

lemma chunk_input_delta:
  assumes "n < 2 ^ 63"
  shows "anthropic_ResponseChunk (block_delta n (JObj [(''type'', JStr ''input_json_delta''), (''partial_json'', JStr f)])) model =
    Inr (Some (enc_chunk model (empty_delta\<lparr>cd_ToolCalls :=
      [(int n, \<lparr>ct_ID = '''', ct_Type = ''function'', ct_Function = call_function '''' f\<rparr>)]\<rparr>) '''' None))"
  using assms by (auto simp: anthropic_ResponseChunk_def block_delta_def dec_event_def dec_anth_delta_def event_chunk_def decoders)

lemma chunk_other_delta:
  assumes "n < 2 ^ 63" "known_block (ReplyOther k fs)" "d \<in> set (delta_jsons (ReplyOther k fs))"
  shows "anthropic_ResponseChunk (block_delta n d) model = Inr None"
  using assms by (auto simp: anthropic_ResponseChunk_def block_delta_def dec_event_def dec_anth_delta_def event_chunk_def decoders)

lemma chunk_block_stop:
  assumes "n < 2 ^ 63"
  shows "anthropic_ResponseChunk (block_stop n) model = Inr None"
  using assms by (auto simp: anthropic_ResponseChunk_def block_stop_def dec_event_def event_chunk_def decoders)

lemma chunk_message_stop: "anthropic_ResponseChunk message_stop model = Inr None"
  by (auto simp: anthropic_ResponseChunk_def message_stop_def dec_event_def event_chunk_def decoders)

lemma chunk_message_start:
  assumes "fits64 (rp_input r)"
  shows "\<exists>m. anthropic_ResponseChunk (message_start r) model =
    Inr (Some (enc_chunk m (empty_delta\<lparr>cd_Role := ''assistant''\<rparr>) '''' None))"
  using assms by (auto simp: anthropic_ResponseChunk_def message_start_def dec_event_def dec_event_message_def dec_anth_usage_def
      usage_json_def fits64_def event_chunk_def decoders Let_def)

lemma chunk_message_delta:
  assumes "fits64 (rp_output r)"
  shows "\<exists>u. anthropic_ResponseChunk (message_delta r) model =
    Inr (Some (enc_chunk model empty_delta (anthropicFinishReason (rp_stop r)) u))"
  using assms by (auto simp: anthropic_ResponseChunk_def message_delta_def dec_event_def dec_anth_delta_def dec_anth_usage_def
      fits64_def event_chunk_def decoders)

fun decoded_block :: "reply_block \<Rightarrow> anth_block" where
  "decoded_block (ReplyText fs) = \<lparr>ab_Type = ''text'', ab_Text = concat fs, ab_ID = '''', ab_Name = '''', ab_Input = None\<rparr>"
| "decoded_block (ReplyTool i nm input fs) = \<lparr>ab_Type = ''tool_use'', ab_Text = '''', ab_ID = i, ab_Name = nm, ab_Input = Some input\<rparr>"
| "decoded_block (ReplyOther k fs) = \<lparr>ab_Type = k, ab_Text = '''', ab_ID = '''', ab_Name = '''', ab_Input = None\<rparr>"

lemma dec_block_json:
  assumes "known_block b"
  shows "Option.bind (as_struct (block_json b)) dec_block = Some (decoded_block b)"
  using assms by (cases b) (auto simp: dec_block_def decoders)


abbreviation anth_stream :: "string \<Rightarrow> body list \<Rightarrow> client \<Rightarrow> client option" where
  "anth_stream model \<equiv> read_stream (\<lambda>e. anthropic_ResponseChunk e model)"

lemma read_text_deltas:
  assumes "n < 2 ^ 63"
  shows "anth_stream model (map (block_delta n) (delta_jsons (ReplyText fs))) c = Some (c\<lparr>cl_content := cl_content c @ concat fs\<rparr>)"
  using assms by (induction fs arbitrary: c) (simp_all add: chunk_text_delta read_enc_chunk empty_delta_def)

lemma read_other_deltas:
  assumes "n < 2 ^ 63" "known_block (ReplyOther k fs)" "set ds \<subseteq> set (delta_jsons (ReplyOther k fs))"
  shows "anth_stream model (map (block_delta n) ds) c = Some c"
  using assms(3)
proof (induction ds)
  case (Cons d ds)
  then have "d \<in> set (delta_jsons (ReplyOther k fs))" "set ds \<subseteq> set (delta_jsons (ReplyOther k fs))" by simp_all
  with Cons.IH chunk_other_delta [OF assms(1,2)] show ?case by simp
qed simp

lemma add_call_last:
  assumes "n \<notin> fst ` set cs"
  shows "add_call (n, '''', '''', f) (cs @ [(n, i, nm, a)]) = cs @ [(n, i, nm, a @ f)]"
  using assms by (force simp: add_call_def intro: map_idI)

lemma read_input_deltas:
  assumes "n < 2 ^ 63" "int n \<notin> fst ` set cs" "cl_calls c = cs @ [(int n, i, nm, a)]"
  shows "anth_stream model (map (block_delta n) (delta_jsons (ReplyTool i nm input fs))) c =
    Some (c\<lparr>cl_calls := cs @ [(int n, i, nm, a @ concat fs)]\<rparr>)"
  using assms(3)
proof (induction fs arbitrary: c a)
  case (Cons f fs)
  let ?c = "c\<lparr>cl_calls := cs @ [(int n, i, nm, a @ f)]\<rparr>"
  have "read_chunk (enc_chunk model (empty_delta\<lparr>cd_ToolCalls :=
      [(int n, \<lparr>ct_ID = '''', ct_Type = ''function'', ct_Function = call_function '''' f\<rparr>)]\<rparr>) '''' None) c = ?c"
    using Cons.prems assms(2) by (simp add: read_enc_chunk empty_delta_def delta_call_def call_function_def add_call_last)
  with Cons.IH [of ?c "a @ f"] show ?case by (simp add: chunk_input_delta [OF assms(1)])
qed simp

fun block_text :: "reply_block \<Rightarrow> string" where
  "block_text (ReplyText fs) = concat fs"
| "block_text _ = ''''"

fun block_calls :: "reply_block \<Rightarrow> tool_call list" where
  "block_calls (ReplyTool i nm input fs) = [(i, nm, concat fs)]"
| "block_calls _ = []"

text \<open>The call of the full answer, and when the fragments tell the same.\<close>

fun full_calls :: "json_text \<Rightarrow> reply_block \<Rightarrow> tool_call list" where
  "full_calls J (ReplyTool i nm input fs) = [(i, nm, if input = JNull then ''{}'' else jt_text J input)]"
| "full_calls J _ = []"

fun told_whole :: "json_text \<Rightarrow> reply_block \<Rightarrow> bool" where
  "told_whole J (ReplyTool i nm input fs) \<longleftrightarrow> concat fs = (if input = JNull then ''{}'' else jt_text J input)"
| "told_whole J _ \<longleftrightarrow> True"

lemma same_calls: "concat (map block_calls bs) = concat (map (full_calls J) bs) \<longleftrightarrow> (\<forall>b \<in> set bs. told_whole J b)"
proof (induction bs)
  case (Cons b bs)
  then show ?case by (cases b) auto
qed simp

text \<open>A block adds its text and its call; its index is new to the client.\<close>

lemma read_block:
  assumes n: "n < 2 ^ 63" and b: "known_block b" and old: "\<forall>x \<in> fst ` set (cl_calls c). x < int n"
  shows "anth_stream model (block_events n b) c = Some (c\<lparr>cl_content := cl_content c @ block_text b,
    cl_calls := cl_calls c @ map (Pair (int n)) (block_calls b)\<rparr>)"
proof (cases b)
  case (ReplyText fs)
  then show ?thesis using chunk_block_start [OF n b, of model] chunk_block_stop [OF n, of model]
      read_text_deltas [OF n, of model fs c]
    by (simp add: block_events_def read_stream_append del: delta_jsons.simps)
next
  case (ReplyOther k fs)
  then show ?thesis using chunk_block_start [OF n b, of model] chunk_block_stop [OF n, of model]
      read_other_deltas [OF n, of k fs "delta_jsons b" model c] b
    by (simp add: block_events_def read_stream_append del: delta_jsons.simps)
next
  case (ReplyTool i nm input fs)
  have new: "int n \<notin> fst ` set (cl_calls c)" using old by auto
  let ?c = "c\<lparr>cl_calls := cl_calls c @ [(int n, i, nm, '''')]\<rparr>"
  have "read_chunk (enc_chunk model (empty_delta\<lparr>cd_ToolCalls :=
      [(int n, \<lparr>ct_ID = i, ct_Type = ''function'', ct_Function = call_function nm ''''\<rparr>)]\<rparr>) '''' None) c = ?c"
    using new by (simp add: read_enc_chunk empty_delta_def delta_call_def call_function_def add_call_def)
  then show ?thesis using ReplyTool chunk_block_start [OF n b, of model] chunk_block_stop [OF n, of model]
      read_input_deltas [OF n new, of ?c i nm "''''" model input fs]
    by (simp add: block_events_def read_stream_append del: delta_jsons.simps)
qed

lemma read_blocks:
  assumes "n + length bs < 2 ^ 63" "\<forall>b \<in> set bs. known_block b" "\<forall>x \<in> fst ` set (cl_calls c). x < int n"
  shows "\<exists>c2. anth_stream model (blocks_events n bs) c = Some c2 \<and> cl_content c2 = cl_content c @ concat (map block_text bs) \<and>
    map snd (cl_calls c2) = map snd (cl_calls c) @ concat (map block_calls bs) \<and> cl_finish c2 = cl_finish c"
  using assms
proof (induction bs arbitrary: n c)
  case (Cons b bs)
  let ?c = "c\<lparr>cl_content := cl_content c @ block_text b, cl_calls := cl_calls c @ map (Pair (int n)) (block_calls b)\<rparr>"
  have b: "anth_stream model (block_events n b) c = Some ?c"
    using Cons.prems by (intro read_block) auto
  have "\<forall>x \<in> fst ` set (cl_calls ?c). x < int (Suc n)" using Cons.prems(3) by force
  with Cons.IH [of "Suc n" ?c] Cons.prems show ?case by (auto simp: read_stream_append b comp_def)
qed simp

lemma dec_blocks:
  assumes "\<forall>b \<in> set bs. known_block b"
  shows "all_some (map (\<lambda>x. Option.bind (as_struct x) dec_block) (map block_json bs)) = Some (map decoded_block bs)"
  unfolding map_map comp_def by (rule all_some_map) (use assms dec_block_json in blast)

lemma decoded_texts:
  assumes "\<forall>b \<in> set bs. known_block b"
  shows "concat (map ab_Text (filter (\<lambda>b. ab_Type b = ''text'') (map decoded_block bs))) = concat (map block_text bs)"
  using assms
proof (induction bs)
  case (Cons b bs)
  then show ?case by (cases b) auto
qed simp

lemma decoded_calls:
  assumes "\<forall>b \<in> set bs. known_block b"
  shows "map (\<lambda>t. snd (delta_call (0, t))) (map (tool_use_call J) (filter (\<lambda>b. ab_Type b = ''tool_use'') (map decoded_block bs))) =
    concat (map (full_calls J) bs)"
  using assms
proof (induction bs)
  case (Cons b bs)
  then show ?case
    by (cases b) (auto simp: tool_use_call_def delta_call_def call_function_def compactRaw_def split: json.splits)
qed simp

lemma dec_reply:
  assumes "\<forall>b \<in> set (rp_blocks r). known_block b" "fits64 (rp_input r)" "fits64 (rp_output r)"
  shows "decodeJSON dec_anth_response (reply_body r) = Inr \<lparr>ar_ID = rp_id r, ar_Model = rp_model r,
      ar_Content = map decoded_block (rp_blocks r), ar_StopReason = rp_stop r, ar_Usage = Some (rp_input r, rp_output r)\<rparr>"
  using assms(2,3) dec_blocks [OF assms(1)]
  by (auto simp: reply_body_def dec_anth_response_def dec_anth_usage_def usage_json_def fits64_def decoders)

lemma content_str: "str_of (if xs = [] then None else Some (JStr (concat xs))) = concat xs"
  by simp

lemma read_full_anthropic:
  assumes "\<forall>b \<in> set (rp_blocks r). known_block b" "fits64 (rp_input r)" "fits64 (rp_output r)"
  shows "\<exists>j. anthropic_ResponseFull J (reply_body r) model = Inr j \<and>
    read_full j = (concat (map block_text (rp_blocks r)), concat (map (full_calls J) (rp_blocks r)), anthropicFinishReason (rp_stop r))"
proof -
  obtain cs where dec: "decodeJSON dec_anth_response (reply_body r) = Inr \<lparr>ar_ID = rp_id r, ar_Model = rp_model r,
      ar_Content = cs, ar_StopReason = rp_stop r, ar_Usage = Some (rp_input r, rp_output r)\<rparr>"
    and texts: "concat (map ab_Text (filter (\<lambda>b. ab_Type b = ''text'') cs)) = concat (map block_text (rp_blocks r))"
    and calls: "map (\<lambda>t. snd (delta_call (0, t))) (map (tool_use_call J) (filter (\<lambda>b. ab_Type b = ''tool_use'') cs)) =
      concat (map (full_calls J) (rp_blocks r))"
    using dec_reply [OF assms] decoded_texts [OF assms(1)] decoded_calls [OF assms(1)] by blast
  show ?thesis
    unfolding anthropic_ResponseFull_def dec sum.case Let_def anth_response.simps
    by (simp add: read_enc_response assistant_msg_def texts [symmetric] calls [symmetric])
qed

text \<open>C37: Let an Anthropic message of text, tool use and thinking blocks be streamed block by block in any fragments.
  Then every event translates, and a client that folds the chunks ends with the same text and the same
  finish reason as one that reads the translated full answer, and with the same tool calls in the same
  order, up to their arguments: the stream's are the fragments joined, the full answer's are the JSON text
  of the input, or an empty object for a null.  So both answers are the same exactly when the fragments of
  every call make up that text.\<close>

theorem stream_agrees_with_full:
  assumes "\<forall>b \<in> set (rp_blocks r). known_block b" "length (rp_blocks r) < 2 ^ 63" "fits64 (rp_input r)" "fits64 (rp_output r)"
  shows "\<exists>c j. read_stream (\<lambda>e. anthropic_ResponseChunk e model) (reply_events r) new_client = Some c \<and>
    anthropic_ResponseFull J (reply_body r) model = Inr j \<and>
    answer_of c = (concat (map block_text (rp_blocks r)), concat (map block_calls (rp_blocks r)), anthropicFinishReason (rp_stop r)) \<and>
    read_full j = (concat (map block_text (rp_blocks r)), concat (map (full_calls J) (rp_blocks r)), anthropicFinishReason (rp_stop r)) \<and>
    (answer_of c = read_full j \<longleftrightarrow> (\<forall>b \<in> set (rp_blocks r). told_whole J b))"
proof -
  obtain m where start: "anthropic_ResponseChunk (message_start r) model =
      Inr (Some (enc_chunk m (empty_delta\<lparr>cd_Role := ''assistant''\<rparr>) '''' None))"
    using chunk_message_start [OF assms(3)] by blast
  obtain u where finish: "anthropic_ResponseChunk (message_delta r) model =
      Inr (Some (enc_chunk model empty_delta (anthropicFinishReason (rp_stop r)) u))"
    using chunk_message_delta [OF assms(4)] by blast
  obtain c where c: "anth_stream model (blocks_events 0 (rp_blocks r)) new_client = Some c"
    "cl_content c = concat (map block_text (rp_blocks r))" "map snd (cl_calls c) = concat (map block_calls (rp_blocks r))"
    "cl_finish c = ''''"
    using read_blocks [of 0 "rp_blocks r" new_client model] assms(1,2) by (auto simp: new_client_def)
  have "anth_stream model (reply_events r) new_client = Some (c\<lparr>cl_finish := anthropicFinishReason (rp_stop r)\<rparr>)"
    using c(1,4) start finish
    by (simp add: reply_events_def read_stream_append chunk_message_stop read_enc_chunk empty_delta_def new_client_def)
  moreover have "answer_of (c\<lparr>cl_finish := anthropicFinishReason (rp_stop r)\<rparr>) =
      (concat (map block_text (rp_blocks r)), concat (map block_calls (rp_blocks r)), anthropicFinishReason (rp_stop r))"
    using c(2,3) by (simp add: answer_of_def)
  ultimately show ?thesis
    using read_full_anthropic [OF assms(1,3,4), of J model] same_calls [of "rp_blocks r" J] by auto
qed

definition test_json_text :: json_text where
  "test_json_text = \<lparr>jt_parse = (\<lambda>s. if s = ''{}'' then Some (JObj []) else None), jt_text = (\<lambda>j. ''{}'')\<rparr>"

definition test_reply :: anth_reply where
  "test_reply = \<lparr>rp_id = ''msg'', rp_model = ''m'', rp_blocks = [ReplyOther ''thinking'' [''hm''], ReplyText [''Look'', ''ing''],
     ReplyTool ''t1'' ''read'' (JObj []) [''{'', ''}''], ReplyTool ''t2'' ''list'' (JObj []) [''{}'']],
     rp_stop = ''tool_use'', rp_input = 12, rp_output = 7\<rparr>"

text \<open>A tool call without fragments, as a call of no input is streamed, has no arguments in the stream and \<open>{}\<close> in the full answer.\<close>

definition no_input :: anth_reply where
  "no_input = \<lparr>rp_id = ''msg'', rp_model = ''m'', rp_blocks = [ReplyTool ''t1'' ''read'' (JObj []) []], rp_stop = ''tool_use'',
     rp_input = 12, rp_output = 7\<rparr>"

lemma empty_input_differs:
  "map_option answer_of (anth_stream '''' (reply_events no_input) new_client) = Some ('''', [(''t1'', ''read'', '''')], ''tool_calls'')"
  "map_sum id read_full (anthropic_ResponseFull test_json_text (reply_body no_input) '''') =
    Inr ('''', [(''t1'', ''read'', ''{}'')], ''tool_calls'')"
  by code_simp+

lemma stream_agrees_with_full_witness:
  "(\<exists>c j. read_stream (\<lambda>e. anthropic_ResponseChunk e '''') (reply_events test_reply) new_client = Some c \<and>
    anthropic_ResponseFull test_json_text (reply_body test_reply) '''' = Inr j \<and> answer_of c = read_full j \<and>
    answer_of c = (''Looking'', [(''t1'', ''read'', ''{}''), (''t2'', ''list'', ''{}'')], ''tool_calls'')) \<and>
   (\<exists>c j. read_stream (\<lambda>e. anthropic_ResponseChunk e '''') (reply_events no_input) new_client = Some c \<and>
    anthropic_ResponseFull test_json_text (reply_body no_input) '''' = Inr j \<and> answer_of c \<noteq> read_full j)"
proof
  have "concat (map block_text (rp_blocks test_reply)) = ''Looking''"
    "concat (map block_calls (rp_blocks test_reply)) = [(''t1'', ''read'', ''{}''), (''t2'', ''list'', ''{}'')]"
    "anthropicFinishReason (rp_stop test_reply) = ''tool_calls''" "\<forall>b \<in> set (rp_blocks test_reply). told_whole test_json_text b"
    by (simp_all add: test_reply_def anthropicFinishReason_def test_json_text_def)
  moreover have "\<forall>b \<in> set (rp_blocks test_reply). known_block b" "length (rp_blocks test_reply) < 2 ^ 63"
    "fits64 (rp_input test_reply)" "fits64 (rp_output test_reply)" by (simp_all add: test_reply_def fits64_def)
  ultimately show "\<exists>c j. read_stream (\<lambda>e. anthropic_ResponseChunk e '''') (reply_events test_reply) new_client = Some c \<and>
    anthropic_ResponseFull test_json_text (reply_body test_reply) '''' = Inr j \<and> answer_of c = read_full j \<and>
    answer_of c = (''Looking'', [(''t1'', ''read'', ''{}''), (''t2'', ''list'', ''{}'')], ''tool_calls'')"
    using stream_agrees_with_full [of test_reply "''''" test_json_text] by metis
  have "\<not> (\<forall>b \<in> set (rp_blocks no_input). told_whole test_json_text b)"
    by (simp add: no_input_def test_json_text_def)
  moreover have "\<forall>b \<in> set (rp_blocks no_input). known_block b" "length (rp_blocks no_input) < 2 ^ 63"
    "fits64 (rp_input no_input)" "fits64 (rp_output no_input)" by (simp_all add: no_input_def fits64_def)
  ultimately show "\<exists>c j. read_stream (\<lambda>e. anthropic_ResponseChunk e '''') (reply_events no_input) new_client = Some c \<and>
    anthropic_ResponseFull test_json_text (reply_body no_input) '''' = Inr j \<and> answer_of c \<noteq> read_full j"
    using stream_agrees_with_full [of no_input "''''" test_json_text] by metis
qed

section \<open>A turn of an agent\<close>

text \<open>What the pivot encodes it decodes again.\<close>

lemma member_append: "member n (xs @ ys) = (case member n xs of None \<Rightarrow> member n ys | Some v \<Rightarrow> Some v)"
  by (induction xs) (auto simp: member_def split: prod.splits)

lemma member_opt_str: "member n (opt_str k s) = (if fold_eq k n \<and> s \<noteq> '''' then Some (JStr s) else None)"
  by (simp add: member_def opt_str_def unless_def)

lemma member_opt_raw: "member n (opt_raw k raw) = (if fold_eq k n then raw else None)"
  by (simp add: member_def opt_raw_def split: option.split)

lemma member_unless: "member n (unless b k v) = (if fold_eq k n \<and> \<not> b then Some v else None)"
  by (simp add: member_def unless_def)

lemma member_cons: "member n ((k, v) # ms) = (if fold_eq k n then Some v else member n ms)"
  and member_nil: "member n [] = None"
  by (simp_all add: member_def)

lemmas members = member_append member_opt_str member_opt_raw member_unless member_cons member_nil

lemma dec_enc_function: "dec_function (obj_of (Some (enc_function f))) = Some f"
  by (cases f) (auto simp: dec_function_def enc_function_def members string_field_def fold_eq_def lower_def split: option.splits)

lemma dec_enc_tool: "Option.bind (as_struct (enc_tool t)) dec_tool = Some t"
proof -
  have "as_struct (enc_tool t) = Some (obj_of (Some (enc_tool t)))" by (simp add: enc_tool_def as_struct_def)
  moreover have "obj_field ''function'' (obj_of (Some (enc_tool t))) = Some (obj_of (Some (enc_function (ct_Function t))))"
    by (simp add: enc_tool_def obj_field_def members fold_eq_def lower_def enc_function_def)
  moreover have "string_field ''id'' (obj_of (Some (enc_tool t))) = Some (ct_ID t)"
    "string_field ''type'' (obj_of (Some (enc_tool t))) = Some (ct_Type t)"
    by (simp_all add: enc_tool_def string_field_def members fold_eq_def lower_def)
  ultimately show ?thesis by (simp add: dec_tool_def dec_enc_function)
qed

lemma dec_enc_msg: "Option.bind (as_struct (enc_msg m)) dec_msg = Some m"
proof -
  let ?ms = "obj_of (Some (enc_msg m))"
  have "as_struct (enc_msg m) = Some ?ms" by (simp add: enc_msg_def as_struct_def)
  moreover have "string_field ''role'' ?ms = Some (cm_Role m)" "string_field ''tool_call_id'' ?ms = Some (cm_ToolCallID m)"
    "string_field ''name'' ?ms = Some (cm_Name m)" "member ''content'' ?ms = cm_Content m"
    "member ''tool_calls'' ?ms = (if cm_ToolCalls m = [] then None else Some (JArr (map enc_tool (cm_ToolCalls m))))"
    by (auto simp: enc_msg_def string_field_def members fold_eq_def lower_def split: option.splits)
  moreover have "all_some (map (\<lambda>x. Option.bind (as_struct x) dec_tool) (map enc_tool (cm_ToolCalls m))) = Some (cm_ToolCalls m)"
    by (simp add: comp_def dec_enc_tool all_some_Some)
  ultimately show ?thesis by (simp add: dec_msg_def list_field_def)
qed

definition history_body :: "string \<Rightarrow> json list \<Rightarrow> body" where
  "history_body mo msgs = Json (JObj [(''model'', JStr mo), (''messages'', JArr msgs)])"

lemma dec_history:
  "decodeJSON dec_request (history_body mo (map enc_msg ms)) = Inr \<lparr>cq_Model = mo, cq_Messages = ms, cq_Tools = [],
     cq_ToolChoice = None, cq_MaxTokens = None, cq_MaxCompletionTokens = None, cq_Temperature = None, cq_TopP = None, cq_Stop = []\<rparr>"
proof -
  have "all_some (map (\<lambda>x. Option.bind (as_struct x) dec_msg) (map enc_msg ms)) = Some ms"
    by (simp add: comp_def dec_enc_msg all_some_Some)
  then have "list_field dec_msg ''messages'' [(''model'', JStr mo), (''messages'', JArr (map enc_msg ms))] = Some ms"
    by (simp add: list_field_def members fold_eq_def lower_def)
  then show ?thesis
    by (simp add: history_body_def decodeJSON_def nil_body_def body_struct_def as_struct_def dec_request_def unused_fields_ok_def
        bool_field_def int_ptr_def is_null_def number_ptr_def struct_ptr_def string_field_def stop_field_def members fold_eq_def
        lower_def list_field_def)
qed

definition user_msg :: "string \<Rightarrow> canonical_msg" where
  "user_msg u = \<lparr>cm_Role = ''user'', cm_Content = Some (JStr u), cm_ToolCalls = [], cm_ToolCallID = '''', cm_Name = ''''\<rparr>"

definition result_msg :: "string \<times> string \<Rightarrow> canonical_msg" where
  "result_msg x = \<lparr>cm_Role = ''tool'', cm_Content = Some (JStr (snd x)), cm_ToolCalls = [], cm_ToolCallID = fst x, cm_Name = ''''\<rparr>"

definition text_blocks :: "string \<Rightarrow> json list" where
  "text_blocks s = (if s = '''' then [] else [JObj [(''type'', JStr ''text''), (''text'', JStr s)]])"

definition tool_result :: "string \<times> string \<Rightarrow> json" where
  "tool_result x = anth_message ''user'' [JObj [(''type'', JStr ''tool_result''), (''tool_use_id'', JStr (fst x)), (''content'', JStr (snd x))]]"

fun prints :: "json_text \<Rightarrow> reply_block \<Rightarrow> bool" where
  "prints J (ReplyTool i n input fs) \<longleftrightarrow> jt_text J input \<noteq> '''' \<and> jt_parse J (jt_text J input) = Some input"
| "prints J _ \<longleftrightarrow> True"

fun is_tool :: "reply_block \<Rightarrow> bool" where
  "is_tool (ReplyTool i n input fs) \<longleftrightarrow> True"
| "is_tool _ \<longleftrightarrow> False"

text \<open>The blocks of a message that its translation keeps: the texts as one, then the tool uses.\<close>

definition echo :: "reply_block list \<Rightarrow> anth_block list" where
  "echo bs = (let t = concat (map block_text bs) in if t = '''' then [] else [decoded_block (ReplyText [t])]) @
     map decoded_block (filter is_tool bs)"

definition block_reader :: "json list \<Rightarrow> anth_block list option" where
  "block_reader js = all_some (map (\<lambda>x. Option.bind (as_struct x) dec_block) js)"

lemma all_some_append:
  "all_some (xs @ ys) = Option.bind (all_some xs) (\<lambda>a. map_option ((@) a) (all_some ys))"
  by (induction xs) (auto simp: option.map_comp comp_def map_option_case split: option.splits Option.bind_splits)

lemma block_reader_append:
  "block_reader (xs @ ys) = Option.bind (block_reader xs) (\<lambda>a. map_option ((@) a) (block_reader ys))"
  by (simp add: block_reader_def all_some_append)

lemma read_text_blocks:
  "block_reader (text_blocks s) = Some (if s = '''' then [] else [decoded_block (ReplyText [s])])"
  by (simp add: block_reader_def text_blocks_def dec_block_def decoders)

definition call_json :: "reply_block \<Rightarrow> json" where
  "call_json b = (case b of ReplyTool i nm input fs \<Rightarrow>
     JObj ([(''type'', JStr ''tool_use'')] @ opt_str ''id'' i @ opt_str ''name'' nm @ [(''input'', input)]) | _ \<Rightarrow> JNull)"

lemma read_call_json:
  assumes "is_tool b"
  shows "Option.bind (as_struct (call_json b)) dec_block = Some (decoded_block b)"
  using assms
  by (cases b) (auto simp: call_json_def dec_block_def as_struct_def struct_ptr_def string_field_def bool_field_def members fold_eq_def lower_def)

lemma tools_decoded:
  assumes "\<forall>b \<in> set bs. known_block b"
  shows "filter (\<lambda>b. ab_Type b = ''tool_use'') (map decoded_block bs) = map decoded_block (filter is_tool bs)"
  using assms
proof (induction bs)
  case (Cons b bs)
  then show ?case by (cases b) auto
qed simp

lemma call_echoed:
  assumes "carried J b" "prints J b" "is_tool b"
  shows "call_block J (tool_use_call J (decoded_block b)) = Some (call_json b)"
proof (cases b)
  case (ReplyTool i nm input fs)
  then have "compactRaw J (Some input) ''{}'' = jt_text J input"
    using assms(1) by (cases input) (simp_all add: compactRaw_def)
  then show ?thesis
    using ReplyTool assms(2) by (simp add: call_block_def tool_use_call_def call_function_def call_json_def Let_def)
qed (use assms(3) in simp_all)

lemma calls_echoed:
  assumes "\<forall>b \<in> set bs. carried J b \<and> prints J b"
  shows "all_some (map (call_block J) (map (tool_use_call J) (filter (\<lambda>b. ab_Type b = ''tool_use'') (map decoded_block bs)))) =
    Some (map call_json (filter is_tool bs))"
proof -
  have known: "\<forall>b \<in> set bs. known_block b" using assms carried_known by blast
  then show ?thesis
    unfolding tools_decoded [OF known] map_map comp_def
    by (intro all_some_map) (use assms call_echoed in auto)
qed

definition reply_msg :: "json_text \<Rightarrow> reply_block list \<Rightarrow> canonical_msg" where
  "reply_msg J bs = (let texts = map ab_Text (filter (\<lambda>b. ab_Type b = ''text'') (map decoded_block bs)) in
     assistant_msg\<lparr>cm_Content := (if texts = [] then None else Some (JStr (concat texts))),
       cm_ToolCalls := map (tool_use_call J) (filter (\<lambda>b. ab_Type b = ''tool_use'') (map decoded_block bs))\<rparr>)"

lemma message_of_full:
  assumes "\<forall>b \<in> set (rp_blocks r). known_block b" "fits64 (rp_input r)" "fits64 (rp_output r)"
    and "anthropic_ResponseFull J (reply_body r) model = Inr j"
  shows "map_of (choice_of j) ''message'' = Some (enc_msg (reply_msg J (rp_blocks r)))"
proof -
  have "choice_of (enc_response i m msg finish u) =
      [(''index'', JInt 0), (''message'', enc_msg msg), (''finish_reason'', JStr finish)]" for i m msg finish u
    by (simp add: choice_of_def enc_response_def json_array_def enc_usage_def split: option.split)
  then show ?thesis
    using assms(4) unfolding anthropic_ResponseFull_def dec_reply [OF assms(1-3)] reply_msg_def sum.case Let_def
    by (auto simp del: map_map)
qed

lemma reply_echoed:
  assumes "\<forall>b \<in> set bs. carried J b \<and> prints J b"
  shows "anth_messages J (reply_msg J bs # ms) = (case anth_messages J ms of
      Answer (sys, out) \<Rightarrow> Answer (sys, anth_message ''assistant'' (text_blocks (concat (map block_text bs)) @ map call_json (filter is_tool bs)) # out)
    | x \<Rightarrow> x)"
proof -
  obtain texts where t: "texts = map ab_Text (filter (\<lambda>b. ab_Type b = ''text'') (map decoded_block bs))" by blast
  have "concat texts = concat (map block_text bs)" unfolding t by (rule decoded_texts) (use assms carried_known in blast)
  moreover have "reply_msg J bs = assistant_msg\<lparr>cm_Content := (if texts = [] then None else Some (JStr (concat texts))),
       cm_ToolCalls := map (tool_use_call J) (filter (\<lambda>b. ab_Type b = ''tool_use'') (map decoded_block bs))\<rparr>"
    unfolding reply_msg_def t Let_def ..
  moreover have "toAnthropicBlocks J parts (map (tool_use_call J) (filter (\<lambda>b. ab_Type b = ''tool_use'') (map decoded_block bs))) =
      Some (concat (map part_block parts) @ map call_json (filter is_tool bs))" for parts
    unfolding toAnthropicBlocks_def calls_echoed [OF assms] by simp
  ultimately show ?thesis
    by (cases texts) (auto simp: assistant_msg_def splitContent_def part_block_def text_blocks_def anthropicRole_def
        split: translation.split simp del: map_map)
qed

lemma results_echoed:
  assumes "'''' \<notin> fst ` set rs"
  shows "anth_messages J (map result_msg rs) = Answer ([], map tool_result rs)"
  using assms
  by (induction rs) (auto simp: result_msg_def splitContent_def tool_result_def tool_result_message_def opt_str_def opt_raw_def unless_def)

lemma user_echoed:
  "anth_messages J (user_msg u # ms) = (case anth_messages J ms of
      Answer (sys, out) \<Rightarrow> Answer (sys, anth_message ''user'' (text_blocks u) # out) | x \<Rightarrow> x)"
  by (auto simp: user_msg_def splitContent_def toAnthropicBlocks_def part_block_def text_blocks_def anthropicRole_def split: translation.split)

lemma echo_read:
  assumes "\<forall>b \<in> set bs. known_block b"
  shows "block_reader (text_blocks (concat (map block_text bs)) @ map call_json (filter is_tool bs)) = Some (echo bs)"
proof -
  have "block_reader (map call_json (filter is_tool bs)) = Some (map decoded_block (filter is_tool bs))"
    unfolding block_reader_def map_map comp_def by (rule all_some_map) (use read_call_json in auto)
  then show ?thesis by (simp add: block_reader_append read_text_blocks echo_def Let_def)
qed

text \<open>C38: An agent's turn survives the translation there and back.  An Anthropic message is translated for an
  OpenAI client, which sends it back after the user's message and before the results of its tools.  The request Anthropic
  then gets has the same user message, one assistant message in which it reads its texts joined and its tool uses with the same
  ids, names and inputs, and one tool result per result under its id, in order.
\<close>

theorem agent_turn_survives:
  assumes "\<forall>b \<in> set (rp_blocks r). carried J b \<and> prints J b" "fits64 (rp_input r)" "fits64 (rp_output r)" "'''' \<notin> fst ` set rs"
    and "anthropic_ResponseFull J (reply_body r) model = Inr j" "map_of (choice_of j) ''message'' = Some answer"
  shows "\<exists>out content.
    anthropic_Request J (history_body mo ([enc_msg (user_msg u), answer] @ map (enc_msg \<circ> result_msg) rs)) mo False = Answer out \<and>
    map_of (obj_of (Some out)) ''messages'' =
      Some (JArr ([anth_message ''user'' (text_blocks u), anth_message ''assistant'' content] @ map tool_result rs)) \<and>
    block_reader content = Some (echo (rp_blocks r))"
proof -
  let ?bs = "rp_blocks r"
  let ?content = "text_blocks (concat (map block_text ?bs)) @ map call_json (filter is_tool ?bs)"
  let ?ms = "[user_msg u, reply_msg J ?bs] @ map result_msg rs"
  have c: "\<forall>b \<in> set ?bs. known_block b" using assms(1) carried_known by blast
  have answer: "answer = enc_msg (reply_msg J ?bs)"
    using message_of_full [OF c assms(2,3,5)] assms(6) by simp
  have body: "history_body mo ([enc_msg (user_msg u), answer] @ map (enc_msg \<circ> result_msg) rs) = history_body mo (map enc_msg ?ms)"
    by (simp add: answer)
  have "anth_messages J ?ms = Answer ([], [anth_message ''user'' (text_blocks u), anth_message ''assistant'' ?content] @ map tool_result rs)"
    using user_echoed [of J u "reply_msg J ?bs # map result_msg rs"] reply_echoed [OF assms(1), of "map result_msg rs"]
      results_echoed [OF assms(4), of J] by simp
  then show ?thesis
    unfolding body anthropic_Request_def dec_history sum.case canonical_request.simps
    using echo_read [OF c] by (auto simp: unless_def opt_raw_def toAnthropicToolChoice_def)
qed


lemma agent_turn_survives_witness:
  "\<exists>j answer out content. anthropic_ResponseFull test_json_text (reply_body test_reply) '''' = Inr j \<and>
    map_of (choice_of j) ''message'' = Some answer \<and>
    anthropic_Request test_json_text (history_body ''m'' ([enc_msg (user_msg ''Go''), answer] @
      map (enc_msg \<circ> result_msg) [(''t1'', ''done'')])) ''m'' False = Answer out \<and>
    map_of (obj_of (Some out)) ''messages'' = Some (JArr ([anth_message ''user'' (text_blocks ''Go''),
      anth_message ''assistant'' content] @ map tool_result [(''t1'', ''done'')])) \<and>
    block_reader content = Some [decoded_block (ReplyText [''Looking'']), decoded_block (ReplyTool ''t1'' ''read'' (JObj []) []),
      decoded_block (ReplyTool ''t2'' ''list'' (JObj []) [])]"
proof -
  have r: "\<forall>b \<in> set (rp_blocks test_reply). carried test_json_text b \<and> prints test_json_text b"
    "fits64 (rp_input test_reply)" "fits64 (rp_output test_reply)"
    by (simp_all add: test_reply_def test_json_text_def fits64_def)
  then have c: "\<forall>b \<in> set (rp_blocks test_reply). known_block b" using carried_known by blast
  obtain j where j: "anthropic_ResponseFull test_json_text (reply_body test_reply) '''' = Inr j"
    using read_full_anthropic [OF c r(2,3)] by blast
  have "echo (rp_blocks test_reply) = [decoded_block (ReplyText [''Looking'']), decoded_block (ReplyTool ''t1'' ''read'' (JObj []) []),
      decoded_block (ReplyTool ''t2'' ''list'' (JObj []) [])]"
    by (simp add: echo_def test_reply_def)
  then show ?thesis
    using agent_turn_survives [OF r, of "[(''t1'', ''done'')]", OF _ j message_of_full [OF c r(2,3) j], of "''m''" "''Go''"] j
      message_of_full [OF c r(2,3) j] by auto
qed

section \<open>Requests that panic\<close>

definition readable :: "canonical_msg \<Rightarrow> bool" where
  "readable m \<longleftrightarrow> \<not> isl (splitContent (cm_Content m))"

definition bad_arguments :: "json_text \<Rightarrow> canonical_tool \<Rightarrow> bool" where
  "bad_arguments J t \<longleftrightarrow> cf_Arguments (ct_Function t) \<noteq> '''' \<and> jt_parse J (cf_Arguments (ct_Function t)) = None"

definition breaks :: "json_text \<Rightarrow> canonical_msg \<Rightarrow> bool" where
  "breaks J m \<longleftrightarrow> cm_Role m \<notin> {''system'', ''developer'', ''tool''} \<and> list_ex (bad_arguments J) (cm_ToolCalls m)"

lemma all_some_None: "all_some xs = None \<longleftrightarrow> None \<in> set xs"
proof (induction xs)
  case (Cons x xs)
  then show ?case by (cases x) auto
qed simp

lemma call_block_None: "call_block J c = None \<longleftrightarrow> bad_arguments J c"
  by (auto simp: call_block_def bad_arguments_def Let_def)

lemma calls_break: "all_some (map (call_block J) cs) = None \<longleftrightarrow> list_ex (bad_arguments J) cs"
  unfolding all_some_None set_map image_iff list_ex_iff call_block_None [symmetric] by (metis (no_types))

definition broken :: "json_text \<Rightarrow> canonical_msg list \<Rightarrow> bool" where
  "broken J ms \<longleftrightarrow> (\<exists>pre m post. ms = pre @ m # post \<and> list_all readable (pre @ [m]) \<and> breaks J m)"

lemma broken_Nil: "\<not> broken J []"
  by (simp add: broken_def)

lemma broken_Cons: "broken J (m # ms) \<longleftrightarrow> readable m \<and> (breaks J m \<or> broken J ms)"
proof
  assume "broken J (m # ms)"
  then obtain pre x post where p: "m # ms = pre @ x # post" "list_all readable (pre @ [x])" "breaks J x"
    unfolding broken_def by blast
  show "readable m \<and> (breaks J m \<or> broken J ms)"
    using p by (cases pre) (auto simp: broken_def)
next
  assume a: "readable m \<and> (breaks J m \<or> broken J ms)"
  show "broken J (m # ms)"
  proof (cases "breaks J m")
    case True
    with a have "m # ms = [] @ m # ms \<and> list_all readable ([] @ [m]) \<and> breaks J m" by simp
    then show ?thesis unfolding broken_def by blast
  next
    case False
    with a obtain pre x post where "ms = pre @ x # post" "list_all readable (pre @ [x])" "breaks J x"
      unfolding broken_def by blast
    with a have "m # ms = (m # pre) @ x # post \<and> list_all readable ((m # pre) @ [x]) \<and> breaks J x" by simp
    then show ?thesis unfolding broken_def by blast
  qed
qed

lemma messages_panic: "anth_messages J ms = Panics \<longleftrightarrow> broken J ms"
proof (induction ms)
  case (Cons m ms)
  show ?case
  proof (cases "splitContent (cm_Content m)")
    case (Inl e)
    then show ?thesis by (simp add: broken_Cons readable_def)
  next
    case (Inr parts)
    then show ?thesis using Cons.IH calls_break [of J "cm_ToolCalls m"]
      by (auto simp: broken_Cons readable_def breaks_def toAnthropicBlocks_def split: translation.splits option.splits prod.splits)
  qed
qed (simp add: broken_Nil)

text \<open>C39: Translating a request for Anthropic panics exactly when it decodes and some message, with all contents up to it
  readable, is neither a system nor a tool message and has a tool call whose arguments are not empty and no JSON.  The
  arguments are a string the client chose.
\<close>

theorem request_panics_iff:
  "anthropic_Request J c model stream = Panics \<longleftrightarrow>
    (\<exists>q pre m post. decodeJSON dec_request c = Inr q \<and> cq_Messages q = pre @ m # post \<and> list_all readable (pre @ [m]) \<and> breaks J m)"
proof (cases "decodeJSON dec_request c")
  case (Inr q)
  have "anthropic_Request J c model stream = Panics \<longleftrightarrow> anth_messages J (cq_Messages q) = Panics"
    by (simp add: anthropic_Request_def Inr split: translation.split prod.split)
  then show ?thesis by (simp add: Inr messages_panic broken_def)
qed (simp add: anthropic_Request_def)

lemma request_panics_iff_witness:
  "anthropic_Request test_json_text (history_body ''m'' [enc_msg (assistant_msg\<lparr>cm_ToolCalls :=
     [\<lparr>ct_ID = ''t'', ct_Type = ''function'', ct_Function = call_function ''f'' ''oops''\<rparr>]\<rparr>)]) ''m'' False = Panics"
proof -
  define m where "m = assistant_msg\<lparr>cm_ToolCalls := [\<lparr>ct_ID = ''t'', ct_Type = ''function'', ct_Function = call_function ''f'' ''oops''\<rparr>]\<rparr>"
  obtain q where "decodeJSON dec_request (history_body ''m'' (map enc_msg [m])) = Inr q" "cq_Messages q = [] @ m # []"
    using dec_history [of "''m''" "[m]"] by simp
  moreover have "list_all readable ([] @ [m]) \<and> breaks test_json_text m"
    by (simp add: m_def readable_def breaks_def bad_arguments_def assistant_msg_def splitContent_def call_function_def test_json_text_def)
  ultimately have "anthropic_Request test_json_text (history_body ''m'' (map enc_msg [m])) ''m'' False = Panics"
    using request_panics_iff by blast
  then show ?thesis by (simp add: m_def)
qed


end
