(* ===== verification/Gemini_Laws.thy ===== *)
theory Gemini_Laws
  imports Translator_Laws
begin

text \<open>
  Laws of the Gemini translator: what an OpenAI client folds from a Gemini stream, whose calls are numbered
  from zero in every frame, against the translated full answer.
\<close>

section \<open>Calls merged by position\<close>

fun merge :: "tool_call list \<Rightarrow> tool_call list \<Rightarrow> tool_call list" where
  "merge ys [] = ys"
| "merge [] xs = xs"
| "merge (y # ys) (x # xs) = append_call y x # merge ys xs"

lemma merge_Nil: "merge [] xs = xs"
  by (cases xs) simp_all

lemma length_merge: "length (merge ys xs) = max (length ys) (length xs)"
  by (induction ys xs rule: merge.induct) simp_all

lemma merge_snoc:
  "merge ys (xs @ [x]) = (if length xs < length ys
     then (merge ys xs)[length xs := append_call (merge ys xs ! length xs) x] else merge ys xs @ [x])"
proof (induction ys xs rule: merge.induct)
  case (1 ys)
  then show ?case by (cases ys) simp_all
qed simp_all

definition indexed :: "'a list \<Rightarrow> (int \<times> 'a) list" where
  "indexed ys = zip (map int [0..<length ys]) ys"

lemma nth_indexed: "k < length ys \<Longrightarrow> indexed ys ! k = (int k, ys ! k)"
  by (simp add: indexed_def)

lemma length_indexed: "length (indexed ys) = length ys"
  by (simp add: indexed_def)

lemma indexed_snoc: "indexed (ys @ [y]) = indexed ys @ [(int (length ys), y)]"
  by (simp add: indexed_def)

lemma indices: "fst ` set (indexed ys) = int ` {..<length ys}"
proof -
  have "map fst (indexed ys) = map int [0..<length ys]" by (simp add: indexed_def)
  then have "set (map fst (indexed ys)) = int ` {..<length ys}" by (simp add: atLeast0LessThan)
  then show ?thesis by simp
qed

lemma snd_indexed: "map snd (indexed ys) = ys"
  by (simp add: indexed_def)

lemma add_indexed:
  "add_call (int k, x) (indexed zs) =
     (if k < length zs then indexed (zs[k := append_call (zs ! k) x]) else indexed zs @ [(int k, x)])"
proof (cases "k < length zs")
  case True
  have "map (\<lambda>y. if fst y = int k then (fst y, append_call (snd y) x) else y) (indexed zs) = indexed (zs[k := append_call (zs ! k) x])"
    by (rule nth_equalityI) (auto simp: length_indexed nth_indexed nth_list_update)
  then show ?thesis using True by (simp add: add_call_def indices cong: if_cong)
qed (auto simp: add_call_def indices)

lemma fold_indexed: "fold add_call (indexed xs) (indexed ys) = indexed (merge ys xs)"
proof (induction xs rule: rev_induct)
  case Nil
  then show ?case by (simp add: indexed_def)
next
  case (snoc x xs)
  then show ?case
    by (simp add: indexed_snoc merge_snoc add_indexed length_merge)
qed

section \<open>Streaming a Gemini answer\<close>

datatype gem_item = GText string | GCall string "json option"

fun item_json :: "gem_item \<Rightarrow> json" where
  "item_json (GText s) = JObj [(''text'', JStr s)]"
| "item_json (GCall n args) = JObj [(''functionCall'', JObj ([(''name'', JStr n)] @ opt_raw ''args'' args))]"

definition gem_usage_json :: "canonical_usage \<Rightarrow> json" where
  "gem_usage_json u = JObj [(''promptTokenCount'', JInt (cu_Prompt u)), (''candidatesTokenCount'', JInt (cu_Completion u)),
     (''totalTokenCount'', JInt (cu_Total u))]"

text \<open>A frame, and the whole answer, as the provider sends them.\<close>

definition frame_body :: "gem_item list \<Rightarrow> string \<Rightarrow> canonical_usage option \<Rightarrow> body" where
  "frame_body items finish u = Json (JObj ([(''candidates'', JArr [JObj ([(''content'', JObj [(''role'', JStr ''model''),
     (''parts'', JArr (map item_json items))])] @ opt_str ''finishReason'' finish)])] @
     opt_raw ''usageMetadata'' (map_option gem_usage_json u)))"

definition usage_ok :: "canonical_usage option \<Rightarrow> bool" where
  "usage_ok u \<longleftrightarrow> (case u of None \<Rightarrow> True | Some u \<Rightarrow> fits64 (cu_Prompt u) \<and> fits64 (cu_Completion u) \<and> fits64 (cu_Total u))"

fun item_text :: "gem_item \<Rightarrow> string" where
  "item_text (GText s) = s"
| "item_text (GCall n args) = ''''"

fun item_calls :: "json_text \<Rightarrow> gem_item \<Rightarrow> tool_call list" where
  "item_calls J (GCall n args) = [('''', n, compactRaw J args ''{}'')]"
| "item_calls J (GText s) = []"

definition text_of :: "gem_item list \<Rightarrow> string" where "text_of items = concat (map item_text items)"

definition calls_in :: "json_text \<Rightarrow> gem_item list \<Rightarrow> tool_call list" where
  "calls_in J items = concat (map (item_calls J) items)"

fun decoded_item :: "gem_item \<Rightarrow> gem_part_in" where
  "decoded_item (GText s) = \<lparr>gp_Text = s, gp_Call = None\<rparr>"
| "decoded_item (GCall n args) = \<lparr>gp_Text = '''', gp_Call = Some (n, args)\<rparr>"

lemma dec_item: "Option.bind (as_struct (item_json i)) dec_gem_part = Some (decoded_item i)"
  by (cases i) (auto simp: dec_gem_part_def dec_call_def as_struct_def struct_ptr_def string_field_def members fold_eq_def lower_def)

lemma dec_usage:
  assumes "usage_ok (Some u)"
  shows "dec_gem_usage (obj_of (Some (gem_usage_json u))) = Some u"
  using assms by (cases u) (auto simp: gem_usage_json_def dec_gem_usage_def usage_ok_def fits64_def int_field_def members fold_eq_def lower_def)

lemma dec_frame:
  assumes "usage_ok u"
  shows "decodeJSON dec_gem_response (frame_body items finish u) = Inr \<lparr>gr_Candidates =
    [\<lparr>gc_Parts = map decoded_item items, gc_FinishReason = finish\<rparr>], gr_Usage = u, gr_ModelVersion = ''''\<rparr>"
proof -
  have items: "all_some (map (\<lambda>x. Option.bind (as_struct x) dec_gem_part) (map item_json items)) = Some (map decoded_item items)"
    unfolding map_map comp_def by (rule all_some_map) (rule dec_item)
  have cand: "dec_candidate ([(''content'', JObj [(''role'', JStr ''model''), (''parts'', JArr (map item_json items))])] @
      opt_str ''finishReason'' finish) = Some \<lparr>gc_Parts = map decoded_item items, gc_FinishReason = finish\<rparr>"
    using items by (auto simp: dec_candidate_def obj_field_def list_field_def string_field_def members fold_eq_def lower_def)
  have usage: "struct_ptr dec_gem_usage ''usageMetadata'' ([(''candidates'', c)] @ opt_raw ''usageMetadata'' (map_option gem_usage_json u)) = Some u" for c
    using assms dec_usage by (cases u) (auto simp: struct_ptr_def members fold_eq_def lower_def gem_usage_json_def)
  show ?thesis
    using cand usage
    by (simp add: frame_body_def decodeJSON_def nil_body_def body_struct_def as_struct_def dec_gem_response_def list_field_def
        string_field_def members fold_eq_def lower_def)
qed

lemma decoded_item_texts: "concat (gem_texts (map decoded_item items)) = text_of items"
proof (induction items)
  case (Cons i items)
  then show ?case by (cases i) (simp_all add: gem_texts_def text_of_def)
qed (simp add: gem_texts_def text_of_def)

abbreviation client_call :: "canonical_tool \<Rightarrow> tool_call" where
  "client_call t \<equiv> snd (delta_call (0, t))"

lemma decoded_item_calls: "map client_call (gem_calls J (map decoded_item items)) = calls_in J items"
proof (induction items)
  case (Cons i items)
  then show ?case
    by (cases i) (simp_all add: gem_calls_def calls_in_def List.map_filter_simps function_call_def delta_call_def call_function_def)
qed (simp add: gem_calls_def calls_in_def List.map_filter_simps)

lemma delta_indexed: "map delta_call (zip (map int [0..<length ts]) ts) = indexed (map client_call ts)"
  by (rule nth_equalityI) (simp_all add: indexed_def delta_call_def)

lemma frame_calls:
  "map delta_call (cd_ToolCalls (frame_delta J (map decoded_item items))) = indexed (calls_in J items)"
  unfolding frame_delta_def decoded_item_calls [symmetric] by (simp add: delta_indexed del: map_map)

text \<open>A frame adds its text, merges its calls by position and may finish the answer.\<close>

definition after_frame :: "json_text \<Rightarrow> gem_item list \<Rightarrow> string \<Rightarrow> client \<Rightarrow> client" where
  "after_frame J items finish c = \<lparr>cl_content = cl_content c @ text_of items,
     cl_calls = indexed (merge (map snd (cl_calls c)) (calls_in J items)),
     cl_finish = (if finish = '''' then cl_finish c else geminiFinishReason finish)\<rparr>"

abbreviation gem_stream :: "json_text \<Rightarrow> string \<Rightarrow> body list \<Rightarrow> client \<Rightarrow> client option" where
  "gem_stream J model \<equiv> read_stream (\<lambda>e. gemini_ResponseChunk J e model)"

lemma finish_empty: "geminiFinishReason f = '''' \<longleftrightarrow> f = ''''"
  by (simp add: geminiFinishReason_def)

lemma read_gem_frame:
  assumes "usage_ok u" "cl_calls c = indexed ys"
  shows "gem_stream J model [frame_body items finish u] c = Some (after_frame J items finish c)"
proof -
  let ?d = "frame_delta J (map decoded_item items)"
  have d: "cd_Content ?d = text_of items" "map delta_call (cd_ToolCalls ?d) = indexed (calls_in J items)"
    by (simp_all add: frame_calls) (simp add: frame_delta_def decoded_item_texts)
  have chunk: "gemini_ResponseChunk J (frame_body items finish u) model =
      Inr (if cd_Content ?d = '''' \<and> cd_ToolCalls ?d = [] \<and> geminiFinishReason finish = '''' \<and> u = None then None
           else Some (enc_chunk model ?d (geminiFinishReason finish) u))"
    by (simp add: gemini_ResponseChunk_def dec_frame [OF assms(1)])
  have c: "read_chunk (enc_chunk model ?d (geminiFinishReason finish) u) c = after_frame J items finish c"
    by (simp add: read_enc_chunk d after_frame_def assms(2) fold_indexed snd_indexed finish_empty)
  show ?thesis
  proof (cases "cd_Content ?d = '''' \<and> cd_ToolCalls ?d = [] \<and> geminiFinishReason finish = '''' \<and> u = None")
    case True
    then have "text_of items = ''''" "calls_in J items = []" "finish = ''''"
      using d by (auto simp: finish_empty indexed_def)
    with True chunk assms(2) show ?thesis by (simp add: after_frame_def snd_indexed)
  next
    case False
    show ?thesis using chunk [unfolded if_not_P [OF False]] by (simp add: c)
  qed
qed

lemma calls_after_frame: "map snd (cl_calls (after_frame J items f c)) = merge (map snd (cl_calls c)) (calls_in J items)"
  by (simp add: after_frame_def snd_indexed)

lemma read_stream_Cons:
  "read_stream tr (e # es) c = Option.bind (read_stream tr [e] c) (read_stream tr es)"
  by (simp split: sum.split option.split)

lemma read_frames:
  assumes "cl_calls c = indexed ys"
  shows "\<exists>d. gem_stream J model (map (\<lambda>f. frame_body f '''' None) fs) c = Some d \<and> cl_content d = cl_content c @ concat (map text_of fs) \<and>
    cl_calls d = indexed (foldl merge ys (map (calls_in J) fs)) \<and> cl_finish d = cl_finish c"
  using assms
proof (induction fs arbitrary: c ys)
  case (Cons f fs)
  let ?c = "after_frame J f '''' c"
  have "gem_stream J model [frame_body f '''' None] c = Some ?c"
    using Cons.prems by (intro read_gem_frame) (simp_all add: usage_ok_def)
  then have step: "gem_stream J model (map (\<lambda>f. frame_body f '''' None) (f # fs)) c =
      gem_stream J model (map (\<lambda>f. frame_body f '''' None) fs) ?c"
    unfolding list.map by (subst read_stream_Cons) (simp only: Option.bind.simps)
  have "cl_calls ?c = indexed (merge ys (calls_in J f))"
    using Cons.prems by (simp add: after_frame_def snd_indexed)
  from Cons.IH [OF this] obtain d where
    "gem_stream J model (map (\<lambda>f. frame_body f '''' None) fs) ?c = Some d" "cl_content d = cl_content ?c @ concat (map text_of fs)"
    "cl_calls d = indexed (foldl merge (merge ys (calls_in J f)) (map (calls_in J) fs))" "cl_finish d = cl_finish ?c" by blast
  then show ?case unfolding step by (simp add: after_frame_def)
qed simp

lemma read_full_gemini:
  assumes "usage_ok u"
  shows "\<exists>j. gemini_ResponseFull J (frame_body items finish u) model = Inr j \<and>
    read_full j = (text_of items, calls_in J items, geminiFinishReason finish)"
proof -
  obtain ps where dec: "decodeJSON dec_gem_response (frame_body items finish u) = Inr \<lparr>gr_Candidates =
    [\<lparr>gc_Parts = ps, gc_FinishReason = finish\<rparr>], gr_Usage = u, gr_ModelVersion = ''''\<rparr>"
    and t: "concat (gem_texts ps) = text_of items" and c: "map client_call (gem_calls J ps) = calls_in J items"
    using dec_frame [OF assms] decoded_item_texts decoded_item_calls by blast
  show ?thesis
    unfolding gemini_ResponseFull_def dec sum.case Let_def gem_response.simps gem_candidate.simps list.case
    by (simp add: read_enc_response assistant_msg_def t [symmetric] c [symmetric])
qed

lemma length_merges: "length (foldl merge ys xss) = foldl max (length ys) (map length xss)"
  by (induction xss arbitrary: ys) (simp_all add: length_merge)

lemma merges_at_most: "length (foldl merge ys xss) \<le> length ys + length (concat xss)"
proof (induction xss arbitrary: ys)
  case (Cons xs xss)
  have "length (merge ys xs) \<le> length ys + length xs" by (simp add: length_merge)
  then show ?case using Cons.IH [of "merge ys xs"] by simp
qed simp

lemma merges_shorter:
  assumes "ys \<noteq> []" "filter (\<lambda>xs. xs \<noteq> []) xss \<noteq> []"
  shows "length (foldl merge ys xss) < length ys + length (concat xss)"
  using assms
proof (induction xss)
  case (Cons xs xss)
  show ?case
  proof (cases "xs = []")
    case False
    with Cons.prems(1) have "length (merge ys xs) < length ys + length xs" by (simp add: length_merge)
    then show ?thesis using merges_at_most [of "merge ys xs" xss] by simp
  qed (use Cons in simp)
qed simp

lemma merges_none:
  assumes "filter (\<lambda>xs. xs \<noteq> []) xss = []"
  shows "foldl merge ys xss = ys \<and> concat xss = []"
  using assms by (induction xss) (simp_all del: filter_empty_conv concat_eq_Nil_conv split: if_splits)

text \<open>Merging by position keeps the calls apart exactly when at most one frame has any.\<close>

lemma merges_concat: "foldl merge [] xss = concat xss \<longleftrightarrow> length (filter (\<lambda>xs. xs \<noteq> []) xss) \<le> 1"
proof (induction xss)
  case (Cons xs xss)
  show ?case
  proof (cases "xs = []")
    case False
    show ?thesis
    proof (cases "filter (\<lambda>xs. xs \<noteq> []) xss = []")
      case True
      then show ?thesis using merges_none [OF True, of xs] by (simp add: merge_Nil)
    next
      case rest: False
      then have "foldl merge [] (xs # xss) \<noteq> concat (xs # xss)"
        using merges_shorter [OF False rest] by (auto simp: merge_Nil dest: arg_cong [where f = length])
      moreover have "\<not> length (filter (\<lambda>xs. xs \<noteq> []) (xs # xss)) \<le> 1"
        using rest False by (cases "filter (\<lambda>xs. xs \<noteq> []) xss") simp_all
      ultimately show ?thesis by blast
    qed
  qed (use Cons in simp)
qed simp

lemma calls_in_concat: "calls_in J (concat fs) = concat (map (calls_in J) fs)"
  by (induction fs) (simp_all add: calls_in_def)

lemma text_of_concat: "text_of (concat fs) = concat (map text_of fs)"
  by (induction fs) (simp_all add: text_of_def)

text \<open>C40: A Gemini answer streamed in any frames, the last one with the finish reason and the usage, gives the client the
  text and the finish reason of the full answer, and its calls exactly when at most one frame has function calls: calls of
  different frames get the same indices and are merged.
\<close>

theorem gemini_stream_agrees:
  assumes "usage_ok u"
  shows "\<exists>c j. gem_stream J model (map (\<lambda>f. frame_body f '''' None) fs @ [frame_body lf finish u]) new_client = Some c \<and>
    gemini_ResponseFull J (frame_body (concat fs @ lf) finish u) model = Inr j \<and>
    cl_content c = fst (read_full j) \<and> cl_finish c = snd (snd (read_full j)) \<and>
    (map snd (cl_calls c) = fst (snd (read_full j)) \<longleftrightarrow>
      length (filter (\<lambda>f. calls_in J f \<noteq> []) (fs @ [lf])) \<le> 1)"
proof -
  obtain d where d: "gem_stream J model (map (\<lambda>f. frame_body f '''' None) fs) new_client = Some d"
    "cl_content d = concat (map text_of fs)" "cl_calls d = indexed (foldl merge [] (map (calls_in J) fs))" "cl_finish d = ''''"
    using read_frames [of new_client "[]" J model fs] by (auto simp: new_client_def indexed_def)
  let ?c = "after_frame J lf finish d"
  have "gem_stream J model (map (\<lambda>f. frame_body f '''' None) fs @ [frame_body lf finish u]) new_client = Some ?c"
    unfolding read_stream_append d(1) using read_gem_frame [OF assms d(3)] by (simp only: Option.bind.simps)
  moreover obtain j where j: "gemini_ResponseFull J (frame_body (concat fs @ lf) finish u) model = Inr j"
    "read_full j = (text_of (concat fs @ lf), calls_in J (concat fs @ lf), geminiFinishReason finish)"
    using read_full_gemini [OF assms] by blast
  moreover have "map snd (cl_calls ?c) = foldl merge [] (map (calls_in J) (fs @ [lf]))"
    by (simp add: calls_after_frame d(3) snd_indexed)
  moreover have "calls_in J (concat fs @ lf) = concat (map (calls_in J) (fs @ [lf]))"
    using calls_in_concat [of J "fs @ [lf]"] by simp
  moreover have "length (filter (\<lambda>xs. xs \<noteq> []) (map (calls_in J) (fs @ [lf]))) = length (filter (\<lambda>f. calls_in J f \<noteq> []) (fs @ [lf]))"
    by (simp add: filter_map comp_def)
  moreover have "cl_content ?c = text_of (concat fs @ lf)" "cl_finish ?c = geminiFinishReason finish"
    using text_of_concat [of "fs @ [lf]"] by (simp_all add: after_frame_def d finish_empty text_of_def geminiFinishReason_def)
  ultimately show ?thesis using merges_concat [of "map (calls_in J) (fs @ [lf])"] by simp
qed

lemma gemini_stream_agrees_witness:
  "\<exists>c j. gem_stream test_json_text ''g'' [frame_body [GText ''Hi'', GCall ''read'' None] '''' None,
      frame_body [GCall ''list'' None] ''STOP'' (Some \<lparr>cu_Prompt = 3, cu_Completion = 4, cu_Total = 7\<rparr>)] new_client = Some c \<and>
    gemini_ResponseFull test_json_text (frame_body [GText ''Hi'', GCall ''read'' None, GCall ''list'' None] ''STOP''
      (Some \<lparr>cu_Prompt = 3, cu_Completion = 4, cu_Total = 7\<rparr>)) ''g'' = Inr j \<and>
    cl_content c = fst (read_full j) \<and> cl_finish c = snd (snd (read_full j)) \<and> map snd (cl_calls c) \<noteq> fst (snd (read_full j))"
proof -
  have u: "usage_ok (Some \<lparr>cu_Prompt = 3, cu_Completion = 4, cu_Total = 7\<rparr>)" by (simp add: usage_ok_def fits64_def)
  show ?thesis
    using gemini_stream_agrees [OF u, of test_json_text "''g''" "[[GText ''Hi'', GCall ''read'' None]]" "[GCall ''list'' None]" "''STOP''"]
    by (simp add: calls_in_def)
qed

text \<open>Two calls of two frames become one, with a name and arguments that nobody sent.\<close>

lemma calls_of_two_frames:
  "map_option (\<lambda>c. map snd (cl_calls c)) (gem_stream test_json_text ''g'' [frame_body [GCall ''read'' None] '''' None,
      frame_body [GCall ''list'' None] ''STOP'' None] new_client) = Some [('''', ''readlist'', ''{}{}'')]"
  by code_simp

end
