(* ===== verification/Translator_Registry.thy ===== *)
theory Translator_Registry
  imports Gemini
begin

text \<open>
  The registry of the translators, \<open>internal/translators/registry.go\<close>, and the identity of the OpenAI family,
  \<open>openai.go\<close>.  A translator is the record of its methods; the map of a registry is an association list without double keys.
\<close>

definition CodeTranslateUnsupported :: string where "CodeTranslateUnsupported = ''translate.unsupported''"

definition WireOpenAI :: string where "WireOpenAI = ''openai''"
definition WireAnthropic :: string where "WireAnthropic = ''anthropic''"
definition WireGemini :: string where "WireGemini = ''gemini''"

record translator =
  tr_From :: string
  tr_To :: string
  tr_Request :: "body \<Rightarrow> string \<Rightarrow> bool \<Rightarrow> body translation"
  tr_ResponseFull :: "body \<Rightarrow> string \<Rightarrow> domain_error + body"
  tr_ResponseChunk :: "body \<Rightarrow> string \<Rightarrow> domain_error + body"

definition Identity :: translator where
  "Identity = \<lparr>tr_From = WireOpenAI, tr_To = WireOpenAI, tr_Request = (\<lambda>canonical _ _. Answer canonical),
     tr_ResponseFull = (\<lambda>payload _. Inr payload), tr_ResponseChunk = (\<lambda>payload _. Inr payload)\<rparr>"

fun answer_body :: "json translation \<Rightarrow> body translation" where
  "answer_body (Answer j) = Answer (Json j)"
| "answer_body (Refused e) = Refused e"
| "answer_body Panics = Panics"

definition chunk_body :: "json option \<Rightarrow> body" where
  "chunk_body c = (case c of None \<Rightarrow> nil_body | Some j \<Rightarrow> Json j)"

definition AnthropicToOpenAI :: "json_text \<Rightarrow> translator" where
  "AnthropicToOpenAI J = \<lparr>tr_From = WireOpenAI, tr_To = WireAnthropic,
     tr_Request = (\<lambda>c m s. answer_body (anthropic_Request J c m s)),
     tr_ResponseFull = (\<lambda>p m. map_sum id Json (anthropic_ResponseFull J p m)),
     tr_ResponseChunk = (\<lambda>p m. map_sum id chunk_body (anthropic_ResponseChunk p m))\<rparr>"

definition GeminiToOpenAI :: "json_text \<Rightarrow> translator" where
  "GeminiToOpenAI J = \<lparr>tr_From = WireOpenAI, tr_To = WireGemini,
     tr_Request = (\<lambda>c m s. answer_body (gemini_Request J c m s)),
     tr_ResponseFull = (\<lambda>p m. map_sum id Json (gemini_ResponseFull J p m)),
     tr_ResponseChunk = (\<lambda>p m. map_sum id chunk_body (gemini_ResponseChunk J p m))\<rparr>"

definition IsIdentity :: "translator option \<Rightarrow> bool" where
  "IsIdentity t = (case t of None \<Rightarrow> False | Some t \<Rightarrow> tr_From t = tr_To t)"

type_synonym translators = "((string \<times> string) \<times> translator) list"

definition unsupported :: "string \<Rightarrow> string \<Rightarrow> domain_error" where
  "unsupported src dst = New CodeTranslateUnsupported [WithHTTPStatus 500, WithScope ScopeRequest,
     WithParams [(''from'', src), (''to'', dst)]]"

definition tr_Register :: "translator option \<Rightarrow> translators \<Rightarrow> domain_error + translators" where
  "tr_Register t r = (case t of None \<Rightarrow> Inl (unsupported '''' '''') | Some t \<Rightarrow>
     if tr_From t = '''' \<or> tr_To t = '''' then Inl (unsupported (tr_From t) (tr_To t))
     else if map_of r (tr_From t, tr_To t) \<noteq> None
     then Inl (failed (''translator already registered for '' @ tr_From t @ ''->'' @ tr_To t) None)
     else Inr (((tr_From t, tr_To t), t) # r))"

definition tr_Lookup :: "translators \<Rightarrow> string \<Rightarrow> string \<Rightarrow> domain_error + translator" where
  "tr_Lookup r src dst = (case map_of r (src, dst) of None \<Rightarrow> Inl (unsupported src dst) | Some t \<Rightarrow> Inr t)"

definition Pairs :: "translators \<Rightarrow> (string \<times> string) list" where
  "Pairs r = slice_stable (\<lambda>a b. if fst a \<noteq> fst b then fst a < fst b else snd a < snd b) (map fst r)"

definition Formats :: "translators \<Rightarrow> string list" where
  "Formats r = slice_stable (<) (remdups (map (fst \<circ> fst) r))"

fun buildDefault :: "translator option list \<Rightarrow> translators \<Rightarrow> domain_error + translators" where
  "buildDefault [] r = Inr r"
| "buildDefault (t # ts) r = (case tr_Register t r of Inl e \<Rightarrow> Inl e | Inr r2 \<Rightarrow> buildDefault ts r2)"

definition Default :: "json_text \<Rightarrow> domain_error + translators" where
  "Default J = buildDefault [Some Identity, Some (AnthropicToOpenAI J), Some (GeminiToOpenAI J)] []"

section \<open>Laws\<close>

definition registry_wf :: "translators \<Rightarrow> bool" where
  "registry_wf r \<longleftrightarrow> distinct (map fst r) \<and> (\<forall>x \<in> set r. fst x = (tr_From (snd x), tr_To (snd x)) \<and> tr_From (snd x) \<noteq> '''' \<and> tr_To (snd x) \<noteq> '''')"

lemma register_wf:
  assumes "registry_wf r" "tr_Register t r = Inr s"
  shows "registry_wf s"
  using assms by (auto simp: registry_wf_def tr_Register_def map_of_eq_None_iff split: option.splits if_splits)

lemma buildDefault_wf:
  assumes "registry_wf r" "buildDefault ts r = Inr s"
  shows "registry_wf s"
  using assms
proof (induction ts arbitrary: r)
  case (Cons t ts)
  then show ?case using register_wf [of r t] by (auto split: sum.splits)
qed simp

text \<open>A registration never changes what another pair gives.\<close>

lemma lookup_after_register:
  assumes "tr_Register (Some t) r = Inr s"
  shows "tr_Lookup s src dst = (if (src, dst) = (tr_From t, tr_To t) then Inr t else tr_Lookup r src dst)"
  using assms by (auto simp: tr_Register_def tr_Lookup_def split: if_splits)

lemma lookup_sound:
  assumes "registry_wf r" "tr_Lookup r src dst = Inr t"
  shows "tr_From t = src \<and> tr_To t = dst"
proof -
  have "map_of r (src, dst) = Some t" using assms(2) by (simp add: tr_Lookup_def split: option.splits)
  then have "((src, dst), t) \<in> set r" by (rule map_of_SomeD)
  then show ?thesis using assms(1) unfolding registry_wf_def by fastforce
qed

lemma pairs_exact:
  assumes "registry_wf r"
  shows "distinct (Pairs r)" "(src, dst) \<in> set (Pairs r) \<longleftrightarrow> (\<exists>t. tr_Lookup r src dst = Inr t)"
proof -
  show "distinct (Pairs r)" using assms by (simp add: Pairs_def registry_wf_def)
  have "(src, dst) \<in> set (Pairs r) \<longleftrightarrow> (src, dst) \<in> fst ` set r" by (simp add: Pairs_def)
  also have "\<dots> \<longleftrightarrow> map_of r (src, dst) \<noteq> None" by (simp add: map_of_eq_None_iff)
  also have "\<dots> \<longleftrightarrow> (\<exists>t. tr_Lookup r src dst = Inr t)" by (auto simp: tr_Lookup_def split: option.splits)
  finally show "(src, dst) \<in> set (Pairs r) \<longleftrightarrow> (\<exists>t. tr_Lookup r src dst = Inr t)" .
qed

text \<open>The default registry translates the pivot into each of the three formats and nothing else; only OpenAI is an identity.\<close>

lemma default_registry:
  "\<exists>r. Default J = Inr r \<and> Pairs r = [(WireOpenAI, WireAnthropic), (WireOpenAI, WireGemini), (WireOpenAI, WireOpenAI)] \<and>
    Formats r = [WireOpenAI] \<and> tr_Lookup r WireOpenAI WireOpenAI = Inr Identity \<and>
    tr_Lookup r WireOpenAI WireAnthropic = Inr (AnthropicToOpenAI J) \<and> tr_Lookup r WireOpenAI WireGemini = Inr (GeminiToOpenAI J) \<and>
    IsIdentity (Some Identity) \<and> \<not> IsIdentity (Some (AnthropicToOpenAI J)) \<and> \<not> IsIdentity (Some (GeminiToOpenAI J))"
proof -
  have "WireAnthropic < WireGemini" "WireGemini < WireOpenAI" "\<not> WireOpenAI < WireGemini" "\<not> WireGemini < WireAnthropic"
    "\<not> WireOpenAI < WireAnthropic" "WireAnthropic < WireOpenAI"
    by code_simp+
  moreover have "WireAnthropic \<noteq> WireGemini" "WireGemini \<noteq> WireOpenAI" "WireAnthropic \<noteq> WireOpenAI" "WireOpenAI \<noteq> ''''"
    "WireGemini \<noteq> ''''" "WireAnthropic \<noteq> ''''"
    by (simp_all add: WireAnthropic_def WireGemini_def WireOpenAI_def)
  ultimately show ?thesis
    by (auto simp: Default_def tr_Register_def Identity_def AnthropicToOpenAI_def GeminiToOpenAI_def Pairs_def Formats_def
        tr_Lookup_def IsIdentity_def)
qed

end
