(* ===== verification/Spec2Isabelle.thy ===== *)
theory Spec2Isabelle
  imports Combo_Store Core_Gateway Gate_Wiring Sse_Laws Egress_Laws Access_Laws Credential_Laws
    Gemini_Laws Translator_Registry
begin

text \<open>
  Heimdall Core routes a client request to one of several upstream accounts.  A request passes the HTTP
  guards, the gateway runs the content gates on it, the router turns a combo into an ordered plan, circuit
  breakers and a quota filter say which provider, account or model may be tried now, the dispatcher walks the
  plan, and an executor talks to the upstream over the outbound policy.

  \<^bold>\<open>Theories\<close>, in the order the code depends on itself:

  \<^item> \<open>Heimdall_Prelude\<close>: times and durations as integers (nanoseconds), 64-bit wrap-around,
    decimal formatting and its injectivity, Go's stable sort with its order and stability laws.
  \<^item> \<open>Go_Float\<close>: IEEE double rounding on exact rationals, for the scores and the jitter.
  \<^item> \<open>Netip\<close>, \<open>Netip_Laws\<close>: IP addresses, their text and their classes as \<open>net/netip\<close> has them; an address is read
    back from its text.
  \<^item> \<open>Domain_Errors\<close>: \<open>internal/domain\<close>, errors with code, scope and retry hint.
  \<^item> \<open>Contracts\<close>: \<open>internal/contracts\<close>, the data the components exchange.
  \<^item> \<open>Breaker\<close>: \<open>internal/breaker/breaker.go\<close>; a map from keys to circuits, one definition per
    method; its laws are about reachable states.
  \<^item> \<open>Combos\<close>, \<open>Capability\<close>: \<open>internal/combos\<close>; the graph check against longest reference chains,
    and the capability fit.
  \<^item> \<open>Combo_Store\<close>: \<open>internal/store/combo_store.go\<close>; the table as a map, the write path with its
    check, and what no sequence of writes can break.
  \<^item> \<open>Strategies\<close>, \<open>Strategy_Laws\<close>: the ten strategies of \<open>internal/router\<close> and their laws.
  \<^item> \<open>Router\<close>, \<open>Router_Laws\<close>: \<open>internal/router/resolver.go\<close> and \<open>expand.go\<close>.
  \<^item> \<open>Quota\<close>, \<open>Quota_Laws\<close>, \<open>Quota_Store\<close>: \<open>internal/quota\<close> over a persistence port, the histories
    of a recorder, and \<open>internal/store/quota_store.go\<close> as the port's implementation.
  \<^item> \<open>Json_Body\<close>: bodies as \<open>encoding/json\<close> reads and writes them.
  \<^item> \<open>Dispatcher\<close>, \<open>Dispatcher_Laws\<close>: \<open>internal/dispatcher\<close> over its ports, and its contracts.
  \<^item> \<open>Core\<close>: the wiring of \<open>internal/app/app.go\<close>; one breaker and one recorder shared by the
    router's preflight and the dispatcher, with the upstreams as parameters.
  \<^item> \<open>Gates\<close>, \<open>Gate_Laws\<close>, \<open>Token_Engines\<close>, \<open>Gate_Wiring\<close>: the gate contract and the registry of \<open>internal/gates\<close>
    with the order it derives, the laws of that order, the registry of the token gate's engines, and the boot
    of the gates by \<open>App.wireGates\<close> with the configurations it refuses.
  \<^item> \<open>Pipeline\<close>, \<open>Pipeline_Laws\<close>: the gate chain of \<open>internal/pipeline/chain.go\<close>; failure policies and decisions.
  \<^item> \<open>Executor\<close>, \<open>Executor_Laws\<close>: \<open>internal/executors\<close>; requests, bounded answers and the classification of
    failures, down to the cooldown the breaker makes of a \<open>Retry-After\<close>.
  \<^item> \<open>Sse\<close>, \<open>Sse_Laws\<close>: the event stream decoder over a peer that may send for ever, and the frames the
    gateway writes; what is read back, and which receives return.
  \<^item> \<open>Translators\<close>, \<open>Anthropic\<close>, \<open>Gemini\<close>, \<open>Translator_Registry\<close>: \<open>internal/translators\<close>; the pivot with its
    decoders and encoders, the two dialects, and the registry.  \<open>Translator_Laws\<close>, \<open>Gemini_Laws\<close>: what a client folds
    from a stream against the full answer, a tool call's way there and back, and the requests that panic.
  \<^item> \<open>Gateway\<close>, \<open>Gateway_Laws\<close>, \<open>Core_Gateway\<close>: \<open>internal/gateway\<close>; the handler from the parsed call to the reply,
    over ports and then over the wired core.
  \<^item> \<open>Egress\<close>, \<open>Egress_Laws\<close>: \<open>internal/egress\<close>; the outbound policy, what a client of it can connect to, and the
    executor's constructor over it.
  \<^item> \<open>Http_Guards\<close>, \<open>Http_Guards_Laws\<close>: \<open>internal/api/middleware\<close> and \<open>App.Handler\<close>; what reaches the routes.
  \<^item> \<open>Access\<close>, \<open>Access_Laws\<close>: the login throttle with the management guard, the rotation throttle, the token hash and
    the client keys; how much a peer can guess, and what a revoked key opens.
  \<^item> \<open>Envelope\<close>, \<open>Envelope_Laws\<close>: \<open>internal/secret\<close>; base64, the format \<open>enc:v1\<close>, sealing, rotation and recovery over
    AES-GCM as a parameter with its laws, and that what is sealed can be opened.
  \<^item> \<open>Custody\<close>, \<open>Custody_Laws\<close>: where the key comes from, the salt of the installation under racing processes, and
    what the application does at boot; one run opens what another sealed.
  \<^item> \<open>Credential_Store\<close>, \<open>Credential_Laws\<close>: \<open>internal/store/credential_store.go\<close>; the accounts at rest, the lock of a
    refresh as a step relation, and the way of a secret from its sealing to the upstream's header.

  \<^bold>\<open>Interfaces.\<close>  The Go interfaces the components are joined by are records of functions.  Their laws
  are locales, proved once and interpreted on the model: \<open>strategy\<close> on the built-in strategies,
  \<open>quota_persistence\<close> on the SQL store, \<open>guarded_dispatcher\<close> (an invariant of the world that every
  port keeps) and \<open>counting_dispatcher\<close> (what a plan costs) on the wired core, \<open>kahn_graph\<close> (a finite graph
  whose loop keeps the predecessor counts) on the stages of the gate registry, \<open>patient\<close> (what a read from
  a peer uses up) on the time the idle watcher leaves and on the packets of a body that ends.

  \<^bold>\<open>Bounds and fuel.\<close>  \<open>depth_of\<close> takes fuel \<open>length existing + 2\<close>: a depth-first path visits each
  stored combo once.  \<open>expand\<close> takes \<open>MaxDepth + 1\<close> hops, the code's own bound.  The draws of the
  weighted and the p2c strategy take one unit per candidate and drop one candidate each.  That the
  fuel suffices is part of the theorems on these functions.  The dispatcher recurses on the plan, Kahn's
  loop on the nodes left, the redirects of a client on the redirects left, one scan of the decoder on the
  room in its buffer.  The reading of an event, a receive and the relay of a stream may run for ever: they
  are partial functions, and \<open>recv_returns\<close> and \<open>chat_answers\<close> show when they return.

  \<^bold>\<open>Not modelled.\<close>  The panels of a fusion run one after the other; their interleaving, and data
  races in general, are left out: each operation under a lock is one step.  Failures of SQL, of the
  clock and of random sources are left out, as is the text of log messages.  The content of the security,
  token and memory gates (regular expressions, compression, embeddings) is a parameter of the chain, as
  are AES-GCM, Argon2id, SHA-256, files and the environment, the URL parser, name resolution, TCP and TLS.
  The Cloud Code executor with its request disguise, the OAuth flows, the configuration loader, the
  management views, the CLI and the web UI are absent: they are mappings of formats or terminal and network I/O around library calls.
\<close>

end
